(* ===== verification/Prelude.thy ===== *)
theory Prelude
  imports Main "HOL-Library.Word" "HOL-Library.AList" "HOL-Library.Char_ord" "HOL-Library.List_Lexorder"
begin

text \<open>
  Shared vocabulary of the development: the machine types of the C++ code, the
  state-and-exception actions in which the operations are written, and the generic
  lemmas on association lists (database tables), counting and words that the
  component theories use.
\<close>

section \<open>Types\<close>

type_synonym u32 = "32 word"
type_synonym u64 = "64 word"

text \<open>A \<open>QUuid\<close> is 128 bits; the null uuid is 0.\<close>
type_synonym uuid = "128 word"

text \<open>A \<open>QByteArray\<close>, and a \<open>QString\<close> in its UTF-8 form: \<open>char\<close> is one byte.\<close>
type_synonym bytes = string

text \<open>A number in decimal digits, as \<open>QByteArray::number\<close> and \<open>QString::number\<close> write it.\<close>

fun decimal :: "nat \<Rightarrow> string" where
  "decimal n = (if n < 10 then [char_of (48 + n)] else decimal (n div 10) @ [char_of (48 + n mod 10)])"

declare decimal.simps [simp del]

section \<open>Actions with state and exceptions\<close>

text \<open>
  A C++ function that may throw and that changes the state: it returns the state it
  leaves behind in both cases, since C++ does not undo side effects on a throw.
\<close>

type_synonym ('s, 'e, 'a) act = "'s \<Rightarrow> ('e + 'a) \<times> 's"

named_theorems act_simps \<open>unfolding rules for actions\<close>

definition ret :: "'a \<Rightarrow> ('s, 'e, 'a) act" where
  "ret a s = (Inr a, s)"

definition throw :: "'e \<Rightarrow> ('s, 'e, 'a) act" where
  "throw e s = (Inl e, s)"

definition seq :: "('s, 'e, 'a) act \<Rightarrow> ('a \<Rightarrow> ('s, 'e, 'b) act) \<Rightarrow> ('s, 'e, 'b) act" where
  "seq m f s = (case m s of (Inl e, t) \<Rightarrow> (Inl e, t) | (Inr a, t) \<Rightarrow> f a t)"

definition modify :: "('s \<Rightarrow> 's) \<Rightarrow> ('s, 'e, unit) act" where
  "modify f s = (Inr (), f s)"

definition gets :: "('s \<Rightarrow> 'a) \<Rightarrow> ('s, 'e, 'a) act" where
  "gets f s = (Inr (f s), s)"

text \<open>A library call that can fail: \<open>b\<close> says whether it succeeded.\<close>

definition guard_call :: "bool \<Rightarrow> 'e \<Rightarrow> ('s, 'e, unit) act" where
  "guard_call b e s = (if b then (Inr (), s) else (Inl e, s))"

text \<open>\<open>try { m } catch(...) { undo; throw; }\<close>\<close>

definition on_throw :: "('s, 'e, 'a) act \<Rightarrow> ('s \<Rightarrow> 's) \<Rightarrow> ('s, 'e, 'a) act" where
  "on_throw m undo s = (case m s of (Inl e, t) \<Rightarrow> (Inl e, undo t) | r \<Rightarrow> r)"

lemmas act_defs [act_simps] = ret_def throw_def modify_def gets_def guard_call_def

lemma seq_Inr [act_simps]: "m s = (Inr a, t) \<Longrightarrow> seq m f s = f a t"
  by (simp add: seq_def)

lemma seq_Inl [act_simps]: "m s = (Inl e, t) \<Longrightarrow> seq m f s = (Inl e, t)"
  by (simp add: seq_def)

lemma seq_ret [simp]: "seq (ret a) f = f a"
  by (simp add: fun_eq_iff seq_def ret_def)

lemma seq_modify [simp]: "seq (modify g) f s = f () (g s)"
  by (simp add: seq_def modify_def)

lemma seq_gets [simp]: "seq (gets g) f s = f (g s) s"
  by (simp add: seq_def gets_def)

lemma seq_throw [simp]: "seq (throw e) f = throw e"
  by (simp add: fun_eq_iff seq_def throw_def)

lemma seq_guard [simp]: "seq (guard_call b e) f s = (if b then f () s else (Inl e, s))"
  by (simp add: seq_def guard_call_def)

text \<open>Evaluation of an action in program order: the rest is not touched before its turn.\<close>

lemma seq_weak_cong: "m = m' \<Longrightarrow> s = s' \<Longrightarrow> seq m f s = seq m' f s'"
  by simp

lemma seq_assoc: "seq (seq m f) g = seq m (\<lambda>a. seq (f a) g)"
  by (simp add: fun_eq_iff seq_def split: prod.splits sum.splits)

lemma seq_if: "seq (if b then m else n) f = (if b then seq m f else seq n f)"
  by simp

lemma seq_InrE:
  assumes "seq m f s = (Inr b, u)"
  obtains a t where "m s = (Inr a, t)" and "f a t = (Inr b, u)"
  using assms by (auto simp: seq_def split: prod.splits sum.splits)

lemma seq_InlE:
  assumes "seq m f s = (Inl e, u)"
  obtains "m s = (Inl e, u)" | a t where "m s = (Inr a, t)" and "f a t = (Inl e, u)"
  using assms by (auto simp: seq_def split: prod.splits sum.splits)

lemma act_Inr:
  "ret a s = (Inr b, t) \<longleftrightarrow> b = a \<and> t = s"
  "gets g s = (Inr b, t) \<longleftrightarrow> b = g s \<and> t = s"
  "modify h s = (Inr u, t) \<longleftrightarrow> t = h s"
  "guard_call c e s = (Inr u, t) \<longleftrightarrow> c \<and> t = s"
  "throw e s = (Inr b, t) \<longleftrightarrow> False"
  by (auto simp: act_defs)

lemma on_throw_Inr: "on_throw m undo s = (Inr a, t) \<longleftrightarrow> m s = (Inr a, t)"
  by (auto simp: on_throw_def split: prod.splits sum.splits)

lemma on_throw_Inl:
  "on_throw m undo s = (Inl e, t) \<longleftrightarrow> (\<exists>u. m s = (Inl e, u) \<and> t = undo u)"
  by (auto simp: on_throw_def split: prod.splits sum.splits)

text \<open>
  An action keeps a predicate if it holds afterwards, whether it throws or not. The rules
  below are applied backwards, one per building block.
\<close>

definition keeps :: "('s \<Rightarrow> bool) \<Rightarrow> ('s, 'e, 'a) act \<Rightarrow> bool" where
  "keeps P m \<longleftrightarrow> (\<forall>s. P s \<longrightarrow> P (snd (m s)))"

lemma keepsI: "(\<And>s. P s \<Longrightarrow> P (snd (m s))) \<Longrightarrow> keeps P m"
  by (simp add: keeps_def)

lemma keepsD: "keeps P m \<Longrightarrow> P s \<Longrightarrow> P (snd (m s))"
  by (simp add: keeps_def)

lemma keeps_ret: "keeps P (ret a)"
  by (simp add: keeps_def ret_def)

lemma keeps_throw: "keeps P (throw e)"
  by (simp add: keeps_def throw_def)

lemma keeps_gets: "keeps P (gets f)"
  by (simp add: keeps_def gets_def)

lemma keeps_guard: "keeps P (guard_call b e)"
  by (simp add: keeps_def guard_call_def)

lemma keeps_modify: "(\<And>s. P s \<Longrightarrow> P (f s)) \<Longrightarrow> keeps P (modify f)"
  by (simp add: keeps_def modify_def)

lemma keeps_seq: "keeps P m \<Longrightarrow> (\<And>a. keeps P (f a)) \<Longrightarrow> keeps P (seq m f)"
  unfolding keeps_def seq_def by (auto split: prod.splits sum.splits)

lemma keeps_if: "(b \<Longrightarrow> keeps P m) \<Longrightarrow> (\<not> b \<Longrightarrow> keeps P n) \<Longrightarrow> keeps P (if b then m else n)"
  by simp

lemma keeps_option:
  "(x = None \<Longrightarrow> keeps P m) \<Longrightarrow> (\<And>a. x = Some a \<Longrightarrow> keeps P (f a)) \<Longrightarrow>
   keeps P (case x of None \<Rightarrow> m | Some a \<Rightarrow> f a)"
  by (cases x) auto

lemma keeps_pair: "(\<And>a b. x = (a, b) \<Longrightarrow> keeps P (f a b)) \<Longrightarrow> keeps P (case x of (a, b) \<Rightarrow> f a b)"
  by (cases x) auto

lemma keeps_on_throw: "keeps P m \<Longrightarrow> (\<And>s. P s \<Longrightarrow> P (undo s)) \<Longrightarrow> keeps P (on_throw m undo)"
  unfolding keeps_def on_throw_def by (auto split: prod.splits sum.splits)

lemmas keeps_rules = keeps_ret keeps_throw keeps_gets keeps_guard keeps_modify keeps_seq
  keeps_if keeps_option keeps_pair keeps_on_throw

section \<open>Tables as association lists\<close>

text \<open>
  A table with a primary key is an association list with distinct keys, in the order in
  which the database returns its rows when a query has no ORDER BY.
\<close>

abbreviation distinct_keys :: "('k \<times> 'v) list \<Rightarrow> bool" where
  "distinct_keys t \<equiv> distinct (map fst t)"

text \<open>\<open>UPDATE t SET ... WHERE\<close>, with the assignment a function of the row.\<close>

definition update_rows :: "('k \<Rightarrow> 'v \<Rightarrow> bool) \<Rightarrow> ('v \<Rightarrow> 'v) \<Rightarrow> ('k \<times> 'v) list \<Rightarrow> ('k \<times> 'v) list" where
  "update_rows p f t = map (\<lambda>(k, v). (k, if p k v then f v else v)) t"

text \<open>\<open>DELETE FROM t WHERE\<close>\<close>

definition delete_rows :: "('k \<Rightarrow> 'v \<Rightarrow> bool) \<Rightarrow> ('k \<times> 'v) list \<Rightarrow> ('k \<times> 'v) list" where
  "delete_rows p t = filter (\<lambda>(k, v). \<not> p k v) t"

lemma map_fst_update_rows [simp]: "map fst (update_rows p f t) = map fst t"
  by (induction t) (auto simp: update_rows_def)

lemma map_of_update_rows [simp]:
  "map_of (update_rows p f t) k = map_option (\<lambda>v. if p k v then f v else v) (map_of t k)"
  by (induction t) (auto simp: update_rows_def)

lemma distinct_keys_delete_rows [simp]: "distinct_keys t \<Longrightarrow> distinct_keys (delete_rows p t)"
  by (induction t) (auto simp: delete_rows_def)

lemma set_delete_rows [simp]: "set (delete_rows p t) = {(k, v) \<in> set t. \<not> p k v}"
  by (auto simp: delete_rows_def)

lemma map_of_delete_rows [simp]:
  "distinct_keys t \<Longrightarrow> map_of (delete_rows p t) k =
     (case map_of t k of None \<Rightarrow> None | Some v \<Rightarrow> if p k v then None else Some v)"
  by (induction t) (auto simp: delete_rows_def map_of_eq_None_iff split: option.splits)

lemma map_of_filter_None: "map_of t k = None \<Longrightarrow> map_of (filter p t) k = None"
  by (induction t) auto

lemma map_add_new: "m k = None \<Longrightarrow> [k \<mapsto> v] ++ m = m(k \<mapsto> v)"
  by (auto simp: fun_eq_iff map_add_def split: option.splits)

lemma map_of_append_new: "map_of t k = None \<Longrightarrow> map_of (t @ [(k, v)]) = (map_of t)(k \<mapsto> v)"
  by (auto simp: fun_eq_iff map_add_def split: option.splits)

lemma distinct_keys_append_new:
  "distinct_keys t \<Longrightarrow> map_of t k = None \<Longrightarrow> distinct_keys (t @ [(k, v)])"
  by (auto simp: map_of_eq_None_iff)

lemma map_of_mem_iff: "distinct_keys t \<Longrightarrow> (k, v) \<in> set t \<longleftrightarrow> map_of t k = Some v"
  by simp

lemma set_map_filter: "set (List.map_filter f xs) = {y. \<exists>x \<in> set xs. f x = Some y}"
  by (induction xs) (auto simp: List.map_filter_simps split: option.splits)

lemma distinct_keys_map_filter:
  assumes "\<And>k v y. f (k, v) = Some y \<Longrightarrow> fst y = k" and "distinct_keys t"
  shows "distinct_keys (List.map_filter f t)"
  using assms(2)
proof (induction t)
  case (Cons kv t)
  obtain k v where kv: "kv = (k, v)" by fastforce
  have "fst ` set (List.map_filter f t) \<subseteq> fst ` set t"
    using assms(1) by (force simp: set_map_filter)
  with Cons kv assms(1) [of k v] show ?case
    by (auto simp: List.map_filter_simps split: option.splits)
qed (simp add: List.map_filter_simps)

end
