(* ===== verification/DataStream.thy ===== *)
theory DataStream
  imports Prelude
begin

text \<open>
  The serialisation primitives of \<open>QDataStream\<close> that \<open>synchelper.cpp\<close>,
  \<open>objectkey.cpp\<close> and the messages are written with. Qt is not part of the repository:
  the primitives are a parameter (the record \<open>qprims\<close>), and what the code relies on is the
  locale \<open>datastream\<close>: what was streamed out is streamed in again, and the reader stops
  where the writer did. The format documented for \<open>Qt_5_11\<close> (the version
  \<open>Message::setupStream\<close> selects) is the instance \<open>qt_5_11\<close>: big-endian integers, byte
  arrays with a 32-bit length, where 0xffffffff marks the null array.
\<close>

section \<open>The primitives as a parameter\<close>

record qprims =
  put_u32 :: "u32 \<Rightarrow> bytes"
  get_u32 :: "bytes \<Rightarrow> (u32 \<times> bytes) option"
  put_u64 :: "u64 \<Rightarrow> bytes"
  get_u64 :: "bytes \<Rightarrow> (u64 \<times> bytes) option"
  put_bool :: "bool \<Rightarrow> bytes"
  get_bool :: "bytes \<Rightarrow> (bool \<times> bytes) option"
  put_uuid :: "uuid \<Rightarrow> bytes"
  get_uuid :: "bytes \<Rightarrow> (uuid \<times> bytes) option"
  put_bytes :: "bytes option \<Rightarrow> bytes" \<comment> \<open>\<open>None\<close> is the null \<open>QByteArray\<close>\<close>
  get_bytes :: "bytes \<Rightarrow> (bytes option \<times> bytes) option"

text \<open>\<open>QByteArray::size()\<close> is an \<open>int\<close>.\<close>

definition fits :: "bytes \<Rightarrow> bool" where
  "fits b \<longleftrightarrow> length b < 2 ^ 31"

definition fits_opt :: "bytes option \<Rightarrow> bool" where
  "fits_opt b \<longleftrightarrow> (case b of None \<Rightarrow> True | Some x \<Rightarrow> fits x)"

locale datastream =
  fixes p :: qprims
  assumes u32_back: "get_u32 p (put_u32 p a @ r) = Some (a, r)"
    and u64_back: "get_u64 p (put_u64 p b @ r) = Some (b, r)"
    and bool_back: "get_bool p (put_bool p c @ r) = Some (c, r)"
    and uuid_back: "get_uuid p (put_uuid p u @ r) = Some (u, r)"
    and bytes_back: "fits_opt x \<Longrightarrow> get_bytes p (put_bytes p x @ r) = Some (x, r)"

section \<open>The documented format\<close>

fun be_put :: "nat \<Rightarrow> nat \<Rightarrow> bytes" where
  "be_put 0 x = []"
| "be_put (Suc n) x = be_put n (x div 256) @ [char_of (x mod 256)]"

fun be_val :: "nat \<Rightarrow> bytes \<Rightarrow> nat" where
  "be_val acc [] = acc"
| "be_val acc (c # cs) = be_val (acc * 256 + of_char c) cs"

definition be_get :: "nat \<Rightarrow> bytes \<Rightarrow> (nat \<times> bytes) option" where
  "be_get n b = (if length b < n then None else Some (be_val 0 (take n b), drop n b))"

lemma length_be_put [simp]: "length (be_put n x) = n"
  by (induction n arbitrary: x) auto

lemma be_val_append: "be_val a (xs @ ys) = be_val (be_val a xs) ys"
  by (induction xs arbitrary: a) auto

lemma be_val_put: "be_val a (be_put n x) = a * 256 ^ n + x mod 256 ^ n"
proof (induction n arbitrary: a x)
  case 0
  then show ?case by simp
next
  case (Suc n)
  have "x mod (256 * 256 ^ n) = 256 * (x div 256 mod 256 ^ n) + x mod 256"
    by (simp add: mod_mult2_eq)
  then show ?case
    by (simp add: be_val_append Suc of_char_of algebra_simps)
qed

lemma be_get_put: "x < 256 ^ n \<Longrightarrow> be_get n (be_put n x @ r) = Some (x, r)"
  by (simp add: be_get_def be_val_put)

definition get_word :: "nat \<Rightarrow> bytes \<Rightarrow> ('a::len word \<times> bytes) option" where
  "get_word n b = map_option (\<lambda>(x, r). (word_of_nat x, r)) (be_get n b)"

lemma get_word_put:
  "LENGTH('a::len) = 8 * n \<Longrightarrow> get_word n (be_put n (unat (w :: 'a word)) @ r) = Some (w, r)"
proof -
  assume "LENGTH('a) = 8 * n"
  then have "unat w < 256 ^ n"
    using unsigned_less [where 'a = nat and 'b = 'a, of w] by (simp add: power_mult)
  then show ?thesis by (simp add: get_word_def be_get_put)
qed

definition qt_put_bytes :: "bytes option \<Rightarrow> bytes" where
  "qt_put_bytes x = (case x of None \<Rightarrow> be_put 4 0xffffffff | Some b \<Rightarrow> be_put 4 (length b) @ b)"

definition qt_get_bytes :: "bytes \<Rightarrow> (bytes option \<times> bytes) option" where
  "qt_get_bytes b = (case be_get 4 b of
       None \<Rightarrow> None
     | Some (n, r) \<Rightarrow> if n = 0xffffffff then Some (None, r)
         else if length r < n then None else Some (Some (take n r), drop n r))"

definition qt_5_11 :: qprims where
  "qt_5_11 = \<lparr>
     put_u32 = (\<lambda>w. be_put 4 (unat w)), get_u32 = get_word 4,
     put_u64 = (\<lambda>w. be_put 8 (unat w)), get_u64 = get_word 8,
     put_bool = (\<lambda>c. be_put 1 (if c then 1 else 0)),
     get_bool = (\<lambda>b. map_option (\<lambda>(x, r). (x \<noteq> 0, r)) (be_get 1 b)),
     put_uuid = (\<lambda>w. be_put 16 (unat w)), get_uuid = get_word 16,
     put_bytes = qt_put_bytes, get_bytes = qt_get_bytes\<rparr>"

lemma qt_bytes_back: "fits_opt x \<Longrightarrow> qt_get_bytes (qt_put_bytes x @ r) = Some (x, r)"
  by (auto simp: qt_get_bytes_def qt_put_bytes_def fits_opt_def fits_def be_get_put split: option.splits)

interpretation qt: datastream qt_5_11
  by unfold_locales (auto simp: qt_5_11_def get_word_put be_get_def qt_bytes_back)

end
