(* ===== verification/SyncHelper.thy ===== *)
theory SyncHelper
  imports DataStream
begin

text \<open>
  \<open>src/datasync/objectkey.cpp\<close> and \<open>src/datasync/synchelper.cpp\<close>: the key of a
  dataset, the hash of a JSON object and the packing of one change for the server.
  SHA3-256, the printing of doubles, the JSON text codec and the UTF-8 validity test are
  library calls, gathered in the record \<open>hlib\<close>.
\<close>

section \<open>Keys and JSON values\<close>

record object_key =
  typeName :: bytes
  keyId :: string

datatype json =
    JNull
  | JBool bool
  | JDouble u64 \<comment> \<open>the bit pattern of the double\<close>
  | JString string
  | JArray "json list"
  | JObject "(string \<times> json) list" \<comment> \<open>in the iteration order of \<open>QJsonObject\<close>\<close>
  | JUndefined

type_synonym json_object = "(string \<times> json) list"

record hlib =
  sha3 :: "bytes \<Rightarrow> bytes"
  fmtDouble :: "u64 \<Rightarrow> bytes"
  toJson :: "json_object \<Rightarrow> bytes"
  fromJson :: "bytes \<Rightarrow> json option"
  utf8_ok :: "bytes \<Rightarrow> bool"

section \<open>Hashes\<close>

text \<open>
  \<open>QCryptographicHash::addData\<close> appends to the data to be hashed: what was fed to the hash
  is one byte string.
\<close>

fun hash_next :: "hlib \<Rightarrow> json \<Rightarrow> bytes" where
  "hash_next h JNull = ''null''"
| "hash_next h (JBool b) = (if b then ''true'' else ''false'')"
| "hash_next h (JDouble d) = fmtDouble h d"
| "hash_next h (JString s) = s"
| "hash_next h (JArray vs) = concat (map (hash_next h) vs)"
| "hash_next h (JObject kvs) = concat (map (\<lambda>kv. fst kv @ hash_next h (snd kv)) kvs)"
| "hash_next h JUndefined = []"

definition json_hash :: "hlib \<Rightarrow> json_object \<Rightarrow> bytes" where
  "json_hash h obj = sha3 h (hash_next h (JObject obj))"

definition hashed :: "hlib \<Rightarrow> object_key \<Rightarrow> bytes" where
  "hashed h key = sha3 h (typeName key @ keyId key)"

section \<open>Streaming a key\<close>

text \<open>\<open>Utf8String\<close> is streamed as the byte array of its UTF-8 form and refuses other bytes.\<close>

definition put_utf8 :: "qprims \<Rightarrow> string \<Rightarrow> bytes" where
  "put_utf8 p s = put_bytes p (Some s)"

definition get_utf8 :: "qprims \<Rightarrow> hlib \<Rightarrow> bytes \<Rightarrow> (string \<times> bytes) option" where
  "get_utf8 p h b = (case get_bytes p b of
       None \<Rightarrow> None
     | Some (m, r) \<Rightarrow> (let t = case_option [] id m in if utf8_ok h t then Some (t, r) else None))"

definition put_key :: "qprims \<Rightarrow> object_key \<Rightarrow> bytes" where
  "put_key p key = put_bytes p (Some (typeName key)) @ put_utf8 p (keyId key)"

definition get_key :: "qprims \<Rightarrow> hlib \<Rightarrow> bytes \<Rightarrow> (object_key \<times> bytes) option" where
  "get_key p h b = (case get_bytes p b of
       None \<Rightarrow> None
     | Some (t, r) \<Rightarrow> (case get_utf8 p h r of
         None \<Rightarrow> None
       | Some (i, r') \<Rightarrow> Some (\<lparr>typeName = case_option [] id t, keyId = i\<rparr>, r')))"

section \<open>Packing and unpacking a change\<close>

definition combine :: "qprims \<Rightarrow> hlib \<Rightarrow> object_key \<Rightarrow> u64 \<Rightarrow> json_object \<Rightarrow> bytes" where
  "combine p h key version data =
     put_key p key @ put_u64 p version @ put_bytes p (Some (toJson h data))"

definition combine_deleted :: "qprims \<Rightarrow> object_key \<Rightarrow> u64 \<Rightarrow> bytes" where
  "combine_deleted p key version = put_key p key @ put_u64 p version @ put_bytes p None"

datatype stream_error = DataStreamException

type_synonym change_data = "bool \<times> object_key \<times> u64 \<times> json_object"

definition extract_change :: "qprims \<Rightarrow> hlib \<Rightarrow> bytes \<Rightarrow> stream_error + change_data" where
  "extract_change p h b = (case get_key p h b of
       None \<Rightarrow> Inl DataStreamException
     | Some (key, r1) \<Rightarrow> (case get_u64 p r1 of
         None \<Rightarrow> Inl DataStreamException
       | Some (version, r2) \<Rightarrow> (case get_bytes p r2 of
           None \<Rightarrow> Inl DataStreamException
         | Some (None, r3) \<Rightarrow> Inr (True, key, version, [])
         | Some (Some jData, r3) \<Rightarrow> (case fromJson h jData of
               Some (JObject obj) \<Rightarrow> Inr (False, key, version, obj)
             | _ \<Rightarrow> Inl DataStreamException))))"

section \<open>Round trips\<close>

definition key_fits :: "hlib \<Rightarrow> object_key \<Rightarrow> bool" where
  "key_fits h key \<longleftrightarrow> fits (typeName key) \<and> fits (keyId key) \<and> utf8_ok h (keyId key)"

context datastream
begin

lemma utf8_back:
  "fits s \<Longrightarrow> utf8_ok h s \<Longrightarrow> get_utf8 p h (put_utf8 p s @ r) = Some (s, r)"
  by (simp add: get_utf8_def put_utf8_def bytes_back fits_opt_def)

lemma key_back: "key_fits h key \<Longrightarrow> get_key p h (put_key p key @ r) = Some (key, r)"
  by (simp add: get_key_def put_key_def key_fits_def bytes_back fits_opt_def utf8_back)

lemma extract_combine:
  assumes "key_fits h key" and "fits (toJson h data)"
    and "fromJson h (toJson h data) = Some (JObject data)"
  shows "extract_change p h (combine p h key version data) = Inr (False, key, version, data)"
  using assms u64_back bytes_back [of "Some (toJson h data)" "[]"]
  by (simp add: extract_change_def combine_def key_back fits_opt_def)

lemma extract_combine_deleted:
  assumes "key_fits h key"
  shows "extract_change p h (combine_deleted p key version) = Inr (True, key, version, [])"
  using assms u64_back bytes_back [of None "[]"]
  by (simp add: extract_change_def combine_deleted_def key_back fits_opt_def)

end

lemma hash_next_array_flat:
  "hash_next h (JArray (vs @ ws)) = hash_next h (JArray vs) @ hash_next h (JArray ws)"
  by simp

end
