(* ===== verification/DataIndex.thy ===== *)
theory DataIndex
  imports SyncHelper
begin

text \<open>
  The SQLite tables of the client: \<open>DataIndex\<close> and \<open>DeviceUploads\<close> (created in
  \<open>LocalStore::LocalStore\<close>, \<open>src/datasync/localstore.cpp\<close>) and \<open>EventLog\<close> with its two
  triggers (\<open>EventCursorPrivate::initDatabase\<close>, \<open>src/datasync/eventcursor.cpp\<close>). The SQL
  statements of the code are expressed with three row operations, which carry the
  primary key, the foreign key with ON DELETE CASCADE and the triggers.
\<close>

section \<open>Rows\<close>

record index_entry =
  version :: u64
  dataFile :: "string option"      \<comment> \<open>\<open>None\<close> is NULL: the dataset is deleted\<close>
  checksum :: "bytes option"
  changed :: bool

record log_entry =
  seqId :: nat
  logKey :: object_key
  logVersion :: u64
  removed :: bool
  timestamp :: nat

record db =
  data_index :: "(object_key \<times> index_entry) list"
  device_uploads :: "(object_key \<times> uuid) list"
  event_log :: "log_entry list option"  \<comment> \<open>\<open>None\<close>: there is no such table\<close>
  insert_trigger :: bool
  update_trigger :: bool
  last_seq :: nat                       \<comment> \<open>AUTOINCREMENT: the largest id ever used\<close>

section \<open>Row operations\<close>

text \<open>The body of the triggers \<open>eventlog_INSERT\<close> and \<open>eventlog_UPDATE\<close>.\<close>

definition log_event :: "bool \<Rightarrow> nat \<Rightarrow> object_key \<Rightarrow> index_entry \<Rightarrow> db \<Rightarrow> db" where
  "log_event trigger now k e d = (case event_log d of
       None \<Rightarrow> d
     | Some l \<Rightarrow> if trigger
         then d\<lparr>event_log := Some (l @ [\<lparr>seqId = Suc (last_seq d), logKey = k,
                  logVersion = version e, removed = (dataFile e = None), timestamp = now\<rparr>]),
                last_seq := Suc (last_seq d)\<rparr>
         else d)"

definition insert_row :: "nat \<Rightarrow> object_key \<Rightarrow> index_entry \<Rightarrow> db \<Rightarrow> db option" where
  "insert_row now k e d = (case map_of (data_index d) k of
       Some _ \<Rightarrow> None  \<comment> \<open>PRIMARY KEY(Type, Id)\<close>
     | None \<Rightarrow> Some (log_event (insert_trigger d) now k e (d\<lparr>data_index := data_index d @ [(k, e)]\<rparr>)))"

fun log_updates :: "nat \<Rightarrow> (index_entry \<Rightarrow> index_entry) \<Rightarrow> (object_key \<times> index_entry) list \<Rightarrow> db \<Rightarrow> db" where
  "log_updates now f [] d = d"
| "log_updates now f ((k, e) # rows) d = log_updates now f rows
     (if version (f e) \<noteq> version e then log_event (update_trigger d) now k (f e) d else d)"

definition update_index ::
    "nat \<Rightarrow> (object_key \<Rightarrow> index_entry \<Rightarrow> bool) \<Rightarrow> (index_entry \<Rightarrow> index_entry) \<Rightarrow> db \<Rightarrow> db" where
  "update_index now P f d = log_updates now f (filter (\<lambda>(k, e). P k e) (data_index d))
     (d\<lparr>data_index := update_rows P f (data_index d)\<rparr>)"

definition delete_index :: "(object_key \<Rightarrow> index_entry \<Rightarrow> bool) \<Rightarrow> db \<Rightarrow> db" where
  "delete_index P d = (let t = delete_rows P (data_index d) in
     d\<lparr>data_index := t,
       device_uploads := filter (\<lambda>(k, dev). k \<in> set (map fst t)) (device_uploads d)\<rparr>)"

abbreviation row :: "db \<Rightarrow> object_key \<Rightarrow> index_entry option" where
  "row d k \<equiv> map_of (data_index d) k"

section \<open>What the operations keep\<close>

definition log_ok :: "db \<Rightarrow> bool" where
  "log_ok d \<longleftrightarrow> (case event_log d of
       None \<Rightarrow> True
     | Some l \<Rightarrow> sorted_wrt (<) (map seqId l) \<and> (\<forall>x \<in> set l. 0 < seqId x \<and> seqId x \<le> last_seq d))"

definition entry_ok :: "index_entry \<Rightarrow> bool" where
  "entry_ok e \<longleftrightarrow> (dataFile e = None \<longleftrightarrow> checksum e = None)"

definition db_inv :: "db \<Rightarrow> bool" where
  "db_inv d \<longleftrightarrow> distinct_keys (data_index d) \<and> distinct (device_uploads d) \<and>
     (\<forall>(k, dev) \<in> set (device_uploads d). row d k \<noteq> None) \<and>
     (\<forall>(k, e) \<in> set (data_index d). entry_ok e) \<and> log_ok d"

lemma log_event_tables [simp]:
  "data_index (log_event b now k e d) = data_index d"
  "device_uploads (log_event b now k e d) = device_uploads d"
  "insert_trigger (log_event b now k e d) = insert_trigger d"
  "update_trigger (log_event b now k e d) = update_trigger d"
  "event_log (log_event b now k e d) = None \<longleftrightarrow> event_log d = None"
  by (auto simp: log_event_def split: option.splits)

lemma log_updates_tables [simp]:
  "data_index (log_updates now f rows d) = data_index d"
  "device_uploads (log_updates now f rows d) = device_uploads d"
  "insert_trigger (log_updates now f rows d) = insert_trigger d"
  "update_trigger (log_updates now f rows d) = update_trigger d"
  "event_log (log_updates now f rows d) = None \<longleftrightarrow> event_log d = None"
  by (induction now f rows d rule: log_updates.induct) auto

lemma log_ok_tables [simp]:
  "log_ok (d\<lparr>data_index := x\<rparr>) = log_ok d"
  "log_ok (d\<lparr>device_uploads := y\<rparr>) = log_ok d"
  by (simp_all add: log_ok_def split: option.split)

lemma log_event_ok: "log_ok d \<Longrightarrow> log_ok (log_event b now k e d)"
  by (fastforce simp: log_ok_def log_event_def sorted_wrt_append split: option.splits)

lemma log_updates_ok: "log_ok d \<Longrightarrow> log_ok (log_updates now f rows d)"
  by (induction now f rows d rule: log_updates.induct) (auto simp: log_event_ok)

lemma update_index_row [simp]:
  "row (update_index now P f d) k = map_option (\<lambda>e. if P k e then f e else e) (row d k)"
  by (simp add: update_index_def)

lemma update_index_uploads [simp]: "device_uploads (update_index now P f d) = device_uploads d"
  by (simp add: update_index_def)

lemma update_index_keys [simp]: "map fst (data_index (update_index now P f d)) = map fst (data_index d)"
  by (simp add: update_index_def)

lemma insert_row_Some:
  "insert_row now k e d = Some d' \<longleftrightarrow>
     row d k = None \<and> d' = log_event (insert_trigger d) now k e (d\<lparr>data_index := data_index d @ [(k, e)]\<rparr>)"
  by (auto simp: insert_row_def split: option.splits)

lemma insert_row_row: "insert_row now k e d = Some d' \<Longrightarrow> row d' = (row d)(k \<mapsto> e)"
  by (auto simp: insert_row_Some map_add_new)

lemma insert_row_uploads: "insert_row now k e d = Some d' \<Longrightarrow> device_uploads d' = device_uploads d"
  by (auto simp: insert_row_Some)

lemma delete_index_row:
  "distinct_keys (data_index d) \<Longrightarrow> row (delete_index P d) k =
     (case row d k of None \<Rightarrow> None | Some e \<Rightarrow> if P k e then None else Some e)"
  by (simp add: delete_index_def Let_def)

lemma db_inv_distinct: "db_inv d \<Longrightarrow> distinct_keys (data_index d)"
  by (simp add: db_inv_def)

lemma db_inv_entry: "db_inv d \<Longrightarrow> row d k = Some e \<Longrightarrow> entry_ok e"
  by (auto simp: db_inv_def dest: map_of_SomeD)

lemma update_index_inv:
  assumes "db_inv d" and f: "\<And>k e. P k e \<Longrightarrow> entry_ok e \<Longrightarrow> entry_ok (f e)"
  shows "db_inv (update_index now P f d)"
proof -
  have "log_ok (update_index now P f d)"
    using assms(1) unfolding update_index_def db_inv_def by (intro log_updates_ok) simp
  moreover have "\<forall>(k, e) \<in> set (data_index (update_index now P f d)). entry_ok e"
    using assms(1) f by (auto simp: update_index_def update_rows_def db_inv_def split: if_splits)
  moreover have "distinct_keys (data_index (update_index now P f d))"
    using assms(1) by (simp add: db_inv_def)
  ultimately show ?thesis
    using assms(1) by (simp add: db_inv_def case_prod_beta)
qed

lemma insert_row_inv:
  assumes "db_inv d" and "entry_ok e" and "insert_row now k e d = Some d'"
  shows "db_inv d'"
proof -
  have new: "row d k = None" and d': "d' = log_event (insert_trigger d) now k e (d\<lparr>data_index := data_index d @ [(k, e)]\<rparr>)"
    using assms(3) by (auto simp: insert_row_Some)
  have "log_ok d'"
    using assms(1) unfolding d' db_inv_def by (intro log_event_ok) simp
  moreover have "distinct_keys (data_index d')"
    using distinct_keys_append_new [OF _ new, of e] assms(1) by (simp add: d' db_inv_def)
  moreover have "\<forall>(x, dev) \<in> set (device_uploads d'). row d' x \<noteq> None"
    using assms(1) by (auto simp: d' db_inv_def)
  ultimately show ?thesis
    using assms(1,2) by (simp add: d' db_inv_def)
qed

lemma delete_index_inv:
  assumes "db_inv d" shows "db_inv (delete_index P d)"
proof -
  have "\<forall>(k, dev) \<in> set (device_uploads (delete_index P d)). row (delete_index P d) k \<noteq> None"
    by (auto simp: delete_index_def Let_def map_of_eq_None_iff image_iff)
  then show ?thesis
    using assms unfolding db_inv_def by (auto simp: delete_index_def Let_def)
qed

end
