(* ===== verification/LocalStore.thy ===== *)
theory LocalStore
  imports DataIndex
begin

text \<open>
  \<open>src/datasync/localstore.cpp\<close>: the store on one device. Its state is the database, the
  data files below \<open>store/\<close>, the cache shared through the emitter, and the signals given
  to the emitter. Every call that can fail in the environment (starting and committing a
  transaction, executing a statement, the file operations) is asked of \<open>ok\<close>, so each
  \<open>throw\<close> of the source is a branch here; a caught exception restores the database, not
  the files or the cache, exactly as the rollback does.
\<close>

section \<open>State and environment\<close>

type_synonym path = "string \<times> string"
type_synonym json_cache = "object_key \<Rightarrow> json_object option"

datatype signal =
    TriggerChange object_key bool bool \<comment> \<open>key, deleted, changed\<close>
  | TriggerClear bytes "string list"
  | TriggerReset
  | TriggerUpload

record store =
  db :: db
  files :: "(path \<times> json) list" \<comment> \<open>type directory, base name (without \<open>.dat\<close>)\<close>
  cache :: "json_cache option"    \<comment> \<open>\<open>None\<close>: caching is off\<close>
  signals :: "signal list"

datatype call = CBegin | CExec nat | CMkDir | COpen | CWrite | CFileCommit | CFileRemove
  | CRead object_key | CCommit | CRemoveFile path

text \<open>
  \<open>enc\<close> is \<open>QUrl::toPercentEncoding\<close>, \<open>tmpName\<close> the base name \<open>QTemporaryFile\<close> finds
  (given the existing paths), \<open>trim\<close> what \<open>QCache\<close> discards on an insertion.
\<close>

record env =
  ok :: "call \<Rightarrow> bool"
  enc :: "bytes \<Rightarrow> string"
  tmpName :: "path list \<Rightarrow> string"
  trim :: "json_cache \<Rightarrow> json_cache"
  now :: nat
  hl :: hlib
  persistDeleted :: bool

datatype store_error = LocalStoreError object_key | NoDataError object_key

type_synonym 'a store_act = "(store, store_error, 'a) act"

section \<open>Helpers\<close>

definition type_key :: "bytes \<Rightarrow> object_key" where
  "type_key t = \<lparr>typeName = t, keyId = []\<rparr>"

definition type_directory :: "env \<Rightarrow> bytes \<Rightarrow> string" where
  "type_directory e t = ''store/data_'' @ map (\<lambda>c. if c = CHR ''%'' then CHR ''_'' else c) (enc e t)"

definition file_path :: "env \<Rightarrow> object_key \<Rightarrow> string \<Rightarrow> path" where
  "file_path e key base = (type_directory e (typeName key), base)"

abbreviation call_or :: "env \<Rightarrow> call \<Rightarrow> object_key \<Rightarrow> unit store_act" where
  "call_or e c key \<equiv> guard_call (ok e c) (LocalStoreError key)"

definition emit_signal :: "signal \<Rightarrow> store \<Rightarrow> store" where
  "emit_signal x s = s\<lparr>signals := signals s @ [x]\<rparr>"

definition put_cached :: "env \<Rightarrow> object_key \<Rightarrow> json_object \<Rightarrow> store \<Rightarrow> store" where
  "put_cached e key data s = s\<lparr>cache := map_option (\<lambda>c. trim e (c(key \<mapsto> data))) (cache s)\<rparr>"

fun put_cached_list :: "env \<Rightarrow> (object_key \<times> json_object) list \<Rightarrow> store \<Rightarrow> store" where
  "put_cached_list e [] s = s"
| "put_cached_list e ((k, d) # rest) s = put_cached_list e rest (put_cached e k d s)"

definition get_cached :: "store \<Rightarrow> object_key \<Rightarrow> json_object option" where
  "get_cached s key = (case cache s of None \<Rightarrow> None | Some c \<Rightarrow> c key)"

definition drop_cached :: "object_key \<Rightarrow> store \<Rightarrow> store" where
  "drop_cached key s = s\<lparr>cache := map_option (\<lambda>c. c(key := None)) (cache s)\<rparr>"

definition drop_cached_ids :: "bytes \<Rightarrow> string list \<Rightarrow> store \<Rightarrow> store" where
  "drop_cached_ids t ids s =
     s\<lparr>cache := map_option (\<lambda>c k. if typeName k = t \<and> keyId k \<in> set ids then None else c k) (cache s)\<rparr>"

definition drop_cached_all :: "store \<Rightarrow> store" where
  "drop_cached_all s = s\<lparr>cache := map_option (\<lambda>_. Map.empty) (cache s)\<rparr>"

text \<open>
  \<open>try { m } catch(...) { undo; _database->rollback(); throw; }\<close> after the transaction
  has begun: the rollback restores the tables as they are now.
\<close>

definition in_tx :: "(store \<Rightarrow> store) \<Rightarrow> 'a store_act \<Rightarrow> 'a store_act" where
  "in_tx undo m s = on_throw m (\<lambda>t. (undo t)\<lparr>db := db s\<rparr>) s"

definition update_db :: "(db \<Rightarrow> db) \<Rightarrow> store \<Rightarrow> store" where
  "update_db f s = s\<lparr>db := f (db s)\<rparr>"

text \<open>An INSERT, which fails as well on a primary key violation.\<close>

definition exec_insert :: "env \<Rightarrow> call \<Rightarrow> object_key \<Rightarrow> index_entry \<Rightarrow> unit store_act" where
  "exec_insert e c key entry s = (case insert_row (now e) key entry (db s) of
       Some d \<Rightarrow> if ok e c then (Inr (), s\<lparr>db := d\<rparr>) else (Inl (LocalStoreError key), s)
     | None \<Rightarrow> (Inl (LocalStoreError key), s))"

section \<open>Reading\<close>

definition read_json :: "env \<Rightarrow> object_key \<Rightarrow> string \<Rightarrow> json_object store_act" where
  "read_json e key base =
     seq (call_or e CMkDir key) (\<lambda>_.
     seq (call_or e (CRead key) key) (\<lambda>_.
     seq (gets files) (\<lambda>fs.
       case map_of fs (file_path e key base) of
         Some (JObject obj) \<Rightarrow> ret obj
       | _ \<Rightarrow> throw (LocalStoreError key))))"

text \<open>The rows \<open>WHERE Type = ? AND File IS NOT NULL\<close> (and a condition on the id).\<close>

definition stored_rows :: "bytes \<Rightarrow> (string \<Rightarrow> bool) \<Rightarrow> db \<Rightarrow> (object_key \<times> string) list" where
  "stored_rows t cond d = List.map_filter (\<lambda>(k, r).
     if typeName k = t \<and> cond (keyId k) then map_option (\<lambda>f. (k, f)) (dataFile r) else None) (data_index d)"

definition count :: "env \<Rightarrow> bytes \<Rightarrow> nat store_act" where
  "count e t = seq (call_or e (CExec 0) (type_key t)) (\<lambda>_.
     gets (\<lambda>s. length (stored_rows t (\<lambda>_. True) (db s))))"

definition keys :: "env \<Rightarrow> bytes \<Rightarrow> string list store_act" where
  "keys e t = seq (call_or e (CExec 0) (type_key t)) (\<lambda>_.
     gets (\<lambda>s. map (keyId \<circ> fst) (stored_rows t (\<lambda>_. True) (db s))))"

definition contains :: "env \<Rightarrow> object_key \<Rightarrow> bool store_act" where
  "contains e key = seq (call_or e (CExec 0) key) (\<lambda>_. gets (\<lambda>s. row (db s) key \<noteq> None))"

fun read_rows :: "env \<Rightarrow> (object_key \<times> string) list \<Rightarrow> (object_key \<times> json_object) list store_act" where
  "read_rows e [] = ret []"
| "read_rows e ((k, f) # rows) =
     seq (read_json e k f) (\<lambda>json. seq (read_rows e rows) (\<lambda>rest. ret ((k, json) # rest)))"

definition load_where :: "env \<Rightarrow> bytes \<Rightarrow> (string \<Rightarrow> bool) \<Rightarrow> json_object list store_act" where
  "load_where e t cond =
     seq (call_or e CBegin (type_key t)) (\<lambda>_. in_tx id (
     seq (call_or e (CExec 0) (type_key t)) (\<lambda>_.
     seq (gets (\<lambda>s. stored_rows t cond (db s))) (\<lambda>rows.
     seq (read_rows e rows) (\<lambda>array.
     seq (modify (put_cached_list e array)) (\<lambda>_.
     seq (call_or e CCommit (type_key t)) (\<lambda>_.
     ret (map snd array))))))))"

definition load_all :: "env \<Rightarrow> bytes \<Rightarrow> json_object list store_act" where
  "load_all e t = load_where e t (\<lambda>_. True)"

definition load :: "env \<Rightarrow> object_key \<Rightarrow> json_object store_act" where
  "load e key = seq (gets (\<lambda>s. get_cached s key)) (\<lambda>hit. case hit of
       Some json \<Rightarrow> ret json
     | None \<Rightarrow>
         seq (call_or e CBegin key) (\<lambda>_. in_tx id (
         seq (call_or e (CExec 0) key) (\<lambda>_.
         seq (gets (\<lambda>s. Option.bind (row (db s) key) dataFile)) (\<lambda>f. case f of
             None \<Rightarrow> throw (NoDataError key)
           | Some base \<Rightarrow>
               seq (read_json e key base) (\<lambda>json.
               seq (modify (put_cached e key json)) (\<lambda>_.
               seq (call_or e CCommit key) (\<lambda>_.
               ret json))))))))"

section \<open>Saving\<close>

text \<open>
  \<open>storeChangedImpl\<close>: an existing file is replaced through a \<open>QSaveFile\<close>, otherwise a
  \<open>QTemporaryFile\<close> is made permanent; both reach the disk only when the file commits,
  which is the last step before the caller's COMMIT. The C++ function returns a closure to
  be called after the commit; here the result is the action it stands for.
\<close>

datatype after_commit =
    Emit signal
  | DropAndEmit object_key signal \<comment> \<open>the closure of \<open>storeDeleted\<close>: \<open>dropCached\<close> first\<close>

fun run_after :: "after_commit \<Rightarrow> store \<Rightarrow> store" where
  "run_after (Emit x) s = emit_signal x s"
| "run_after (DropAndEmit key x) s = emit_signal x (drop_cached key s)"

definition store_changed_impl :: "env \<Rightarrow> object_key \<Rightarrow> u64 \<Rightarrow> string option \<Rightarrow> json_object \<Rightarrow>
    bool \<Rightarrow> bool \<Rightarrow> after_commit store_act" where
  "store_changed_impl e key ver fileName data chg existing =
     seq (call_or e CMkDir key) (\<lambda>_.
     seq (call_or e COpen key) (\<lambda>_.
     seq (gets (\<lambda>s. case (existing, fileName) of
           (True, Some f) \<Rightarrow> f
         | _ \<Rightarrow> tmpName e (map fst (files s)))) (\<lambda>base.
     seq (call_or e CWrite key) (\<lambda>_.
     seq (let entry = \<lparr>version = ver, dataFile = Some base, checksum = Some (json_hash (hl e) data),
                       changed = chg\<rparr>
          in if existing then
               seq (call_or e (CExec 10) key) (\<lambda>_.
                 modify (update_db (update_index (now e) (\<lambda>k _. k = key) (\<lambda>_. entry))))
             else exec_insert e (CExec 11) key entry) (\<lambda>_.
     seq (call_or e CFileCommit key) (\<lambda>_.
     seq (modify (\<lambda>s. s\<lparr>files := AList.update (file_path e key base) (JObject data) (files s)\<rparr>)) (\<lambda>_.
     seq (modify (put_cached e key data)) (\<lambda>_.
     ret (Emit (TriggerChange key False chg))))))))))"

definition save :: "env \<Rightarrow> object_key \<Rightarrow> json_object \<Rightarrow> unit store_act" where
  "save e key data =
     seq (call_or e CBegin key) (\<lambda>_. in_tx (drop_cached key) (
     seq (call_or e (CExec 0) key) (\<lambda>_.
     seq (gets (\<lambda>s. row (db s) key)) (\<lambda>r.
     seq (store_changed_impl e key
            (case r of Some x \<Rightarrow> version x + 1 | None \<Rightarrow> 1)
            (Option.bind r dataFile) data True (r \<noteq> None)) (\<lambda>resFn.
     seq (call_or e CCommit key) (\<lambda>_.
     modify (run_after resFn)))))))"

definition remove :: "env \<Rightarrow> object_key \<Rightarrow> bool store_act" where
  "remove e key =
     seq (call_or e CBegin key) (\<lambda>_. in_tx id (
     seq (call_or e (CExec 0) key) (\<lambda>_.
     seq (gets (\<lambda>s. row (db s) key)) (\<lambda>r.
       case Option.bind r (\<lambda>x. map_option (\<lambda>f. (version x, f)) (dataFile x)) of
         Some (v, f) \<Rightarrow>
           seq (call_or e (CExec 1) key) (\<lambda>_.
           seq (modify (update_db (update_index (now e) (\<lambda>k _. k = key)
             (\<lambda>_. \<lparr>version = v + 1, dataFile = None, checksum = None, changed = True\<rparr>)))) (\<lambda>_.
           seq (call_or e CMkDir key) (\<lambda>_.
           seq (call_or e CFileRemove key) (\<lambda>_.
           seq (gets (\<lambda>s. map_of (files s) (file_path e key f))) (\<lambda>content.
           if content = None then throw (LocalStoreError key) else
           seq (modify (\<lambda>s. s\<lparr>files := AList.delete (file_path e key f) (files s)\<rparr>)) (\<lambda>_.
           seq (call_or e CCommit key) (\<lambda>_.
           seq (modify (drop_cached key)) (\<lambda>_.
           seq (modify (emit_signal (TriggerChange key True True))) (\<lambda>_.
           ret True)))))))))
       | None \<Rightarrow> seq (call_or e CCommit key) (\<lambda>_. ret False)))))"

section \<open>Clearing and resetting\<close>

definition clear_store :: "env \<Rightarrow> bytes \<Rightarrow> unit store_act" where
  "clear_store e t =
     seq (call_or e CBegin (type_key t)) (\<lambda>_. in_tx id (
     seq (call_or e (CExec 0) (type_key t)) (\<lambda>_.
     seq (gets (\<lambda>s. map (keyId \<circ> fst) (stored_rows t (\<lambda>_. True) (db s)))) (\<lambda>clearKeys.
     seq (call_or e (CExec 1) (type_key t)) (\<lambda>_.
     seq (modify (update_db (update_index (now e) (\<lambda>k r. typeName k = t \<and> dataFile r \<noteq> None)
       (\<lambda>r. r\<lparr>version := version r + 1, dataFile := None, checksum := None, changed := True\<rparr>)))) (\<lambda>_.
     seq (call_or e CMkDir (type_key t)) (\<lambda>_.
     seq (modify (\<lambda>s. s\<lparr>files :=
       filter (\<lambda>(pa, _). \<not> (fst pa = type_directory e t \<and> ok e (CRemoveFile pa))) (files s)\<rparr>)) (\<lambda>_.
     seq (call_or e CCommit (type_key t)) (\<lambda>_.
     seq (modify (drop_cached_ids t clearKeys)) (\<lambda>_.
     modify (emit_signal (TriggerClear t clearKeys))))))))))))"

definition reset_store :: "env \<Rightarrow> bool \<Rightarrow> unit store_act" where
  "reset_store e keepData = (let anyKey = type_key ''any'' in
     seq (call_or e CBegin anyKey) (\<lambda>_. in_tx id (
     seq (if keepData then
            seq (call_or e (CExec 0) anyKey) (\<lambda>_.
            seq (modify (update_db (update_index (now e) (\<lambda>_ _. True) (\<lambda>r. r\<lparr>changed := True\<rparr>)))) (\<lambda>_.
            seq (call_or e (CExec 1) anyKey) (\<lambda>_.
            modify (update_db (\<lambda>d. d\<lparr>device_uploads := []\<rparr>)))))
          else
            seq (call_or e (CExec 2) anyKey) (\<lambda>_.
            seq (modify (update_db (delete_index (\<lambda>_ _. True)))) (\<lambda>_.
            seq (gets (\<lambda>s. event_log (db s))) (\<lambda>log.
            seq (if log = None then ret () else call_or e (CExec 3) anyKey) (\<lambda>_.
            seq (modify (update_db (\<lambda>d. d\<lparr>event_log := map_option (\<lambda>_. []) (event_log d)\<rparr>))) (\<lambda>_.
            modify (\<lambda>s. s\<lparr>files := filter (\<lambda>(pa, _). \<not> ok e (CRemoveFile pa)) (files s)\<rparr>))))))) (\<lambda>_.
     seq (call_or e CCommit anyKey) (\<lambda>_.
     if keepData then ret ()
     else seq (modify drop_cached_all) (\<lambda>_. modify (emit_signal TriggerReset)))))))"

section \<open>Changes to upload\<close>

type_synonym change_row = "object_key \<times> u64 \<times> string option \<times> uuid"

definition changed_rows :: "db \<Rightarrow> change_row list" where
  "changed_rows d = List.map_filter (\<lambda>(k, r).
     if changed r then Some (k, version r, dataFile r, 0) else None) (data_index d)"

definition device_rows :: "db \<Rightarrow> change_row list" where
  "device_rows d = List.map_filter (\<lambda>(k, dev). case row d k of
       None \<Rightarrow> None
     | Some r \<Rightarrow> if changed r \<and> dataFile r = None then None
         else Some (k, version r, dataFile r, dev)) (device_uploads d)"

text \<open>SQLite's LIMIT: a negative limit is no limit.\<close>

definition sql_limit :: "int \<Rightarrow> 'a list \<Rightarrow> 'a list" where
  "sql_limit n xs = (if n < 0 then xs else take (nat n) xs)"

definition change_count :: "env \<Rightarrow> u32 store_act" where
  "change_count e = seq (call_or e (CExec 0) (type_key [])) (\<lambda>_.
     gets (\<lambda>s. of_nat (length (changed_rows (db s)) + length (device_rows (db s)))))"

text \<open>
  The visitor has a state of its own and answers whether to go on. The result of a scan:
  whether it was stopped (\<open>skip\<close>) and how many rows were visited (\<open>cnt\<close>).
\<close>

fun visit_rows :: "(change_row \<Rightarrow> 'v \<Rightarrow> bool \<times> 'v) \<Rightarrow> change_row list \<Rightarrow> 'v \<Rightarrow> bool \<times> nat \<times> 'v" where
  "visit_rows f [] v = (False, 0, v)"
| "visit_rows f (r # rs) v = (case f r v of
       (False, v') \<Rightarrow> (True, 1, v')
     | (True, v') \<Rightarrow> (case visit_rows f rs v' of (skip, n, v'') \<Rightarrow> (skip, Suc n, v'')))"

definition load_changes :: "env \<Rightarrow> int \<Rightarrow> (change_row \<Rightarrow> 'v \<Rightarrow> bool \<times> 'v) \<Rightarrow> store \<Rightarrow>
    ('v, store_error, unit) act" where
  "load_changes e limit visitor s =
     seq (guard_call (ok e CBegin) (LocalStoreError (type_key []))) (\<lambda>_.
     seq (guard_call (ok e (CExec 20)) (LocalStoreError (type_key []))) (\<lambda>_ v.
       case visit_rows visitor (sql_limit limit (changed_rows (db s))) v of (skip, cnt, v1) \<Rightarrow>
         seq (if \<not> skip \<and> int cnt < limit then
                seq (guard_call (ok e (CExec 21)) (LocalStoreError (type_key []))) (\<lambda>_.
                modify (\<lambda>w. snd (snd (visit_rows visitor
                  (sql_limit (limit - int cnt) (device_rows (db s))) w))))
              else ret ()) (\<lambda>_.
         guard_call (ok e CCommit) (LocalStoreError (type_key ''<any>''))) v1))"

definition mark_unchanged_impl :: "env \<Rightarrow> object_key \<Rightarrow> u64 \<Rightarrow> bool \<Rightarrow> unit store_act" where
  "mark_unchanged_impl e key ver isDelete =
     seq (call_or e (CExec 30) (type_key [])) (\<lambda>_.
       if isDelete \<and> \<not> persistDeleted e then
         modify (update_db (delete_index (\<lambda>k r. k = key \<and> version r = ver \<and> dataFile r = None)))
       else
         modify (update_db (update_index (now e) (\<lambda>k r. k = key \<and> version r = ver)
           (\<lambda>r. r\<lparr>changed := False\<rparr>))))"

definition mark_unchanged :: "env \<Rightarrow> object_key \<Rightarrow> u64 \<Rightarrow> bool \<Rightarrow> unit store_act" where
  "mark_unchanged e key ver isDelete = mark_unchanged_impl e key ver isDelete"

definition remove_device_change :: "env \<Rightarrow> object_key \<Rightarrow> uuid \<Rightarrow> unit store_act" where
  "remove_device_change e key dev =
     seq (call_or e (CExec 31) (type_key [])) (\<lambda>_.
     modify (update_db (\<lambda>d. d\<lparr>device_uploads := filter (\<lambda>x. x \<noteq> (key, dev)) (device_uploads d)\<rparr>)))"

text \<open>\<open>INSERT OR REPLACE\<close> on the primary key (Type, Id, Device); exceptions are caught and logged.\<close>

definition prepare_account_added :: "env \<Rightarrow> uuid \<Rightarrow> store \<Rightarrow> store" where
  "prepare_account_added e dev s = (if ok e (CExec 32) then
       (let new = map (\<lambda>(k, _). (k, dev)) (data_index (db s));
            s' = update_db (\<lambda>d. d\<lparr>device_uploads :=
                   filter (\<lambda>x. x \<notin> set new) (device_uploads d) @ new\<rparr>) s
        in if new \<noteq> [] then emit_signal TriggerUpload s' else s')
     else s)"

section \<open>The sync scope\<close>

text \<open>
  \<open>SyncScope\<close>: the key, the tables as they were when its transaction began (restored by its
  destructor unless \<open>commitSync\<close> cleared the database reference), and the action to run
  after the commit.
\<close>

datatype change_type = Exists | ExistsDeleted | NoExists

record scope =
  scKey :: object_key
  afterCommit :: "after_commit option"

definition start_sync :: "env \<Rightarrow> object_key \<Rightarrow> scope store_act" where
  "start_sync e key = seq (call_or e CBegin key) (\<lambda>_. ret \<lparr>scKey = key, afterCommit = None\<rparr>)"

definition load_change_info :: "env \<Rightarrow> scope \<Rightarrow>
    (change_type \<times> u64 \<times> string option \<times> bytes option) store_act" where
  "load_change_info e sc = seq (call_or e (CExec 40) (type_key [])) (\<lambda>_.
     gets (\<lambda>s. case row (db s) (scKey sc) of
       None \<Rightarrow> (NoExists, 0, None, None)
     | Some r \<Rightarrow> (case dataFile r of
           None \<Rightarrow> (ExistsDeleted, version r, None, None)
         | Some f \<Rightarrow> (Exists, version r, Some f, checksum r))))"

definition update_version :: "env \<Rightarrow> scope \<Rightarrow> u64 \<Rightarrow> u64 \<Rightarrow> bool \<Rightarrow> scope store_act" where
  "update_version e sc oldVersion newVersion chg =
     seq (call_or e (CExec 41) (scKey sc)) (\<lambda>_.
     seq (modify (update_db (update_index (now e) (\<lambda>k r. k = scKey sc \<and> version r = oldVersion)
       (\<lambda>r. r\<lparr>version := newVersion, changed := chg\<rparr>)))) (\<lambda>_.
     ret (if chg then sc\<lparr>afterCommit := Some (Emit TriggerUpload)\<rparr> else sc)))"

definition store_changed :: "env \<Rightarrow> scope \<Rightarrow> u64 \<Rightarrow> string option \<Rightarrow> json_object \<Rightarrow> bool \<Rightarrow>
    change_type \<Rightarrow> scope store_act" where
  "store_changed e sc ver fileName data chg localState =
     seq (store_changed_impl e (scKey sc) ver fileName data chg (localState \<noteq> NoExists)) (\<lambda>fn.
     ret (sc\<lparr>afterCommit := Some fn\<rparr>))"

definition store_deleted :: "env \<Rightarrow> scope \<Rightarrow> u64 \<Rightarrow> bool \<Rightarrow> change_type \<Rightarrow> scope store_act" where
  "store_deleted e sc ver chg localState = (let key = scKey sc in
     seq (if localState = Exists then
            seq (call_or e (CExec 42) key) (\<lambda>_.
            seq (gets (\<lambda>s. Option.bind (row (db s) key) dataFile)) (\<lambda>f. case f of
                None \<Rightarrow> ret None
              | Some base \<Rightarrow> seq (call_or e CMkDir key) (\<lambda>_. ret (Some (file_path e key base)))))
          else ret None) (\<lambda>fileName.
     seq (if localState \<noteq> NoExists then
            seq (call_or e (CExec 43) key) (\<lambda>_.
            modify (update_db (update_index (now e) (\<lambda>k _. k = key)
              (\<lambda>_. \<lparr>version = ver, dataFile = None, checksum = None, changed = chg\<rparr>))))
          else exec_insert e (CExec 44) key
                 \<lparr>version = ver, dataFile = None, checksum = None, changed = chg\<rparr>) (\<lambda>_.
     seq (case fileName of
            None \<Rightarrow> ret ()
          | Some pa \<Rightarrow>
              seq (call_or e CFileRemove key) (\<lambda>_.
              seq (gets (\<lambda>s. map_of (files s) pa)) (\<lambda>content.
              if content = None then throw (LocalStoreError key)
              else modify (\<lambda>s. s\<lparr>files := AList.delete pa (files s)\<rparr>)))) (\<lambda>_.
     ret (if localState = Exists then
            sc\<lparr>afterCommit := Some (DropAndEmit key (TriggerChange key True chg))\<rparr>
          else if chg then sc\<lparr>afterCommit := Some (Emit TriggerUpload)\<rparr>
          else sc)))))"

definition mark_unchanged_scope :: "env \<Rightarrow> scope \<Rightarrow> u64 \<Rightarrow> bool \<Rightarrow> scope store_act" where
  "mark_unchanged_scope e sc oldVersion isDelete =
     seq (mark_unchanged_impl e (scKey sc) oldVersion isDelete) (\<lambda>_. ret sc)"

definition commit_sync :: "env \<Rightarrow> scope \<Rightarrow> unit store_act" where
  "commit_sync e sc = seq (call_or e CCommit (scKey sc)) (\<lambda>_.
     case afterCommit sc of None \<Rightarrow> ret () | Some a \<Rightarrow> modify (run_after a))"

text \<open>The scope's destructor on the way out of a throw: the rollback of the open transaction.\<close>

definition with_scope :: "'a store_act \<Rightarrow> 'a store_act" where
  "with_scope m = in_tx id m"

end
