(* ===== verification/LocalStoreProps.thy ===== *)
theory LocalStoreProps
  imports LocalStore
begin

text \<open>
  What the operations of \<open>LocalStore\<close> keep and do: the invariant of the tables (kept
  whatever fails), the agreement of tables, files and cache (kept by every operation that
  returns), and the refinement to a map from keys to datasets.
\<close>

section \<open>The tables\<close>

definition tables_ok :: "store \<Rightarrow> bool" where
  "tables_ok s \<longleftrightarrow> db_inv (db s)"

named_theorems tables_keep \<open>operations that keep the invariant of the tables\<close>

lemma db_of_updates [simp]:
  "db (emit_signal x s) = db s" "db (put_cached e k d s) = db s" "db (drop_cached k s) = db s"
  "db (drop_cached_ids t ids s) = db s" "db (drop_cached_all s) = db s"
  "db (update_db f s) = f (db s)" "db (put_cached_list e l s) = db s"
  by (simp_all add: emit_signal_def put_cached_def drop_cached_def drop_cached_ids_def
      drop_cached_all_def update_db_def)
     (induction e l s rule: put_cached_list.induct, simp_all add: put_cached_def)

lemma tables_ok_cong: "db t = db s \<Longrightarrow> tables_ok s \<Longrightarrow> tables_ok t"
  by (simp add: tables_ok_def)

lemma keeps_call: "keeps P (call_or e c k)"
  by (rule keeps_guard)

lemma keeps_in_tx:
  assumes "keeps tables_ok m" and "\<And>s. db (undo s) = db s"
  shows "keeps tables_ok (in_tx undo m)"
  using assms unfolding keeps_def in_tx_def on_throw_def
  by (auto simp: tables_ok_def split: prod.splits sum.splits)

lemma keeps_update_index:
  assumes "\<And>k e. P k e \<Longrightarrow> entry_ok e \<Longrightarrow> entry_ok (f e)"
  shows "keeps tables_ok (modify (update_db (update_index n P f)))"
  using assms by (intro keeps_modify) (auto simp: tables_ok_def intro!: update_index_inv)

lemma keeps_delete_index: "keeps tables_ok (modify (update_db (delete_index P)))"
  by (intro keeps_modify) (auto simp: tables_ok_def intro!: delete_index_inv)

lemma keeps_exec_insert: "entry_ok x \<Longrightarrow> keeps tables_ok (exec_insert e c k x)"
  unfolding keeps_def exec_insert_def tables_ok_def
  by (auto split: option.splits intro: insert_row_inv)

lemma keeps_same_db: "(\<And>s. db (f s) = db s) \<Longrightarrow> keeps tables_ok (modify f)"
  by (intro keeps_modify) (simp add: tables_ok_def)

lemma db_inv_uploads:
  "db_inv d \<Longrightarrow> distinct u \<Longrightarrow> (\<forall>(k, dev) \<in> set u. row d k \<noteq> None) \<Longrightarrow>
   db_inv (d\<lparr>device_uploads := u\<rparr>)"
  by (auto simp: db_inv_def)

lemmas keep_steps = keeps_ret keeps_throw keeps_gets keeps_call keeps_seq keeps_if
  keeps_option keeps_pair keeps_update_index keeps_delete_index

lemma read_json_keeps [tables_keep]: "keeps tables_ok (read_json e k f)"
  unfolding read_json_def
  by (intro keep_steps; auto intro: keep_steps split: option.split json.split)

lemma read_rows_keeps [tables_keep]: "keeps tables_ok (read_rows e rows)"
  by (induction e rows rule: read_rows.induct) (auto intro!: keep_steps tables_keep)

lemma load_where_keeps [tables_keep]: "keeps tables_ok (load_where e t cond)"
  unfolding load_where_def
  by (rule tables_keep keep_steps keeps_exec_insert keeps_in_tx | rule keeps_same_db | simp add: entry_ok_def)+

lemma load_keeps [tables_keep]: "keeps tables_ok (load e k)"
  unfolding load_def
  by (rule tables_keep keep_steps keeps_exec_insert keeps_in_tx | rule keeps_same_db | simp add: entry_ok_def)+

lemma store_changed_impl_keeps [tables_keep]:
  "keeps tables_ok (store_changed_impl e k v f d c ex)"
  unfolding store_changed_impl_def Let_def
  by (rule tables_keep keep_steps keeps_exec_insert keeps_in_tx | rule keeps_same_db | simp add: entry_ok_def)+

lemma run_after_db [simp]: "db (run_after a s) = db s"
  by (cases a) simp_all

lemma save_keeps [tables_keep]: "keeps tables_ok (save e k d)"
  unfolding save_def
  by (rule tables_keep keep_steps keeps_exec_insert keeps_in_tx | rule keeps_same_db | simp add: entry_ok_def)+

lemma remove_keeps [tables_keep]: "keeps tables_ok (remove e k)"
  unfolding remove_def
  by (rule tables_keep keep_steps keeps_exec_insert keeps_in_tx | rule keeps_same_db | simp add: entry_ok_def)+

lemma clear_store_keeps [tables_keep]: "keeps tables_ok (clear_store e t)"
  unfolding clear_store_def
  by (rule tables_keep keep_steps keeps_exec_insert keeps_in_tx | rule keeps_same_db | simp add: entry_ok_def)+

lemma keeps_drop_uploads: "keeps tables_ok (modify (update_db (\<lambda>d. d\<lparr>device_uploads := filter Q (device_uploads d)\<rparr>)))"
  by (intro keeps_modify) (auto simp: tables_ok_def db_inv_def)

lemma keeps_no_uploads: "keeps tables_ok (modify (update_db (\<lambda>d. d\<lparr>device_uploads := []\<rparr>)))"
  using keeps_drop_uploads [of "\<lambda>_. False"] by simp

lemma keeps_clear_log:
  "keeps tables_ok (modify (update_db (\<lambda>d. d\<lparr>event_log := map_option (\<lambda>_. []) (event_log d)\<rparr>)))"
  by (intro keeps_modify) (auto simp: tables_ok_def db_inv_def log_ok_def split: option.splits)

lemma reset_store_keeps [tables_keep]: "keeps tables_ok (reset_store e kd)"
  unfolding reset_store_def Let_def
  by (rule keep_steps keeps_in_tx keeps_clear_log keeps_no_uploads | rule keeps_same_db | simp add: entry_ok_def)+

lemma mark_unchanged_impl_keeps [tables_keep]: "keeps tables_ok (mark_unchanged_impl e k v del)"
  unfolding mark_unchanged_impl_def
  by (rule tables_keep keep_steps keeps_exec_insert keeps_in_tx | rule keeps_same_db | simp add: entry_ok_def)+

lemma remove_device_change_keeps [tables_keep]: "keeps tables_ok (remove_device_change e k dev)"
  unfolding remove_device_change_def by (intro keep_steps keeps_drop_uploads)

lemma prepare_account_added_keeps:
  assumes "tables_ok s" shows "tables_ok (prepare_account_added e dev s)"
proof -
  let ?new = "map (\<lambda>(k, _). (k, dev)) (data_index (db s))"
  have "?new = map (\<lambda>k. (k, dev)) (map fst (data_index (db s)))"
    by auto
  then have "distinct ?new"
    using assms by (auto simp: tables_ok_def db_inv_def distinct_map inj_on_def simp del: map_map)
  moreover have "\<forall>x \<in> set ?new. row (db s) (fst x) \<noteq> None"
    by (auto simp: map_of_eq_None_iff rev_image_eqI)
  ultimately have "db_inv ((db s)\<lparr>device_uploads :=
      filter (\<lambda>x. x \<notin> set ?new) (device_uploads (db s)) @ ?new\<rparr>)"
    using assms by (intro db_inv_uploads) (auto simp: tables_ok_def db_inv_def)
  then show ?thesis
    using assms by (simp add: prepare_account_added_def tables_ok_def Let_def)
qed

lemma start_sync_keeps [tables_keep]: "keeps tables_ok (start_sync e k)"
  unfolding start_sync_def
  by (rule tables_keep keep_steps keeps_exec_insert keeps_in_tx | rule keeps_same_db | simp add: entry_ok_def)+

lemma load_change_info_keeps [tables_keep]: "keeps tables_ok (load_change_info e sc)"
  unfolding load_change_info_def
  by (rule tables_keep keep_steps keeps_exec_insert keeps_in_tx | rule keeps_same_db | simp add: entry_ok_def)+

lemma update_version_keeps [tables_keep]: "keeps tables_ok (update_version e sc v w c)"
  unfolding update_version_def
  by (rule tables_keep keep_steps keeps_exec_insert keeps_in_tx | rule keeps_same_db | simp add: entry_ok_def)+

lemma store_changed_keeps [tables_keep]: "keeps tables_ok (store_changed e sc v f d c st)"
  unfolding store_changed_def
  by (rule tables_keep keep_steps keeps_exec_insert keeps_in_tx | rule keeps_same_db | simp add: entry_ok_def)+

lemma store_deleted_keeps [tables_keep]: "keeps tables_ok (store_deleted e sc v c st)"
  unfolding store_deleted_def Let_def
  by (rule tables_keep keep_steps keeps_exec_insert keeps_in_tx | rule keeps_same_db | simp add: entry_ok_def)+

lemma mark_unchanged_scope_keeps [tables_keep]: "keeps tables_ok (mark_unchanged_scope e sc v del)"
  unfolding mark_unchanged_scope_def
  by (rule tables_keep keep_steps keeps_exec_insert keeps_in_tx | rule keeps_same_db | simp add: entry_ok_def)+

lemma commit_sync_keeps [tables_keep]: "keeps tables_ok (commit_sync e sc)"
  unfolding commit_sync_def
  by (rule tables_keep keep_steps keeps_exec_insert keeps_in_tx | rule keeps_same_db | simp add: entry_ok_def)+

section \<open>Tables, files and cache agree\<close>

text \<open>The dataset stored under a key: the file its row names.\<close>

definition view :: "env \<Rightarrow> store \<Rightarrow> object_key \<Rightarrow> json_object option" where
  "view e s k = (case Option.bind (row (db s) k) dataFile of
       None \<Rightarrow> None
     | Some f \<Rightarrow> (case map_of (files s) (file_path e k f) of
           Some (JObject obj) \<Rightarrow> Some obj
         | _ \<Rightarrow> None))"

definition disk_ok :: "env \<Rightarrow> store \<Rightarrow> bool" where
  "disk_ok e s \<longleftrightarrow>
     (\<forall>k r f. row (db s) k = Some r \<longrightarrow> dataFile r = Some f \<longrightarrow>
        (\<exists>obj. map_of (files s) (file_path e k f) = Some (JObject obj) \<and>
               checksum r = Some (json_hash (hl e) obj))) \<and>
     (\<forall>k1 k2 r1 r2 f1 f2. row (db s) k1 = Some r1 \<longrightarrow> dataFile r1 = Some f1 \<longrightarrow>
        row (db s) k2 = Some r2 \<longrightarrow> dataFile r2 = Some f2 \<longrightarrow>
        file_path e k1 f1 = file_path e k2 f2 \<longrightarrow> k1 = k2)"

definition cache_ok :: "env \<Rightarrow> store \<Rightarrow> bool" where
  "cache_ok e s \<longleftrightarrow> (\<forall>c k obj. cache s = Some c \<longrightarrow> c k = Some obj \<longrightarrow> view e s k = Some obj)"

definition store_ok :: "env \<Rightarrow> store \<Rightarrow> bool" where
  "store_ok e s \<longleftrightarrow> tables_ok s \<and> disk_ok e s \<and> cache_ok e s"

text \<open>
  What the code relies on: \<open>QTemporaryFile\<close> picks a name that is not in use, and
  \<open>QCache\<close> discards entries but does not change them.
\<close>

definition env_ok :: "env \<Rightarrow> bool" where
  "env_ok e \<longleftrightarrow> (\<forall>ps d. (d, tmpName e ps) \<notin> set ps) \<and> (\<forall>c. trim e c \<subseteq>\<^sub>m c)"

lemma disk_okD:
  "disk_ok e s \<Longrightarrow> row (db s) k = Some r \<Longrightarrow> dataFile r = Some f \<Longrightarrow>
   \<exists>obj. map_of (files s) (file_path e k f) = Some (JObject obj) \<and> checksum r = Some (json_hash (hl e) obj)"
  unfolding disk_ok_def by blast

lemma disk_ok_pathD:
  "disk_ok e s \<Longrightarrow> row (db s) k1 = Some r1 \<Longrightarrow> dataFile r1 = Some f1 \<Longrightarrow>
   row (db s) k2 = Some r2 \<Longrightarrow> dataFile r2 = Some f2 \<Longrightarrow>
   file_path e k1 f1 = file_path e k2 f2 \<Longrightarrow> k1 = k2"
  unfolding disk_ok_def by blast

lemma disk_ok_sub:
  assumes "disk_ok e s"
    and live: "\<And>k r f. row (db u) k = Some r \<Longrightarrow> dataFile r = Some f \<Longrightarrow>
      \<exists>r'. row (db s) k = Some r' \<and> dataFile r' = Some f \<and> checksum r' = checksum r \<and>
        map_of (files u) (file_path e k f) = map_of (files s) (file_path e k f)"
  shows "disk_ok e u"
  unfolding disk_ok_def
proof (intro conjI allI impI)
  fix k r f
  assume "row (db u) k = Some r" "dataFile r = Some f"
  from live [OF this] obtain r' where "row (db s) k = Some r'" "dataFile r' = Some f"
    "checksum r' = checksum r" "map_of (files u) (file_path e k f) = map_of (files s) (file_path e k f)"
    by blast
  with disk_okD [OF assms(1), of k r' f]
  show "\<exists>obj. map_of (files u) (file_path e k f) = Some (JObject obj) \<and> checksum r = Some (json_hash (hl e) obj)"
    by simp
next
  fix k1 k2 r1 r2 f1 f2
  assume "row (db u) k1 = Some r1" "dataFile r1 = Some f1" "row (db u) k2 = Some r2"
    "dataFile r2 = Some f2" and eq: "file_path e k1 f1 = file_path e k2 f2"
  then obtain s1 s2 where "row (db s) k1 = Some s1" "dataFile s1 = Some f1"
    "row (db s) k2 = Some s2" "dataFile s2 = Some f2"
    using live by blast
  from disk_ok_pathD [OF assms(1) this eq] show "k1 = k2" .
qed

lemma file_path_eq: "file_path e k f = file_path e k' f' \<Longrightarrow> f = f'"
  by (simp add: file_path_def)

lemma view_None_iff: "disk_ok e s \<Longrightarrow> view e s k = None \<longleftrightarrow> Option.bind (row (db s) k) dataFile = None"
  by (auto simp: view_def dest!: disk_okD split: option.splits bind_splits)

lemma view_eqI:
  assumes "row (db t) k = row (db s) k"
    and "\<And>r f. row (db s) k = Some r \<Longrightarrow> dataFile r = Some f \<Longrightarrow>
      map_of (files t) (file_path e k f) = map_of (files s) (file_path e k f)"
  shows "view e t k = view e s k"
  using assms by (cases "row (db s) k"; cases "dataFile (the (row (db s) k))") (simp_all add: view_def)

lemma trim_le: "env_ok e \<Longrightarrow> trim e c k = Some x \<Longrightarrow> c k = Some x"
  by (auto simp: env_ok_def map_le_def dom_def) (metis (mono_tags, lifting))

section \<open>Writing a dataset\<close>

definition base_for :: "env \<Rightarrow> store \<Rightarrow> string option \<Rightarrow> string" where
  "base_for e s f = (case f of Some b \<Rightarrow> b | None \<Rightarrow> tmpName e (map fst (files s)))"

definition data_entry :: "env \<Rightarrow> u64 \<Rightarrow> string \<Rightarrow> json_object \<Rightarrow> bool \<Rightarrow> index_entry" where
  "data_entry e v base d c =
     \<lparr>version = v, dataFile = Some base, checksum = Some (json_hash (hl e) d), changed = c\<rparr>"

text \<open>\<open>t\<close> is \<open>s\<close> with \<open>d\<close> written under \<open>k\<close>.\<close>

definition wrote :: "env \<Rightarrow> object_key \<Rightarrow> u64 \<Rightarrow> json_object \<Rightarrow> bool \<Rightarrow> store \<Rightarrow> store \<Rightarrow> bool" where
  "wrote e k v d c s t \<longleftrightarrow> (let base = base_for e s (Option.bind (row (db s) k) dataFile) in
     row (db t) = (row (db s))(k \<mapsto> data_entry e v base d c) \<and>
     device_uploads (db t) = device_uploads (db s) \<and>
     files t = AList.update (file_path e k base) (JObject d) (files s) \<and>
     cache t = map_option (\<lambda>x. trim e (x(k \<mapsto> d))) (cache s) \<and> signals t = signals s)"

lemma update_one_row:
  "row d k = Some r \<Longrightarrow> row (update_index n (\<lambda>x _. x = k) (\<lambda>_. y) d) = (row d)(k \<mapsto> y)"
proof
  fix x
  show "row d k = Some r \<Longrightarrow> row (update_index n (\<lambda>x _. x = k) (\<lambda>_. y) d) x = ((row d)(k \<mapsto> y)) x"
    by (cases "row d x") auto
qed

lemma store_changed_impl_wrote:
  assumes "store_changed_impl e k v f d c ex s = (Inr a, t)"
    and "ex \<longleftrightarrow> row (db s) k \<noteq> None" and "f = Option.bind (row (db s) k) dataFile"
  shows "wrote e k v d c s t \<and> a = Emit (TriggerChange k False c)"
  using assms
  by (auto simp: store_changed_impl_def wrote_def base_for_def data_entry_def Let_def seq_def exec_insert_def
      put_cached_def update_db_def update_one_row act_defs insert_row_row insert_row_uploads
      split: if_splits option.splits prod.splits sum.splits)

lemma map_of_files_update: "map_of (AList.update p x fs) = (map_of fs)(p \<mapsto> x)"
  by (rule update_conv')

lemma wrote_view:
  assumes "store_ok e s" and "env_ok e" and "wrote e k v d c s t"
  shows "view e t = (view e s)(k \<mapsto> d)" and "disk_ok e t" and "cache_ok e t"
proof -
  let ?b = "base_for e s (Option.bind (row (db s) k) dataFile)"
  have disk: "disk_ok e s" and cache: "cache_ok e s"
    using assms(1) by (auto simp: store_ok_def)
  have t: "row (db t) = (row (db s))(k \<mapsto> data_entry e v ?b d c)"
    "files t = AList.update (file_path e k ?b) (JObject d) (files s)"
    "cache t = map_option (\<lambda>x. trim e (x(k \<mapsto> d))) (cache s)"
    using assms(3) by (auto simp: wrote_def Let_def)
  have other: "file_path e k' f' \<noteq> file_path e k ?b"
    if k': "k' \<noteq> k" and r': "row (db s) k' = Some r'" and f': "dataFile r' = Some f'" for k' r' f'
  proof
    assume eq: "file_path e k' f' = file_path e k ?b"
    show False
    proof (cases "Option.bind (row (db s) k) dataFile")
      case None
      then have "f' = tmpName e (map fst (files s))"
        using file_path_eq [OF eq] by (simp add: base_for_def)
      moreover have "file_path e k' f' \<in> set (map fst (files s))"
        using disk_okD [OF disk r' f'] by (force dest: map_of_SomeD)
      moreover have "(type_directory e (typeName k'), tmpName e (map fst (files s))) \<notin> set (map fst (files s))"
        using assms(2) unfolding env_ok_def by blast
      ultimately show False
        by (simp add: file_path_def)
    next
      case (Some f)
      then obtain r where "row (db s) k = Some r" "dataFile r = Some f"
        by (auto split: bind_splits)
      with disk_ok_pathD [OF disk r' f' this] eq Some k' show False
        by (simp add: base_for_def)
    qed
  qed
  have same: "map_of (files t) (file_path e k' f') = map_of (files s) (file_path e k' f')"
    if "k' \<noteq> k" "row (db s) k' = Some r'" "dataFile r' = Some f'" for k' r' f'
    using other [OF that] by (simp add: t map_of_files_update)
  show v: "view e t = (view e s)(k \<mapsto> d)"
  proof
    fix k'
    show "view e t k' = ((view e s)(k \<mapsto> d)) k'"
    proof (cases "k' = k")
      case True
      then show ?thesis by (simp add: view_def t data_entry_def map_of_files_update)
    next
      case False
      then have "row (db t) k' = row (db s) k'" by (simp add: t)
      then have "view e t k' = view e s k'"
        by (rule view_eqI) (rule same [OF False])
      with False show ?thesis by simp
    qed
  qed
  show "disk_ok e t"
    unfolding disk_ok_def
  proof (intro conjI allI impI)
    fix k' r' f'
    assume "row (db t) k' = Some r'" "dataFile r' = Some f'"
    then show "\<exists>obj. map_of (files t) (file_path e k' f') = Some (JObject obj) \<and>
        checksum r' = Some (json_hash (hl e) obj)"
      using same [of k'] disk_okD [OF disk, of k']
      by (cases "k' = k") (auto simp: t data_entry_def map_of_files_update)
  next
    fix k1 k2 r1 r2 f1 f2
    assume "row (db t) k1 = Some r1" "dataFile r1 = Some f1" "row (db t) k2 = Some r2"
      "dataFile r2 = Some f2" "file_path e k1 f1 = file_path e k2 f2"
    note r = this
    have is_base: "f = ?b" if "row (db t) k = Some x" "dataFile x = Some f" for x f
      using that by (auto simp: t data_entry_def)
    have keep: "row (db s) k' = Some x" if "k' \<noteq> k" "row (db t) k' = Some x" for k' x
      using that by (simp add: t)
    show "k1 = k2"
    proof (cases "k1 = k")
      case True
      show ?thesis
      proof (rule ccontr)
        assume "k1 \<noteq> k2"
        with True have "k2 \<noteq> k" by simp
        from other [OF this keep [OF this r(3)] r(4)] is_base [of r1 f1] r(1,2,5) True
        show False by simp
      qed
    next
      case False
      note k1 = keep [OF False r(1)]
      show ?thesis
      proof (cases "k2 = k")
        case True
        with other [OF False k1 r(2)] is_base [of r2 f2] r(3-5) show ?thesis by simp
      next
        case k2: False
        show ?thesis
          by (rule disk_ok_pathD [OF disk k1 r(2) keep [OF k2 r(3)] r(4,5)])
      qed
    qed
  qed
  show "cache_ok e t"
    unfolding cache_ok_def v
  proof (intro allI impI)
    fix c' k' obj
    assume "cache t = Some c'" "c' k' = Some obj"
    then obtain c0 where c0: "cache s = Some c0" "trim e (c0(k \<mapsto> d)) k' = Some obj"
      by (auto simp: t)
    with trim_le [OF assms(2) c0(2)] show "((view e s)(k \<mapsto> d)) k' = Some obj"
      using cache by (auto simp: cache_ok_def split: if_splits)
  qed
qed

section \<open>Saving\<close>

lemma save_cases:
  assumes "save e k d s = (Inr (), t)"
  shows "\<exists>u. wrote e k (case row (db s) k of Some x \<Rightarrow> version x + 1 | None \<Rightarrow> 1) d True s u \<and>
     t = emit_signal (TriggerChange k False True) u"
proof -
  let ?impl = "store_changed_impl e k (case row (db s) k of Some x \<Rightarrow> version x + 1 | None \<Rightarrow> 1)
      (Option.bind (row (db s) k) dataFile) d True (row (db s) k \<noteq> None) s"
  obtain res u where r: "?impl = (res, u)" by fastforce
  show ?thesis
  proof (cases res)
    case (Inl x)
    with assms r show ?thesis
      by (simp add: save_def in_tx_def on_throw_def act_simps split: if_splits)
  next
    case (Inr a)
    with r have "wrote e k (case row (db s) k of Some x \<Rightarrow> version x + 1 | None \<Rightarrow> 1) d True s u"
      and a: "a = Emit (TriggerChange k False True)"
      using store_changed_impl_wrote [of e k _ _ d True _ s a u] by blast+
    moreover have "t = run_after a u"
      using assms r Inr by (simp add: save_def in_tx_def on_throw_def act_simps split: if_splits)
    ultimately show ?thesis by auto
  qed
qed

lemma emit_signal_fields [simp]:
  "files (emit_signal x s) = files s" "cache (emit_signal x s) = cache s"
  "signals (emit_signal x s) = signals s @ [x]"
  by (simp_all add: emit_signal_def)

lemma emit_signal_same [simp]:
  "view e (emit_signal x s) = view e s" "disk_ok e (emit_signal x s) = disk_ok e s"
  "cache_ok e (emit_signal x s) = cache_ok e s"
proof -
  show "view e (emit_signal x s) = view e s"
    by (rule ext, rule view_eqI) simp_all
  then show "cache_ok e (emit_signal x s) = cache_ok e s"
    by (simp add: cache_ok_def)
qed (simp add: disk_ok_def)

lemma store_ok_emit [simp]: "store_ok e (emit_signal x s) = store_ok e s"
  by (simp add: store_ok_def tables_ok_def)

lemma save_ok:
  assumes "env_ok e" "store_ok e s" "save e k d s = (Inr (), t)"
  shows "store_ok e t" and "view e t = (view e s)(k \<mapsto> d)"
proof -
  obtain u where u: "wrote e k (case row (db s) k of Some x \<Rightarrow> version x + 1 | None \<Rightarrow> 1) d True s u"
    "t = emit_signal (TriggerChange k False True) u"
    using save_cases [OF assms(3)] by blast
  have "tables_ok t"
    using keepsD [OF save_keeps, of s e k d] assms(2,3) by (simp add: store_ok_def)
  then show "store_ok e t" "view e t = (view e s)(k \<mapsto> d)"
    using wrote_view [OF assms(2,1) u(1)] u(2) by (simp_all add: store_ok_def tables_ok_def)
qed

lemma save_row:
  assumes "save e k d s = (Inr (), t)"
  shows "\<exists>base. row (db t) k = Some (data_entry e
     (case row (db s) k of Some x \<Rightarrow> version x + 1 | None \<Rightarrow> 1) base d True)"
    and "k' \<noteq> k \<Longrightarrow> row (db t) k' = row (db s) k'"
    and "signals t = signals s @ [TriggerChange k False True]"
  using save_cases [OF assms] by (auto simp: wrote_def Let_def emit_signal_def)

lemma store_changed_impl_calm:
  assumes "\<forall>c. ok e c" and "ex \<longleftrightarrow> row (db s) k \<noteq> None"
  shows "\<exists>a t. store_changed_impl e k v f d c ex s = (Inr a, t)"
  using assms by (auto simp: store_changed_impl_def exec_insert_def seq_def act_defs Let_def insert_row_def
      split: option.split)

lemma save_calm:
  assumes "\<forall>c. ok e c" shows "\<exists>t. save e k d s = (Inr (), t)"
proof -
  obtain a t where "store_changed_impl e k
      (case row (db s) k of Some x \<Rightarrow> version x + 1 | None \<Rightarrow> 1)
      (Option.bind (row (db s) k) dataFile) d True (row (db s) k \<noteq> None) s = (Inr a, t)"
    using store_changed_impl_calm [OF assms] by blast
  then show ?thesis
    using assms by (simp add: save_def in_tx_def on_throw_def act_simps)
qed

lemma store_changed_impl_throws:
  assumes "store_changed_impl e k v f d c ex s = (Inl x, t)"
  shows "x = LocalStoreError k \<and> files t = files s \<and> cache t = cache s \<and> signals t = signals s"
  using assms
  by (auto simp: store_changed_impl_def exec_insert_def Let_def update_db_def act_defs
      elim!: seq_InlE seq_InrE split: if_splits option.splits)

lemma store_changed_impl_signals:
  assumes "store_changed_impl e k v f d c ex s = (Inr a, t)"
  shows "signals t = signals s"
  using assms
  by (auto simp: store_changed_impl_def exec_insert_def Let_def update_db_def put_cached_def act_defs
      elim!: seq_InrE split: if_splits option.splits)

lemma save_throws:
  assumes "save e k d s = (Inl x, t)"
  shows "x = LocalStoreError k" and "db t = db s" and "signals t = signals s"
    and "files t \<noteq> files s \<Longrightarrow> \<not> ok e CCommit"
    and "ok e CBegin \<Longrightarrow> get_cached t k = None"
  using assms
  by (auto simp: save_def in_tx_def on_throw_Inl get_cached_def drop_cached_def act_defs
      dest: store_changed_impl_throws store_changed_impl_signals
      elim!: seq_InlE seq_InrE split: if_splits option.splits)

section \<open>Reading\<close>

lemma store_okD:
  "store_ok e s \<Longrightarrow> tables_ok s" "store_ok e s \<Longrightarrow> disk_ok e s" "store_ok e s \<Longrightarrow> cache_ok e s"
  by (simp_all add: store_ok_def)

text \<open>States that differ in the cache and the signals only.\<close>

definition same_data :: "store \<Rightarrow> store \<Rightarrow> bool" where
  "same_data s t \<longleftrightarrow> db t = db s \<and> files t = files s"

lemma same_data_view: "same_data s t \<Longrightarrow> view e t = view e s"
  by (rule ext, rule view_eqI) (simp_all add: same_data_def)

lemma same_data_ok:
  "same_data s t \<Longrightarrow> store_ok e s \<Longrightarrow> cache_ok e t \<Longrightarrow> store_ok e t"
  by (simp add: store_ok_def tables_ok_def disk_ok_def same_data_def)

lemma put_cached_same: "same_data s (put_cached e k d s)"
  by (simp add: same_data_def put_cached_def)

lemma put_cached_ok:
  assumes "env_ok e" "cache_ok e s" "view e s k = Some d"
  shows "cache_ok e (put_cached e k d s)"
  unfolding cache_ok_def same_data_view [OF put_cached_same]
proof (intro allI impI)
  fix c k' obj
  assume "cache (put_cached e k d s) = Some c" "c k' = Some obj"
  then obtain c0 where c0: "cache s = Some c0" "trim e (c0(k \<mapsto> d)) k' = Some obj"
    by (auto simp: put_cached_def)
  with trim_le [OF assms(1) c0(2)] assms(2,3) show "view e s k' = Some obj"
    by (auto simp: cache_ok_def split: if_splits)
qed

lemma put_cached_list_ok:
  assumes "env_ok e" "cache_ok e s" "\<forall>(k, d) \<in> set l. view e s k = Some d"
  shows "cache_ok e (put_cached_list e l s) \<and> same_data s (put_cached_list e l s)"
  using assms(2,3)
proof (induction l arbitrary: s)
  case Nil
  then show ?case by (simp add: same_data_def)
next
  case (Cons kd rest)
  obtain k d where kd: "kd = (k, d)" by fastforce
  with Cons.prems have "cache_ok e (put_cached e k d s)"
    by (intro put_cached_ok assms(1)) auto
  then show ?case
    using Cons same_data_view [OF put_cached_same, of e e k d s] put_cached_same [of s e k d]
    by (auto simp: kd same_data_def)
qed

lemma read_json_Inr:
  "read_json e k f s = (Inr obj, t) \<Longrightarrow> t = s \<and> map_of (files s) (file_path e k f) = Some (JObject obj)"
  by (auto simp: read_json_def act_defs split: if_splits option.splits json.splits)

lemma read_json_Inl: "read_json e k f s = (Inl x, t) \<Longrightarrow> t = s \<and> x = LocalStoreError k"
  by (auto simp: read_json_def act_defs split: if_splits option.splits json.splits)

lemma read_json_calm:
  "\<forall>c. ok e c \<Longrightarrow> map_of (files s) (file_path e k f) = Some (JObject obj) \<Longrightarrow>
   read_json e k f s = (Inr obj, s)"
  by (simp add: read_json_def act_defs)

lemma load_Inr:
  assumes "env_ok e" "store_ok e s" "load e k s = (Inr obj, t)"
  shows "view e s k = Some obj" and "store_ok e t" and "same_data s t"
proof -
  have "view e s k = Some obj \<and> cache_ok e t \<and> same_data s t"
  proof (cases "get_cached s k")
    case (Some d)
    with assms show ?thesis
      by (auto simp: load_def ret_def get_cached_def store_ok_def cache_ok_def same_data_def split: option.splits)
  next
    case None
    obtain f where f: "Option.bind (row (db s) k) dataFile = Some f"
      using assms(3) None
      by (auto simp: load_def in_tx_def on_throw_Inr throw_def split: if_splits option.splits)
    obtain r u where r: "read_json e k f s = (r, u)" by fastforce
    have "r = Inr obj \<and> t = put_cached e k obj u"
      using assms(3) None f r
      by (cases r) (auto simp: load_def in_tx_def on_throw_Inr act_simps split: if_splits)
    with r f have "view e s k = Some obj" "t = put_cached e k obj s"
      by (auto simp: view_def dest!: read_json_Inr)
    then show ?thesis
      using put_cached_ok [OF assms(1) store_okD(3) [OF assms(2)]] put_cached_same by simp
  qed
  then show "view e s k = Some obj" "store_ok e t" "same_data s t"
    using same_data_ok assms(2) by blast+
qed

lemma load_calm:
  assumes "\<forall>c. ok e c" "store_ok e s"
  shows "fst (load e k s) = (case view e s k of Some obj \<Rightarrow> Inr obj | None \<Rightarrow> Inl (NoDataError k))"
proof (cases "get_cached s k")
  case (Some d)
  with assms(2) show ?thesis
    by (auto simp: load_def ret_def get_cached_def store_ok_def cache_ok_def split: option.splits)
next
  case None
  show ?thesis
  proof (cases "Option.bind (row (db s) k) dataFile")
    case None': None
    with None assms show ?thesis
      by (simp add: load_def in_tx_def on_throw_def throw_def view_def)
  next
    case (Some f)
    then obtain obj where "map_of (files s) (file_path e k f) = Some (JObject obj)"
      using disk_okD [OF store_okD(2) [OF assms(2)]] by (auto split: bind_splits)
    with Some None assms read_json_calm [OF assms(1), of s k f obj] show ?thesis
      by (simp add: load_def in_tx_def on_throw_def act_simps view_def)
  qed
qed

lemma load_Inl_no_data:
  assumes "load e k s = (Inl (NoDataError k'), t)" "store_ok e s"
  shows "view e s k = None"
proof (cases "get_cached s k")
  case (Some d)
  with assms show ?thesis by (simp add: load_def ret_def)
next
  case None
  have "Option.bind (row (db s) k) dataFile = None"
  proof (cases "Option.bind (row (db s) k) dataFile")
    case (Some f)
    obtain r u where "read_json e k f s = (r, u)" by fastforce
    with assms(1) None Some show ?thesis
      by (cases r) (auto simp: load_def in_tx_def on_throw_Inl act_simps dest: read_json_Inl split: if_splits)
  qed
  then show ?thesis by (simp add: view_def)
qed

section \<open>Removing, clearing, resetting\<close>

definition deleted_entry :: "u64 \<Rightarrow> bool \<Rightarrow> index_entry" where
  "deleted_entry v c = \<lparr>version = v, dataFile = None, checksum = None, changed = c\<rparr>"

lemma deleted_entry_fields [simp]:
  "version (deleted_entry v c) = v" "dataFile (deleted_entry v c) = None"
  "checksum (deleted_entry v c) = None" "changed (deleted_entry v c) = c"
  by (simp_all add: deleted_entry_def)

text \<open>\<open>t\<close> is \<open>s\<close> with the dataset of \<open>k\<close> replaced by a deletion mark.\<close>

definition erased :: "env \<Rightarrow> object_key \<Rightarrow> u64 \<Rightarrow> bool \<Rightarrow> store \<Rightarrow> store \<Rightarrow> bool" where
  "erased e k v c s t \<longleftrightarrow>
     row (db t) = (row (db s))(k \<mapsto> deleted_entry v c) \<and>
     device_uploads (db t) = device_uploads (db s) \<and>
     files t = (case Option.bind (row (db s) k) dataFile of
         None \<Rightarrow> files s | Some f \<Rightarrow> AList.delete (file_path e k f) (files s)) \<and>
     cache t = map_option (\<lambda>x. x(k := None)) (cache s)"

lemma map_of_files_delete: "map_of (AList.delete p fs) = (map_of fs)(p := None)"
  by (rule delete_conv')

lemma erased_files:
  assumes "disk_ok e s" "erased e k v c s t" "k' \<noteq> k" "row (db s) k' = Some r'" "dataFile r' = Some f'"
  shows "map_of (files t) (file_path e k' f') = map_of (files s) (file_path e k' f')"
proof (cases "Option.bind (row (db s) k) dataFile")
  case None
  with assms(2) show ?thesis by (simp add: erased_def)
next
  case (Some f)
  then obtain r where r: "row (db s) k = Some r" "dataFile r = Some f"
    by (auto split: bind_splits)
  have "file_path e k' f' \<noteq> file_path e k f"
    using disk_ok_pathD [OF assms(1,4,5) r] assms(3) by blast
  with Some assms(2) show ?thesis by (simp add: erased_def map_of_files_delete)
qed

lemma erased_view:
  assumes "store_ok e s" and "erased e k v c s t"
  shows "view e t = (view e s)(k := None)" and "disk_ok e t" and "cache_ok e t"
proof -
  have disk: "disk_ok e s" and cache: "cache_ok e s"
    using assms(1) by (auto simp: store_ok_def)
  have row: "row (db t) = (row (db s))(k \<mapsto> deleted_entry v c)"
    using assms(2) unfolding erased_def by blast
  note same = erased_files [OF disk assms(2)]
  have keep: "row (db s) k' = Some x \<and> k' \<noteq> k" if "row (db t) k' = Some x" "dataFile x = Some f" for k' x f
    using that by (auto simp: row deleted_entry_def split: if_splits)
  show v: "view e t = (view e s)(k := None)"
  proof
    fix k'
    show "view e t k' = ((view e s)(k := None)) k'"
    proof (cases "k' = k")
      case True
      then show ?thesis by (simp add: view_def row deleted_entry_def)
    next
      case False
      then have "view e t k' = view e s k'"
        by (intro view_eqI) (simp_all add: row same)
      with False show ?thesis by simp
    qed
  qed
  show "disk_ok e t"
    by (rule disk_ok_sub [OF disk]) (use keep same in blast)
  show "cache_ok e t"
    using cache assms(2) unfolding cache_ok_def v by (auto simp: erased_def)
qed

lemma remove_Inr:
  assumes "remove e k s = (Inr b, t)"
  shows "b \<longleftrightarrow> Option.bind (row (db s) k) dataFile \<noteq> None"
    and "\<not> b \<Longrightarrow> t = s"
    and "row (db s) k = Some r \<Longrightarrow> b \<Longrightarrow> erased e k (version r + 1) True s t"
    and "b \<Longrightarrow> signals t = signals s @ [TriggerChange k True True]"
  using assms
  by (auto simp: remove_def in_tx_def on_throw_Inr act_defs erased_def deleted_entry_def update_db_def
      drop_cached_def emit_signal_def update_one_row split: if_splits option.splits bind_splits)

lemma remove_ok:
  assumes "store_ok e s" "remove e k s = (Inr b, t)"
  shows "store_ok e t" and "view e t = (view e s)(k := None)" and "b \<longleftrightarrow> view e s k \<noteq> None"
proof -
  have tables: "tables_ok t"
    using keepsD [OF remove_keeps, of s e k] assms by (simp add: store_ok_def)
  have b: "b \<longleftrightarrow> view e s k \<noteq> None"
    using remove_Inr(1) [OF assms(2)] view_None_iff [OF store_okD(2) [OF assms(1)], of k] by simp
  then show "b \<longleftrightarrow> view e s k \<noteq> None" .
  have "store_ok e t \<and> view e t = (view e s)(k := None)"
  proof (cases b)
    case True
    then obtain r where "row (db s) k = Some r"
      using remove_Inr(1) [OF assms(2)] by (auto split: bind_splits)
    from erased_view [OF assms(1) remove_Inr(3) [OF assms(2) this True]] tables
    show ?thesis by (simp add: store_ok_def)
  next
    case False
    with b remove_Inr(2) [OF assms(2)] assms(1) show ?thesis by (auto simp: fun_eq_iff)
  qed
  then show "store_ok e t" "view e t = (view e s)(k := None)" by auto
qed

lemma remove_calm:
  assumes "\<forall>c. ok e c" "store_ok e s" shows "\<exists>b t. remove e k s = (Inr b, t)"
proof (cases "Option.bind (row (db s) k) (\<lambda>x. map_option (\<lambda>f. (version x, f)) (dataFile x))")
  case None
  with assms(1) show ?thesis
    by (simp add: remove_def in_tx_def on_throw_def ret_def) blast
next
  case (Some vf)
  then obtain r f where rf: "row (db s) k = Some r" "dataFile r = Some f" "vf = (version r, f)"
    by (auto split: bind_splits)
  with Some disk_okD [OF store_okD(2) [OF assms(2)] rf(1,2)] assms(1) show ?thesis
    by (auto simp: remove_def in_tx_def on_throw_def ret_def update_db_def)
qed

text \<open>
  No other stored type shares the directory of \<open>t\<close>. Percent encoding followed by
  replacing \<open>%\<close> with \<open>_\<close> is not injective, so this is a condition on the types in use.
\<close>

definition dir_private :: "env \<Rightarrow> store \<Rightarrow> bytes \<Rightarrow> bool" where
  "dir_private e s t \<longleftrightarrow> (\<forall>k r. row (db s) k = Some r \<longrightarrow> dataFile r \<noteq> None \<longrightarrow>
     type_directory e (typeName k) = type_directory e t \<longrightarrow> typeName k = t)"

lemma stored_rows_mem:
  assumes "distinct_keys (data_index d)"
  shows "(k, f) \<in> set (stored_rows t cond d) \<longleftrightarrow>
     typeName k = t \<and> cond (keyId k) \<and> Option.bind (row d k) dataFile = Some f"
proof -
  have "(k, f) \<in> set (stored_rows t cond d) \<longleftrightarrow>
      (\<exists>r. (k, r) \<in> set (data_index d) \<and> typeName k = t \<and> cond (keyId k) \<and> dataFile r = Some f)"
    by (auto simp: stored_rows_def set_map_filter split: if_splits; force)
  then show ?thesis
    using assms by (auto simp: bind_eq_Some_conv)
qed

lemma key_eqI: "typeName k = typeName k' \<Longrightarrow> keyId k = keyId k' \<Longrightarrow> k = (k' :: object_key)"
  by simp

lemma clear_Inr:
  assumes "clear_store e t s = (Inr (), u)" and "distinct_keys (data_index (db s))"
  shows "row (db u) k = map_option (\<lambda>r. if typeName k = t \<and> dataFile r \<noteq> None
      then deleted_entry (version r + 1) True else r) (row (db s) k)"
    and "files u = filter (\<lambda>(pa, _). \<not> (fst pa = type_directory e t \<and> ok e (CRemoveFile pa))) (files s)"
    and "cache u = map_option (\<lambda>c k. if typeName k = t \<and> Option.bind (row (db s) k) dataFile \<noteq> None
      then None else c k) (cache s)"
proof -
  let ?ids = "map (keyId \<circ> fst) (stored_rows t (\<lambda>_. True) (db s))"
  have u: "u = emit_signal (TriggerClear t ?ids) (drop_cached_ids t ?ids
      ((update_db (update_index (now e) (\<lambda>k r. typeName k = t \<and> dataFile r \<noteq> None)
       (\<lambda>r. r\<lparr>version := version r + 1, dataFile := None, checksum := None, changed := True\<rparr>)) s)
       \<lparr>files := filter (\<lambda>(pa, _). \<not> (fst pa = type_directory e t \<and> ok e (CRemoveFile pa))) (files s)\<rparr>))"
    using assms(1) by (auto simp: clear_store_def in_tx_def on_throw_Inr act_defs update_db_def split: if_splits)
  show "row (db u) k = map_option (\<lambda>r. if typeName k = t \<and> dataFile r \<noteq> None
      then deleted_entry (version r + 1) True else r) (row (db s) k)"
    by (cases "row (db s) k") (auto simp: u deleted_entry_def)
  show "files u = filter (\<lambda>(pa, _). \<not> (fst pa = type_directory e t \<and> ok e (CRemoveFile pa))) (files s)"
    by (simp add: u drop_cached_ids_def)
  have "typeName k = t \<and> keyId k \<in> set ?ids \<longleftrightarrow> typeName k = t \<and> Option.bind (row (db s) k) dataFile \<noteq> None" for k
  proof -
    have "keyId k \<in> set ?ids \<longleftrightarrow> (\<exists>k' f. (k', f) \<in> set (stored_rows t (\<lambda>_. True) (db s)) \<and> keyId k' = keyId k)"
      by force
    also have "\<dots> \<longleftrightarrow> (\<exists>k' f. typeName k' = t \<and> keyId k' = keyId k \<and> Option.bind (row (db s) k') dataFile = Some f)"
      by (auto simp: stored_rows_mem [OF assms(2)])
    finally show ?thesis
      using key_eqI by blast
  qed
  then show "cache u = map_option (\<lambda>c k. if typeName k = t \<and> Option.bind (row (db s) k) dataFile \<noteq> None
      then None else c k) (cache s)"
    by (simp add: u drop_cached_ids_def update_db_def)
qed

lemma map_of_filter_key: "map_of (filter (\<lambda>(p, _). P p) t) p = (if P p then map_of t p else None)"
  by (induction t) auto

lemma clear_ok:
  assumes "store_ok e s" "clear_store e t s = (Inr (), u)" "dir_private e s t"
  shows "store_ok e u" and "view e u = (\<lambda>k. if typeName k = t then None else view e s k)"
proof -
  have disk: "disk_ok e s" and dist: "distinct_keys (data_index (db s))" and cache: "cache_ok e s"
    using assms(1) by (auto simp: store_ok_def tables_ok_def db_inv_def)
  note c = clear_Inr [OF assms(2) dist]
  have keep: "row (db s) k = Some r \<and> typeName k \<noteq> t \<and>
      map_of (files u) (file_path e k f) = map_of (files s) (file_path e k f)"
    if "row (db u) k = Some r" "dataFile r = Some f" for k r f
  proof -
    have "map_option (\<lambda>r. if typeName k = t \<and> dataFile r \<noteq> None
        then deleted_entry (version r + 1) True else r) (row (db s) k) = Some r"
      using that(1) by (simp only: c(1))
    then obtain r0 where r0: "row (db s) k = Some r0"
      "(if typeName k = t \<and> dataFile r0 \<noteq> None then deleted_entry (version r0 + 1) True else r0) = r"
      unfolding map_option_eq_Some by blast
    with that(2) have r: "row (db s) k = Some r \<and> typeName k \<noteq> t"
      by (cases "typeName k = t \<and> dataFile r0 \<noteq> None") auto
    then have "type_directory e (typeName k) \<noteq> type_directory e t"
      using assms(3) that(2) by (auto simp: dir_private_def)
    with r show ?thesis by (simp add: c(2) map_of_filter_key file_path_def)
  qed
  show v: "view e u = (\<lambda>k. if typeName k = t then None else view e s k)"
  proof
    fix k
    show "view e u k = (if typeName k = t then None else view e s k)"
    proof (cases "typeName k = t")
      case True
      then have "Option.bind (row (db u) k) dataFile = None"
        using keep by (cases "row (db u) k"; cases "dataFile (the (row (db u) k))") auto
      with True show ?thesis by (simp add: view_def)
    next
      case False
      then have same: "row (db u) k = row (db s) k" by (cases "row (db s) k") (simp_all add: c(1))
      have "view e u k = view e s k"
      proof (rule view_eqI [OF same])
        fix r f
        assume "row (db s) k = Some r" "dataFile r = Some f"
        with keep same show "map_of (files u) (file_path e k f) = map_of (files s) (file_path e k f)" by metis
      qed
      with False show ?thesis by simp
    qed
  qed
  have "disk_ok e u"
    by (rule disk_ok_sub [OF disk]) (use keep in blast)
  moreover have "cache_ok e u"
    unfolding cache_ok_def v
  proof (intro allI impI)
    fix cc k obj
    assume a: "cache u = Some cc" "cc k = Some obj"
    then obtain c0 where c0: "cache s = Some c0" "c0 k = Some obj"
      "\<not> (typeName k = t \<and> Option.bind (row (db s) k) dataFile \<noteq> None)"
      by (auto simp: c(3) split: if_splits)
    with cache have "view e s k = Some obj" by (auto simp: cache_ok_def)
    with c0(3) view_None_iff [OF disk, of k] show "(if typeName k = t then None else view e s k) = Some obj"
      by auto
  qed
  moreover have "tables_ok u"
    using keepsD [OF clear_store_keeps, of s e t] assms by (simp add: store_ok_def)
  ultimately show "store_ok e u" by (simp add: store_ok_def)
qed

lemma reset_ok:
  assumes "store_ok e s" "reset_store e keepData s = (Inr (), u)"
  shows "store_ok e u" and "view e u = (if keepData then view e s else (\<lambda>_. None))"
    and "\<not> keepData \<Longrightarrow> data_index (db u) = [] \<and> device_uploads (db u) = []"
    and "keepData \<Longrightarrow> device_uploads (db u) = [] \<and>
      row (db u) k = map_option (\<lambda>r. r\<lparr>changed := True\<rparr>) (row (db s) k)"
proof -
  have tables: "tables_ok u"
    using keepsD [OF reset_store_keeps, of s e keepData] assms by (simp add: store_ok_def)
  have k: "row (db u) x = map_option (\<lambda>r. r\<lparr>changed := True\<rparr>) (row (db s) x) \<and>
      device_uploads (db u) = [] \<and> files u = files s \<and> cache u = cache s" if keepData for x
    using assms(2) that
    by (auto simp: reset_store_def in_tx_def on_throw_Inr act_defs Let_def seq_assoc update_db_def split: if_splits)
  have d: "data_index (db u) = [] \<and> device_uploads (db u) = [] \<and> cache u = map_option (\<lambda>_. Map.empty) (cache s)"
    if "\<not> keepData"
    using assms(2) that
    by (auto simp: reset_store_def in_tx_def on_throw_Inr act_defs Let_def seq_assoc update_db_def delete_index_def
        delete_rows_def drop_cached_all_def emit_signal_def split: if_splits)
  have v: "view e u = (if keepData then view e s else (\<lambda>_. None))"
  proof (cases keepData)
    case True
    then have "view e u x = view e s x" for x
      using k [OF True, of x] by (cases "row (db s) x") (simp_all add: view_def cong: option.case_cong)
    with True show ?thesis by auto
  next
    case False
    with d show ?thesis by (auto simp: view_def)
  qed
  then show "view e u = (if keepData then view e s else (\<lambda>_. None))" .
  have "disk_ok e u"
  proof (cases keepData)
    case True
    have "\<exists>r'. row (db s) x = Some r' \<and> dataFile r' = dataFile r \<and> checksum r' = checksum r"
      if "row (db u) x = Some r" for x r
      using that k [OF True, of x] by auto
    then show ?thesis
      using k [OF True] by (intro disk_ok_sub [OF store_okD(2) [OF assms(1)]]) fastforce
  next
    case False
    with d show ?thesis by (simp add: disk_ok_def)
  qed
  moreover have "cache_ok e u"
    using k d store_okD(3) [OF assms(1)] v by (cases keepData) (auto simp: cache_ok_def)
  ultimately show "store_ok e u"
    using tables by (simp add: store_ok_def)
  show "\<not> keepData \<Longrightarrow> data_index (db u) = [] \<and> device_uploads (db u) = []"
    using d by simp
  show "keepData \<Longrightarrow> device_uploads (db u) = [] \<and>
      row (db u) k = map_option (\<lambda>r. r\<lparr>changed := True\<rparr>) (row (db s) k)"
    using k by simp
qed

end
