(* ===== verification/CalmStore.thy ===== *)
theory CalmStore
  imports LocalStoreProps
begin

text \<open>
  The contract of the local store as its clients see it - a map from keys to datasets -
  as a locale, and its interpretation on the operations of \<open>src/datasync/localstore.cpp\<close> in
  an environment in which no call fails. Also the reading operations that list keys.
\<close>

section \<open>The contract\<close>

datatype ('k, 'v) kv_op = Put 'k 'v | Del 'k

fun kv_step :: "('k, 'v) kv_op \<Rightarrow> ('k \<Rightarrow> 'v option) \<Rightarrow> ('k \<Rightarrow> 'v option)" where
  "kv_step (Put k v) m = m(k \<mapsto> v)"
| "kv_step (Del k) m = m(k := None)"

fun last_write :: "'k \<Rightarrow> ('k, 'v) kv_op list \<Rightarrow> 'v option option" where
  "last_write k [] = None"
| "last_write k (Put k' v # ops) =
     (case last_write k ops of Some x \<Rightarrow> Some x | None \<Rightarrow> if k' = k then Some (Some v) else None)"
| "last_write k (Del k' # ops) =
     (case last_write k ops of Some x \<Rightarrow> Some x | None \<Rightarrow> if k' = k then Some None else None)"

locale kv_store =
  fixes inv :: "'s \<Rightarrow> bool"
    and lookup :: "'s \<Rightarrow> 'k \<Rightarrow> 'v option"
    and put :: "'k \<Rightarrow> 'v \<Rightarrow> 's \<Rightarrow> 's"
    and del :: "'k \<Rightarrow> 's \<Rightarrow> 's"
    and get :: "'k \<Rightarrow> 's \<Rightarrow> 'v option \<times> 's"
  assumes put_inv: "inv s \<Longrightarrow> inv (put k v s)"
    and put_lookup: "inv s \<Longrightarrow> lookup (put k v s) = (lookup s)(k \<mapsto> v)"
    and del_inv: "inv s \<Longrightarrow> inv (del k s)"
    and del_lookup: "inv s \<Longrightarrow> lookup (del k s) = (lookup s)(k := None)"
    and get_inv: "inv s \<Longrightarrow> inv (snd (get k s))"
    and get_lookup: "inv s \<Longrightarrow> lookup (snd (get k s)) = lookup s"
    and get_value: "inv s \<Longrightarrow> fst (get k s) = lookup s k"
begin

fun exec :: "('k, 'v) kv_op \<Rightarrow> 's \<Rightarrow> 's" where
  "exec (Put k v) s = put k v s"
| "exec (Del k) s = del k s"

lemma exec_step: "inv s \<Longrightarrow> inv (exec op s) \<and> lookup (exec op s) = kv_step op (lookup s)"
  by (cases op) (simp_all add: put_inv put_lookup del_inv del_lookup)

lemma run_lookup: "inv s \<Longrightarrow> inv (fold exec ops s) \<and> lookup (fold exec ops s) = fold kv_step ops (lookup s)"
  by (induction ops arbitrary: s) (simp_all add: exec_step)

lemma fold_last_write:
  "fold kv_step ops m k = (case last_write k ops of None \<Rightarrow> m k | Some x \<Rightarrow> x)"
  by (induction k ops arbitrary: m rule: last_write.induct) (auto split: option.split)

lemma last_write_wins:
  assumes "inv s"
  shows "fst (get k (fold exec ops s)) = (case last_write k ops of None \<Rightarrow> lookup s k | Some x \<Rightarrow> x)"
  using run_lookup [OF assms, of ops] by (simp add: get_value fold_last_write)

lemma get_transparent:
  assumes "inv s"
  shows "fst (get k (snd (get k' s))) = fst (get k s)"
  using assms by (simp add: get_value get_inv get_lookup)

lemma put_put: "inv s \<Longrightarrow> lookup (put k v (put k w s)) = lookup (put k v s)"
  by (simp add: put_lookup put_inv)

lemma put_commute:
  "inv s \<Longrightarrow> k \<noteq> k' \<Longrightarrow> lookup (put k v (put k' w s)) = lookup (put k' w (put k v s))"
  by (simp add: put_lookup put_inv fun_upd_twist)

end

section \<open>An environment without failures\<close>

text \<open>A base name longer than every one in use.\<close>

definition fresh_name :: "path list \<Rightarrow> string" where
  "fresh_name ps = replicate (Suc (sum_list (map (\<lambda>p. length (snd p)) ps))) (CHR ''x'')"

definition calm_env :: "hlib \<Rightarrow> (bytes \<Rightarrow> string) \<Rightarrow> (json_cache \<Rightarrow> json_cache) \<Rightarrow> nat \<Rightarrow> bool \<Rightarrow> env" where
  "calm_env h en tr n pd = \<lparr>ok = (\<lambda>_. True), enc = en, tmpName = fresh_name, trim = tr, now = n,
     hl = h, persistDeleted = pd\<rparr>"

lemma fresh_name_new: "(d, fresh_name ps) \<notin> set ps"
proof
  assume "(d, fresh_name ps) \<in> set ps"
  then have "length (fresh_name ps) \<le> sum_list (map (\<lambda>p. length (snd p)) ps)"
    using member_le_sum_list [of "length (fresh_name ps)" "map (\<lambda>p. length (snd p)) ps"] by force
  then show False by (simp add: fresh_name_def)
qed

lemma calm_env_fields [simp]:
  "ok (calm_env h en tr n pd) c" "enc (calm_env h en tr n pd) = en" "hl (calm_env h en tr n pd) = h"
  "persistDeleted (calm_env h en tr n pd) = pd"
  by (simp_all add: calm_env_def)

lemma calm_env_ok: "(\<And>c. tr c \<subseteq>\<^sub>m c) \<Longrightarrow> env_ok (calm_env h en tr n pd)"
  by (simp add: env_ok_def fresh_name_new calm_env_def)

definition empty_store :: store where
  "empty_store = \<lparr>db = \<lparr>data_index = [], device_uploads = [], event_log = None, insert_trigger = False, update_trigger = False,
     last_seq = 0\<rparr>, files = [], cache = Some Map.empty, signals = []\<rparr>"

lemma empty_store_ok: "store_ok e empty_store"
  by (simp add: store_ok_def tables_ok_def db_inv_def log_ok_def disk_ok_def cache_ok_def empty_store_def)

lemma empty_store_view: "view e empty_store = Map.empty"
  by (simp add: view_def empty_store_def fun_eq_iff)

section \<open>The store meets the contract\<close>

definition loaded :: "(store_error + json_object) \<times> store \<Rightarrow> json_object option \<times> store" where
  "loaded r = (case r of (Inr d, s) \<Rightarrow> (Some d, s) | (Inl _, s) \<Rightarrow> (None, s))"

lemma load_throws_same:
  assumes "load e k s = (Inl x, t)" "store_ok e s" "env_ok e"
  shows "same_data s t" and "cache t = cache s \<or> (\<exists>d. t = put_cached e k d s \<and> view e s k = Some d)"
proof -
  have "same_data s t \<and> (cache t = cache s \<or> (\<exists>d. t = put_cached e k d s \<and> view e s k = Some d))"
  proof (cases "get_cached s k")
    case (Some d)
    with assms(1) show ?thesis by (simp add: load_def ret_def)
  next
    case None
    show ?thesis
    proof (cases "Option.bind (row (db s) k) dataFile")
      case None': None
      with assms(1) None show ?thesis
        by (auto simp: load_def in_tx_def on_throw_Inl act_defs same_data_def split: if_splits)
    next
      case (Some f)
      obtain r u where r: "read_json e k f s = (r, u)" by fastforce
      show ?thesis
      proof (cases r)
        case (Inl y)
        with assms(1) None Some r show ?thesis
          by (auto simp: load_def in_tx_def on_throw_Inl act_simps same_data_def dest: read_json_Inl split: if_splits)
      next
        case (Inr d)
        then have "u = s" "view e s k = Some d"
          using read_json_Inr [of e k f s d u] r Some by (auto simp: view_def)
        with assms(1) None Some r Inr show ?thesis
          by (auto simp: load_def in_tx_def on_throw_Inl act_simps same_data_def put_cached_def split: if_splits)
      qed
    qed
  qed
  then show "same_data s t" "cache t = cache s \<or> (\<exists>d. t = put_cached e k d s \<and> view e s k = Some d)" by auto
qed

lemma load_keeps_ok:
  assumes "store_ok e s" "env_ok e"
  shows "store_ok e (snd (load e k s))" and "view e (snd (load e k s)) = view e s"
proof -
  obtain r t where r: "load e k s = (r, t)" by fastforce
  have "store_ok e t \<and> same_data s t"
  proof (cases r)
    case (Inr d)
    with r show ?thesis using load_Inr [OF assms(2,1)] by blast
  next
    case (Inl x)
    note t = load_throws_same [OF r [unfolded Inl] assms]
    have "cache_ok e t"
      using t(2)
    proof
      assume "cache t = cache s"
      with store_okD(3) [OF assms(1)] show ?thesis by (simp add: cache_ok_def same_data_view [OF t(1)])
    next
      assume "\<exists>d. t = put_cached e k d s \<and> view e s k = Some d"
      with put_cached_ok [OF assms(2) store_okD(3) [OF assms(1)]] show ?thesis by blast
    qed
    with t(1) same_data_ok assms(1) show ?thesis by blast
  qed
  with r show "store_ok e (snd (load e k s))" "view e (snd (load e k s)) = view e s"
    by (simp_all add: same_data_view)
qed

text \<open>Any cache that does not change entries will do: here one that keeps them all.\<close>

interpretation kv: kv_store "store_ok (calm_env h en id n pd)" "view (calm_env h en id n pd)"
    "\<lambda>k d s. snd (save (calm_env h en id n pd) k d s)" "\<lambda>k s. snd (remove (calm_env h en id n pd) k s)"
    "\<lambda>k s. loaded (load (calm_env h en id n pd) k s)" for h en n pd
proof
  let ?e = "calm_env h en id n pd"
  have env: "env_ok ?e" by (rule calm_env_ok) simp
  fix s :: store and k d
  assume s: "store_ok ?e s"
  obtain t where t: "save ?e k d s = (Inr (), t)"
    using save_calm [of ?e k d s] by auto
  then show "store_ok ?e (snd (save ?e k d s))" "view ?e (snd (save ?e k d s)) = (view ?e s)(k \<mapsto> d)"
    using save_ok [OF env s t] by simp_all
  obtain b u where u: "remove ?e k s = (Inr b, u)"
    using remove_calm [OF _ s, of k] by auto
  then show "store_ok ?e (snd (remove ?e k s))" "view ?e (snd (remove ?e k s)) = (view ?e s)(k := None)"
    using remove_ok [OF s u] by simp_all
  have l: "snd (loaded (load ?e k s)) = snd (load ?e k s)"
    by (simp add: loaded_def split: prod.split sum.split)
  show "store_ok ?e (snd (loaded (load ?e k s)))" "view ?e (snd (loaded (load ?e k s))) = view ?e s"
    unfolding l by (rule load_keeps_ok [OF s env])+
  show "fst (loaded (load ?e k s)) = view ?e s k"
    using load_calm [OF _ s, of k] by (cases "load ?e k s") (auto simp: loaded_def split: sum.splits option.splits)
qed

section \<open>Listing\<close>

lemma stored_rows_keys:
  assumes "store_ok e s"
  shows "set (map fst (stored_rows t c (db s))) = {k. typeName k = t \<and> c (keyId k) \<and> view e s k \<noteq> None}"
    and "distinct (map fst (stored_rows t c (db s)))"
proof -
  have d: "distinct_keys (data_index (db s))"
    using store_okD(1) [OF assms] by (simp add: tables_ok_def db_inv_def)
  show "set (map fst (stored_rows t c (db s))) = {k. typeName k = t \<and> c (keyId k) \<and> view e s k \<noteq> None}"
    unfolding view_None_iff [OF store_okD(2) [OF assms]] set_map
    by (auto simp: stored_rows_mem [OF d] image_iff intro!: bexI [where x = "(_, _)"])
  show "distinct (map fst (stored_rows t c (db s)))"
    unfolding stored_rows_def by (rule distinct_keys_map_filter [OF _ d]) (auto split: if_splits)
qed

lemma keys_Inr:
  assumes "store_ok e s" "keys e t s = (Inr ids, u)"
  shows "set ids = {i. view e s \<lparr>typeName = t, keyId = i\<rparr> \<noteq> None}" and "distinct ids" and "u = s"
proof -
  have u: "u = s" and ids: "ids = map (keyId \<circ> fst) (stored_rows t (\<lambda>_. True) (db s))"
    using assms(2) by (auto simp: keys_def act_defs split: if_splits)
  note k = stored_rows_keys [OF assms(1), of t "\<lambda>_. True"]
  show "u = s" by (rule u)
  show "set ids = {i. view e s \<lparr>typeName = t, keyId = i\<rparr> \<noteq> None}"
  proof -
    have "set ids = keyId ` {k. typeName k = t \<and> view e s k \<noteq> None}"
      using k(1) by (simp add: ids flip: image_image)
    also have "\<dots> = {i. view e s \<lparr>typeName = t, keyId = i\<rparr> \<noteq> None}"
    proof (intro set_eqI iffI)
      fix i
      assume "i \<in> {i. view e s \<lparr>typeName = t, keyId = i\<rparr> \<noteq> None}"
      then show "i \<in> keyId ` {k. typeName k = t \<and> view e s k \<noteq> None}"
        by (intro image_eqI [where x = "\<lparr>typeName = t, keyId = i\<rparr>"]) simp_all
    next
      fix i
      assume "i \<in> keyId ` {k. typeName k = t \<and> view e s k \<noteq> None}"
      then obtain k where "i = keyId k" "typeName k = t" "view e s k \<noteq> None" by blast
      moreover from this have "k = \<lparr>typeName = t, keyId = i\<rparr>" by (simp add: key_eqI)
      ultimately show "i \<in> {i. view e s \<lparr>typeName = t, keyId = i\<rparr> \<noteq> None}" by simp
    qed
    finally show ?thesis .
  qed
  have "inj_on keyId (set (map fst (stored_rows t (\<lambda>_. True) (db s))))"
    unfolding k(1) by (auto simp: inj_on_def)
  with k(2) show "distinct ids"
    by (simp add: ids flip: map_map) (simp add: distinct_map comp_inj_on)
qed

lemma count_Inr:
  assumes "store_ok e s" "count e t s = (Inr n, u)"
  shows "n = card {k. typeName k = t \<and> view e s k \<noteq> None}" and "u = s"
proof -
  have n: "n = length (stored_rows t (\<lambda>_. True) (db s))" and "u = s"
    using assms(2) by (auto simp: count_def act_defs split: if_splits)
  then show "u = s" by simp
  show "n = card {k. typeName k = t \<and> view e s k \<noteq> None}"
    using stored_rows_keys [OF assms(1), of t "\<lambda>_. True"] distinct_card
    by (metis (no_types, lifting) Collect_cong length_map n)
qed

lemma read_rows_Inr:
  "read_rows e rows s = (Inr l, t) \<Longrightarrow> t = s \<and> map fst l = map fst rows \<and>
   (\<forall>(k, d) \<in> set l. \<exists>f. (k, f) \<in> set rows \<and> map_of (files s) (file_path e k f) = Some (JObject d))"
proof (induction e rows arbitrary: l t rule: read_rows.induct)
  case (1 e)
  then show ?case by (simp add: ret_def)
next
  case (2 e k f rows)
  from 2(2) obtain d w l' where d: "read_json e k f s = (Inr d, w)"
    and l': "read_rows e rows w = (Inr l', t)" "l = (k, d) # l'"
    by (auto simp: ret_def elim!: seq_InrE)
  from read_json_Inr [OF d] have w: "w = s" and f: "map_of (files s) (file_path e k f) = Some (JObject d)" by auto
  from 2(1) [OF l'(1) [unfolded w]] f l'(2) show ?case by auto
qed

lemma load_where_Inr:
  assumes "store_ok e s" "env_ok e" "load_where e t c s = (Inr ds, u)"
  shows "ds = map (\<lambda>k. the (view e s k)) (map fst (stored_rows t c (db s)))"
    and "store_ok e u" and "view e u = view e s"
proof -
  obtain r w where r: "read_rows e (stored_rows t c (db s)) s = (r, w)" by fastforce
  then obtain l where l: "r = Inr l" "ds = map snd l" "u = put_cached_list e l w"
    using assms(3) by (cases r) (auto simp: load_where_def in_tx_def on_throw_Inr act_simps split: if_splits)
  note rr = read_rows_Inr [OF r [unfolded l(1)]]
  have d: "distinct_keys (data_index (db s))"
    using store_okD(1) [OF assms(1)] by (simp add: tables_ok_def db_inv_def)
  have v: "view e s k = Some x" if "(k, x) \<in> set l" for k x
    using rr that by (fastforce simp: view_def stored_rows_mem [OF d])
  have "ds = map (\<lambda>k. the (view e s k)) (map fst l)"
    unfolding l(2) map_map using v by (intro map_cong) auto
  with rr show "ds = map (\<lambda>k. the (view e s k)) (map fst (stored_rows t c (db s)))" by simp
  have "cache_ok e u \<and> same_data s u"
    using put_cached_list_ok [OF assms(2) store_okD(3) [OF assms(1)], of l] v rr l(3) by auto
  then show "store_ok e u" "view e u = view e s"
    using same_data_ok [OF _ assms(1)] same_data_view by auto
qed

section \<open>A concrete environment\<close>

definition demo_hl :: hlib where
  "demo_hl = \<lparr>sha3 = id, fmtDouble = (\<lambda>_. ''0''),
     toJson = (\<lambda>obj. concat (map (\<lambda>kv. fst kv) obj)),
     fromJson = (\<lambda>b. Some (JObject (map (\<lambda>c. ([c], JNull)) b))), utf8_ok = (\<lambda>_. True)\<rparr>"

definition demo_env :: env where
  "demo_env = calm_env demo_hl id id 0 True"

lemma demo_env_ok: "env_ok demo_env" "ok demo_env c"
  by (simp_all add: demo_env_def calm_env_ok)

definition demo_key :: object_key where
  "demo_key = \<lparr>typeName = ''T'', keyId = ''1''\<rparr>"

definition demo_store :: store where
  "demo_store = snd (save demo_env demo_key [(''a'', JNull)] empty_store)"

lemma demo_store_saved: "save demo_env demo_key [(''a'', JNull)] empty_store = (Inr (), demo_store)"
  using save_calm [of demo_env demo_key "[(''a'', JNull)]" empty_store] demo_env_ok(2)
  by (auto simp: demo_store_def)

lemma demo_store_ok: "store_ok demo_env demo_store"
  "view demo_env demo_store = [demo_key \<mapsto> [(''a'', JNull)]]"
  using save_ok [OF demo_env_ok(1) empty_store_ok demo_store_saved] by (simp_all add: empty_store_view)

end
