(* ===== verification/SyncController.thy ===== *)
theory SyncController
  imports LocalStoreProps
begin

text \<open>
  \<open>src/datasync/synccontroller.cpp\<close>: merging one change downloaded from the server into
  the local store, and its agreement with the decision table of \<open>modeling/exchange.txt\<close>.
\<close>

section \<open>The handler\<close>

datatype sync_policy = PreferChanged | PreferDeleted

text \<open>
  The defaults the handler reads. The resolver is user code: it is given the type, the
  local and the remote data and answers an empty object to leave the choice to the code.
\<close>

record sync_cfg =
  policy :: sync_policy
  resolver :: "(bytes \<Rightarrow> json_object \<Rightarrow> json_object \<Rightarrow> json_object) option"
  prims :: qprims

datatype sync_signal = SyncDone u64 | SyncError

record sync_ctl =
  sync_enabled :: bool
  sync_out :: "sync_signal list"

definition set_sync_enabled :: "bool \<Rightarrow> sync_ctl \<Rightarrow> sync_ctl" where
  "set_sync_enabled b c = c\<lparr>sync_enabled := b\<rparr>"

definition resolve_conflict :: "env \<Rightarrow> sync_cfg \<Rightarrow> scope \<Rightarrow> u64 \<Rightarrow> string option \<Rightarrow> bytes \<Rightarrow>
    u64 \<Rightarrow> bytes \<Rightarrow> json_object \<Rightarrow> scope store_act" where
  "resolve_conflict e cfg sc localVersion localFile localChecksum remoteVersion remoteChecksum remoteData =
     seq (case resolver cfg of
            None \<Rightarrow> ret []
          | Some f \<Rightarrow> seq (read_json e (scKey sc) (case_option [] id localFile)) (\<lambda>localData.
              ret (f (typeName (scKey sc)) localData remoteData))) (\<lambda>resolvedData.
     if resolvedData \<noteq> [] then
       store_changed e sc (localVersion + 1) localFile resolvedData True Exists
     else if localChecksum > remoteChecksum then
       update_version e sc localVersion (localVersion + 1) True
     else
       store_changed e sc (remoteVersion + 1) localFile remoteData True Exists)"

definition merge_change :: "env \<Rightarrow> sync_cfg \<Rightarrow> scope \<Rightarrow>
    change_type \<times> u64 \<times> string option \<times> bytes option \<Rightarrow> bool \<Rightarrow> u64 \<Rightarrow> json_object \<Rightarrow> scope store_act" where
  "merge_change e cfg sc info remoteDeleted remoteVersion remoteData =
     (case info of (localState, localVersion, localFile, localSum) \<Rightarrow>
       let localChecksum = case_option [] id localSum in
       case localState of
         Exists \<Rightarrow>
           if remoteDeleted then
             if localVersion < remoteVersion then
               store_deleted e sc remoteVersion (\<not> persistDeleted e) localState
             else if localVersion = remoteVersion then
               (case policy cfg of
                  PreferChanged \<Rightarrow> update_version e sc localVersion (localVersion + 1) True
                | PreferDeleted \<Rightarrow> store_deleted e sc (remoteVersion + 1) True localState)
             else ret sc
           else
             if localVersion < remoteVersion then
               store_changed e sc remoteVersion localFile remoteData False localState
             else if localVersion = remoteVersion then
               let remoteChecksum = json_hash (hl e) remoteData in
               if localChecksum \<noteq> remoteChecksum then
                 resolve_conflict e cfg sc localVersion localFile localChecksum
                   remoteVersion remoteChecksum remoteData
               else mark_unchanged_scope e sc localVersion False
             else ret sc
       | ExistsDeleted \<Rightarrow>
           if remoteDeleted then
             if localVersion \<le> remoteVersion then
               if persistDeleted e then update_version e sc localVersion remoteVersion False
               else mark_unchanged_scope e sc localVersion True
             else ret sc
           else
             if localVersion < remoteVersion then
               store_changed e sc remoteVersion localFile remoteData False localState
             else if localVersion = remoteVersion then
               (case policy cfg of
                  PreferChanged \<Rightarrow> store_changed e sc (remoteVersion + 1) localFile remoteData True localState
                | PreferDeleted \<Rightarrow> update_version e sc localVersion (localVersion + 1) True)
             else ret sc
       | NoExists \<Rightarrow>
           if remoteDeleted then
             if persistDeleted e then store_deleted e sc remoteVersion False localState
             else ret sc
           else store_changed e sc remoteVersion localFile remoteData False localState)"

text \<open>The body of the \<open>try\<close> block after the extraction; the scope rolls back on a throw.\<close>

definition sync_body :: "env \<Rightarrow> sync_cfg \<Rightarrow> change_data \<Rightarrow> unit store_act" where
  "sync_body e cfg ch = (case ch of (remoteDeleted, objKey, remoteVersion, remoteData) \<Rightarrow>
     seq (start_sync e objKey) (\<lambda>sc. with_scope (
     seq (load_change_info e sc) (\<lambda>info.
     seq (merge_change e cfg sc info remoteDeleted remoteVersion remoteData) (\<lambda>sc'.
     commit_sync e sc')))))"

definition sync_change :: "env \<Rightarrow> sync_cfg \<Rightarrow> u64 \<Rightarrow> bytes \<Rightarrow> sync_ctl \<times> store \<Rightarrow> sync_ctl \<times> store" where
  "sync_change e cfg key changeData cs = (case cs of (c, s) \<Rightarrow>
     if \<not> sync_enabled c then (c, s)
     else case extract_change (prims cfg) (hl e) changeData of
         Inl _ \<Rightarrow> (c\<lparr>sync_out := sync_out c @ [SyncError]\<rparr>, s)
       | Inr ch \<Rightarrow> (case sync_body e cfg ch s of
             (Inl _, t) \<Rightarrow> (c\<lparr>sync_out := sync_out c @ [SyncError]\<rparr>, t)
           | (Inr _, t) \<Rightarrow> (c\<lparr>sync_out := sync_out c @ [SyncDone key]\<rparr>, t)))"

section \<open>The decision table\<close>

text \<open>
  What is known of one key, as in \<open>modeling/exchange.txt\<close>: nothing, a deletion that is
  remembered, or a dataset; with its version and whether it is still to be uploaded.
\<close>

datatype known = Unknown | CachedDelete u64 bool | Known u64 json_object bool

definition known_of :: "env \<Rightarrow> store \<Rightarrow> object_key \<Rightarrow> known" where
  "known_of e s k = (case row (db s) k of
       None \<Rightarrow> Unknown
     | Some r \<Rightarrow> (case view e s k of
         None \<Rightarrow> CachedDelete (version r) (changed r)
       | Some d \<Rightarrow> Known (version r) d (changed r)))"

definition chooser :: "sync_cfg \<Rightarrow> bytes \<Rightarrow> json_object \<Rightarrow> json_object \<Rightarrow> json_object" where
  "chooser cfg t d1 d2 = (case resolver cfg of None \<Rightarrow> [] | Some f \<Rightarrow> f t d1 d2)"

fun exchange :: "bool \<Rightarrow> sync_cfg \<Rightarrow> hlib \<Rightarrow> bytes \<Rightarrow> known \<Rightarrow> bool \<Rightarrow> u64 \<Rightarrow> json_object \<Rightarrow> known" where
  "exchange persistent cfg h t (Known v1 d1 c1) True v2 d2 =
     (if v1 < v2 then CachedDelete v2 (\<not> persistent)
      else if v2 < v1 then Known v1 d1 c1
      else if policy cfg = PreferChanged then Known (v1 + 1) d1 True
      else CachedDelete (v2 + 1) True)"
| "exchange persistent cfg h t (Known v1 d1 c1) False v2 d2 =
     (if v1 < v2 then Known v2 d2 False
      else if v2 < v1 then Known v1 d1 c1
      else if json_hash h d1 = json_hash h d2 then Known v1 d1 False
      else if chooser cfg t d1 d2 \<noteq> [] then Known (v1 + 1) (chooser cfg t d1 d2) True
      else if json_hash h d1 < json_hash h d2 then Known (v2 + 1) d2 True
      else Known (v1 + 1) d1 True)"
| "exchange persistent cfg h t (CachedDelete v1 c1) True v2 d2 =
     (if v1 \<le> v2 then if persistent then CachedDelete v2 False else Unknown
      else CachedDelete v1 c1)"
| "exchange persistent cfg h t (CachedDelete v1 c1) False v2 d2 =
     (if v1 < v2 then Known v2 d2 False
      else if v2 < v1 then CachedDelete v1 c1
      else if policy cfg = PreferChanged then Known (v2 + 1) d2 True
      else CachedDelete (v1 + 1) True)"
| "exchange persistent cfg h t Unknown True v2 d2 = (if persistent then CachedDelete v2 False else Unknown)"
| "exchange persistent cfg h t Unknown False v2 d2 = Known v2 d2 False"

section \<open>Effects of the scope operations\<close>

text \<open>\<open>t\<close> is consistent, and differs from \<open>s\<close> only in what is known of \<open>k\<close>.\<close>

definition settled :: "env \<Rightarrow> object_key \<Rightarrow> known \<Rightarrow> store \<Rightarrow> store \<Rightarrow> bool" where
  "settled e k L s t \<longleftrightarrow> store_ok e t \<and> (\<forall>k'. known_of e t k' = (if k' = k then L else known_of e s k'))"

lemma settledI:
  assumes "tables_ok t" "disk_ok e t" "cache_ok e t"
    and row: "\<And>k'. row (db t) k' = (if k' = k then x else row (db s) k')"
    and view: "\<And>k'. view e t k' = (if k' = k then y else view e s k')"
    and L: "(case x of None \<Rightarrow> Unknown | Some r \<Rightarrow> (case y of
        None \<Rightarrow> CachedDelete (version r) (changed r) | Some d \<Rightarrow> Known (version r) d (changed r))) = L"
  shows "settled e k L s t"
proof -
  have "known_of e t k' = (if k' = k then L else known_of e s k')" for k'
    unfolding known_of_def row view L [symmetric] by simp
  with assms(1-3) show ?thesis by (simp add: settled_def store_ok_def)
qed

lemma run_after_files [simp]: "files (run_after a s) = files s"
  by (cases a) (simp_all add: drop_cached_def)

lemma run_after_same [simp]:
  "view e (run_after (Emit x) s) = view e s" "disk_ok e (run_after a s) = disk_ok e s"
  by (simp_all add: disk_ok_def)

lemma commit_sync_Inr:
  "commit_sync e sc s = (Inr (), t) \<longleftrightarrow>
     ok e CCommit \<and> t = (case afterCommit sc of None \<Rightarrow> s | Some a \<Rightarrow> run_after a s)"
  by (auto simp: commit_sync_def act_defs split: option.splits)

lemma tables_ok_run_after [simp]: "tables_ok (run_after a s) = tables_ok s"
  by (simp add: tables_ok_def)

lemma store_changed_settles:
  assumes "env_ok e" "store_ok e s"
    and "store_changed e \<lparr>scKey = k, afterCommit = a\<rparr> v f d c st s = (Inr sc, u)"
    and "commit_sync e sc u = (Inr (), t)"
    and "st \<noteq> NoExists \<longleftrightarrow> row (db s) k \<noteq> None" and "f = Option.bind (row (db s) k) dataFile"
  shows "settled e k (Known v d c) s t"
proof -
  obtain fn where fn: "store_changed_impl e k v f d c (st \<noteq> NoExists) s = (Inr fn, u)"
    and sc: "sc = \<lparr>scKey = k, afterCommit = Some fn\<rparr>"
    using assms(3) by (auto simp: store_changed_def ret_def elim!: seq_InrE)
  from store_changed_impl_wrote [OF fn assms(5,6)]
  have w: "wrote e k v d c s u" and "fn = Emit (TriggerChange k False c)" by auto
  with assms(4) sc have t: "t = emit_signal (TriggerChange k False c) u"
    by (simp add: commit_sync_Inr)
  have "tables_ok u"
    using keepsD [OF store_changed_impl_keeps, of s] fn store_okD(1) [OF assms(2)] by (metis snd_conv)
  then have tables: "tables_ok t" by (simp add: t tables_ok_def)
  have row: "row (db t) k' = (if k' = k then
      Some (data_entry e v (base_for e s (Option.bind (row (db s) k) dataFile)) d c) else row (db s) k')" for k'
    using w by (simp add: t wrote_def Let_def)
  have view: "view e t k' = (if k' = k then Some d else view e s k')" for k'
    using wrote_view(1) [OF assms(2,1) w] by (simp add: t)
  show ?thesis
    by (rule settledI [OF tables _ _ row view])
       (simp_all add: t wrote_view(2,3) [OF assms(2,1) w] data_entry_def)
qed

lemma update_row_at:
  assumes "row d k = Some r" "P k r" "\<And>k' r'. P k' r' \<Longrightarrow> k' = k"
  shows "row (update_index n P f d) = (row d)(k \<mapsto> f r)"
proof
  fix x
  show "row (update_index n P f d) x = ((row d)(k \<mapsto> f r)) x"
    using assms(1,2) assms(3) [of x "the (row d x)"] by (cases "row d x") auto
qed

lemma view_row_cong:
  assumes "\<And>k'. Option.bind (row (db t) k') dataFile = Option.bind (row (db s) k') dataFile"
    and "files t = files s"
  shows "view e t = view e s"
  unfolding view_def assms ..

text \<open>A row is given another version and mark, everything else stays.\<close>

lemma remark_settles:
  assumes "store_ok e s" "row (db s) k = Some r" "tables_ok t"
    and row: "\<And>k'. row (db t) k' = (if k' = k then Some (r\<lparr>version := v, changed := c\<rparr>) else row (db s) k')"
    and "files t = files s" "cache t = cache s"
  shows "settled e k (case known_of e s k of Unknown \<Rightarrow> Unknown
     | CachedDelete _ _ \<Rightarrow> CachedDelete v c | Known _ d _ \<Rightarrow> Known v d c) s t"
proof -
  have v: "view e t = view e s"
    by (rule view_row_cong) (simp_all add: row assms(2,5))
  have "disk_ok e t"
    by (rule disk_ok_sub [OF store_okD(2) [OF assms(1)]])
       (use assms(2,5) row in \<open>auto split: if_splits\<close>)
  moreover have "cache_ok e t"
    using store_okD(3) [OF assms(1)] by (simp add: cache_ok_def v assms(6))
  ultimately show ?thesis
    by (intro settledI [where x = "Some (r\<lparr>version := v, changed := c\<rparr>)" and y = "view e s k"])
       (simp_all add: known_of_def assms(2,3) row v split: option.split)
qed

lemma update_version_settles:
  assumes "store_ok e s" "row (db s) k = Some r"
    and "update_version e \<lparr>scKey = k, afterCommit = None\<rparr> (version r) v c s = (Inr sc, u)"
    and "commit_sync e sc u = (Inr (), t)"
  shows "settled e k (case known_of e s k of Unknown \<Rightarrow> Unknown
     | CachedDelete _ _ \<Rightarrow> CachedDelete v c | Known _ d _ \<Rightarrow> Known v d c) s t"
proof -
  have u: "u = update_db (update_index (now e) (\<lambda>k' r'. k' = k \<and> version r' = version r)
      (\<lambda>r. r\<lparr>version := v, changed := c\<rparr>)) s"
    and sc: "sc = \<lparr>scKey = k, afterCommit = if c then Some (Emit TriggerUpload) else None\<rparr>"
    using assms(3) by (auto simp: update_version_def act_defs split: if_splits)
  have "tables_ok u"
    using keepsD [OF update_version_keeps, of s] assms(3) store_okD(1) [OF assms(1)] by (metis snd_conv)
  moreover have "db t = db u" "files t = files s" "cache t = cache s"
    using assms(4) by (auto simp: commit_sync_Inr sc u update_db_def)
  ultimately show ?thesis
    using assms(1,2) by (intro remark_settles [of e s k r])
      (simp_all add: tables_ok_def u update_row_at)
qed

lemma mark_unchanged_settles:
  assumes "store_ok e s" "row (db s) k = Some r"
    and "mark_unchanged_scope e \<lparr>scKey = k, afterCommit = None\<rparr> (version r) False s = (Inr sc, u)"
    and "commit_sync e sc u = (Inr (), t)"
  shows "settled e k (case known_of e s k of Unknown \<Rightarrow> Unknown
     | CachedDelete v _ \<Rightarrow> CachedDelete v False | Known v d _ \<Rightarrow> Known v d False) s t"
proof -
  have u: "u = update_db (update_index (now e) (\<lambda>k' r'. k' = k \<and> version r' = version r)
      (\<lambda>r. r\<lparr>changed := False\<rparr>)) s" and sc: "sc = \<lparr>scKey = k, afterCommit = None\<rparr>"
    using assms(3)
    by (auto simp: mark_unchanged_scope_def mark_unchanged_impl_def act_defs elim!: seq_InrE split: if_splits)
  have "tables_ok u"
    using keepsD [OF mark_unchanged_scope_keeps, of s] assms(3) store_okD(1) [OF assms(1)] by (metis snd_conv)
  moreover have "t = u"
    using assms(4) by (simp add: commit_sync_Inr sc)
  moreover have "row (db u) k' = (if k' = k then Some (r\<lparr>version := version r, changed := False\<rparr>) else row (db s) k')" for k'
    using assms(2) by (simp add: u update_row_at)
  ultimately have "settled e k (case known_of e s k of Unknown \<Rightarrow> Unknown
     | CachedDelete _ _ \<Rightarrow> CachedDelete (version r) False | Known _ d _ \<Rightarrow> Known (version r) d False) s t"
    using assms(1,2) by (intro remark_settles [of e s k r]) (simp_all add: u update_db_def)
  then show ?thesis
    using assms(2) by (auto simp: known_of_def split: option.splits)
qed

lemma forget_settles:
  assumes "store_ok e s" "row (db s) k = Some r" "dataFile r = None" "\<not> persistDeleted e"
    and "mark_unchanged_scope e \<lparr>scKey = k, afterCommit = None\<rparr> (version r) True s = (Inr sc, u)"
    and "commit_sync e sc u = (Inr (), t)"
  shows "settled e k Unknown s t"
proof -
  have dist: "distinct_keys (data_index (db s))"
    using store_okD(1) [OF assms(1)] by (simp add: tables_ok_def db_inv_def)
  have t: "t = update_db (delete_index (\<lambda>k' r'. k' = k \<and> version r' = version r \<and> dataFile r' = None)) s"
    using assms(4-6)
    by (auto simp: mark_unchanged_scope_def mark_unchanged_impl_def act_defs commit_sync_Inr
        elim!: seq_InrE split: if_splits)
  have "tables_ok t"
    using store_okD(1) [OF assms(1)] by (simp add: t tables_ok_def delete_index_inv)
  moreover have row: "row (db t) k' = (if k' = k then None else row (db s) k')" for k'
    using assms(2,3) dist by (auto simp: t delete_index_row split: option.splits)
  moreover have v: "view e t = view e s"
    by (rule view_row_cong) (simp_all add: row assms(2,3), simp add: t update_db_def)
  moreover have "disk_ok e t"
    by (rule disk_ok_sub [OF store_okD(2) [OF assms(1)]])
       (use row in \<open>auto simp: t update_db_def split: if_splits\<close>)
  moreover have "cache_ok e t"
    using store_okD(3) [OF assms(1)] by (simp add: cache_ok_def v) (simp add: t update_db_def)
  ultimately show ?thesis
    by (intro settledI [where x = None and y = "view e s k"]) simp_all
qed

lemma erased_settles:
  assumes "store_ok e s" "tables_ok t" "erased e k v c s t"
  shows "settled e k (CachedDelete v c) s t"
  using assms erased_view [OF assms(1,3)]
  by (intro settledI [where x = "Some (deleted_entry v c)" and y = None]) (simp_all add: erased_def)

lemma store_deleted_settles:
  assumes "store_ok e s"
    and "store_deleted e \<lparr>scKey = k, afterCommit = None\<rparr> v c st s = (Inr sc, u)"
    and "commit_sync e sc u = (Inr (), t)"
    and st: "if st = Exists then Option.bind (row (db s) k) dataFile \<noteq> None
             else st = NoExists \<and> row (db s) k = None"
  shows "settled e k (CachedDelete v c) s t"
proof (rule erased_settles [OF assms(1)])
  show "tables_ok t"
    using keepsD [OF store_deleted_keeps, of s] keepsD [OF commit_sync_keeps, of u] assms(2,3)
      store_okD(1) [OF assms(1)] by (metis snd_conv)
  show "erased e k v c s t"
  proof (cases "st = Exists")
    case True
    then obtain r f where r: "row (db s) k = Some r" "dataFile r = Some f"
      using st by (auto split: bind_splits)
    with assms(2,3) True show ?thesis
      by (auto simp: store_deleted_def Let_def act_defs seq_assoc commit_sync_Inr erased_def deleted_entry_def
          update_row_at drop_cached_def update_db_def split: if_splits)
  next
    case False
    with st have st': "st = NoExists" "row (db s) k = None" by auto
    then have "view e s k = None" by (simp add: view_def)
    with store_okD(3) [OF assms(1)] have "map_option (\<lambda>x. x(k := None)) (cache s) = cache s"
      by (cases "cache s"; cases "the (cache s) k") (auto simp: cache_ok_def)
    moreover have "row (db t) = (row (db s))(k \<mapsto> deleted_entry v c) \<and>
        device_uploads (db t) = device_uploads (db s) \<and> files t = files s \<and> cache t = cache s"
      using assms(2,3) st'
      by (auto simp: store_deleted_def Let_def act_defs seq_assoc commit_sync_Inr deleted_entry_def
          exec_insert_def seq_def insert_row_row insert_row_uploads
          split: if_splits option.splits)
    ultimately show ?thesis
      using st' by (auto simp: erased_def fun_eq_iff)
  qed
qed

section \<open>The handler implements the table\<close>

lemma known_cases:
  assumes "store_ok e s"
  shows "row (db s) k = None \<Longrightarrow> known_of e s k = Unknown"
    and "row (db s) k = Some r \<Longrightarrow> dataFile r = None \<Longrightarrow> known_of e s k = CachedDelete (version r) (changed r)"
    and "row (db s) k = Some r \<Longrightarrow> dataFile r = Some f \<Longrightarrow>
      \<exists>d. map_of (files s) (file_path e k f) = Some (JObject d) \<and> checksum r = Some (json_hash (hl e) d) \<and>
        known_of e s k = Known (version r) d (changed r)"
  using disk_okD [OF store_okD(2) [OF assms], of k r f]
  by (auto simp: known_of_def view_def)

lemma settled_refl: "store_ok e s \<Longrightarrow> known_of e s k = L \<Longrightarrow> settled e k L s s"
  by (simp add: settled_def)

lemma merge_deleted:
  assumes "env_ok e" "store_ok e s" "load_change_info e \<lparr>scKey = k, afterCommit = None\<rparr> s = (Inr info, s)"
    and "merge_change e cfg \<lparr>scKey = k, afterCommit = None\<rparr> info True rv rd s = (Inr sc, u)"
    and "commit_sync e sc u = (Inr (), t)"
  shows "settled e k (exchange (persistDeleted e) cfg (hl e) (typeName k) (known_of e s k) True rv rd) s t"
proof (cases "row (db s) k")
  case None
  then have info: "info = (NoExists, 0, None, None)"
    using assms(3) by (auto simp: load_change_info_def act_defs split: if_splits)
  show ?thesis
  proof (cases "persistDeleted e")
    case True
    with None known_cases(1) [OF assms(2) None] store_deleted_settles [OF assms(2) _ assms(5), of k rv False NoExists]
      assms(4) show ?thesis
      by (simp add: merge_change_def info)
  next
    case False
    with assms(2,4,5) known_cases(1) [OF assms(2) None] show ?thesis
      by (auto simp: merge_change_def info act_defs commit_sync_Inr intro: settled_refl)
  qed
next
  case (Some r)
  show ?thesis
  proof (cases "dataFile r")
    case None
    note L = known_cases(2) [OF assms(2) Some None]
    have info: "info = (ExistsDeleted, version r, None, None)"
      using assms(3) None Some by (auto simp: load_change_info_def act_defs split: if_splits)
    show ?thesis
      using assms(4,5) L update_version_settles [OF assms(2) Some, of rv False sc u t]
        forget_settles [OF assms(2) Some None, of sc u t] settled_refl [OF assms(2), of k]
      by (auto simp: merge_change_def info act_defs commit_sync_Inr split: if_splits)
  next
    case live: (Some f)
    then obtain d where L: "known_of e s k = Known (version r) d (changed r)"
      using known_cases(3) [OF assms(2) Some live] by blast
    have info: "info = (Exists, version r, Some f, checksum r)"
      using assms(3) live Some by (auto simp: load_change_info_def act_defs split: if_splits)
    show ?thesis
      using assms(4,5) L update_version_settles [OF assms(2) Some, of "version r + 1" True sc u t]
        store_deleted_settles [OF assms(2) _ assms(5), of k _ _ Exists] Some live
        settled_refl [OF assms(2), of k]
      by (auto simp: merge_change_def info act_defs commit_sync_Inr split: if_splits sync_policy.splits)
  qed
qed

lemma resolve_settles:
  assumes "env_ok e" "store_ok e s" and row: "row (db s) k = Some r" "dataFile r = Some f"
    and d: "map_of (files s) (file_path e k f) = Some (JObject d)" "checksum r = Some (json_hash (hl e) d)"
    and L: "known_of e s k = Known rv d (changed r)" and rv: "version r = rv"
    and ne: "json_hash (hl e) d \<noteq> json_hash (hl e) rd"
    and res: "resolve_conflict e cfg \<lparr>scKey = k, afterCommit = None\<rparr> rv (Some f) (json_hash (hl e) d)
      rv (json_hash (hl e) rd) rd s = (Inr sc, u)"
    and commit: "commit_sync e sc u = (Inr (), t)"
  shows "settled e k (exchange pd cfg (hl e) (typeName k) (Known rv d (changed r)) False rv rd) s t"
proof -
  have stored: "settled e k (Known v x True) s t"
    if "store_changed e \<lparr>scKey = k, afterCommit = None\<rparr> v (Some f) x True Exists s = (Inr sc, u)" for v x
    using store_changed_settles [OF assms(1,2) that commit] row by simp
  have kept: "settled e k (Known (rv + 1) d True) s t"
    if "update_version e \<lparr>scKey = k, afterCommit = None\<rparr> rv (rv + 1) True s = (Inr sc, u)"
    using update_version_settles [OF assms(2) row(1), of "rv + 1" True sc u t] that commit L rv by simp
  let ?next = "\<lambda>res. if res \<noteq> [] then store_changed e \<lparr>scKey = k, afterCommit = None\<rparr> (rv + 1) (Some f) res True Exists
     else if json_hash (hl e) d > json_hash (hl e) rd then
       update_version e \<lparr>scKey = k, afterCommit = None\<rparr> rv (rv + 1) True
     else store_changed e \<lparr>scKey = k, afterCommit = None\<rparr> (rv + 1) (Some f) rd True Exists"
  have "?next (chooser cfg (typeName k) d rd) s = (Inr sc, u)"
  proof (cases "resolver cfg")
    case None
    with res show ?thesis by (simp add: resolve_conflict_def chooser_def)
  next
    case (Some g)
    obtain x w where x: "read_json e k f s = (x, w)" by fastforce
    from res Some x have "x = Inr d \<and> w = s"
      by (cases x) (auto simp: resolve_conflict_def act_simps seq_assoc d dest!: read_json_Inr)
    with res Some x show ?thesis
      by (simp add: resolve_conflict_def chooser_def seq_assoc seq_Inr split: if_splits)
  qed
  then show ?thesis
    using stored kept ne by (auto split: if_splits)
qed

lemma merge_changed:
  assumes "env_ok e" "store_ok e s" "load_change_info e \<lparr>scKey = k, afterCommit = None\<rparr> s = (Inr info, s)"
    and "merge_change e cfg \<lparr>scKey = k, afterCommit = None\<rparr> info False rv rd s = (Inr sc, u)"
    and "commit_sync e sc u = (Inr (), t)"
  shows "settled e k (exchange (persistDeleted e) cfg (hl e) (typeName k) (known_of e s k) False rv rd) s t"
proof (cases "row (db s) k")
  case None
  then have "info = (NoExists, 0, None, None)"
    using assms(3) by (auto simp: load_change_info_def act_defs split: if_splits)
  with assms(4,5) store_changed_settles [OF assms(1,2) _ assms(5), of k None rv None rd False NoExists]
    known_cases(1) [OF assms(2) None] None
  show ?thesis by (simp add: merge_change_def)
next
  case (Some r)
  show ?thesis
  proof (cases "dataFile r")
    case None
    note L = known_cases(2) [OF assms(2) Some None]
    have info: "info = (ExistsDeleted, version r, None, None)"
      using assms(3) None Some by (auto simp: load_change_info_def act_defs split: if_splits)
    show ?thesis
      using assms(4,5) L update_version_settles [OF assms(2) Some, of "version r + 1" True sc u t]
        store_changed_settles [OF assms(1,2) _ assms(5), of k None _ None rd _ ExistsDeleted]
        settled_refl [OF assms(2), of k] None Some
      by (auto simp: merge_change_def info act_defs commit_sync_Inr split: if_splits sync_policy.splits)
  next
    case live: (Some f)
    then obtain d where d: "map_of (files s) (file_path e k f) = Some (JObject d)"
        "checksum r = Some (json_hash (hl e) d)"
      and L: "known_of e s k = Known (version r) d (changed r)"
      using known_cases(3) [OF assms(2) Some live] by blast
    have info: "info = (Exists, version r, Some f, Some (json_hash (hl e) d))"
      using assms(3) live Some d by (auto simp: load_change_info_def act_defs split: if_splits)
    consider "version r < rv" | "rv < version r" | "version r = rv" "json_hash (hl e) d = json_hash (hl e) rd"
      | "version r = rv" "json_hash (hl e) d \<noteq> json_hash (hl e) rd"
      by fastforce
    then show ?thesis
    proof cases
      case 1
      then have "store_changed e \<lparr>scKey = k, afterCommit = None\<rparr> rv (Some f) rd False Exists s = (Inr sc, u)"
        using assms(4) info by (simp add: merge_change_def)
      from store_changed_settles [OF assms(1,2) this assms(5)] Some live 1 show ?thesis
        by (simp add: L)
    next
      case 2
      then have "version r \<noteq> rv" by auto
      with 2 assms(2,4,5) L info show ?thesis
        by (auto simp: merge_change_def act_defs commit_sync_Inr settled_refl)
    next
      case 3
      with assms(4,5) L info mark_unchanged_settles [OF assms(2) Some, of sc u t] show ?thesis
        by (simp add: merge_change_def)
    next
      case 4
      then have "resolve_conflict e cfg \<lparr>scKey = k, afterCommit = None\<rparr> rv (Some f) (json_hash (hl e) d)
          rv (json_hash (hl e) rd) rd s = (Inr sc, u)"
        using assms(4) info by (simp add: merge_change_def)
      from resolve_settles [OF assms(1,2) Some live d _ 4 this assms(5), of "persistDeleted e"] L show ?thesis
        unfolding 4(1) by (simp only:)
    qed
  qed
qed

lemma sync_body_settles:
  assumes "env_ok e" "store_ok e s" "sync_body e cfg (del, k, rv, rd) s = (Inr (), t)"
  shows "settled e k (exchange (persistDeleted e) cfg (hl e) (typeName k) (known_of e s k) del rv rd) s t"
proof -
  obtain info w sc u where i: "load_change_info e \<lparr>scKey = k, afterCommit = None\<rparr> s = (Inr info, w)"
    and m: "merge_change e cfg \<lparr>scKey = k, afterCommit = None\<rparr> info del rv rd w = (Inr sc, u)"
    and c: "commit_sync e sc u = (Inr (), t)"
    using assms(3)
    by (auto simp: sync_body_def start_sync_def with_scope_def in_tx_def on_throw_Inr act_defs seq_assoc
        elim!: seq_InrE split: if_splits)
  have "w = s"
    using i by (auto simp: load_change_info_def act_defs split: if_splits)
  with i m c merge_deleted [OF assms(1,2), of k info cfg rv rd sc u t]
    merge_changed [OF assms(1,2), of k info cfg rv rd sc u t]
  show ?thesis by (cases del) simp_all
qed

lemma sync_body_keeps: "keeps tables_ok (sync_body e cfg ch)"
proof -
  have resolve: "keeps tables_ok (resolve_conflict e cfg sc lv lf lc rv rc rd)" for sc lv lf lc rv rc rd
    unfolding resolve_conflict_def by (rule tables_keep keep_steps)+
  have merge: "keeps tables_ok (merge_change e cfg sc info del rv rd)" for sc info del rv rd
  proof -
    obtain st lv lf ls where info: "info = (st, lv, lf, ls)" by (cases info)
    show ?thesis
      unfolding merge_change_def info Let_def
      by (cases st; cases "policy cfg") (auto intro!: resolve tables_keep keep_steps)
  qed
  obtain del k rv rd where ch: "ch = (del, k, rv, rd)" by (cases ch)
  show ?thesis
    unfolding sync_body_def ch with_scope_def prod.case
    by (rule tables_keep keep_steps merge keeps_in_tx | simp)+
qed

section \<open>Without failing calls the handler finishes\<close>

lemma store_changed_calm:
  assumes "\<forall>c. ok e c" "st \<noteq> NoExists \<longleftrightarrow> row (db s) (scKey sc) \<noteq> None"
  shows "\<exists>sc' t. store_changed e sc v f d c st s = (Inr sc', t)"
  using store_changed_impl_calm [OF assms, of v f d c] by (auto simp: store_changed_def ret_def seq_def)

lemma update_version_calm:
  "\<forall>c. ok e c \<Longrightarrow> \<exists>sc' t. update_version e sc v w c s = (Inr sc', t)"
  by (simp add: update_version_def ret_def)

lemma mark_unchanged_scope_calm:
  "\<forall>c. ok e c \<Longrightarrow> \<exists>sc' t. mark_unchanged_scope e sc v del s = (Inr sc', t)"
  by (simp add: mark_unchanged_scope_def mark_unchanged_impl_def ret_def seq_assoc)

lemma store_deleted_calm:
  assumes "\<forall>c. ok e c" "disk_ok e s"
    and "if st = Exists then Option.bind (row (db s) (scKey sc)) dataFile \<noteq> None
         else st = NoExists \<and> row (db s) (scKey sc) = None"
  shows "\<exists>sc' t. store_deleted e sc v c st s = (Inr sc', t)"
proof (cases "st = Exists")
  case True
  then obtain r f where r: "row (db s) (scKey sc) = Some r" "dataFile r = Some f"
    using assms(3) by (auto split: bind_splits)
  with disk_okD [OF assms(2) r] assms(1) True show ?thesis
    by (auto simp: store_deleted_def Let_def ret_def seq_assoc update_db_def modify_def)
next
  case False
  with assms show ?thesis
    by (auto simp: store_deleted_def Let_def ret_def exec_insert_def insert_row_def seq_def)
qed

lemma resolve_conflict_calm:
  assumes "\<forall>c. ok e c" "row (db s) (scKey sc) \<noteq> None"
    and "map_of (files s) (file_path e (scKey sc) f) = Some (JObject d)"
  shows "\<exists>sc' t. resolve_conflict e cfg sc lv (Some f) lc rv rc rd s = (Inr sc', t)"
proof -
  have "resolve_conflict e cfg sc lv (Some f) lc rv rc rd s =
     (if chooser cfg (typeName (scKey sc)) d rd \<noteq> [] then
        store_changed e sc (lv + 1) (Some f) (chooser cfg (typeName (scKey sc)) d rd) True Exists s
      else if lc > rc then update_version e sc lv (lv + 1) True s
      else store_changed e sc (rv + 1) (Some f) rd True Exists s)"
    using read_json_calm [OF assms(1), of s "scKey sc" f d] assms(3)
    by (simp add: resolve_conflict_def chooser_def seq_assoc seq_Inr split: option.split)
  then show ?thesis
    using store_changed_calm [OF assms(1), of Exists s sc] update_version_calm [OF assms(1)] assms(2)
    by (simp split: if_split)
qed

lemma merge_change_calm:
  assumes "\<forall>c. ok e c" "store_ok e s" "load_change_info e sc s = (Inr info, s)"
  shows "\<exists>sc' t. merge_change e cfg sc info del rv rd s = (Inr sc', t)"
proof (cases "row (db s) (scKey sc)")
  case None
  then have "info = (NoExists, 0, None, None)"
    using assms(3) by (auto simp: load_change_info_def act_defs split: if_splits)
  then show ?thesis
    using store_changed_calm [OF assms(1), of NoExists s sc]
      store_deleted_calm [OF assms(1) store_okD(2) [OF assms(2)], of NoExists sc] None
    by (auto simp: merge_change_def ret_def)
next
  case (Some r)
  show ?thesis
  proof (cases "dataFile r")
    case None
    then have "info = (ExistsDeleted, version r, None, None)"
      using assms(3) Some by (auto simp: load_change_info_def act_defs split: if_splits)
    then show ?thesis
      using store_changed_calm [OF assms(1), of ExistsDeleted s sc] update_version_calm [OF assms(1)]
        mark_unchanged_scope_calm [OF assms(1)] Some
      by (auto simp: merge_change_def ret_def split: sync_policy.split)
  next
    case live: (Some f)
    then have info: "info = (Exists, version r, Some f, checksum r)"
      using assms(3) Some by (auto simp: load_change_info_def act_defs split: if_splits)
    obtain d where "map_of (files s) (file_path e (scKey sc) f) = Some (JObject d)"
      using disk_okD [OF store_okD(2) [OF assms(2)] Some live] by blast
    from resolve_conflict_calm [OF assms(1) _ this] info show ?thesis
      using store_changed_calm [OF assms(1), of Exists s sc] update_version_calm [OF assms(1)]
        mark_unchanged_scope_calm [OF assms(1)] Some live
        store_deleted_calm [OF assms(1) store_okD(2) [OF assms(2)], of Exists sc]
      by (auto simp: merge_change_def ret_def Let_def split: sync_policy.split)
  qed
qed

lemma sync_body_calm:
  assumes "\<forall>c. ok e c" "store_ok e s"
  shows "\<exists>t. sync_body e cfg ch s = (Inr (), t)"
proof -
  obtain del k rv rd where ch: "ch = (del, k, rv, rd)" by (cases ch)
  let ?sc = "\<lparr>scKey = k, afterCommit = None\<rparr>"
  obtain info where i: "load_change_info e ?sc s = (Inr info, s)"
    using assms(1) by (simp add: load_change_info_def gets_def)
  obtain sc' t where "merge_change e cfg ?sc info del rv rd s = (Inr sc', t)"
    using merge_change_calm [OF assms i] by blast
  with i assms(1) show ?thesis
    by (auto simp: sync_body_def ch start_sync_def with_scope_def in_tx_def on_throw_def act_simps
        commit_sync_def seq_assoc split: option.split)
qed

section \<open>The table itself\<close>

fun known_version :: "known \<Rightarrow> u64" where
  "known_version Unknown = 0"
| "known_version (CachedDelete v c) = v"
| "known_version (Known v d c) = v"

fun known_data :: "known \<Rightarrow> json_object option" where
  "known_data (Known v d c) = Some d"
| "known_data _ = None"

text \<open>What a device uploads about a key: whether it is deleted, the version, the data.\<close>

fun report :: "known \<Rightarrow> (bool \<times> u64 \<times> json_object) option" where
  "report Unknown = None"
| "report (CachedDelete v c) = Some (True, v, [])"
| "report (Known v d c) = Some (False, v, d)"

definition receive :: "bool \<Rightarrow> sync_cfg \<Rightarrow> hlib \<Rightarrow> bytes \<Rightarrow> known \<Rightarrow> (bool \<times> u64 \<times> json_object) option \<Rightarrow> known" where
  "receive pd cfg h t L m = (case m of None \<Rightarrow> L | Some (del, v, d) \<Rightarrow> exchange pd cfg h t L del v d)"

lemma no_wrap: "v \<noteq> - 1 \<Longrightarrow> v < v + (1 :: u64)"
  using inc_less_eq_triv_imp [of v] by (auto simp: not_le [symmetric])

text \<open>
  Receiving the same change again changes no data, and nothing at all unless it is a
  deletion that need not be remembered (the second one forgets it).
\<close>

lemma exchange_idem:
  assumes "v \<noteq> - 1"
  shows "known_data (exchange pd cfg h t (exchange pd cfg h t L del v d) del v d) =
      known_data (exchange pd cfg h t L del v d)"
    and "pd \<or> \<not> del \<Longrightarrow>
      exchange pd cfg h t (exchange pd cfg h t L del v d) del v d = exchange pd cfg h t L del v d"
  using no_wrap [OF assms] linorder_less_linear [of v "known_version L"] by (cases L; cases del; auto)+

lemma exchange_version:
  assumes "v \<noteq> - 1" "exchange pd cfg h t L del v d \<noteq> Unknown"
  shows "known_version L \<le> known_version (exchange pd cfg h t L del v d)"
    and "v \<le> known_version (exchange pd cfg h t L del v d)"
  using no_wrap [OF assms(1)] assms(2) linorder_less_linear [of v "known_version L"]
  by (cases L; cases del; auto)+

text \<open>
  Two devices that know something about a key and receive each other's report end up with
  the same data, provided different data has different hashes and a resolver does not
  depend on which side is local.
\<close>

lemma exchange_agree:
  assumes "known_version L1 \<noteq> - 1" "known_version L2 \<noteq> - 1"
    and "\<And>d1 d2. known_data L1 = Some d1 \<Longrightarrow> known_data L2 = Some d2 \<Longrightarrow>
      json_hash h d1 = json_hash h d2 \<Longrightarrow> d1 = d2"
    and "\<And>d1 d2. chooser cfg t d1 d2 = chooser cfg t d2 d1"
    and "report L1 = Some r1" "report L2 = Some r2"
  shows "known_data (receive pd cfg h t L1 (Some r2)) = known_data (receive pd cfg h t L2 (Some r1))"
proof -
  have "known_data (exchange pd cfg h t L1 True v2 []) = None" if "L1 = CachedDelete v c" for v c v2
    using that by auto
  consider "known_version L1 < known_version L2" | "known_version L2 < known_version L1"
    | (eq) "known_version L1 = known_version L2" by fastforce
  then show ?thesis
  proof cases
    case eq
    then show ?thesis
    proof (cases "\<exists>d1 d2. known_data L1 = Some d1 \<and> known_data L2 = Some d2")
      case True
      then obtain d1 d2 v c1 c2 where L: "L1 = Known v d1 c1" "L2 = Known v d2 c2"
        using eq by (cases L1; cases L2) auto
      with assms(3-6) show ?thesis
        using linorder_less_linear [of "json_hash h d1" "json_hash h d2"] by (auto simp: receive_def)
    qed (use assms(5,6) in \<open>cases L1; cases L2; auto simp: receive_def\<close>)
  qed (use assms(5,6) in \<open>cases L1; cases L2; auto simp: receive_def\<close>)+
qed

text \<open>... and the same version, unless they disagree about a deletion already forgotten.\<close>

lemma exchange_agree_version:
  assumes "known_data L1 \<noteq> None" "known_data L2 \<noteq> None" "report L1 = Some r1" "report L2 = Some r2"
    and "known_version L1 \<noteq> - 1" "known_version L2 \<noteq> - 1"
  shows "known_version (receive pd cfg h t L1 (Some r2)) = known_version (receive pd cfg h t L2 (Some r1))"
  using assms no_wrap [OF assms(5)] no_wrap [OF assms(6)]
  by (cases L1; cases L2) (auto simp: receive_def)

end
