(* ===== verification/StoreClaims.thy ===== *)
theory StoreClaims
  imports CalmStore SyncController
begin

text \<open>
  The properties of the local store (\<open>src/datasync/localstore.cpp\<close>) and of the merge of
  downloaded changes (\<open>src/datasync/synccontroller.cpp\<close>), each with a concrete instance.
\<close>

section \<open>Any sequence of operations\<close>

datatype store_op =
    SaveOp object_key json_object | RemoveOp object_key | LoadOp object_key | LoadAllOp bytes
  | ClearOp bytes | ResetOp bool | UnchangedOp object_key u64 bool | DeviceDoneOp object_key uuid
  | AccountAddedOp uuid | SyncOp sync_cfg change_data

fun run_op :: "env \<times> store_op \<Rightarrow> store \<Rightarrow> store" where
  "run_op (e, SaveOp k d) s = snd (save e k d s)"
| "run_op (e, RemoveOp k) s = snd (remove e k s)"
| "run_op (e, LoadOp k) s = snd (load e k s)"
| "run_op (e, LoadAllOp t) s = snd (load_all e t s)"
| "run_op (e, ClearOp t) s = snd (clear_store e t s)"
| "run_op (e, ResetOp keep) s = snd (reset_store e keep s)"
| "run_op (e, UnchangedOp k v del) s = snd (mark_unchanged e k v del s)"
| "run_op (e, DeviceDoneOp k dev) s = snd (remove_device_change e k dev s)"
| "run_op (e, AccountAddedOp dev) s = prepare_account_added e dev s"
| "run_op (e, SyncOp cfg ch) s = snd (sync_body e cfg ch s)"

lemma run_op_tables: "tables_ok s \<Longrightarrow> tables_ok (run_op x s)"
proof (cases x)
  case (Pair e op)
  then show "tables_ok s \<Longrightarrow> tables_ok (run_op x s)"
    by (cases op) (auto simp: mark_unchanged_def load_all_def
        intro!: prepare_account_added_keeps intro: keepsD tables_keep keepsD [OF sync_body_keeps])
qed

lemma run_ops_tables: "tables_ok s \<Longrightarrow> tables_ok (fold run_op ops s)"
  by (induction ops arbitrary: s) (simp_all add: run_op_tables)

text \<open>C3: Whatever operations run on a new store, in whatever order and whichever of their
  database and file calls fail, the tables stay consistent: one row per key, a checksum
  exactly where there is a file, per-device uploads only for existing rows and without
  duplicates, event ids strictly increasing.\<close>

theorem store_tables_invariant: "db_inv (db (fold run_op ops empty_store))"
  using run_ops_tables [OF store_okD(1) [OF empty_store_ok]] by (simp add: tables_ok_def)

section \<open>Saving and loading\<close>

text \<open>C4: A save that returns has written exactly the given dataset: the store is consistent
  again, only that key changed, its version is one more than before (1 for a new key), it is
  marked for upload and the change is signalled.\<close>

theorem save_correct:
  assumes "env_ok e" "store_ok e s" "save e k d s = (Inr (), t)"
  shows "store_ok e t \<and> view e t = (view e s)(k \<mapsto> d) \<and>
    (\<forall>k'. k' \<noteq> k \<longrightarrow> row (db t) k' = row (db s) k') \<and>
    (\<exists>r. row (db t) k = Some r \<and> changed r \<and> checksum r = Some (json_hash (hl e) d) \<and>
       version r = (case row (db s) k of Some x \<Rightarrow> version x + 1 | None \<Rightarrow> 1)) \<and>
    signals t = signals s @ [TriggerChange k False True]"
proof -
  obtain base where "row (db t) k = Some (data_entry e
      (case row (db s) k of Some x \<Rightarrow> version x + 1 | None \<Rightarrow> 1) base d True)"
    using save_row(1) [OF assms(3)] by blast
  then have "\<exists>r. row (db t) k = Some r \<and> changed r \<and> checksum r = Some (json_hash (hl e) d) \<and>
      version r = (case row (db s) k of Some x \<Rightarrow> version x + 1 | None \<Rightarrow> 1)"
    by (simp add: data_entry_def)
  then show ?thesis
    using save_ok [OF assms] save_row(2,3) [OF assms(3)] by blast
qed

theorem save_correct_witness:
  "view demo_env demo_store = (view demo_env empty_store)(demo_key \<mapsto> [(''a'', JNull)])"
  using save_correct [OF demo_env_ok(1) empty_store_ok demo_store_saved] by blast

text \<open>C26: A save that throws leaves the database as it was, emits nothing, reports the key, and
  caches nothing for it; a file can only have changed when the commit itself failed.\<close>

theorem save_atomic:
  assumes "save e k d s = (Inl x, t)"
  shows "x = LocalStoreError k \<and> db t = db s \<and> signals t = signals s \<and>
    (files t \<noteq> files s \<longrightarrow> \<not> ok e CCommit) \<and> (ok e CBegin \<longrightarrow> get_cached t k = None)"
  using save_throws [OF assms] by blast

theorem save_atomic_witness:
  "\<exists>x t. save (demo_env\<lparr>ok := \<lambda>c. c \<noteq> CCommit\<rparr>) demo_key [] empty_store = (Inl x, t) \<and> db t = db empty_store"
proof -
  have "fst (save (demo_env\<lparr>ok := \<lambda>c. c \<noteq> CCommit\<rparr>) demo_key [] empty_store) \<noteq> Inr ()"
    by (cases "save (demo_env\<lparr>ok := \<lambda>c. c \<noteq> CCommit\<rparr>) demo_key [] empty_store")
       (auto simp: save_def in_tx_def on_throw_Inr guard_call_def elim!: seq_InrE split: if_splits)
  then obtain x t where t: "save (demo_env\<lparr>ok := \<lambda>c. c \<noteq> CCommit\<rparr>) demo_key [] empty_store = (Inl x, t)"
    by (cases "save (demo_env\<lparr>ok := \<lambda>c. c \<noteq> CCommit\<rparr>) demo_key [] empty_store"; cases "fst (save (demo_env\<lparr>ok := \<lambda>c. c \<noteq> CCommit\<rparr>) demo_key [] empty_store)") auto
  with save_atomic [OF t] show ?thesis by blast
qed

text \<open>Loading answers the stored dataset, from the cache or from the disk alike, answers
  \<open>NoDataException\<close> only for a key without one, and changes no data; when no call fails it
  answers for every key.\<close>

theorem load_correct:
  assumes "env_ok e" "store_ok e s" "load e k s = (r, t)"
  shows "store_ok e t \<and> view e t = view e s \<and> db t = db s \<and> files t = files s \<and>
    (\<forall>d. r = Inr d \<longrightarrow> view e s k = Some d) \<and> (\<forall>k'. r = Inl (NoDataError k') \<longrightarrow> view e s k = None) \<and>
    ((\<forall>c. ok e c) \<longrightarrow> r = (case view e s k of Some d \<Rightarrow> Inr d | None \<Rightarrow> Inl (NoDataError k)))"
proof -
  have "store_ok e t" "view e t = view e s"
    using load_keeps_ok [OF assms(2,1), of k] assms(3) by simp_all
  moreover have "same_data s t"
    using load_Inr(3) [OF assms(1,2)] load_throws_same(1) [OF _ assms(2,1)] assms(3) by (cases r) auto
  moreover have "\<forall>d. r = Inr d \<longrightarrow> view e s k = Some d"
    using load_Inr(1) [OF assms(1,2)] assms(3) by blast
  moreover have "\<forall>k'. r = Inl (NoDataError k') \<longrightarrow> view e s k = None"
    using load_Inl_no_data [OF _ assms(2)] assms(3) by blast
  moreover have "(\<forall>c. ok e c) \<longrightarrow> r = (case view e s k of Some d \<Rightarrow> Inr d | None \<Rightarrow> Inl (NoDataError k))"
    using load_calm [OF _ assms(2), of k] assms(3) by (metis fst_conv)
  ultimately show ?thesis unfolding same_data_def by blast
qed

theorem load_correct_witness:
  "fst (load demo_env demo_key demo_store) = Inr [(''a'', JNull)]"
proof -
  obtain r t where r: "load demo_env demo_key demo_store = (r, t)" by fastforce
  have "r = (case view demo_env demo_store demo_key of Some d \<Rightarrow> Inr d | None \<Rightarrow> Inl (NoDataError demo_key))"
    using load_correct [OF demo_env_ok(1) demo_store_ok(1) r] demo_env_ok(2) by blast
  with r show ?thesis by (simp add: demo_store_ok(2))
qed

text \<open>C16: Over any sequence of saves and removals, reading a key returns what the last operation
  on that key left there, and what it was before if none touched it.\<close>

theorem store_last_write_wins:
  assumes "store_ok (calm_env h en id n pd) s"
  shows "fst (loaded (load (calm_env h en id n pd) k (fold (kv.exec h en n pd) ops s))) =
    (case last_write k ops of None \<Rightarrow> view (calm_env h en id n pd) s k | Some x \<Rightarrow> x)"
  by (rule kv.last_write_wins [OF assms])

theorem store_last_write_wins_witness:
  "fst (loaded (load (calm_env demo_hl id id 0 True) demo_key (fold (kv.exec demo_hl id 0 True)
     [Put demo_key [(''b'', JNull)], Del demo_key, Put demo_key []] empty_store))) = Some []"
  using store_last_write_wins [OF empty_store_ok, of demo_hl id 0 True demo_key
      "[Put demo_key [(''b'', JNull)], Del demo_key, Put demo_key []]"] by simp

section \<open>Removing, clearing, resetting, listing\<close>

text \<open>A removal that returns answers whether there was a dataset; if so the key keeps a
  deletion mark with the next version to be uploaded, its file is gone and the deletion is
  signalled; if not nothing changes. Other keys keep their data.\<close>

theorem remove_correct:
  assumes "store_ok e s" "remove e k s = (Inr b, t)"
  shows "store_ok e t \<and> view e t = (view e s)(k := None) \<and> (b \<longleftrightarrow> view e s k \<noteq> None) \<and>
    (\<not> b \<longrightarrow> t = s) \<and>
    (b \<longrightarrow> (\<forall>r. row (db s) k = Some r \<longrightarrow> row (db t) k = Some (deleted_entry (version r + 1) True)) \<and>
          signals t = signals s @ [TriggerChange k True True])"
  using remove_ok [OF assms] remove_Inr [OF assms(2)] by (auto simp: erased_def)

theorem remove_correct_witness: "\<exists>t. remove demo_env demo_key demo_store = (Inr True, t)"
proof -
  obtain b t where t: "remove demo_env demo_key demo_store = (Inr b, t)"
    using remove_calm [OF _ demo_store_ok(1)] demo_env_ok(2) by blast
  from remove_correct [OF demo_store_ok(1) t] t show ?thesis by (simp add: demo_store_ok(2))
qed

text \<open>Clearing a type removes the datasets of this type and of no other, provided no other
  stored type has the same directory; every cleared key keeps a deletion mark with the next
  version.\<close>

theorem clear_correct:
  assumes "store_ok e s" "clear_store e t s = (Inr (), u)" "dir_private e s t"
  shows "store_ok e u \<and> view e u = (\<lambda>k. if typeName k = t then None else view e s k) \<and>
    (\<forall>k r. row (db s) k = Some r \<longrightarrow> row (db u) k =
       Some (if typeName k = t \<and> dataFile r \<noteq> None then deleted_entry (version r + 1) True else r))"
proof -
  have "distinct_keys (data_index (db s))"
    using store_okD(1) [OF assms(1)] by (simp add: tables_ok_def db_inv_def)
  from clear_Inr(1) [OF assms(2) this] clear_ok [OF assms] show ?thesis by simp
qed

theorem clear_correct_witness: "\<exists>u. clear_store demo_env ''T'' demo_store = (Inr (), u) \<and> view demo_env u = Map.empty"
proof -
  obtain u where u: "clear_store demo_env ''T'' demo_store = (Inr (), u)"
    using demo_env_ok(2) by (simp add: clear_store_def in_tx_def on_throw_def act_defs)
  have "row (db demo_store) k \<noteq> None \<Longrightarrow> k = demo_key" for k
    using save_row(2) [OF demo_store_saved, of k] by (cases "k = demo_key") (auto simp: empty_store_def)
  then have "dir_private demo_env demo_store ''T''"
    by (metis dir_private_def demo_key_def object_key.select_convs(1) option.distinct(1))
  from clear_correct [OF demo_store_ok(1) u this] u show ?thesis
    by (auto simp: demo_store_ok(2) demo_key_def fun_eq_iff)
qed

text \<open>Resetting with the data kept marks every row for upload and forgets the per-device
  uploads; without, all rows and datasets are gone. Both leave a consistent store.\<close>

theorem reset_correct:
  assumes "store_ok e s" "reset_store e keepData s = (Inr (), u)"
  shows "store_ok e u \<and> view e u = (if keepData then view e s else Map.empty) \<and>
    device_uploads (db u) = [] \<and>
    (if keepData then \<forall>k. row (db u) k = map_option (\<lambda>r. r\<lparr>changed := True\<rparr>) (row (db s) k)
     else data_index (db u) = [])"
  using reset_ok [OF assms] by simp

theorem reset_correct_witness: "\<exists>u. reset_store demo_env True demo_store = (Inr (), u) \<and> view demo_env u demo_key \<noteq> None"
proof -
  obtain u where u: "reset_store demo_env True demo_store = (Inr (), u)"
    using demo_env_ok(2) by (simp add: reset_store_def in_tx_def on_throw_def act_defs Let_def seq_assoc)
  from reset_correct [OF demo_store_ok(1) u] u show ?thesis by (simp add: demo_store_ok(2))
qed

text \<open>\<open>keys\<close> lists exactly the ids of the type that have a dataset, once each; \<open>count\<close> is
  their number; \<open>loadAll\<close> returns their datasets in the same order.\<close>

theorem listing_correct:
  assumes "env_ok e" "store_ok e s" "keys e t s = (Inr ids, u)" "count e t s = (Inr n, v)"
    and "load_all e t s = (Inr ds, w)"
  shows "set ids = {i. view e s \<lparr>typeName = t, keyId = i\<rparr> \<noteq> None} \<and> distinct ids \<and> n = length ids \<and>
    ds = map (\<lambda>i. the (view e s \<lparr>typeName = t, keyId = i\<rparr>)) ids"
proof -
  let ?rows = "stored_rows t (\<lambda>_. True) (db s)"
  have ids: "ids = map keyId (map fst ?rows)" and n: "n = length ?rows"
    using assms(3,4) by (auto simp: keys_def count_def act_defs split: if_splits)
  have "\<lparr>typeName = t, keyId = keyId k\<rparr> = k" if "k \<in> set (map fst ?rows)" for k
    using that stored_rows_keys(1) [OF assms(2), of t "\<lambda>_. True"] by (auto intro: key_eqI)
  then have "ds = map (\<lambda>i. the (view e s \<lparr>typeName = t, keyId = i\<rparr>)) ids"
    using load_where_Inr(1) [OF assms(2,1) assms(5) [unfolded load_all_def]] unfolding ids map_map by simp
  then show ?thesis
    using keys_Inr [OF assms(2,3)] ids n by simp
qed

theorem listing_correct_witness:
  "\<exists>u. keys demo_env ''T'' demo_store = (Inr [''1''], u)"
proof -
  have "fst (load_all demo_env ''T'' demo_store) = Inr [[(''a'', JNull)]]"
    by code_simp
  then obtain w where w: "load_all demo_env ''T'' demo_store = (Inr [[(''a'', JNull)]], w)"
    by (metis prod.collapse)
  obtain ids u n v where k: "keys demo_env ''T'' demo_store = (Inr ids, u)"
    and n: "count demo_env ''T'' demo_store = (Inr n, v)"
    using demo_env_ok(2) by (simp add: keys_def count_def gets_def)
  from listing_correct [OF demo_env_ok(1) demo_store_ok(1) k n w]
  have "set ids = {''1''}" "distinct ids"
    by (auto simp: demo_store_ok(2) demo_key_def split: if_splits)
  then have "ids = [''1'']"
    by (cases ids) (auto simp: subset_singleton_iff)
  with k show ?thesis by simp
qed

section \<open>Merging downloaded changes\<close>

lemma sync_change_extracted:
  assumes "sync_enabled c" "extract_change (prims cfg) (hl e) b = Inr ch"
  shows "sync_change e cfg key b (c, s) = (case sync_body e cfg ch s of
      (Inl _, t) \<Rightarrow> (c\<lparr>sync_out := sync_out c @ [SyncError]\<rparr>, t)
    | (Inr _, t) \<Rightarrow> (c\<lparr>sync_out := sync_out c @ [SyncDone key]\<rparr>, t))"
  using assms by (simp add: sync_change_def)

text \<open>C1: If a downloaded change is reported as done, the handler has taken exactly the step
  the decision table of \<open>modeling/exchange.txt\<close> prescribes for the changed key, has left all
  other keys alone, and the store is consistent.\<close>

theorem sync_change_refines_table:
  assumes "env_ok e" "store_ok e s" "sync_enabled c"
    and "extract_change (prims cfg) (hl e) b = Inr (del, k, v, d)"
    and "sync_change e cfg key b (c, s) = (c', t)" "sync_out c' = sync_out c @ [SyncDone key]"
  shows "store_ok e t \<and>
    known_of e t k = exchange (persistDeleted e) cfg (hl e) (typeName k) (known_of e s k) del v d \<and>
    (\<forall>k'. k' \<noteq> k \<longrightarrow> known_of e t k' = known_of e s k')"
proof -
  have "sync_body e cfg (del, k, v, d) s = (Inr (), t)"
    using assms(5,6) sync_change_extracted [OF assms(3,4), of key s] by (auto split: prod.splits sum.splits)
  from sync_body_settles [OF assms(1,2) this] show ?thesis by (simp add: settled_def)
qed

lemma sync_change_calm:
  assumes "env_ok e" "\<And>c. ok e c" "store_ok e s" "sync_enabled c"
    and "extract_change (prims cfg) (hl e) b = Inr (del, k, v, d)"
  shows "\<exists>t. sync_change e cfg key b (c, s) = (c\<lparr>sync_out := sync_out c @ [SyncDone key]\<rparr>, t) \<and>
    settled e k (exchange (persistDeleted e) cfg (hl e) (typeName k) (known_of e s k) del v d) s t"
proof -
  obtain t where t: "sync_body e cfg (del, k, v, d) s = (Inr (), t)"
    using sync_body_calm [OF _ assms(3)] assms(2) by blast
  with sync_body_settles [OF assms(1,3) t] sync_change_extracted [OF assms(4,5), of key s]
  show ?thesis by simp
qed

text \<open>What a device announces about a key when it uploads it.\<close>

fun announce :: "qprims \<Rightarrow> hlib \<Rightarrow> object_key \<Rightarrow> known \<Rightarrow> bytes" where
  "announce p h k Unknown = []"
| "announce p h k (CachedDelete v c) = combine_deleted p k v"
| "announce p h k (Known v d c) = combine p h k v d"

definition packable :: "hlib \<Rightarrow> object_key \<Rightarrow> known \<Rightarrow> bool" where
  "packable h k L \<longleftrightarrow> key_fits h k \<and> (\<forall>d. known_data L = Some d \<longrightarrow>
     fits (toJson h d) \<and> fromJson h (toJson h d) = Some (JObject d))"

lemma extract_announce:
  assumes "packable h k L" "report L = Some (del, v, d)"
  shows "extract_change qt_5_11 h (announce qt_5_11 h k L) = Inr (del, k, v, d)"
  using assms by (cases L) (auto simp: packable_def qt.extract_combine qt.extract_combine_deleted)

text \<open>C28: Without failing calls every well-formed change is merged and reported as done,
  whatever is stored: no combination of local and remote state is left out.\<close>

theorem sync_change_done:
  assumes "env_ok e" "\<And>c. ok e c" "store_ok e s" "sync_enabled c" "prims cfg = qt_5_11"
    and "packable (hl e) k L" "L \<noteq> Unknown"
  shows "sync_out (fst (sync_change e cfg key (announce qt_5_11 (hl e) k L) (c, s))) =
    sync_out c @ [SyncDone key]"
proof -
  obtain del v d where "report L = Some (del, v, d)"
    using assms(7) by (cases L) auto
  from extract_announce [OF assms(6) this]
  show ?thesis
    using sync_change_calm [OF assms(1-4), of cfg _ del k v d key] assms(5) by fastforce
qed

text \<open>C2: Two devices that both know something about a key (data or a deletion, at any versions below the largest) and receive each
  other's upload hold the same data for it afterwards, both the same dataset or none, provided that
  - no call of a library, of the file system or of the database fails, both stores are consistent and both merge what they receive;
  - both are configured alike: the same setting for persisting deletions and the same conflict policy, whose resolver, if there is
    one, does not depend on the order of its arguments;
  - what each knows can be packed, and the two data have the same checksum only if they are equal. The checksum is not
    injective (\<open>Divergences.json_hash_ambiguous\<close>): for different data with the same checksum the code takes
    the devices to agree although they do not.\<close>

theorem two_devices_agree:
  assumes "env_ok e1" "\<And>c. ok e1 c" "store_ok e1 s1" "sync_enabled c1"
    and "env_ok e2" "\<And>c. ok e2 c" "store_ok e2 s2" "sync_enabled c2"
    and "hl e1 = h" "hl e2 = h" "persistDeleted e1 = persistDeleted e2" "prims cfg = qt_5_11"
    and "L1 = known_of e1 s1 k" "L2 = known_of e2 s2 k" "L1 \<noteq> Unknown" "L2 \<noteq> Unknown"
    and "packable h k L1" "packable h k L2" "known_version L1 \<noteq> - 1" "known_version L2 \<noteq> - 1"
    and "\<And>d1 d2. known_data L1 = Some d1 \<Longrightarrow> known_data L2 = Some d2 \<Longrightarrow>
      json_hash h d1 = json_hash h d2 \<Longrightarrow> d1 = d2"
    and "\<And>d1 d2. chooser cfg (typeName k) d1 d2 = chooser cfg (typeName k) d2 d1"
    and "sync_change e1 cfg key1 (announce qt_5_11 h k L2) (c1, s1) = (c1', t1)"
    and "sync_change e2 cfg key2 (announce qt_5_11 h k L1) (c2, s2) = (c2', t2)"
  shows "view e1 t1 k = view e2 t2 k"
proof -
  have data: "view e t k = known_data (known_of e t k)" if "store_ok e t" for e t
    using that view_None_iff [OF store_okD(2) [OF that], of k]
    by (cases "row (db t) k"; cases "view e t k") (auto simp: known_of_def)
  obtain del1 v1 d1 where r1: "report L1 = Some (del1, v1, d1)"
    using assms(15) by (cases L1) auto
  obtain del2 v2 d2 where r2: "report L2 = Some (del2, v2, d2)"
    using assms(16) by (cases L2) auto
  have "settled e1 k (exchange (persistDeleted e1) cfg h (typeName k) L1 del2 v2 d2) s1 t1"
    using sync_change_calm [OF assms(1-4), of cfg _ del2 k v2 d2 key1] extract_announce [OF assms(18) r2]
      assms(9,12,13,23) by fastforce
  moreover have "settled e2 k (exchange (persistDeleted e1) cfg h (typeName k) L2 del1 v1 d1) s2 t2"
    using sync_change_calm [OF assms(5-8), of cfg _ del1 k v1 d1 key2] extract_announce [OF assms(17) r1]
      assms(10,11,12,14,24) by fastforce
  moreover have "known_data (exchange (persistDeleted e1) cfg h (typeName k) L1 del2 v2 d2) =
      known_data (exchange (persistDeleted e1) cfg h (typeName k) L2 del1 v1 d1)"
    using exchange_agree [OF assms(19-22) r1 r2, where pd = "persistDeleted e1"] by (simp add: receive_def)
  ultimately show ?thesis
    by (simp add: data settled_def)
qed

definition demo_cfg :: sync_cfg where
  "demo_cfg = \<lparr>policy = PreferChanged, resolver = None, prims = qt_5_11\<rparr>"

definition demo_ctl :: sync_ctl where
  "demo_ctl = \<lparr>sync_enabled = True, sync_out = []\<rparr>"

definition demo_store2 :: store where
  "demo_store2 = snd (save demo_env demo_key [(''b'', JNull)] empty_store)"

lemma demo_store2_ok: "store_ok demo_env demo_store2"
proof -
  have "save demo_env demo_key [(''b'', JNull)] empty_store = (Inr (), demo_store2)"
    using save_calm [of demo_env demo_key "[(''b'', JNull)]" empty_store] demo_env_ok(2)
    by (auto simp: demo_store2_def)
  from save_ok(1) [OF demo_env_ok(1) empty_store_ok this] show ?thesis .
qed

lemma demo_known:
  "known_of demo_env demo_store demo_key = Known 1 [(''a'', JNull)] True"
  "known_of demo_env demo_store2 demo_key = Known 1 [(''b'', JNull)] True"
  by code_simp+

lemma demo_packable:
  "packable (hl demo_env) demo_key (Known v [([c], JNull)] b)"
  by (simp add: packable_def key_fits_def fits_def demo_key_def demo_env_def demo_hl_def)

theorem sync_change_done_witness:
  "sync_out (fst (sync_change demo_env demo_cfg 7
     (announce qt_5_11 (hl demo_env) demo_key (Known 3 [(''b'', JNull)] False)) (demo_ctl, demo_store))) = [SyncDone 7]"
  using sync_change_done [OF demo_env_ok demo_store_ok(1), of demo_ctl demo_cfg demo_key
      "Known 3 [(''b'', JNull)] False" 7] demo_packable
  by (simp add: demo_ctl_def demo_cfg_def)

theorem sync_change_refines_table_witness:
  "\<exists>c' t. sync_change demo_env demo_cfg 7 (announce qt_5_11 (hl demo_env) demo_key (Known 3 [(''b'', JNull)] False))
     (demo_ctl, demo_store) = (c', t) \<and> known_of demo_env t demo_key = Known 3 [(''b'', JNull)] False"
proof -
  let ?b = "announce qt_5_11 (hl demo_env) demo_key (Known 3 [(''b'', JNull)] False)"
  have x: "extract_change (prims demo_cfg) (hl demo_env) ?b = Inr (False, demo_key, 3, [(''b'', JNull)])"
    using extract_announce [OF demo_packable, of 3 "CHR ''b''" False False 3] by (simp add: demo_cfg_def)
  have en: "sync_enabled demo_ctl" by (simp add: demo_ctl_def)
  from sync_change_calm [OF demo_env_ok demo_store_ok(1) en x, of 7]
  obtain c' t where "sync_change demo_env demo_cfg 7 ?b (demo_ctl, demo_store) = (c', t)"
    "sync_out c' = sync_out demo_ctl @ [SyncDone 7]" by auto
  with sync_change_refines_table [OF demo_env_ok(1) demo_store_ok(1) en x this] show ?thesis
    by (simp add: demo_known)
qed

theorem two_devices_agree_witness:
  "view demo_env (snd (sync_change demo_env demo_cfg 1
      (announce qt_5_11 (hl demo_env) demo_key (Known 1 [(''b'', JNull)] True)) (demo_ctl, demo_store))) demo_key =
   view demo_env (snd (sync_change demo_env demo_cfg 2
      (announce qt_5_11 (hl demo_env) demo_key (Known 1 [(''a'', JNull)] True)) (demo_ctl, demo_store2))) demo_key"
proof -
  have en: "sync_enabled demo_ctl" by (simp add: demo_ctl_def)
  show ?thesis
    by (rule two_devices_agree [OF demo_env_ok demo_store_ok(1) en demo_env_ok demo_store2_ok en refl refl refl _
          demo_known(1) [symmetric] demo_known(2) [symmetric] _ _ demo_packable demo_packable _ _ _ _
          prod.collapse [symmetric] prod.collapse [symmetric]])
       (auto simp: demo_cfg_def chooser_def json_hash_def demo_env_def demo_hl_def)
qed

text \<open>Delivering the same change a second time changes no data, and nothing at all
  unless it is a deletion that need not be remembered.\<close>

theorem redelivery_harmless:
  assumes "env_ok e" "\<And>c. ok e c" "store_ok e s" "sync_enabled c"
    and "extract_change (prims cfg) (hl e) b = Inr (del, k, v, d)" "v \<noteq> - 1"
    and "sync_change e cfg key b (c, s) = (c', t)" "sync_change e cfg key' b (c', t) = (c'', u)"
  shows "view e u = view e t \<and> (persistDeleted e \<or> \<not> del \<longrightarrow> known_of e u = known_of e t)"
proof -
  have data: "view e w k = known_data (known_of e w k)" if "store_ok e w" for w k
    using that view_None_iff [OF store_okD(2) [OF that], of k]
    by (cases "row (db w) k"; cases "view e w k") (auto simp: known_of_def)
  let ?x = "\<lambda>L. exchange (persistDeleted e) cfg (hl e) (typeName k) L del v d"
  have 1: "settled e k (?x (known_of e s k)) s t" and c': "sync_enabled c'"
    using sync_change_calm [OF assms(1-5), of key] assms(4,7) by auto
  then have t: "store_ok e t" by (simp add: settled_def)
  have 2: "settled e k (?x (known_of e t k)) t u"
    using sync_change_calm [OF assms(1,2) t c' assms(5), of key'] assms(8) by auto
  have "known_data (known_of e u k') = known_data (known_of e t k')" for k'
    using 1 2 exchange_idem(1) [OF assms(6)] by (simp add: settled_def)
  moreover have "known_of e u k' = known_of e t k'" if "persistDeleted e \<or> \<not> del" for k'
    using 1 2 exchange_idem(2) [OF assms(6) that] by (simp add: settled_def)
  ultimately show ?thesis
    using 2 t by (auto simp: data settled_def fun_eq_iff)
qed

theorem redelivery_harmless_witness:
  "\<exists>c' t c'' u. sync_change demo_env demo_cfg 7 (announce qt_5_11 (hl demo_env) demo_key (Known 3 [(''b'', JNull)] False))
       (demo_ctl, demo_store) = (c', t) \<and>
     sync_change demo_env demo_cfg 8 (announce qt_5_11 (hl demo_env) demo_key (Known 3 [(''b'', JNull)] False))
       (c', t) = (c'', u) \<and> view demo_env u = view demo_env t"
proof -
  let ?b = "announce qt_5_11 (hl demo_env) demo_key (Known 3 [(''b'', JNull)] False)"
  have x: "extract_change (prims demo_cfg) (hl demo_env) ?b = Inr (False, demo_key, 3, [(''b'', JNull)])"
    using extract_announce [OF demo_packable, of 3 "CHR ''b''" False False 3] by (simp add: demo_cfg_def)
  obtain c' t where 1: "sync_change demo_env demo_cfg 7 ?b (demo_ctl, demo_store) = (c', t)" by fastforce
  obtain c'' u where 2: "sync_change demo_env demo_cfg 8 ?b (c', t) = (c'', u)" by fastforce
  have "sync_enabled demo_ctl" by (simp add: demo_ctl_def)
  from redelivery_harmless [OF demo_env_ok demo_store_ok(1) this x _ 1 2] 1 2 show ?thesis by simp
qed

text \<open>Merging a change never moves the version of a key backwards, and never leaves it
  behind the change: afterwards the key is unknown (a forgotten deletion) or its version is at
  least the old one and at least the one received.\<close>

theorem sync_version_monotone:
  assumes "env_ok e" "\<And>c. ok e c" "store_ok e s" "sync_enabled c"
    and "extract_change (prims cfg) (hl e) b = Inr (del, k, v, d)" "v \<noteq> - 1"
    and "sync_change e cfg key b (c, s) = (c', t)"
  shows "known_of e t k = Unknown \<and> del \<or>
    known_version (known_of e s k) \<le> known_version (known_of e t k) \<and> v \<le> known_version (known_of e t k)"
proof -
  let ?L = "exchange (persistDeleted e) cfg (hl e) (typeName k) (known_of e s k) del v d"
  have "settled e k ?L s t"
    using sync_change_calm [OF assms(1-5), of key] assms(7) by auto
  then have t: "known_of e t k = ?L" by (simp add: settled_def)
  show ?thesis
  proof (cases "?L = Unknown")
    case True
    then have "del" by (cases "known_of e s k"; cases del) (auto split: if_splits)
    with True t show ?thesis by simp
  next
    case False
    from exchange_version [OF assms(6) this] show ?thesis by (simp add: t)
  qed
qed

theorem sync_version_monotone_witness:
  "\<exists>c' t. sync_change demo_env demo_cfg 7 (announce qt_5_11 (hl demo_env) demo_key (Known 1 [(''b'', JNull)] True))
     (demo_ctl, demo_store) = (c', t) \<and>
   (known_of demo_env t demo_key = Unknown \<and> False \<or>
    1 \<le> known_version (known_of demo_env t demo_key) \<and> 1 \<le> known_version (known_of demo_env t demo_key))"
proof -
  let ?b = "announce qt_5_11 (hl demo_env) demo_key (Known 1 [(''b'', JNull)] True)"
  have x: "extract_change (prims demo_cfg) (hl demo_env) ?b = Inr (False, demo_key, 1, [(''b'', JNull)])"
    using extract_announce [OF demo_packable, of 1 "CHR ''b''" True False 1] by (simp add: demo_cfg_def)
  obtain c' t where 1: "sync_change demo_env demo_cfg 7 ?b (demo_ctl, demo_store) = (c', t)" by fastforce
  have "sync_enabled demo_ctl" by (simp add: demo_ctl_def)
  from sync_version_monotone [OF demo_env_ok demo_store_ok(1) this x _ 1] 1 show ?thesis
    by (simp add: demo_known)
qed

end
