(* ===== verification/ChangeController.thy ===== *)
theory ChangeController
  imports LocalStoreProps
begin

text \<open>
  \<open>src/datasync/changecontroller.cpp\<close>: the uploader of local changes. Its state is the
  table of active uploads, the window size, the estimate of what is left, whether the
  operation timer runs, the calls it has queued to itself and the signals it has emitted.
\<close>

declare map_of_eq_Some_iff [simp del] Some_eq_map_of_iff [simp del]

section \<open>State\<close>

record upload_info =
  uiKey :: object_key
  uiVersion :: u64
  uiDelete :: bool

datatype change_signal =
    UploadingChanged bool
  | ProgressAdded u32
  | ProgressIncrement
  | UploadChange bytes bytes
  | UploadDeviceChange bytes uuid bytes
  | ChangeError

datatype queued_call = QUploadNext | QUploadDone bytes

text \<open>
  A \<open>CachedObjectKey\<close> in the table has its hash computed, so that two of them are equal
  iff hash and device are: the table is keyed with that pair.
\<close>

type_synonym cached_key = "bytes \<times> uuid"

record upload_ctl =
  uploadingEnabled :: bool
  uploadLimit :: int
  activeUploads :: "(cached_key \<times> upload_info) list"
  changeEstimate :: u32
  opTimer :: bool
  callQueue :: "queued_call list"
  uploadOut :: "change_signal list"

definition cached_key :: "env \<Rightarrow> object_key \<Rightarrow> uuid \<Rightarrow> cached_key" where
  "cached_key e key dev = (hashed (hl e) key, dev)"

definition send :: "change_signal \<Rightarrow> upload_ctl \<Rightarrow> upload_ctl" where
  "send x c = c\<lparr>uploadOut := uploadOut c @ [x]\<rparr>"

definition enqueue :: "queued_call \<Rightarrow> upload_ctl \<Rightarrow> upload_ctl" where
  "enqueue q c = c\<lparr>callQueue := callQueue c @ [q]\<rparr>"

abbreviation active_count :: "upload_ctl \<Rightarrow> int" where
  "active_count c \<equiv> int (length (activeUploads c))"

section \<open>Starting uploads\<close>

definition signal_started :: "bool \<Rightarrow> bool \<Rightarrow> upload_ctl \<Rightarrow> upload_ctl" where
  "signal_started emitStarted emitProgress c =
     (if emitStarted then
        if emitProgress then send (ProgressAdded (changeEstimate c)) (send (UploadingChanged True) c)
        else send (UploadingChanged True) c
      else c)"

text \<open>The visitor given to \<open>LocalStore::loadChanges\<close>; it answers whether to go on.\<close>

definition upload_visit :: "env \<Rightarrow> qprims \<Rightarrow> store \<Rightarrow> bool \<Rightarrow> change_row \<Rightarrow> upload_ctl \<times> bool \<Rightarrow>
    bool \<times> upload_ctl \<times> bool" where
  "upload_visit e p s emitProgress r cs = (case (r, cs) of ((objKey, ver, fileName, dev), (c, emitStarted)) \<Rightarrow>
     let key = cached_key e objKey dev in
     if map_of (activeUploads c) key \<noteq> None then (True, c, emitStarted)
     else
       let c1 = signal_started emitStarted emitProgress c;
           isDelete = (fileName = None);
           c2 = c1\<lparr>activeUploads := activeUploads c1 @
                     [(key, \<lparr>uiKey = objKey, uiVersion = ver, uiDelete = isDelete\<rparr>)], opTimer := True\<rparr>;
           upload = (\<lambda>b. if dev = 0 then UploadChange (fst key) b else UploadDeviceChange (fst key) dev b);
           c3 = (case fileName of
               None \<Rightarrow> send (upload (combine_deleted p objKey ver)) c2
             | Some f \<Rightarrow> (case fst (read_json e objKey f s) of
                 Inr json \<Rightarrow> send (upload (combine p (hl e) objKey ver json)) c2
               | Inl _ \<Rightarrow> enqueue (QUploadDone (fst key)) c2))
       in (active_count c3 < uploadLimit c3, c3, False))"

definition upload_next :: "env \<Rightarrow> qprims \<Rightarrow> bool \<Rightarrow> upload_ctl \<times> store \<Rightarrow> upload_ctl \<times> store" where
  "upload_next e p emitStarted0 cs = (case cs of (c0, s) \<Rightarrow>
     let again = (emitStarted0 \<and> activeUploads c0 \<noteq> []);
         emitStarted = (emitStarted0 \<and> \<not> again);
         c1 = (if again then send (UploadingChanged True) c0 else c0)
     in
     if active_count c1 \<ge> uploadLimit c1 then (c1, s)
     else
       case (if changeEstimate c1 = 0 then
               (case fst (change_count e s) of
                  Inl err \<Rightarrow> Inl err
                | Inr n \<Rightarrow>
                    let c' = c1\<lparr>changeEstimate := n\<rparr> in
                    if n > 0 then
                      if emitStarted then Inr (True, c') else Inr (False, send (ProgressAdded n) c')
                    else Inr (False, c'))
             else Inr (False, c1)) of
         Inl _ \<Rightarrow> (send ChangeError c1, s)
       | Inr (emitProgress, c2) \<Rightarrow>
           (case load_changes e (uploadLimit c2) (upload_visit e p s emitProgress) s (c2, emitStarted) of
              (Inl _, c3, _) \<Rightarrow> (send ChangeError c3, s)
            | (Inr _, c3, _) \<Rightarrow>
                if activeUploads c3 = [] then (send (UploadingChanged False) (c3\<lparr>opTimer := False\<rparr>), s)
                else (c3, s)))"

section \<open>The slots\<close>

definition set_uploading_enabled :: "env \<Rightarrow> qprims \<Rightarrow> bool \<Rightarrow> upload_ctl \<times> store \<Rightarrow> upload_ctl \<times> store" where
  "set_uploading_enabled e p uploading cs = (case cs of (c, s) \<Rightarrow>
     let c' = c\<lparr>uploadingEnabled := uploading\<rparr> in
     if uploading then upload_next e p True (c', s)
     else (send (UploadingChanged False) (c'\<lparr>opTimer := False\<rparr>), s))"

definition clear_uploads :: "env \<Rightarrow> qprims \<Rightarrow> upload_ctl \<times> store \<Rightarrow> upload_ctl \<times> store" where
  "clear_uploads e p cs = (case set_uploading_enabled e p False cs of (c, s) \<Rightarrow>
     (c\<lparr>activeUploads := [], changeEstimate := 0\<rparr>, s))"

definition update_upload_limit :: "u32 \<Rightarrow> upload_ctl \<Rightarrow> upload_ctl" where
  "update_upload_limit limit c = c\<lparr>uploadLimit := sint limit\<rparr>"

text \<open>The two completion slots share what follows the removal from the table.\<close>

definition finish_upload :: "upload_ctl \<Rightarrow> store_error + unit \<Rightarrow> upload_ctl" where
  "finish_upload c res = (case res of
       Inl _ \<Rightarrow> send ChangeError c
     | Inr _ \<Rightarrow>
         let c' = send ProgressIncrement (c\<lparr>changeEstimate := changeEstimate c - 1\<rparr>) in
         if uploadingEnabled c' \<and> active_count c' < uploadLimit c' then enqueue QUploadNext c' else c')"

definition upload_done :: "env \<Rightarrow> bytes \<Rightarrow> upload_ctl \<times> store \<Rightarrow> upload_ctl \<times> store" where
  "upload_done e key cs = (case cs of (c, s) \<Rightarrow>
     (case map_of (activeUploads c) (key, 0) of
        None \<Rightarrow> (c, s)
      | Some info \<Rightarrow>
          (case mark_unchanged e (uiKey info) (uiVersion info) (uiDelete info) s of (res, t) \<Rightarrow>
             (finish_upload (c\<lparr>activeUploads := AList.delete (key, 0) (activeUploads c)\<rparr>) res, t))))"

definition device_upload_done :: "env \<Rightarrow> bytes \<Rightarrow> uuid \<Rightarrow> upload_ctl \<times> store \<Rightarrow> upload_ctl \<times> store" where
  "device_upload_done e key dev cs = (case cs of (c, s) \<Rightarrow>
     (case map_of (activeUploads c) (key, dev) of
        None \<Rightarrow> (c, s)
      | Some info \<Rightarrow>
          (case remove_device_change e (uiKey info) dev s of (res, t) \<Rightarrow>
             (finish_upload (c\<lparr>activeUploads := AList.delete (key, dev) (activeUploads c)\<rparr>) res, t))))"

definition change_triggered :: "env \<Rightarrow> qprims \<Rightarrow> upload_ctl \<times> store \<Rightarrow> upload_ctl \<times> store" where
  "change_triggered e p cs =
     (if uploadingEnabled (fst cs) then upload_next e p (activeUploads (fst cs) = []) cs else cs)"

text \<open>The event loop delivers the oldest queued call.\<close>

definition run_queued :: "env \<Rightarrow> qprims \<Rightarrow> upload_ctl \<times> store \<Rightarrow> upload_ctl \<times> store" where
  "run_queued e p cs = (case callQueue (fst cs) of
       [] \<Rightarrow> cs
     | q # qs \<Rightarrow>
         let cs' = ((fst cs)\<lparr>callQueue := qs\<rparr>, snd cs) in
         (case q of QUploadNext \<Rightarrow> upload_next e p False cs' | QUploadDone key \<Rightarrow> upload_done e key cs'))"

section \<open>Any history of calls\<close>

datatype upload_event =
    EvEnable bool | EvClear | EvLimit u32 | EvDone bytes | EvDeviceDone bytes uuid
  | EvTrigger | EvQueued
  | EvStore store  \<comment> \<open>other parts change the store in between\<close>

fun handle_upload :: "env \<Rightarrow> qprims \<Rightarrow> upload_event \<Rightarrow> upload_ctl \<times> store \<Rightarrow> upload_ctl \<times> store" where
  "handle_upload e p (EvEnable b) cs = set_uploading_enabled e p b cs"
| "handle_upload e p EvClear cs = clear_uploads e p cs"
| "handle_upload e p (EvLimit n) cs = (update_upload_limit n (fst cs), snd cs)"
| "handle_upload e p (EvDone key) cs = upload_done e key cs"
| "handle_upload e p (EvDeviceDone key dev) cs = device_upload_done e key dev cs"
| "handle_upload e p EvTrigger cs = change_triggered e p cs"
| "handle_upload e p EvQueued cs = run_queued e p cs"
| "handle_upload e p (EvStore s) cs = (fst cs, s)"

section \<open>One scan\<close>

definition row_key :: "env \<Rightarrow> change_row \<Rightarrow> cached_key" where
  "row_key e r = (case r of (k, ver, f, dev) \<Rightarrow> cached_key e k dev)"

definition row_info :: "change_row \<Rightarrow> upload_info" where
  "row_info r = (case r of (k, ver, f, dev) \<Rightarrow> \<lparr>uiKey = k, uiVersion = ver, uiDelete = (f = None)\<rparr>)"

lemma send_fields [simp]:
  "uploadingEnabled (send x c) = uploadingEnabled c" "uploadLimit (send x c) = uploadLimit c"
  "activeUploads (send x c) = activeUploads c" "changeEstimate (send x c) = changeEstimate c"
  "opTimer (send x c) = opTimer c" "callQueue (send x c) = callQueue c"
  "uploadOut (send x c) = uploadOut c @ [x]"
  by (simp_all add: send_def)

lemma enqueue_fields [simp]:
  "uploadingEnabled (enqueue q c) = uploadingEnabled c" "uploadLimit (enqueue q c) = uploadLimit c"
  "activeUploads (enqueue q c) = activeUploads c" "changeEstimate (enqueue q c) = changeEstimate c"
  "opTimer (enqueue q c) = opTimer c" "uploadOut (enqueue q c) = uploadOut c"
  by (simp_all add: enqueue_def)

lemma signal_started_fields [simp]:
  "uploadingEnabled (signal_started b q c) = uploadingEnabled c" "uploadLimit (signal_started b q c) = uploadLimit c"
  "activeUploads (signal_started b q c) = activeUploads c" "changeEstimate (signal_started b q c) = changeEstimate c"
  "callQueue (signal_started b q c) = callQueue c"
  by (simp_all add: signal_started_def)

lemma upload_visit_known:
  "map_of (activeUploads c) (row_key e r) \<noteq> None \<Longrightarrow> upload_visit e p s ep r (c, st) = (True, c, st)"
  by (auto simp: upload_visit_def row_key_def Let_def split: prod.splits)

lemma upload_visit_new:
  assumes "map_of (activeUploads c) (row_key e r) = None"
    and "upload_visit e p s ep r (c, st) = (go, c', st')"
  shows "activeUploads c' = activeUploads c @ [(row_key e r, row_info r)]"
    and "uploadLimit c' = uploadLimit c" and "go \<longleftrightarrow> active_count c' < uploadLimit c"
    and "uploadingEnabled c' = uploadingEnabled c" and "changeEstimate c' = changeEstimate c"
    and "opTimer c'"
  using assms
  by (auto simp: upload_visit_def row_key_def row_info_def Let_def split: prod.splits option.splits sum.splits)

lemma map_of_append_some: "map_of t k \<noteq> None \<Longrightarrow> map_of (t @ u) k = map_of t k"
  by (auto simp: map_add_def split: option.splits)

text \<open>What a scan over \<open>rows\<close> does to the table.\<close>

definition scanned :: "env \<Rightarrow> change_row list \<Rightarrow> bool \<Rightarrow> upload_ctl \<Rightarrow> upload_ctl \<Rightarrow> bool" where
  "scanned e rows skip c c' \<longleftrightarrow>
     (\<exists>new. activeUploads c' = activeUploads c @ map (\<lambda>r. (row_key e r, row_info r)) new \<and> set new \<subseteq> set rows) \<and>
     distinct_keys (activeUploads c') \<and> uploadLimit c' = uploadLimit c \<and>
     uploadingEnabled c' = uploadingEnabled c \<and> changeEstimate c' = changeEstimate c \<and>
     active_count c' \<le> uploadLimit c \<and>
     (if skip then active_count c' = uploadLimit c
      else active_count c' < uploadLimit c \<and> (\<forall>r \<in> set rows. map_of (activeUploads c') (row_key e r) \<noteq> None))"

lemma scanned_cons:
  assumes "scanned e rows skip c1 c'" "map_of (activeUploads c') (row_key e r) \<noteq> None"
    and "activeUploads c' = activeUploads c @ map (\<lambda>r. (row_key e r, row_info r)) new" "set new \<subseteq> set (r # rows)"
    and "uploadLimit c1 = uploadLimit c" "uploadingEnabled c1 = uploadingEnabled c" "changeEstimate c1 = changeEstimate c"
  shows "scanned e (r # rows) skip c c'"
proof -
  have "\<exists>new. activeUploads c' = activeUploads c @ map (\<lambda>r. (row_key e r, row_info r)) new \<and> set new \<subseteq> set (r # rows)"
    using assms(3,4) by blast
  with assms(1,2,5-7) show ?thesis unfolding scanned_def
    by (cases skip) simp_all
qed

lemma scan_rows:
  assumes "distinct_keys (activeUploads c)" "active_count c < uploadLimit c"
    and "visit_rows (upload_visit e p s ep) rows (c, st) = (skip, n, c', st')"
  shows "scanned e rows skip c c' \<and> n \<le> length rows \<and> (\<not> skip \<longrightarrow> n = length rows)"
  using assms
proof (induction rows arbitrary: c st n)
  case Nil
  then show ?case by (auto simp: scanned_def)
next
  case (Cons r rows)
  obtain go c1 st1 where v: "upload_visit e p s ep r (c, st) = (go, c1, st1)"
    by (cases "upload_visit e p s ep r (c, st)") auto
  show ?case
  proof (cases "map_of (activeUploads c) (row_key e r)")
    case (Some i)
    with v have "go" "c1 = c" "st1 = st"
      using upload_visit_known [of c e r p s ep st] by auto
    moreover obtain m where "visit_rows (upload_visit e p s ep) rows (c, st) = (skip, m, c', st')" "n = Suc m"
      using Cons.prems(3) v calculation by (auto split: prod.splits)
    ultimately have IH: "scanned e rows skip c c'" "m \<le> length rows" "\<not> skip \<longrightarrow> m = length rows" "n = Suc m"
      using Cons.IH [OF Cons.prems(1,2)] by blast+
    then obtain new where new: "activeUploads c' = activeUploads c @ map (\<lambda>r. (row_key e r, row_info r)) new"
      "set new \<subseteq> set rows" by (auto simp: scanned_def)
    then have "map_of (activeUploads c') (row_key e r) \<noteq> None"
      using Some map_of_append_some [of "activeUploads c" "row_key e r"] by simp
    from scanned_cons [OF IH(1) this new(1)] new(2) IH(2-4) show ?thesis by auto
  next
    case None
    note new = upload_visit_new [OF None v]
    have dist: "distinct_keys (activeUploads c1)"
      using distinct_keys_append_new [OF Cons.prems(1) None] new(1) by simp
    have key: "map_of (activeUploads c1) (row_key e r) = Some (row_info r)"
      using None by (simp add: new(1) map_add_def)
    show ?thesis
    proof (cases go)
      case False
      with v Cons.prems(3) have "skip" "n = 1" "c' = c1" by auto
      with False new dist Cons.prems(2) show ?thesis
        by (auto simp: scanned_def intro!: exI [where x = "[r]"])
    next
      case True
      then have "active_count c1 < uploadLimit c1" using new by simp
      moreover obtain m where "visit_rows (upload_visit e p s ep) rows (c1, st1) = (skip, m, c', st')" "n = Suc m"
        using Cons.prems(3) v True by (auto split: prod.splits)
      ultimately have IH: "scanned e rows skip c1 c'" "m \<le> length rows" "\<not> skip \<longrightarrow> m = length rows" "n = Suc m"
        using Cons.IH [OF dist] by blast+
      then obtain rest where rest: "activeUploads c' = activeUploads c1 @ map (\<lambda>r. (row_key e r, row_info r)) rest"
        "set rest \<subseteq> set rows" by (auto simp: scanned_def)
      then have all: "activeUploads c' = activeUploads c @ map (\<lambda>r. (row_key e r, row_info r)) (r # rest)"
        "set (r # rest) \<subseteq> set (r # rows)"
        by (auto simp: new(1))
      have "map_of (activeUploads c') (row_key e r) \<noteq> None"
        using key map_of_append_some [of "activeUploads c1" "row_key e r"] rest(1) by simp
      from scanned_cons [OF IH(1) this all new(2,4,5)] IH(2-4) show ?thesis by auto
    qed
  qed
qed

section \<open>The window\<close>

definition pending :: "db \<Rightarrow> change_row list" where
  "pending d = changed_rows d @ device_rows d"

definition grew :: "env \<Rightarrow> store \<Rightarrow> upload_ctl \<Rightarrow> upload_ctl \<Rightarrow> bool" where
  "grew e s c c' \<longleftrightarrow>
     (\<exists>new. activeUploads c' = activeUploads c @ map (\<lambda>r. (row_key e r, row_info r)) new \<and>
       set new \<subseteq> set (pending (db s))) \<and>
     distinct_keys (activeUploads c') \<and> uploadLimit c' = uploadLimit c \<and>
     uploadingEnabled c' = uploadingEnabled c \<and> changeEstimate c' = changeEstimate c"

lemma grew_refl: "distinct_keys (activeUploads c) \<Longrightarrow> grew e s c c"
  by (auto simp: grew_def intro: exI [where x = "[]"])

lemma grew_trans:
  assumes "grew e s a b" "grew e s b c"
  shows "grew e s a c"
proof -
  obtain n1 n2 where "activeUploads b = activeUploads a @ map (\<lambda>r. (row_key e r, row_info r)) n1"
    "activeUploads c = activeUploads b @ map (\<lambda>r. (row_key e r, row_info r)) n2"
    "set n1 \<subseteq> set (pending (db s))" "set n2 \<subseteq> set (pending (db s))"
    using assms unfolding grew_def by blast
  then have "activeUploads c = activeUploads a @ map (\<lambda>r. (row_key e r, row_info r)) (n1 @ n2) \<and>
      set (n1 @ n2) \<subseteq> set (pending (db s))" by simp
  then have "\<exists>new. activeUploads c = activeUploads a @ map (\<lambda>r. (row_key e r, row_info r)) new \<and>
      set new \<subseteq> set (pending (db s))" by blast
  with assms show ?thesis unfolding grew_def by simp
qed

lemma scanned_grew: "scanned e rows skip c c' \<Longrightarrow> set rows \<subseteq> set (pending (db s)) \<Longrightarrow> grew e s c c'"
  unfolding scanned_def grew_def by (meson subset_trans)

lemma grew_active: "grew e s c c' \<Longrightarrow> map_of (activeUploads c) x \<noteq> None \<Longrightarrow> map_of (activeUploads c') x \<noteq> None"
  unfolding grew_def by (elim conjE exE) (simp add: map_of_append_some)

lemma scannedD:
  assumes "scanned e rows skip c c'"
  shows "active_count c' \<le> uploadLimit c" and "distinct_keys (activeUploads c')"
    and "uploadLimit c' = uploadLimit c" and "skip \<Longrightarrow> active_count c' = uploadLimit c"
    and "\<not> skip \<Longrightarrow> active_count c' < uploadLimit c"
    and "\<not> skip \<Longrightarrow> \<forall>r \<in> set rows. map_of (activeUploads c') (row_key e r) \<noteq> None"
  using assms unfolding scanned_def by simp_all

lemma set_sql_limit: "set (sql_limit n xs) \<subseteq> set xs"
  by (simp add: sql_limit_def set_take_subset)

text \<open>A call of \<open>loadChanges\<close>: the first scan, and the second if there is room.\<close>

lemma load_changes_scans:
  assumes "distinct_keys (activeUploads c)" "active_count c < uploadLimit c"
    and "load_changes e (uploadLimit c) (upload_visit e p s ep) s (c, st) = (res, c', st')"
  shows "grew e s c c' \<and> active_count c' \<le> uploadLimit c \<and>
    (res = Inr () \<longrightarrow> active_count c' = uploadLimit c \<or>
      (\<forall>r \<in> set (sql_limit (uploadLimit c) (changed_rows (db s))). map_of (activeUploads c') (row_key e r) \<noteq> None) \<and>
      (\<forall>r \<in> set (sql_limit (uploadLimit c - int (length (sql_limit (uploadLimit c) (changed_rows (db s))))) (device_rows (db s))).
         int (length (sql_limit (uploadLimit c) (changed_rows (db s)))) < uploadLimit c \<longrightarrow>
         map_of (activeUploads c') (row_key e r) \<noteq> None))"
proof -
  let ?r1 = "sql_limit (uploadLimit c) (changed_rows (db s))"
  obtain skip n c1 st1 where v1: "visit_rows (upload_visit e p s ep) ?r1 (c, st) = (skip, n, c1, st1)"
    by (cases "visit_rows (upload_visit e p s ep) ?r1 (c, st)") auto
  note s1 = scan_rows [OF assms(1,2) v1]
  let ?r2 = "sql_limit (uploadLimit c - int n) (device_rows (db s))"
  obtain skip2 n2 c2 st2 where v2: "visit_rows (upload_visit e p s ep) ?r2 (c1, st1) = (skip2, n2, c2, st2)"
    by (cases "visit_rows (upload_visit e p s ep) ?r2 (c1, st1)") auto
  have sub: "set ?r1 \<subseteq> set (pending (db s))" "set ?r2 \<subseteq> set (pending (db s))"
    using set_sql_limit by (force simp: pending_def)+
  have g1: "grew e s c c1" and b1: "active_count c1 \<le> uploadLimit c"
    using s1 scanned_grew [OF _ sub(1)] scannedD(1) by blast+
  have r: "(res = Inr () \<longrightarrow> ok e CBegin \<and> ok e (CExec 20) \<and> ok e CCommit \<and> (\<not> skip \<and> int n < uploadLimit c \<longrightarrow> ok e (CExec 21))) \<and>
      (c' = c \<or> c' = c1 \<or> \<not> skip \<and> int n < uploadLimit c \<and> c' = c2) \<and>
      (res = Inr () \<longrightarrow> (if \<not> skip \<and> int n < uploadLimit c then c' = c2 else c' = c1))"
    using assms(3) v1 v2
    by (auto simp: load_changes_def act_defs seq_def split: if_splits prod.splits sum.splits)
  have g2: "grew e s c1 c2 \<and> active_count c2 \<le> uploadLimit c \<and>
      (active_count c2 = uploadLimit c \<or> (\<forall>r \<in> set ?r2. map_of (activeUploads c2) (row_key e r) \<noteq> None))" if "\<not> skip"
  proof -
    have c1: "distinct_keys (activeUploads c1)" "active_count c1 < uploadLimit c1" "uploadLimit c1 = uploadLimit c"
      using scannedD [OF conjunct1 [OF s1]] that by simp_all
    note s2 = conjunct1 [OF scan_rows [OF c1(1,2) v2]]
    have "active_count c2 = uploadLimit c \<or> (\<forall>r \<in> set ?r2. map_of (activeUploads c2) (row_key e r) \<noteq> None)"
      using scannedD(4,6) [OF s2] c1(3) by (cases skip2) (simp, blast)
    with scannedD(1) [OF s2] scanned_grew [OF s2 sub(2)] c1(3) show ?thesis by simp
  qed
  have "grew e s c c' \<and> active_count c' \<le> uploadLimit c"
    using r g1 b1 g2 grew_trans grew_refl [OF assms(1)] assms(2) by (metis less_imp_le)
  moreover have "active_count c' = uploadLimit c \<or>
      (\<forall>r \<in> set ?r1. map_of (activeUploads c') (row_key e r) \<noteq> None) \<and>
      (\<forall>r \<in> set (sql_limit (uploadLimit c - int (length ?r1)) (device_rows (db s))).
         int (length ?r1) < uploadLimit c \<longrightarrow> map_of (activeUploads c') (row_key e r) \<noteq> None)" if "res = Inr ()"
  proof (cases skip)
    case True
    then have "c' = c1" using r that by auto
    with scannedD(4) [OF conjunct1 [OF s1] True] show ?thesis by blast
  next
    case False
    then have n: "n = length ?r1" and a1: "\<forall>r \<in> set ?r1. map_of (activeUploads c1) (row_key e r) \<noteq> None"
      using s1 scannedD(6) [OF conjunct1 [OF s1]] by blast+
    show ?thesis
    proof (cases "int n < uploadLimit c")
      case True
      then have "c' = c2" using r False that by auto
      with g2 [OF False] a1 grew_active [of e s c1 c2] n show ?thesis by blast
    next
      case False
      then have "c' = c1" using r that by auto
      with a1 False n show ?thesis by auto
    qed
  qed
  ultimately show ?thesis by blast
qed

fun is_notice :: "change_signal \<Rightarrow> bool" where
  "is_notice (UploadChange h b) = False"
| "is_notice (UploadDeviceChange h dev b) = False"
| "is_notice _ = True"

text \<open>Nothing but notices sent, the table as before.\<close>

definition same_table :: "upload_ctl \<Rightarrow> upload_ctl \<Rightarrow> bool" where
  "same_table c c' \<longleftrightarrow> activeUploads c' = activeUploads c \<and> uploadLimit c' = uploadLimit c \<and>
     uploadingEnabled c' = uploadingEnabled c \<and> callQueue c' = callQueue c \<and>
     (\<exists>out. uploadOut c' = uploadOut c @ out \<and> list_all is_notice out)"

lemma same_tableD:
  assumes "same_table c c'"
  shows "activeUploads c' = activeUploads c" "uploadLimit c' = uploadLimit c"
    "uploadingEnabled c' = uploadingEnabled c"
  using assms by (simp_all add: same_table_def)

lemma same_table_refl: "same_table c c"
  by (simp add: same_table_def)

lemma same_table_send: "same_table c d \<Longrightarrow> is_notice x \<Longrightarrow> same_table c (send x d)"
  by (fastforce simp: same_table_def)

lemma same_table_update:
  "same_table c d \<Longrightarrow> same_table c (d\<lparr>changeEstimate := n\<rparr>)"
  "same_table c d \<Longrightarrow> same_table c (d\<lparr>opTimer := b\<rparr>)"
  by (simp_all add: same_table_def)

lemmas same_table_intros = same_table_refl same_table_send same_table_update

lemma upload_next_cases:
  assumes "upload_next e p b (c, s) = (c', s')"
  obtains (full) "s' = s" "uploadLimit c \<le> active_count c" "same_table c c'"
  | (no_count) "s' = s" "active_count c < uploadLimit c" "same_table c c'" "fst (change_count e s) \<in> range Inl"
  | (scan) c2 st ep res c3 st3 where "s' = s" "active_count c < uploadLimit c" "same_table c c2"
      "load_changes e (uploadLimit c2) (upload_visit e p s ep) s (c2, st) = (res, c3, st3)" "same_table c3 c'"
proof -
  define again where "again = (b \<and> activeUploads c \<noteq> [])"
  define st where "st = (b \<and> \<not> again)"
  define c1 where "c1 = (if again then send (UploadingChanged True) c else c)"
  define est where "est = (if changeEstimate c1 = 0 then
       (case fst (change_count e s) of
          Inl err \<Rightarrow> Inl err
        | Inr n \<Rightarrow>
            let c' = c1\<lparr>changeEstimate := n\<rparr> in
            if n > 0 then if st then Inr (True, c') else Inr (False, send (ProgressAdded n) c')
            else Inr (False, c'))
     else Inr (False, c1))"
  have c1: "same_table c c1" by (simp add: c1_def same_table_intros)
  show ?thesis
  proof (cases "uploadLimit c1 \<le> active_count c1")
    case True
    with assms have "c' = c1" "s' = s"
      by (auto simp: upload_next_def Let_def again_def [symmetric] st_def [symmetric] c1_def [symmetric])
    with True c1 full same_tableD [OF c1] show ?thesis by simp
  next
    case False
    then have lt: "active_count c < uploadLimit c" using same_tableD [OF c1] by simp
    have eq: "(case est of Inl _ \<Rightarrow> (send ChangeError c1, s)
       | Inr (emitProgress, c2) \<Rightarrow>
           (case load_changes e (uploadLimit c2) (upload_visit e p s emitProgress) s (c2, st) of
              (Inl _, c3, _) \<Rightarrow> (send ChangeError c3, s)
            | (Inr _, c3, _) \<Rightarrow>
                if activeUploads c3 = [] then (send (UploadingChanged False) (c3\<lparr>opTimer := False\<rparr>), s)
                else (c3, s))) = (c', s')"
      using assms False unfolding upload_next_def prod.case Let_def est_def c1_def st_def again_def by simp
    show ?thesis
    proof (cases est)
      case (Inl x)
      then have "fst (change_count e s) \<in> range Inl"
        by (auto simp: est_def Let_def split: if_splits sum.splits)
      with eq Inl lt same_table_send [OF c1, of ChangeError] no_count show ?thesis by auto
    next
      case (Inr y)
      obtain ep c2 where y: "y = (ep, c2)" by fastforce
      with Inr c1 have c2: "same_table c c2"
        by (auto simp: est_def Let_def intro!: same_table_intros split: if_splits sum.splits)
      obtain res c3 st3 where l: "load_changes e (uploadLimit c2) (upload_visit e p s ep) s (c2, st) = (res, c3, st3)"
        by (cases "load_changes e (uploadLimit c2) (upload_visit e p s ep) s (c2, st)") auto
      then have "same_table c3 c'" "s' = s"
        using eq Inr y by (auto intro!: same_table_intros split: sum.splits if_splits)
      with lt c2 l scan show ?thesis by blast
    qed
  qed
qed

lemma upload_next_grows:
  assumes "distinct_keys (activeUploads c)" "upload_next e p b (c, s) = (c', s')"
  shows "s' = s \<and> distinct_keys (activeUploads c') \<and> uploadLimit c' = uploadLimit c \<and>
    uploadingEnabled c' = uploadingEnabled c \<and> active_count c' \<le> max (active_count c) (uploadLimit c) \<and>
    (\<exists>new. activeUploads c' = activeUploads c @ map (\<lambda>r. (row_key e r, row_info r)) new \<and>
       set new \<subseteq> set (pending (db s)))"
  using assms(2)
proof (cases rule: upload_next_cases)
  case (scan c2 st ep res c3 st3)
  have c2: "distinct_keys (activeUploads c2)" "active_count c2 < uploadLimit c2"
    using scan(2,3) assms(1) by (simp_all add: same_table_def)
  note l = conjunct1 [OF load_changes_scans [OF c2 scan(4)]] conjunct1 [OF conjunct2 [OF load_changes_scans [OF c2 scan(4)]]]
  with scan(1,3,5) show ?thesis
    unfolding grew_def same_table_def by (elim conjE exE) (intro conjI exI, simp_all)
qed (use assms(1) in \<open>auto simp: same_table_def intro: exI [where x = "[]"]\<close>)

section \<open>The window is filled\<close>

text \<open>The keys in use have different hashes, and no device has the null id.\<close>

definition hash_ok :: "env \<Rightarrow> db \<Rightarrow> bool" where
  "hash_ok e d \<longleftrightarrow> inj_on (hashed (hl e)) (fst ` set (data_index d)) \<and> (\<forall>(k, dev) \<in> set (device_uploads d). dev \<noteq> 0)"

lemma set_pending:
  "(k, v, f, dev) \<in> set (changed_rows d) \<longleftrightarrow> (\<exists>r. (k, r) \<in> set (data_index d) \<and> changed r \<and> v = version r \<and> f = dataFile r \<and> dev = 0)"
  "(k, v, f, dev) \<in> set (device_rows d) \<longleftrightarrow> (k, dev) \<in> set (device_uploads d) \<and>
     (\<exists>r. row d k = Some r \<and> \<not> (changed r \<and> dataFile r = None) \<and> v = version r \<and> f = dataFile r)"
  by (force simp: changed_rows_def device_rows_def set_map_filter split: if_splits option.splits)+

lemma pending_key_indexed: "r \<in> set (pending d) \<Longrightarrow> fst r \<in> fst ` set (data_index d)"
  by (cases r) (force simp: pending_def set_pending dest: map_of_SomeD)

lemma distinct_map_filter:
  assumes "distinct xs" "\<And>x y z. x \<in> set xs \<Longrightarrow> y \<in> set xs \<Longrightarrow> f x = Some z \<Longrightarrow> f y = Some z \<Longrightarrow> x = y"
  shows "distinct (List.map_filter f xs)"
  using assms
proof (induction xs)
  case (Cons x xs)
  then have "distinct (List.map_filter f xs)" by auto
  moreover have "z \<notin> set (List.map_filter f xs)" if "f x = Some z" for z
    using Cons.prems that by (auto simp: set_map_filter)
  ultimately show ?case by (simp add: List.map_filter_simps split: option.split)
qed (simp add: List.map_filter_simps)

lemma distinct_pending:
  assumes "db_inv d" "hash_ok e d"
  shows "distinct (map (row_key e) (pending d))"
proof -
  have keys: "distinct_keys (data_index d)"
    using assms(1) by (simp add: db_inv_def)
  then have "distinct (data_index d)" by (simp add: distinct_map)
  then have "distinct (changed_rows d)" unfolding changed_rows_def
    by (rule distinct_map_filter) (auto intro: eq_key_imp_eq_value [OF keys] split: if_splits)
  moreover have "distinct (device_uploads d)"
    using assms(1) by (simp add: db_inv_def)
  then have "distinct (device_rows d)"
    unfolding device_rows_def
  proof (rule distinct_map_filter)
    fix x y :: "object_key \<times> uuid" and z :: change_row
    let ?f = "\<lambda>(k, dev). case row d k of None \<Rightarrow> None
         | Some r \<Rightarrow> if changed r \<and> dataFile r = None then None else Some (k, version r, dataFile r, dev)"
    have *: "w = (fst z, snd (snd (snd z)))" if "?f w = Some z" for w
      using that by (cases w; cases "row d (fst w)") (auto split: if_splits)
    assume "?f x = Some z" "?f y = Some z"
    from * [OF this(1)] * [OF this(2)] show "x = y" by (rule trans [OF _ sym])
  qed
  moreover have "set (changed_rows d) \<inter> set (device_rows d) = {}"
    using assms(2) by (auto simp: set_pending hash_ok_def)
  moreover have "inj_on (row_key e) (set (pending d))"
  proof (rule inj_onI)
    fix x y
    assume x: "x \<in> set (pending d)" and y: "y \<in> set (pending d)" and eq: "row_key e x = row_key e y"
    have "fst x = fst y"
      using eq assms(2) pending_key_indexed [OF x] pending_key_indexed [OF y]
      by (cases x; cases y) (auto simp: row_key_def cached_key_def hash_ok_def dest: inj_onD)
    moreover have "snd (snd (snd x)) = snd (snd (snd y))"
      using eq by (cases x; cases y) (simp add: row_key_def cached_key_def)
    moreover have "\<exists>r. row d (fst z) = Some r \<and> fst (snd z) = version r \<and> fst (snd (snd z)) = dataFile r"
      if "z \<in> set (pending d)" for z
    proof -
      obtain a b f dev where z: "z = (a, b, f, dev)" by (cases z)
      show ?thesis using that by (auto simp: z pending_def set_pending map_of_is_SomeI [OF keys])
    qed
    from this [OF x] this [OF y] calculation show "x = y" by (metis option.inject prod_eqI)
  qed
  moreover have "distinct (pending d)"
    unfolding pending_def distinct_append by (intro conjI) fact+
  ultimately show ?thesis
    by (simp add: distinct_map)
qed

lemma active_at_least:
  assumes "distinct (map (row_key e) xs)" "\<forall>r \<in> set xs. map_of (activeUploads c) (row_key e r) \<noteq> None"
  shows "int (length xs) \<le> active_count c"
proof -
  have "length xs = card (row_key e ` set xs)"
    using distinct_card [OF assms(1)] by simp
  also have "\<dots> \<le> card (fst ` set (activeUploads c))"
    using assms(2) by (intro card_mono) (auto simp: map_of_eq_None_iff)
  also have "\<dots> \<le> length (activeUploads c)"
    by (metis card_length length_map list.set_map)
  finally show ?thesis by simp
qed

lemma load_changes_full:
  assumes "distinct_keys (activeUploads c)" "active_count c < uploadLimit c" "db_inv (db s)" "hash_ok e (db s)"
    and "load_changes e (uploadLimit c) (upload_visit e p s ep) s (c, st) = (Inr (), c', st')"
  shows "active_count c' = uploadLimit c \<or> (\<forall>r \<in> set (pending (db s)). map_of (activeUploads c') (row_key e r) \<noteq> None)"
proof (cases "active_count c' = uploadLimit c")
  case ne: False
  let ?L = "uploadLimit c" and ?ch = "changed_rows (db s)" and ?dev = "device_rows (db s)"
  note sc = load_changes_scans [OF assms(1,2,5)]
  have lt: "active_count c' < ?L" using sc ne by linarith
  have a1: "\<forall>r \<in> set (sql_limit ?L ?ch). map_of (activeUploads c') (row_key e r) \<noteq> None"
    using sc ne by blast
  have a2: "\<forall>r \<in> set (sql_limit (?L - int (length (sql_limit ?L ?ch))) ?dev).
      map_of (activeUploads c') (row_key e r) \<noteq> None" if "int (length (sql_limit ?L ?ch)) < ?L"
    using sc ne that by blast
  have dist: "distinct (map (row_key e) (?ch @ ?dev))"
    using distinct_pending [OF assms(3,4)] by (simp add: pending_def)
  have L: "0 \<le> ?L" using lt by linarith
  have "int (length (sql_limit ?L ?ch)) < ?L"
  proof -
    have "distinct (map (row_key e) (sql_limit ?L ?ch))"
      using dist L by (simp add: sql_limit_def flip: take_map)
    from active_at_least [OF this a1] lt show ?thesis by linarith
  qed
  note short = this
  then have ch: "sql_limit ?L ?ch = ?ch" using L by (auto simp: sql_limit_def)
  let ?n = "?L - int (length ?ch)"
  have dev: "sql_limit ?n ?dev = ?dev"
  proof -
    have "distinct (map (row_key e) (?ch @ sql_limit ?n ?dev))"
      using dist short ch by (auto simp: sql_limit_def simp flip: take_map dest: in_set_takeD)
    moreover have "\<forall>r \<in> set (?ch @ sql_limit ?n ?dev). map_of (activeUploads c') (row_key e r) \<noteq> None"
      using a1 a2 [OF short] ch by auto
    ultimately have "int (length (?ch @ sql_limit ?n ?dev)) < ?L"
      using active_at_least lt by (meson order.strict_trans1)
    moreover have "\<not> ?n < 0" using short ch by simp
    ultimately show ?thesis by (auto simp: sql_limit_def split: if_splits)
  qed
  show ?thesis
    using a1 a2 [OF short] ch dev by (auto simp: pending_def)
qed simp

end
