(* ===== verification/UploadClaims.thy ===== *)
theory UploadClaims
  imports StoreClaims ChangeController
begin

text \<open>
  The properties of the uploader (\<open>src/datasync/changecontroller.cpp\<close>): the window of active
  uploads, what is sent and what a confirmation does.
\<close>

definition new_uploads :: upload_ctl where
  "new_uploads = \<lparr>uploadingEnabled = False, uploadLimit = 10, activeUploads = [], changeEstimate = 0,
     opTimer = False, callQueue = [], uploadOut = []\<rparr>"

section \<open>The bound of the window\<close>

lemma finish_upload_table [simp]:
  "activeUploads (finish_upload c res) = activeUploads c" "uploadLimit (finish_upload c res) = uploadLimit c"
  by (cases res; simp add: finish_upload_def Let_def)+

lemma delete_bound:
  "distinct_keys al \<Longrightarrow> distinct_keys (AList.delete k al) \<and> length (AList.delete k al) \<le> length al"
  by (simp add: distinct_delete length_delete_le)

lemma handle_upload_bound:
  assumes "distinct_keys (activeUploads c)" "active_count c \<le> N" "uploadLimit c \<le> N"
    and "\<forall>n. ev = EvLimit n \<longrightarrow> sint n \<le> N" "handle_upload e p ev (c, s) = (c', s')"
  shows "distinct_keys (activeUploads c') \<and> active_count c' \<le> N \<and> uploadLimit c' \<le> N"
proof -
  have next_ok: "distinct_keys (activeUploads d') \<and> active_count d' \<le> N \<and> uploadLimit d' \<le> N"
    if "upload_next e p b (d, t) = (d', t')" "distinct_keys (activeUploads d)" "active_count d \<le> N" "uploadLimit d \<le> N"
    for b d t d' t'
    using upload_next_grows [OF that(2,1)] that by auto
  have done_ok: "distinct_keys (activeUploads d') \<and> active_count d' \<le> N \<and> uploadLimit d' \<le> N"
    if "upload_done e key (d, t) = (d', t')" "distinct_keys (activeUploads d)" "active_count d \<le> N" "uploadLimit d \<le> N"
    for key d t d' t'
    using that delete_bound [OF that(2), of "(key, 0)"]
    by (auto simp: upload_done_def split: option.splits prod.splits)
  show ?thesis
  proof (cases ev)
    case (EvEnable b)
    with assms next_ok [of True "c\<lparr>uploadingEnabled := b\<rparr>"] show ?thesis
      by (auto simp: set_uploading_enabled_def Let_def split: if_splits)
  next
    case (EvDone key)
    with assms done_ok show ?thesis by simp
  next
    case (EvDeviceDone key dev)
    with assms delete_bound [OF assms(1), of "(key, dev)"] show ?thesis
      by (auto simp: device_upload_done_def split: option.splits prod.splits)
  next
    case EvTrigger
    with assms next_ok show ?thesis by (auto simp: change_triggered_def split: if_splits)
  next
    case EvQueued
    with assms next_ok [of False "c\<lparr>callQueue := tl (callQueue c)\<rparr>"] done_ok [of _ "c\<lparr>callQueue := tl (callQueue c)\<rparr>"]
    show ?thesis by (auto simp: run_queued_def Let_def split: list.splits queued_call.splits)
  qed (use assms in \<open>auto simp: clear_uploads_def set_uploading_enabled_def update_upload_limit_def Let_def\<close>)
qed

text \<open>Whatever happens, in any order - changes, confirmations (also unknown ones), failing
  reads, limits set by the server, other activity on the store - there are never more uploads
  under way than the largest limit in force so far, and none twice.\<close>

theorem upload_window_bound:
  assumes "10 \<le> N" "\<forall>(e, ev) \<in> set evs. \<forall>n. ev = EvLimit n \<longrightarrow> sint n \<le> N"
  shows "distinct_keys (activeUploads (fst (fold (\<lambda>(e, ev). handle_upload e p ev) evs (new_uploads, s)))) \<and>
    active_count (fst (fold (\<lambda>(e, ev). handle_upload e p ev) evs (new_uploads, s))) \<le> N"
proof -
  let ?ok = "\<lambda>c. distinct_keys (activeUploads c) \<and> active_count c \<le> N \<and> uploadLimit c \<le> N"
  have "?ok (fst (fold (\<lambda>(e, ev). handle_upload e p ev) evs cs))" if "?ok (fst cs)" for cs
    using that assms(2)
  proof (induction evs arbitrary: cs)
    case (Cons x evs)
    obtain e ev c s c' s' where x: "x = (e, ev)" "cs = (c, s)" "handle_upload e p ev cs = (c', s')"
      by (metis surj_pair)
    then have "?ok c'"
      using handle_upload_bound [of c N ev e p s c' s'] Cons.prems by auto
    then show ?case using Cons.IH [of "(c', s')"] Cons.prems(2) x by simp
  qed simp
  from this [of "(new_uploads, s)"] assms(1) show ?thesis by (simp add: new_uploads_def)
qed

theorem upload_window_bound_witness:
  "active_count (fst (fold (\<lambda>(e, ev). handle_upload e qt_5_11 ev)
     [(demo_env, EvLimit 12), (demo_env, EvEnable True), (demo_env, EvDone ''x'')] (new_uploads, demo_store))) \<le> 12"
  using upload_window_bound [of 12 "[(demo_env, EvLimit 12), (demo_env, EvEnable True), (demo_env, EvDone ''x'')]"
      qt_5_11 demo_store] by simp

section \<open>What is sent\<close>

lemma visit_rows_keeps:
  assumes "\<And>r v. r \<in> set rows \<Longrightarrow> P v \<Longrightarrow> P (snd (f r v))" "P v"
  shows "P (snd (snd (visit_rows f rows v)))"
  using assms
proof (induction f rows v rule: visit_rows.induct)
  case (2 f r rs v)
  obtain b v' where v': "f r v = (b, v')" by fastforce
  with "2.prems"(1) [of r v] "2.prems"(2) have "P v'" by simp
  moreover from this have "P (snd (snd (visit_rows f rs v')))" if b
    using "2.IH" [OF v' [symmetric]] "2.prems"(1) that by auto
  ultimately show ?case by (simp add: v' split: bool.split prod.split) (metis snd_conv)
qed simp

lemma load_changes_keeps:
  assumes "\<And>r v. r \<in> set (pending (db s)) \<Longrightarrow> P v \<Longrightarrow> P (snd (f r v))" "P v"
  shows "P (snd (load_changes e n f s v))"
proof -
  have sub: "set (sql_limit m (changed_rows (db s))) \<subseteq> set (pending (db s))"
    "set (sql_limit m (device_rows (db s))) \<subseteq> set (pending (db s))" for m
    using set_sql_limit by (force simp: pending_def)+
  obtain skip cnt v1 where v1: "visit_rows f (sql_limit n (changed_rows (db s))) v = (skip, cnt, v1)"
    by (cases "visit_rows f (sql_limit n (changed_rows (db s))) v") auto
  have "P (snd (snd (visit_rows f (sql_limit n (changed_rows (db s))) v)))"
    by (rule visit_rows_keeps [where P = P, OF _ assms(2)]) (use assms(1) sub in blast)
  with v1 have p1: "P v1" by simp
  have "P (snd (snd (visit_rows f (sql_limit m (device_rows (db s))) v1)))" for m
    by (rule visit_rows_keeps [where P = P, OF _ p1]) (use assms(1) sub in blast)
  with assms(2) p1 v1 show ?thesis
    by (auto simp: load_changes_def act_defs seq_def)
qed

fun faithful :: "env \<Rightarrow> qprims \<Rightarrow> store \<Rightarrow> change_signal \<Rightarrow> bool" where
  "faithful e p s (UploadChange h b) =
     (\<exists>k r. row (db s) k = Some r \<and> changed r \<and> h = hashed (hl e) k \<and> b = announce p (hl e) k (known_of e s k))"
| "faithful e p s (UploadDeviceChange h dev b) =
     (\<exists>k. (k, dev) \<in> set (device_uploads (db s)) \<and> h = hashed (hl e) k \<and> b = announce p (hl e) k (known_of e s k))"
| "faithful e p s _ = True"

lemma upload_visit_faithful:
  assumes "store_ok e s" "hash_ok e (db s)" "r \<in> set (pending (db s))"
    and "upload_visit e p s ep r (c, st) = (go, c', st')"
  shows "\<exists>out. uploadOut c' = uploadOut c @ out \<and> list_all (faithful e p s) out"
proof -
  obtain k v f dev where r: "r = (k, v, f, dev)" by (cases r)
  have keys: "distinct_keys (data_index (db s))"
    using store_okD(1) [OF assms(1)] by (simp add: tables_ok_def db_inv_def)
  from assms(3) have "\<exists>x. row (db s) k = Some x \<and> v = version x \<and> f = dataFile x \<and>
      (if dev = 0 then changed x else (k, dev) \<in> set (device_uploads (db s)))"
    unfolding r pending_def set_append Un_iff set_pending
  proof
    assume "\<exists>x. (k, x) \<in> set (data_index (db s)) \<and> changed x \<and> v = version x \<and> f = dataFile x \<and> dev = 0"
    then show ?thesis using map_of_is_SomeI [OF keys] by auto
  next
    assume a: "(k, dev) \<in> set (device_uploads (db s)) \<and> (\<exists>x. row (db s) k = Some x \<and>
      \<not> (changed x \<and> dataFile x = None) \<and> v = version x \<and> f = dataFile x)"
    then have "dev \<noteq> 0" using assms(2) by (auto simp: hash_ok_def)
    with a show ?thesis by auto
  qed
  then obtain x where x: "row (db s) k = Some x" "v = version x" "f = dataFile x"
    and src: "if dev = 0 then changed x else (k, dev) \<in> set (device_uploads (db s))" by blast
  show ?thesis
  proof (cases "map_of (activeUploads c) (row_key e r)")
    case (Some i)
    then show ?thesis
      using upload_visit_known [of c e r p s ep st] assms(4) by (auto intro: exI [where x = "[]"])
  next
    case None
    have start: "\<exists>o1. uploadOut (signal_started st ep c) = uploadOut c @ o1 \<and> list_all (faithful e p s) o1"
      by (auto simp: signal_started_def)
    have upload: "faithful e p s (if dev = 0 then UploadChange (hashed (hl e) k) b else UploadDeviceChange (hashed (hl e) k) dev b)"
      if "b = announce p (hl e) k (known_of e s k)" for b
      using src x that by (auto split: if_splits)
    show ?thesis
    proof (cases f)
      case None': None
      have "known_of e s k = CachedDelete v (changed x)"
        using known_cases(2) [OF assms(1) x(1)] x None' by simp
      then have "uploadOut c' = uploadOut (signal_started st ep c) @
          [if dev = 0 then UploadChange (hashed (hl e) k) (announce p (hl e) k (known_of e s k))
           else UploadDeviceChange (hashed (hl e) k) dev (announce p (hl e) k (known_of e s k))]"
        using assms(4) None None' by (auto simp: upload_visit_def r row_key_def cached_key_def Let_def)
      with start upload show ?thesis by fastforce
    next
      case (Some base)
      then obtain d where d: "map_of (files s) (file_path e k base) = Some (JObject d)"
        "known_of e s k = Known v d (changed x)"
        using known_cases(3) [OF assms(1) x(1), of base] x by auto
      show ?thesis
      proof (cases "fst (read_json e k base s)")
        case (Inl err)
        then have "uploadOut c' = uploadOut (signal_started st ep c)"
          using assms(4) None Some by (auto simp: upload_visit_def r row_key_def cached_key_def Let_def)
        with start show ?thesis by simp
      next
        case (Inr json)
        then have "json = d"
          using read_json_Inr [of e k base s json] d(1) by (cases "read_json e k base s") auto
        then have "uploadOut c' = uploadOut (signal_started st ep c) @
            [if dev = 0 then UploadChange (hashed (hl e) k) (announce p (hl e) k (known_of e s k))
             else UploadDeviceChange (hashed (hl e) k) dev (announce p (hl e) k (known_of e s k))]"
          using assms(4) None Some Inr d by (auto simp: upload_visit_def r row_key_def cached_key_def Let_def)
        with start upload show ?thesis by fastforce
      qed
    qed
  qed
qed

lemma notice_faithful: "list_all is_notice out \<Longrightarrow> list_all (faithful e p s) out"
proof (induction out)
  case (Cons x out)
  then show ?case by (cases x) simp_all
qed simp

text \<open>C18: Everything an upload round sends is true: an upload is of a row marked as changed, a
  device upload of one announced for that device, and the message packs exactly the version
  and the data (or the deletion) stored under the key with that hash.\<close>

theorem upload_sends_stored_data:
  assumes "store_ok e s" "hash_ok e (db s)" "upload_next e p b (c, s) = (c', s')"
  shows "s' = s \<and> (\<exists>out. uploadOut c' = uploadOut c @ out \<and> list_all (faithful e p s) out)"
  using assms(3)
proof (cases rule: upload_next_cases)
  case (scan c2 st ep res c3 st3)
  let ?P = "\<lambda>v :: upload_ctl \<times> bool. \<exists>out. uploadOut (fst v) = uploadOut c2 @ out \<and> list_all (faithful e p s) out"
  have step: "?P (snd (upload_visit e p s ep r v))" if "r \<in> set (pending (db s))" "?P v" for r v
  proof -
    obtain d x where v: "v = (d, x)" by fastforce
    obtain go d' x' where u: "upload_visit e p s ep r v = (go, d', x')"
      by (cases "upload_visit e p s ep r v") auto
    from upload_visit_faithful [OF assms(1,2) that(1) u [unfolded v]] that(2) u v
    show ?thesis by fastforce
  qed
  have "?P (snd (load_changes e (uploadLimit c2) (upload_visit e p s ep) s (c2, st)))"
    by (rule load_changes_keeps [where P = ?P, OF step]) auto
  then obtain o1 where o1: "uploadOut c3 = uploadOut c2 @ o1" "list_all (faithful e p s) o1"
    using scan(4) by auto
  obtain o0 o2 where o: "uploadOut c2 = uploadOut c @ o0" "list_all (faithful e p s) o0"
    "uploadOut c' = uploadOut c3 @ o2" "list_all (faithful e p s) o2"
    using scan(3,5) notice_faithful unfolding same_table_def by metis
  have "uploadOut c' = uploadOut c @ (o0 @ o1 @ o2)" "list_all (faithful e p s) (o0 @ o1 @ o2)"
    using o1 o by simp_all
  with scan(1) show ?thesis by blast
qed (use notice_faithful in \<open>auto simp: same_table_def\<close>)

lemma demo_hash_ok: "hash_ok demo_env (db demo_store)"
proof -
  have "map fst (data_index (db demo_store)) = [demo_key]" "device_uploads (db demo_store) = []"
    by code_simp+
  then show ?thesis unfolding hash_ok_def by (simp flip: set_map)
qed

theorem upload_sends_stored_data_witness:
  "\<exists>c' s'. upload_next demo_env qt_5_11 True (new_uploads, demo_store) = (c', s') \<and>
     list_all (faithful demo_env qt_5_11 demo_store) (uploadOut c')"
proof -
  obtain c' s' where u: "upload_next demo_env qt_5_11 True (new_uploads, demo_store) = (c', s')" by fastforce
  from upload_sends_stored_data [OF demo_store_ok(1) demo_hash_ok u] u show ?thesis
    by (auto simp: new_uploads_def)
qed

section \<open>Filling the window\<close>

lemma change_count_calm: "ok e (CExec 0) \<Longrightarrow> fst (change_count e s) \<notin> range Inl"
  by (auto simp: change_count_def act_defs)

lemma load_changes_calm:
  assumes "\<And>c. ok e c" shows "\<exists>v'. load_changes e n f s v = (Inr (), v')"
  using assms by (simp add: load_changes_def guard_call_def seq_def modify_def ret_def split: prod.split)

lemma upload_next_full:
  assumes "\<And>c. ok e c" "distinct_keys (activeUploads c)" "db_inv (db s)" "hash_ok e (db s)"
    and "upload_next e p b (c, s) = (c', s')"
  shows "uploadLimit c \<le> active_count c' \<or> (\<forall>r \<in> set (pending (db s)). map_of (activeUploads c') (row_key e r) \<noteq> None)"
  using assms(5)
proof (cases rule: upload_next_cases)
  case full
  then show ?thesis using same_tableD by simp
next
  case no_count
  with change_count_calm assms(1) show ?thesis by blast
next
  case (scan c2 st ep res c3 st3)
  note c2 = same_tableD [OF scan(3)] and c3 = same_tableD [OF scan(5)]
  have "res = Inr ()"
    using load_changes_calm [OF assms(1)] scan(4) by (metis prod.inject)
  then show ?thesis
    using load_changes_full [of c2 s e p ep st c3 st3] scan assms(2-4) by (simp add: c2 c3) linarith
qed

text \<open>When no call fails, an upload round leaves the window full or every pending change -
  changed rows and rows announced for single devices - under way.\<close>

theorem upload_window_filled:
  assumes "\<And>c. ok e c" "distinct_keys (activeUploads c)" "db_inv (db s)" "hash_ok e (db s)"
    and "upload_next e p b (c, s) = (c', s')"
  shows "uploadLimit c' \<le> active_count c' \<or> set (map (row_key e) (pending (db s))) \<subseteq> set (map fst (activeUploads c'))"
  using upload_next_full [OF assms] upload_next_grows [OF assms(2,5)] by (auto simp: map_of_eq_None_iff)

theorem upload_window_filled_witness:
  "\<exists>c' s'. upload_next demo_env qt_5_11 True (new_uploads, demo_store) = (c', s') \<and>
     (uploadLimit c' \<le> active_count c' \<or>
      set (map (row_key demo_env) (pending (db demo_store))) \<subseteq> set (map fst (activeUploads c')))"
proof -
  obtain c' s' where u: "upload_next demo_env qt_5_11 True (new_uploads, demo_store) = (c', s')" by fastforce
  have "db_inv (db demo_store)" using demo_store_ok(1) by (simp add: store_ok_def tables_ok_def)
  from upload_window_filled [OF demo_env_ok(2) _ this demo_hash_ok u] u show ?thesis
    by (simp add: new_uploads_def)
qed

section \<open>Confirmations\<close>

lemma mark_unchanged_Inr:
  assumes "mark_unchanged e k v del s = (Inr (), t)"
  shows "t = update_db (if del \<and> \<not> persistDeleted e
      then delete_index (\<lambda>k' r. k' = k \<and> version r = v \<and> dataFile r = None)
      else update_index (now e) (\<lambda>k' r. k' = k \<and> version r = v) (\<lambda>r. r\<lparr>changed := False\<rparr>)) s"
  using assms by (auto simp: mark_unchanged_def mark_unchanged_impl_def act_defs split: if_splits)

lemma update_rows_none: "\<forall>(k, v) \<in> set t. \<not> P k v \<Longrightarrow> update_rows P f t = t"
  by (induction t) (auto simp: update_rows_def)

lemma delete_rows_none: "\<forall>(k, v) \<in> set t. \<not> P k v \<Longrightarrow> delete_rows P t = t"
  by (induction t) (auto simp: delete_rows_def)

text \<open>C5: A confirmed upload concerns the version that was sent. If the dataset was changed
  meanwhile, the index is left exactly as it is, so the newer version is still uploaded; if
  not, the row is no longer marked, or gone when it was a deletion that is not remembered.\<close>

theorem upload_done_no_lost_update:
  assumes "db_inv (db s)" "map_of (activeUploads c) (key, 0) = Some info" "row (db s) (uiKey info) = Some r"
    and "mark_unchanged e (uiKey info) (uiVersion info) (uiDelete info) s = (Inr (), t)"
    and "upload_done e key (c, s) = (c', s')"
  shows "(version r \<noteq> uiVersion info \<longrightarrow> data_index (db s') = data_index (db s)) \<and>
    (version r = uiVersion info \<longrightarrow>
       row (db s') (uiKey info) =
         (if uiDelete info \<and> \<not> persistDeleted e \<and> dataFile r = None then None
          else Some (if uiDelete info \<and> \<not> persistDeleted e then r else r\<lparr>changed := False\<rparr>))) \<and>
    (\<forall>k. k \<noteq> uiKey info \<longrightarrow> row (db s') k = row (db s) k) \<and>
    map_of (activeUploads c') (key, 0) = None \<and> changeEstimate c' = changeEstimate c - 1"
proof -
  have keys: "distinct_keys (data_index (db s))"
    using assms(1) by (simp add: db_inv_def)
  have s': "s' = t" and c': "c' = finish_upload (c\<lparr>activeUploads := AList.delete (key, 0) (activeUploads c)\<rparr>) (Inr ())"
    using assms(2,4,5) by (auto simp: upload_done_def)
  note t = mark_unchanged_Inr [OF assms(4)]
  have same: "data_index (db t) = data_index (db s)" if "version r \<noteq> uiVersion info"
  proof -
    have none: "\<forall>(k, x) \<in> set (data_index (db s)). \<not> (k = uiKey info \<and> version x = uiVersion info)"
      using that assms(3) map_of_is_SomeI [OF keys] by fastforce
    then have "\<forall>(k, x) \<in> set (data_index (db s)). \<not> (k = uiKey info \<and> version x = uiVersion info \<and> dataFile x = None)"
      by fastforce
    from update_rows_none [OF none] delete_rows_none [OF this] show ?thesis
      by (simp add: t update_index_def delete_index_def Let_def)
  qed
  have here: "row (db t) (uiKey info) = (if uiDelete info \<and> \<not> persistDeleted e \<and> dataFile r = None then None
      else Some (if uiDelete info \<and> \<not> persistDeleted e then r else r\<lparr>changed := False\<rparr>))"
    if "version r = uiVersion info"
    using that assms(3) keys by (auto simp: t delete_index_row)
  have others: "row (db t) k = row (db s) k" if "k \<noteq> uiKey info" for k
    using that keys by (cases "row (db s) k") (auto simp: t delete_index_row)
  have table: "map_of (activeUploads c') (key, 0) = None \<and> changeEstimate c' = changeEstimate c - 1"
    by (simp add: c' finish_upload_def Let_def map_of_files_delete)
  show ?thesis
    unfolding s' using same here others table by blast
qed

definition demo_uploads :: upload_ctl where
  "demo_uploads = new_uploads\<lparr>uploadingEnabled := True, activeUploads :=
     [((hashed demo_hl demo_key, 0), \<lparr>uiKey = demo_key, uiVersion = 1, uiDelete = False\<rparr>)]\<rparr>"

definition demo_row :: index_entry where
  "demo_row = \<lparr>version = 1, dataFile = Some ''x'', checksum = Some ''anull'', changed = True\<rparr>"

lemma demo_store_row: "row (db demo_store) demo_key = Some demo_row"
  by code_simp

theorem upload_done_no_lost_update_witness:
  "\<exists>c' s'. upload_done demo_env (hashed demo_hl demo_key) (demo_uploads, demo_store) = (c', s') \<and>
     row (db s') demo_key = Some (demo_row\<lparr>changed := False\<rparr>)"
proof -
  obtain c' s' where u: "upload_done demo_env (hashed demo_hl demo_key) (demo_uploads, demo_store) = (c', s')"
    by fastforce
  obtain t where t: "mark_unchanged demo_env demo_key 1 False demo_store = (Inr (), t)"
    using demo_env_ok(2) by (auto simp: mark_unchanged_def mark_unchanged_impl_def act_defs)
  have inv: "db_inv (db demo_store)" using demo_store_ok(1) by (simp add: store_ok_def tables_ok_def)
  have a: "map_of (activeUploads demo_uploads) (hashed demo_hl demo_key, 0) =
      Some \<lparr>uiKey = demo_key, uiVersion = 1, uiDelete = False\<rparr>"
    by (simp add: demo_uploads_def)
  from upload_done_no_lost_update [OF inv a _ _ u, of demo_row t] u t demo_store_row show ?thesis
    by (simp add: demo_row_def)
qed

end
