(* ===== verification/EventLog.thy ===== *)
theory EventLog
  imports DataIndex
begin

text \<open>
  \<open>src/datasync/eventcursor.cpp\<close>: the cursor over the event log. Its state is the position
  and the event read there; the log is the table of \<open>DataIndex.db\<close>. A \<open>quint64\<close>
  position is a \<open>nat\<close>: SQLite ids are positive 63-bit numbers and the only arithmetic is a
  subtraction the code guards. \<open>ok\<close> says whether the statement executes.
\<close>

section \<open>State\<close>

record cursor =
  cIndex :: nat
  cKey :: object_key
  cRemoved :: bool
  cTime :: nat
  cSkip :: bool \<comment> \<open>\<open>skipObsolete\<close>\<close>

datatype event_mode = LogEnabled | LogDisabled | LogUnchanged

datatype cursor_error = EventCursorException nat

definition new_cursor :: cursor where
  "new_cursor = \<lparr>cIndex = 0, cKey = \<lparr>typeName = [], keyId = []\<rparr>, cRemoved = False, cTime = 0, cSkip = True\<rparr>"

definition is_valid :: "cursor \<Rightarrow> bool" where
  "is_valid c \<longleftrightarrow> cIndex c \<noteq> 0"

section \<open>The table\<close>

definition is_log_active :: "event_mode \<Rightarrow> db \<Rightarrow> bool" where
  "is_log_active mode d = (case mode of
       LogEnabled \<Rightarrow> True | LogDisabled \<Rightarrow> False | LogUnchanged \<Rightarrow> event_log d \<noteq> None)"

text \<open>
  \<open>okSql n\<close> says whether the \<open>n\<close>-th statement executes: 0 creates the table, 1 and 2 query and
  create the first trigger, 3 and 4 the second; the drops are 0, 1 and 2. There is no
  transaction around them, so a failure leaves what was done before it.
\<close>

fun exec_all :: "(nat \<Rightarrow> bool) \<Rightarrow> nat \<Rightarrow> (db \<Rightarrow> db) list \<Rightarrow> (db, cursor_error, unit) act" where
  "exec_all okSql n [] = ret ()"
| "exec_all okSql n (f # fs) =
     seq (guard_call (okSql n) (EventCursorException 0)) (\<lambda>_. seq (modify f) (\<lambda>_. exec_all okSql (Suc n) fs))"

definition init_database :: "(nat \<Rightarrow> bool) \<Rightarrow> event_mode \<Rightarrow> bool \<Rightarrow> (db, cursor_error, unit) act" where
  "init_database okSql mode createTriggers = (case mode of
       LogEnabled \<Rightarrow>
         seq (gets (\<lambda>d. event_log d = None)) (\<lambda>new.
         seq (if new then exec_all okSql 0 [\<lambda>d. d\<lparr>event_log := Some []\<rparr>] else ret ()) (\<lambda>_.
         if \<not> createTriggers then ret ()
         else
           seq (guard_call (okSql 1) (EventCursorException 0)) (\<lambda>_.
           seq (gets insert_trigger) (\<lambda>has.
           seq (if has then ret () else exec_all okSql 2 [\<lambda>d. d\<lparr>insert_trigger := True\<rparr>]) (\<lambda>_.
           seq (guard_call (okSql 3) (EventCursorException 0)) (\<lambda>_.
           seq (gets update_trigger) (\<lambda>has.
           if has then ret () else exec_all okSql 4 [\<lambda>d. d\<lparr>update_trigger := True\<rparr>])))))))
     | LogDisabled \<Rightarrow> exec_all okSql 0
         [\<lambda>d. d\<lparr>insert_trigger := False\<rparr>, \<lambda>d. d\<lparr>update_trigger := False\<rparr>, \<lambda>d. d\<lparr>event_log := None, last_seq := 0\<rparr>]
     | LogUnchanged \<Rightarrow> ret ())"

text \<open>A statement on a table that does not exist fails.\<close>

definition log_rows :: "bool \<Rightarrow> nat \<Rightarrow> db \<Rightarrow> cursor_error + log_entry list" where
  "log_rows ok idx d = (case event_log d of
       None \<Rightarrow> Inl (EventCursorException idx)
     | Some l \<Rightarrow> if ok then Inr l else Inl (EventCursorException idx))"

definition read_query :: "log_entry \<Rightarrow> cursor \<Rightarrow> cursor" where
  "read_query r c = c\<lparr>cIndex := seqId r, cKey := logKey r, cRemoved := removed r, cTime := timestamp r\<rparr>"

text \<open>\<open>if(eventQuery.first()) readQuery(eventQuery)\<close>\<close>

definition read_first :: "log_entry list \<Rightarrow> cursor \<Rightarrow> cursor" where
  "read_first rows c = (case rows of [] \<Rightarrow> c | r # _ \<Rightarrow> read_query r c)"

section \<open>Creating cursors\<close>

definition first :: "bool \<Rightarrow> db \<Rightarrow> cursor_error + cursor" where
  "first ok d = map_sum id (\<lambda>l. read_first (take 1 l) new_cursor) (log_rows ok 0 d)"

definition last_event :: "bool \<Rightarrow> db \<Rightarrow> cursor_error + cursor" where
  "last_event ok d = map_sum id (\<lambda>l. read_first (take 1 (rev l)) new_cursor) (log_rows ok 0 d)"

definition create :: "bool \<Rightarrow> nat \<Rightarrow> db \<Rightarrow> cursor_error + cursor" where
  "create ok idx d = map_sum id (\<lambda>l. read_first (take 1 (filter (\<lambda>r. seqId r = idx) l)) new_cursor) (log_rows ok idx d)"

definition save_cursor :: "qprims \<Rightarrow> cursor \<Rightarrow> bytes" where
  "save_cursor p c = put_u64 p (of_nat (cIndex c)) @ put_bool p (cSkip c)"

text \<open>The reader leaves the initial values 0 and false where the data is too short.\<close>

definition load_cursor :: "qprims \<Rightarrow> bool \<Rightarrow> bytes \<Rightarrow> db \<Rightarrow> cursor_error + cursor" where
  "load_cursor p ok data d =
     (let (idx, rest) = (case get_u64 p data of None \<Rightarrow> (0, []) | Some (w, r) \<Rightarrow> (unat w, r));
          skip = (case get_bool p rest of None \<Rightarrow> False | Some (b, _) \<Rightarrow> b)
      in map_sum id (\<lambda>c. c\<lparr>cSkip := skip\<rparr>) (create ok idx d))"

section \<open>Moving on\<close>

text \<open>
  The rows of \<open>prepareNextQuery\<close>. With \<open>skipObsolete\<close> the log is joined with the index;
  the version of a log row is never NULL, and a missing index row makes the comparison NULL,
  which is not true.
\<close>

definition is_current :: "db \<Rightarrow> log_entry \<Rightarrow> bool" where
  "is_current d r = (case row d (logKey r) of None \<Rightarrow> False | Some x \<Rightarrow> logVersion r = version x)"

definition next_rows :: "cursor \<Rightarrow> db \<Rightarrow> log_entry list \<Rightarrow> log_entry list" where
  "next_rows c d l = filter (\<lambda>r. cIndex c < seqId r \<and> (cSkip c \<longrightarrow> is_current d r)) l"

definition has_next :: "bool \<Rightarrow> db \<Rightarrow> cursor \<Rightarrow> cursor_error + bool" where
  "has_next ok d c = map_sum id (\<lambda>l. next_rows c d l \<noteq> []) (log_rows ok (cIndex c) d)"

definition next_event :: "bool \<Rightarrow> db \<Rightarrow> cursor \<Rightarrow> (cursor_error + bool) \<times> cursor" where
  "next_event ok d c = (case log_rows ok (cIndex c) d of
       Inl e \<Rightarrow> (Inl e, c)
     | Inr l \<Rightarrow> (case next_rows c d l of
           [] \<Rightarrow> (Inr False, c)
         | r # _ \<Rightarrow> (Inr True, read_query r c)))"

lemma read_query_fields [simp]:
  "cIndex (read_query r c) = seqId r" "cSkip (read_query r c) = cSkip c"
  by (simp_all add: read_query_def)

lemma next_rows_less:
  assumes "next_rows c d l = r # rs"
  shows "length (next_rows (read_query r c) d l) < Suc (length rs)"
proof -
  have r: "r \<in> set l" "cIndex c < seqId r" "cSkip c \<longrightarrow> is_current d r"
    using assms [THEN arg_cong, of set] by (auto simp: next_rows_def)
  have "next_rows (read_query r c) d l = filter (\<lambda>x. seqId r < seqId x) (next_rows c d l)"
    using r(2) by (auto simp: next_rows_def intro!: filter_cong)
  then show ?thesis
    using length_filter_less [of r "next_rows c d l" "\<lambda>x. seqId r < seqId x"] assms by simp
qed

text \<open>
  \<open>handleNext\<close> of \<open>autoScanLog\<close>: the given function has a state of its own and answers
  whether to go on. The loop ends because every step leaves fewer rows after the cursor.
\<close>

function handle_next :: "bool \<Rightarrow> db \<Rightarrow> (cursor \<Rightarrow> 'u \<Rightarrow> bool \<times> 'u) \<Rightarrow> cursor \<Rightarrow> 'u \<Rightarrow>
    (cursor_error + bool) \<times> cursor \<times> 'u" where
  "handle_next ok d f c u = (case next_event ok d c of
       (Inl e, c') \<Rightarrow> (Inl e, c', u)
     | (Inr False, c') \<Rightarrow> (Inr True, c', u)
     | (Inr True, c') \<Rightarrow> (case f c' u of
           (False, u') \<Rightarrow> (Inr False, c', u')
         | (True, u') \<Rightarrow> handle_next ok d f c' u'))"
  by pat_completeness auto
termination
  by (relation "measure (\<lambda>(ok, d, f, c, u). length (next_rows c d (case_option [] id (event_log d))))")
     (auto simp: next_event_def log_rows_def split: sum.splits list.splits option.splits if_splits intro: next_rows_less)

declare handle_next.simps [simp del]

text \<open>
  \<open>autoScanLog\<close> answers whether the scan stays connected to \<open>eventLogChanged\<close>; the
  connected slot runs \<open>handleNext\<close> again and disconnects when it was told to stop.
\<close>

definition auto_scan_log :: "bool \<Rightarrow> db \<Rightarrow> (cursor \<Rightarrow> 'u \<Rightarrow> bool \<times> 'u) \<Rightarrow> bool \<Rightarrow> cursor \<Rightarrow> 'u \<Rightarrow>
    (cursor_error + bool) \<times> cursor \<times> 'u" where
  "auto_scan_log ok d f scanCurrent c u =
     (case (if scanCurrent then f c u else (True, u)) of
        (False, u') \<Rightarrow> (Inr False, c, u')
      | (True, u') \<Rightarrow> handle_next ok d f c u')"

definition log_changed_slot :: "bool \<Rightarrow> db \<Rightarrow> (cursor \<Rightarrow> 'u \<Rightarrow> bool \<times> 'u) \<Rightarrow> bool \<times> cursor \<times> 'u \<Rightarrow>
    bool \<times> cursor \<times> 'u" where
  "log_changed_slot ok d f st = (case st of (connected, c, u) \<Rightarrow>
     if \<not> connected then st
     else (case handle_next ok d f c u of
         (Inr goOn, c', u') \<Rightarrow> (goOn, c', u')
       | (Inl _, c', u') \<Rightarrow> (True, c', u')))"

definition set_skip_obsolete :: "bool \<Rightarrow> cursor \<Rightarrow> bool \<times> cursor" where
  "set_skip_obsolete b c = (if cSkip c = b then (False, c) else (True, c\<lparr>cSkip := b\<rparr>))"

section \<open>Clearing\<close>

definition clear_event_log :: "bool \<Rightarrow> nat \<Rightarrow> cursor \<Rightarrow> db \<Rightarrow> (cursor_error + unit) \<times> db" where
  "clear_event_log ok offset c d =
     (if cIndex c < offset then (Inl (EventCursorException (cIndex c)), d)
      else case log_rows ok (cIndex c - offset) d of
          Inl e \<Rightarrow> (Inl e, d)
        | Inr l \<Rightarrow> (Inr (), d\<lparr>event_log := Some (filter (\<lambda>r. \<not> seqId r < cIndex c - offset) l)\<rparr>))"

definition clear_log :: "bool \<Rightarrow> event_mode \<Rightarrow> db \<Rightarrow> (cursor_error + unit) \<times> db" where
  "clear_log ok mode d =
     (if \<not> is_log_active mode d then (Inr (), d)
      else case log_rows ok 0 d of Inl e \<Rightarrow> (Inl e, d) | Inr l \<Rightarrow> (Inr (), d\<lparr>event_log := Some []\<rparr>))"

section \<open>Scanning\<close>

text \<open>The cursor positions a scan shows: the remaining rows in order.\<close>

fun shown :: "cursor \<Rightarrow> log_entry list \<Rightarrow> cursor list" where
  "shown c [] = []"
| "shown c (r # rs) = read_query r c # shown (read_query r c) rs"

lemma next_rows_tail:
  assumes "sorted_wrt (<) (map seqId l)" "next_rows c d l = r # rs"
  shows "next_rows (read_query r c) d l = rs"
proof -
  have r: "cIndex c < seqId r"
    using assms(2) [THEN arg_cong, of set] by (auto simp: next_rows_def)
  have s: "sorted_wrt (<) (map seqId (r # rs))"
    using assms unfolding sorted_wrt_map
    by (metis assms(2) next_rows_def sorted_wrt_filter)
  have "next_rows (read_query r c) d l = filter (\<lambda>x. seqId r < seqId x) (next_rows c d l)"
    using r by (auto simp: next_rows_def intro!: filter_cong)
  also have "\<dots> = rs"
    using s by (auto simp: assms(2) filter_id_conv)
  finally show ?thesis .
qed

lemma handle_next_collect:
  assumes "event_log d = Some l" "sorted_wrt (<) (map seqId l)"
  shows "handle_next True d (\<lambda>c u. (True, u @ [c])) c u =
     (Inr True, List.last (c # shown c (next_rows c d l)), u @ shown c (next_rows c d l))"
proof (induction "next_rows c d l" arbitrary: c u)
  case Nil
  then show ?case
    using assms(1) by (subst handle_next.simps) (simp add: next_event_def log_rows_def)
next
  case (Cons r rs)
  have tail: "next_rows (read_query r c) d l = rs"
    by (rule next_rows_tail [OF assms(2) Cons.hyps(2) [symmetric]])
  from Cons.hyps(1) [OF tail [symmetric]] Cons.hyps(2) [symmetric] assms(1) show ?case
    by (subst handle_next.simps) (simp add: next_event_def log_rows_def tail)
qed

end
