(* ===== verification/EventClaims.thy ===== *)
theory EventClaims
  imports StoreClaims EventLog
begin

text \<open>
  The properties of the event log and its cursor (\<open>src/datasync/eventcursor.cpp\<close>), and of
  what the local store writes into it.
\<close>

section \<open>Scanning\<close>

lemma shown_index: "map cIndex (shown c l) = map seqId l"
  by (induction l arbitrary: c) simp_all

lemma next_rows_after_last:
  assumes "sorted_wrt (<) (map seqId l)"
  shows "next_rows (List.last (c # shown c (next_rows c d l))) d l = []"
proof (induction "next_rows c d l" arbitrary: c)
  case Nil
  then show ?case by simp
next
  case (Cons r rs)
  have "next_rows (read_query r c) d l = rs"
    by (rule next_rows_tail [OF assms Cons.hyps(2) [symmetric]])
  with Cons.hyps(1) [of "read_query r c"] Cons.hyps(2) [symmetric] show ?case by simp
qed

lemma shown_events:
  "map (\<lambda>c. (cIndex c, cKey c, cRemoved c, cTime c)) (shown c l) = map (\<lambda>r. (seqId r, logKey r, removed r, timestamp r)) l"
  by (induction l arbitrary: c) (simp_all add: read_query_def)

text \<open>C29: A scan of the event log that is to show all events (\<open>skipObsolete\<close> off) always ends, when no statement fails and the
  function given to it never asks to stop. It shows exactly the events after the cursor, each once, in the order in which they
  were logged, with its key, whether it was a removal and its time, and afterwards there is no next event.\<close>

theorem scan_complete:
  assumes "db_inv d" "event_log d = Some l" "\<not> cSkip c"
  shows "\<exists>c' us. handle_next True d (\<lambda>c u. (True, u @ [c])) c [] = (Inr True, c', us) \<and>
    map (\<lambda>c. (cIndex c, cKey c, cRemoved c, cTime c)) us =
      map (\<lambda>r. (seqId r, logKey r, removed r, timestamp r)) (filter (\<lambda>r. cIndex c < seqId r) l) \<and>
    sorted_wrt (<) (map cIndex us) \<and> has_next True d c' = Inr False"
proof -
  have s: "sorted_wrt (<) (map seqId l)"
    using assms(1,2) by (simp add: db_inv_def log_ok_def)
  have rows: "next_rows c d l = filter (\<lambda>r. cIndex c < seqId r) l"
    using assms(3) by (simp add: next_rows_def)
  have "has_next True d (List.last (c # shown c (next_rows c d l))) = Inr False"
    using next_rows_after_last [OF s] assms(2) by (simp add: has_next_def log_rows_def)
  moreover have "sorted_wrt (<) (map cIndex (shown c (next_rows c d l)))"
    using s by (simp only: shown_index next_rows_def sorted_wrt_map sorted_wrt_filter)
  ultimately show ?thesis
    using handle_next_collect [OF assms(2) s, of c "[]"] shown_events [of c "next_rows c d l"]
    by (simp only: rows append_Nil) blast
qed

definition demo_log_db :: db where
  "demo_log_db = \<lparr>data_index = [(demo_key, \<lparr>version = 2, dataFile = None, checksum = None, changed = True\<rparr>)],
     device_uploads = [], event_log = Some
       [\<lparr>seqId = 1, logKey = demo_key, logVersion = 1, removed = False, timestamp = 0\<rparr>,
        \<lparr>seqId = 2, logKey = demo_key, logVersion = 2, removed = True, timestamp = 0\<rparr>],
     insert_trigger = True, update_trigger = True, last_seq = 2\<rparr>"

lemma demo_log_inv: "db_inv demo_log_db"
  by (simp add: db_inv_def demo_log_db_def log_ok_def entry_ok_def)

theorem scan_complete_witness:
  "\<exists>c' us. handle_next True demo_log_db (\<lambda>c u. (True, u @ [c])) (new_cursor\<lparr>cSkip := False\<rparr>) [] = (Inr True, c', us) \<and>
    map cIndex us = [1, 2] \<and> map cRemoved us = [False, True]"
proof -
  obtain l where l: "event_log demo_log_db = Some l" by (simp add: demo_log_db_def)
  obtain c' us where scan: "handle_next True demo_log_db (\<lambda>c u. (True, u @ [c])) (new_cursor\<lparr>cSkip := False\<rparr>) [] = (Inr True, c', us)"
    and us: "map (\<lambda>c. (cIndex c, cKey c, cRemoved c, cTime c)) us = [(1, demo_key, False, 0), (2, demo_key, True, 0)]"
    using scan_complete [OF demo_log_inv l, of "new_cursor\<lparr>cSkip := False\<rparr>"] l by (auto simp: demo_log_db_def new_cursor_def)
  from us obtain x y where "us = [x, y]" "cIndex x = 1" "cIndex y = 2" "\<not> cRemoved x" "cRemoved y" by auto
  with scan show ?thesis by simp
qed

section \<open>Saving and restoring a cursor\<close>

text \<open>A cursor that was saved and loaded again stands at the same event with the same
  settings, as long as that event is still in the log.\<close>

theorem cursor_roundtrip:
  assumes "db_inv d" "event_log d = Some l" "r \<in> set l" "cIndex c = seqId r" "cIndex c < 2 ^ 64"
  shows "load_cursor qt_5_11 True (save_cursor qt_5_11 c) d =
    Inr (read_query r (new_cursor\<lparr>cSkip := cSkip c\<rparr>))"
proof -
  have "distinct (map seqId l)"
    using assms(1,2) by (simp add: db_inv_def log_ok_def strict_sorted_iff)
  then have "filter (\<lambda>x. seqId x = seqId r) l = [r]"
    using assms(3) by (induction l) (auto simp: filter_empty_conv, metis image_eqI)
  then have "create True (cIndex c) d = Inr (read_query r new_cursor)"
    using assms(2,4) by (simp add: create_def log_rows_def read_first_def)
  moreover have "get_u64 qt_5_11 (save_cursor qt_5_11 c) = Some (of_nat (cIndex c), put_bool qt_5_11 (cSkip c))"
    using qt.u64_back by (simp add: save_cursor_def)
  moreover have "get_bool qt_5_11 (put_bool qt_5_11 (cSkip c)) = Some (cSkip c, [])"
    using qt.bool_back [of "cSkip c" "[]"] by simp
  moreover have "unat (of_nat (cIndex c) :: u64) = cIndex c"
    using assms(5) by (simp add: unat_of_nat take_bit_nat_eq_self)
  ultimately show ?thesis
    by (simp add: load_cursor_def read_query_def)
qed

theorem cursor_roundtrip_witness:
  "\<exists>c. load_cursor qt_5_11 True (save_cursor qt_5_11 (new_cursor\<lparr>cIndex := 2\<rparr>)) demo_log_db = Inr c \<and>
     cIndex c = 2 \<and> cSkip c"
proof -
  obtain l where l: "event_log demo_log_db = Some l" by (simp add: demo_log_db_def)
  then have "\<lparr>seqId = 2, logKey = demo_key, logVersion = 2, removed = True, timestamp = 0\<rparr> \<in> set l"
    by (auto simp: demo_log_db_def)
  from cursor_roundtrip [OF demo_log_inv l this, of "new_cursor\<lparr>cIndex := 2\<rparr>"] show ?thesis
    by (simp add: new_cursor_def)
qed

section \<open>Clearing\<close>

text \<open>Clearing the log behind a cursor fails when the offset is beyond the position, and
  then changes nothing; otherwise it removes exactly the events before position minus offset,
  so what the cursor will still show is the same as before.\<close>

theorem clear_event_log_correct:
  assumes "event_log d = Some l" "clear_event_log succeeds offset c d = (res, d')"
  shows "(cIndex c < offset \<or> \<not> succeeds \<longrightarrow> res \<noteq> Inr () \<and> d' = d) \<and>
    (\<not> (cIndex c < offset \<or> \<not> succeeds) \<longrightarrow> res = Inr () \<and>
       (\<exists>l'. event_log d' = Some l' \<and> set l' = {r \<in> set l. cIndex c - offset \<le> seqId r} \<and>
          next_rows c d' l' = next_rows c d l))"
proof (cases "cIndex c < offset \<or> \<not> succeeds")
  case False
  let ?l' = "filter (\<lambda>r. \<not> seqId r < cIndex c - offset) l"
  have d': "res = Inr ()" "d' = d\<lparr>event_log := Some ?l'\<rparr>"
    using assms False by (auto simp: clear_event_log_def log_rows_def)
  have "is_current d' = is_current d" by (simp add: is_current_def d'(2) fun_eq_iff)
  moreover have "(\<not> seqId x < cIndex c - offset) \<and> cIndex c < seqId x \<longleftrightarrow> cIndex c < seqId x" for x
    by linarith
  ultimately have "next_rows c d' ?l' = next_rows c d l"
    unfolding next_rows_def filter_filter by (metis (no_types, lifting))
  with False d' show ?thesis by auto
qed (use assms in \<open>auto simp: clear_event_log_def log_rows_def split: if_splits\<close>)

theorem clear_event_log_correct_witness:
  "\<exists>d'. clear_event_log True 0 (new_cursor\<lparr>cIndex := 2\<rparr>) demo_log_db = (Inr (), d')"
proof -
  obtain l where l: "event_log demo_log_db = Some l" by (simp add: demo_log_db_def)
  obtain res d' where c: "clear_event_log True 0 (new_cursor\<lparr>cIndex := 2\<rparr>) demo_log_db = (res, d')" by fastforce
  from clear_event_log_correct [OF l c] c show ?thesis by (simp add: new_cursor_def)
qed

section \<open>What the store logs\<close>

lemma log_updates_one:
  "distinct_keys t \<Longrightarrow> map_of t k = Some r \<Longrightarrow>
   log_updates n f (filter (\<lambda>(k', r'). k' = k) t) d = (if version (f r) \<noteq> version r then log_event (update_trigger d) n k (f r) d else d)"
proof -
  assume a: "distinct_keys t" "map_of t k = Some r"
  then have "filter (\<lambda>(k', r'). k' = k) t = [(k, r)]"
    by (induction t) (force simp: filter_empty_conv split: if_splits)+
  then show ?thesis by simp
qed

lemma update_one_log:
  assumes "db_inv d" "row d k = Some r" "version y \<noteq> version r"
  shows "event_log (update_index n (\<lambda>x _. x = k) (\<lambda>_. y) d) = event_log (log_event (update_trigger d) n k y d)"
proof -
  have "update_index n (\<lambda>x _. x = k) (\<lambda>_. y) d =
      log_event (update_trigger d) n k y (d\<lparr>data_index := update_rows (\<lambda>x _. x = k) (\<lambda>_. y) (data_index d)\<rparr>)"
    using log_updates_one [of "data_index d" k r n "\<lambda>_. y"] assms
    by (simp add: update_index_def db_inv_def)
  then show ?thesis by (simp add: log_event_def split: option.split)
qed

lemma insert_log: "insert_row n k y d = Some d' \<Longrightarrow> event_log d' = event_log (log_event (insert_trigger d) n k y d)"
  by (auto simp: insert_row_Some log_event_def split: option.split)

text \<open>The log of \<open>t\<close> is that of \<open>s\<close> with one event for \<open>k\<close> in its present state.\<close>

definition logged :: "object_key \<Rightarrow> store \<Rightarrow> store \<Rightarrow> bool" where
  "logged k s t \<longleftrightarrow> (\<exists>r n b. b \<in> {insert_trigger (db s), update_trigger (db s)} \<and> row (db t) k = Some r \<and>
     event_log (db t) = event_log (log_event b n k r (db s)))"

lemma store_changed_impl_logged:
  assumes "store_changed_impl e k v f d c ex s = (Inr a, t)" "tables_ok s"
    and "ex \<longleftrightarrow> row (db s) k \<noteq> None" "\<And>r. row (db s) k = Some r \<Longrightarrow> version r \<noteq> v"
  shows "logged k s t"
proof -
  let ?base = "case (ex, f) of (True, Some f) \<Rightarrow> f | _ \<Rightarrow> tmpName e (map fst (files s))"
  let ?y = "\<lparr>version = v, dataFile = Some ?base, checksum = Some (json_hash (hl e) d), changed = c\<rparr>"
  have inv: "db_inv (db s)" using assms(2) by (simp add: tables_ok_def)
  show ?thesis
  proof (cases "row (db s) k")
    case None
    then obtain dd where dd: "insert_row (now e) k ?y (db s) = Some dd" "db t = dd"
      using assms(1,3)
      by (auto simp: store_changed_impl_def Let_def act_defs exec_insert_def seq_def split: if_splits option.splits)
    then show ?thesis
      using insert_row_row [OF dd(1)] insert_log [OF dd(1)] by (auto simp: logged_def)
  next
    case (Some r)
    then have ex: "ex" using assms(3) by simp
    have "db t = update_index (now e) (\<lambda>k' _. k' = k) (\<lambda>_. ?y) (db s)"
      using assms(1) ex by (auto simp: store_changed_impl_def Let_def act_defs seq_assoc split: if_splits)
    moreover have "version ?y \<noteq> version r" using assms(4) [OF Some] by auto
    ultimately show ?thesis
      using update_one_log [OF inv Some, of ?y "now e"] Some by (auto simp: logged_def)
  qed
qed

lemma next_version: "v + 1 \<noteq> (v :: u64)"
  by simp

text \<open>C30: Every save and every removal that returns adds exactly one event to an active log,
  numbered after all earlier ones, with the new version of the key and whether it was
  removed; a removal of nothing adds none.\<close>

theorem changes_are_logged:
  assumes "tables_ok s" "event_log (db s) = Some l" "insert_trigger (db s)" "update_trigger (db s)"
  shows "(save e k d s = (Inr (), t) \<longrightarrow> (\<exists>r x. row (db t) k = Some r \<and> event_log (db t) = Some (l @ [x]) \<and>
      seqId x = Suc (last_seq (db s)) \<and> logKey x = k \<and> logVersion x = version r \<and> \<not> removed x)) \<and>
    (remove e k s = (Inr b, t) \<longrightarrow> (if b then \<exists>r x. row (db t) k = Some r \<and> event_log (db t) = Some (l @ [x]) \<and>
      seqId x = Suc (last_seq (db s)) \<and> logKey x = k \<and> logVersion x = version r \<and> removed x
      else event_log (db t) = Some l))"
proof (intro conjI impI)
  have ev: "\<exists>x. event_log (db u) = Some (l @ [x]) \<and> seqId x = Suc (last_seq (db s)) \<and> logKey x = k \<and>
      logVersion x = version r \<and> removed x = (dataFile r = None)"
    if "row (db u) k = Some r" "logged k s u" for u r
    using that assms(2-4) by (auto simp: logged_def log_event_def)
  {
    assume sv: "save e k d s = (Inr (), t)"
    let ?v = "case row (db s) k of Some x \<Rightarrow> version x + 1 | None \<Rightarrow> 1"
    obtain res u where r: "store_changed_impl e k ?v (Option.bind (row (db s) k) dataFile) d True (row (db s) k \<noteq> None) s = (res, u)"
      by fastforce
    obtain a where a: "res = Inr a" and t: "t = run_after a u"
      using sv r by (cases res) (auto simp: save_def in_tx_def on_throw_def act_simps split: if_splits)
    have "logged k s u"
      by (rule store_changed_impl_logged [OF r [unfolded a] assms(1)]) auto
    moreover obtain base where "row (db t) k = Some (data_entry e ?v base d True)"
      using save_row(1) [OF sv] by blast
    ultimately show "\<exists>r x. row (db t) k = Some r \<and> event_log (db t) = Some (l @ [x]) \<and>
      seqId x = Suc (last_seq (db s)) \<and> logKey x = k \<and> logVersion x = version r \<and> \<not> removed x"
      using ev [of u] by (simp add: t data_entry_def)
  next
    assume rm: "remove e k s = (Inr b, t)"
    show "if b then \<exists>r x. row (db t) k = Some r \<and> event_log (db t) = Some (l @ [x]) \<and>
      seqId x = Suc (last_seq (db s)) \<and> logKey x = k \<and> logVersion x = version r \<and> removed x
      else event_log (db t) = Some l"
    proof (cases b)
      case True
      then obtain r f where r: "row (db s) k = Some r" "dataFile r = Some f"
        using remove_Inr(1) [OF rm] by (auto split: bind_splits)
      let ?y = "\<lparr>version = version r + 1, dataFile = None, checksum = None, changed = True\<rparr>"
      have t: "db t = update_index (now e) (\<lambda>k' _. k' = k) (\<lambda>_. ?y) (db s)"
        using rm r by (auto simp: remove_def in_tx_def on_throw_Inr act_defs split: if_splits)
      have "db_inv (db s)" using assms(1) by (simp add: tables_ok_def)
      from update_one_log [OF this r(1), of ?y "now e"] have "logged k s t"
        using r by (auto simp: logged_def t)
      moreover have "row (db t) k = Some ?y" using r by (simp add: t)
      ultimately show ?thesis using ev [of t ?y] True by auto
    next
      case False
      with remove_Inr(2) [OF rm] assms(2) show ?thesis by simp
    qed
  }
qed

definition demo_logging :: store where
  "demo_logging = empty_store\<lparr>db := (db empty_store)\<lparr>event_log := Some [], insert_trigger := True, update_trigger := True\<rparr>\<rparr>"

lemma demo_logging_init:
  "init_database (\<lambda>_. True) LogEnabled True (db empty_store) = (Inr (), db demo_logging)"
  by (simp add: init_database_def act_simps empty_store_def demo_logging_def)

theorem changes_are_logged_witness:
  "\<exists>t x. save demo_env demo_key [] demo_logging = (Inr (), t) \<and> event_log (db t) = Some [x] \<and> seqId x = 1"
proof -
  have ok: "tables_ok demo_logging" "event_log (db demo_logging) = Some []" "insert_trigger (db demo_logging)"
    "update_trigger (db demo_logging)" "last_seq (db demo_logging) = 0"
    by (simp_all add: demo_logging_def tables_ok_def db_inv_def empty_store_def log_ok_def)
  obtain t where "save demo_env demo_key [] demo_logging = (Inr (), t)"
    using save_calm [of demo_env demo_key "[]" demo_logging] demo_env_ok(2) by blast
  with changes_are_logged [OF ok(1-4), of demo_env demo_key "[]" t] ok(5) show ?thesis by auto
qed

section \<open>A divergence\<close>

text \<open>
  With \<open>skipObsolete\<close> the documentation (\<open>doc/eventcursor.dox\<close>, lines 123 to 148) promises the most recent event of every dataset,
  removals included. The code does not keep that promise: the event of a removal whose row has left the index (removals are not
  remembered unless \<open>persistDeleted\<close> is set) is never shown: the join compares the version
  of the log row, which is never NULL, instead of that of the missing index row. So completeness is shown for scans of all
  events only.
\<close>

lemma skip_obsolete_hides_removals:
  "next_event True (demo_log_db\<lparr>data_index := []\<rparr>) new_cursor = (Inr False, new_cursor)"
  by (simp add: next_event_def log_rows_def next_rows_def is_current_def demo_log_db_def new_cursor_def)

end
