(* ===== verification/ServerDb.thy ===== *)
theory ServerDb
  imports Prelude
begin

text \<open>
  \<open>tools/appserver/databasecontroller.cpp\<close>: the tables of the server with their keys, foreign
  keys, cascades, triggers and the quota check, and every operation on them. The SQL the code
  sends is expressed with a few row operations; each statement, transaction begin and commit
  can fail (\<open>sqlOk\<close>), a failure inside a transaction rolls it back.
\<close>

section \<open>Tables\<close>

record user_row =
  keycount :: nat     \<comment> \<open>INT\<close>
  quota :: int
  quotaLimit :: int

record device_row =
  userId :: nat
  deviceName :: string
  signScheme :: bytes
  signKey :: bytes
  cryptScheme :: bytes
  cryptKey :: bytes
  fingerprint :: bytes
  keyMac :: "bytes option"
  lastLogin :: nat    \<comment> \<open>DATE, in days\<close>

record data_row =
  fromDevice :: uuid
  dataId :: bytes
  keyIdx :: u32
  salt :: bytes
  content :: bytes

record key_row =
  kcIndex :: u32
  kcScheme :: bytes
  kcKey :: bytes
  kcMac :: bytes

record sdb =
  users :: "(nat \<times> user_row) list"
  devices :: "(uuid \<times> device_row) list"
  datachanges :: "(nat \<times> data_row) list"
  devicechanges :: "(uuid \<times> nat) list"
  keychanges :: "(uuid \<times> key_row) list"
  userSeq :: nat      \<comment> \<open>BIGSERIAL: the largest id handed out\<close>
  dataSeq :: nat
  notified :: "uuid list" \<comment> \<open>\<open>pg_notify\<close>, delivered on commit\<close>

datatype sql_error = CheckViolation | SqlError

record senv =
  sqlOk :: "nat \<Rightarrow> bool"
  today :: nat
  freshUuid :: uuid

type_synonym 'a sql = "(sdb, sql_error, 'a) act"

section \<open>Statements\<close>

abbreviation stmt :: "senv \<Rightarrow> nat \<Rightarrow> unit sql" where
  "stmt e n \<equiv> guard_call (sqlOk e n) SqlError"

text \<open>The SQL function \<open>deviceUserId\<close>.\<close>

definition device_user :: "sdb \<Rightarrow> uuid \<Rightarrow> nat option" where
  "device_user d dev = map_option userId (map_of (devices d) dev)"

definition fits_int :: "nat \<Rightarrow> bool" where
  "fits_int n \<longleftrightarrow> n < 2 ^ 31"

definition add_quota :: "int \<Rightarrow> user_row \<Rightarrow> user_row" where
  "add_quota n u = u\<lparr>quota := quota u + n\<rparr>"

text \<open>GREATEST(quota - octet_length(OLD.data), 0)\<close>

definition drop_quota :: "int \<Rightarrow> user_row \<Rightarrow> user_row" where
  "drop_quota n u = u\<lparr>quota := max (quota u - n) 0\<rparr>"

definition update_user :: "nat option \<Rightarrow> (user_row \<Rightarrow> user_row) \<Rightarrow> sdb \<Rightarrow> sdb" where
  "update_user uid f d = d\<lparr>users := update_rows (\<lambda>i _. Some i = uid) f (users d)\<rparr>"

text \<open>INSERT INTO datachanges: NOT NULL REFERENCES devices, UNIQUE(deviceid, dataid), the
  range of INT, then the trigger \<open>upquota\<close> with CHECK(quota < quotalimit).\<close>

definition has_data :: "sdb \<Rightarrow> uuid \<Rightarrow> bytes \<Rightarrow> bool" where
  "has_data d dev i \<longleftrightarrow> (\<exists>(_, r) \<in> set (datachanges d). fromDevice r = dev \<and> dataId r = i)"

definition insert_data :: "data_row \<Rightarrow> nat sql" where
  "insert_data r d = (let d1 = d\<lparr>dataSeq := Suc (dataSeq d)\<rparr> in
     case device_user d (fromDevice r) of
       None \<Rightarrow> (Inl SqlError, d1)
     | Some uid \<Rightarrow>
         if has_data d (fromDevice r) (dataId r) \<or> \<not> fits_int (unat (keyIdx r)) then (Inl SqlError, d1)
         else
           let d2 = update_user (Some uid) (add_quota (int (length (content r))))
                      (d1\<lparr>datachanges := datachanges d1 @ [(dataSeq d1, r)]\<rparr>)
           in case map_of (users d2) uid of
                Some u \<Rightarrow> if quota u < quotaLimit u then (Inr (dataSeq d1), d2) else (Inl CheckViolation, d1)
              | None \<Rightarrow> (Inr (dataSeq d1), d2))"

text \<open>The trigger \<open>downquota\<close>, once for every deleted row.\<close>

fun down_quota :: "(nat \<times> data_row) list \<Rightarrow> sdb \<Rightarrow> sdb" where
  "down_quota [] d = d"
| "down_quota ((_, r) # rows) d = down_quota rows
     (update_user (device_user d (fromDevice r)) (drop_quota (int (length (content r)))) d)"

text \<open>DELETE FROM datachanges, with the cascade to devicechanges.\<close>

definition remove_data :: "(nat \<Rightarrow> data_row \<Rightarrow> bool) \<Rightarrow> sdb \<Rightarrow> sdb" where
  "remove_data P d = (let kept = delete_rows P (datachanges d) in
     d\<lparr>datachanges := kept,
       devicechanges := filter (\<lambda>(_, i). i \<in> set (map fst kept)) (devicechanges d)\<rparr>)"

definition delete_data :: "(nat \<Rightarrow> data_row \<Rightarrow> bool) \<Rightarrow> sdb \<Rightarrow> sdb" where
  "delete_data P d = down_quota (filter (\<lambda>(i, r). P i r) (datachanges d)) (remove_data P d)"

text \<open>
  DELETE FROM devices, with the cascades to datachanges, devicechanges and keychanges. The
  cascade runs after the device row is gone, so \<open>deviceUserId(OLD.deviceid)\<close> is NULL in the
  trigger \<open>downquota\<close> and no quota is given back.
\<close>

definition delete_devices :: "(uuid \<Rightarrow> device_row \<Rightarrow> bool) \<Rightarrow> sdb \<Rightarrow> sdb" where
  "delete_devices P d =
     (let d1 = d\<lparr>devices := delete_rows P (devices d)\<rparr>;
          gone = (\<lambda>dev. map_of (devices d1) dev = None);
          d2 = delete_data (\<lambda>_ r. gone (fromDevice r)) d1
      in d2\<lparr>devicechanges := filter (\<lambda>(dev, _). \<not> gone dev) (devicechanges d2),
            keychanges := delete_rows (\<lambda>dev _. gone dev) (keychanges d2)\<rparr>)"

text \<open>DELETE FROM users fails on a user that still has a device.\<close>

definition delete_users :: "(nat \<Rightarrow> user_row \<Rightarrow> bool) \<Rightarrow> unit sql" where
  "delete_users P d =
     (if \<exists>(i, u) \<in> set (users d). P i u \<and> (\<exists>(_, r) \<in> set (devices d). userId r = i) then (Inl SqlError, d)
      else (Inr (), d\<lparr>users := delete_rows P (users d)\<rparr>))"

text \<open>INSERT INTO devicechanges with the trigger that notifies the device.\<close>

definition insert_device_change :: "uuid \<Rightarrow> nat \<Rightarrow> unit sql" where
  "insert_device_change dev i d =
     (if map_of (devices d) dev = None \<or> map_of (datachanges d) i = None \<or> (dev, i) \<in> set (devicechanges d)
      then (Inl SqlError, d)
      else (Inr (), d\<lparr>devicechanges := devicechanges d @ [(dev, i)], notified := notified d @ [dev]\<rparr>))"

fun insert_device_changes :: "uuid list \<Rightarrow> nat \<Rightarrow> unit sql" where
  "insert_device_changes [] i = ret ()"
| "insert_device_changes (dev # devs) i =
     seq (insert_device_change dev i) (\<lambda>_. insert_device_changes devs i)"

section \<open>Transactions\<close>

text \<open>A rollback restores everything but the sequences.\<close>

definition rollback_to :: "sdb \<Rightarrow> sdb \<Rightarrow> sdb" where
  "rollback_to s t = s\<lparr>userSeq := max (userSeq s) (userSeq t), dataSeq := max (dataSeq s) (dataSeq t)\<rparr>"

definition transaction :: "senv \<Rightarrow> (sdb \<Rightarrow> 'a sql) \<Rightarrow> 'a sql" where
  "transaction e m s = seq (stmt e 0) (\<lambda>_. on_throw (m s) (rollback_to s)) s"

abbreviation commit :: "senv \<Rightarrow> unit sql" where
  "commit e \<equiv> stmt e 1"

text \<open>\<open>catch(DatabaseException &e)\<close> with error code 23514: the quota was hit.\<close>

definition catch_check :: "bool sql \<Rightarrow> bool sql" where
  "catch_check m s = (case m s of (Inl CheckViolation, t) \<Rightarrow> (Inr False, t) | r \<Rightarrow> r)"

section \<open>Devices\<close>

definition add_new_device :: "senv \<Rightarrow> string \<Rightarrow> bytes \<Rightarrow> bytes \<Rightarrow> bytes \<Rightarrow> bytes \<Rightarrow> bytes \<Rightarrow> bytes \<Rightarrow>
    int \<Rightarrow> uuid sql" where
  "add_new_device e nm ss sk cs ck fp cmac limit = transaction e (\<lambda>_.
     seq (stmt e 2) (\<lambda>_.
     seq (gets userSeq) (\<lambda>n.
     seq (modify (\<lambda>d. d\<lparr>userSeq := Suc n\<rparr>)) (\<lambda>_.
     seq (guard_call (0 < limit) CheckViolation) (\<lambda>_.
     seq (modify (\<lambda>d. d\<lparr>users := users d @ [(Suc n, \<lparr>keycount = 0, quota = 0, quotaLimit = limit\<rparr>)]\<rparr>)) (\<lambda>_.
     seq (stmt e 3) (\<lambda>_.
     seq (gets (\<lambda>d. map_of (devices d) (freshUuid e))) (\<lambda>old.
     seq (guard_call (old = None) SqlError) (\<lambda>_.
     seq (modify (\<lambda>d. d\<lparr>devices := devices d @ [(freshUuid e,
            \<lparr>userId = Suc n, deviceName = nm, signScheme = ss, signKey = sk, cryptScheme = cs, cryptKey = ck,
             fingerprint = fp, keyMac = Some cmac, lastLogin = today e\<rparr>)]\<rparr>)) (\<lambda>_.
     seq (commit e) (\<lambda>_.
     ret (freshUuid e))))))))))))"

text \<open>No transaction; the user is that of the partner, and NOT NULL refuses an unknown partner.\<close>

definition add_new_device_to_user :: "senv \<Rightarrow> uuid \<Rightarrow> uuid \<Rightarrow> string \<Rightarrow> bytes \<Rightarrow> bytes \<Rightarrow> bytes \<Rightarrow> bytes \<Rightarrow>
    bytes \<Rightarrow> unit sql" where
  "add_new_device_to_user e dev partner nm ss sk cs ck fp =
     seq (stmt e 2) (\<lambda>_.
     seq (gets (\<lambda>d. (device_user d partner, map_of (devices d) dev))) (\<lambda>x. case x of
         (Some uid, None) \<Rightarrow> modify (\<lambda>d. d\<lparr>devices := devices d @ [(dev,
            \<lparr>userId = uid, deviceName = nm, signScheme = ss, signKey = sk, cryptScheme = cs, cryptKey = ck,
             fingerprint = fp, keyMac = None, lastLogin = today e\<rparr>)]\<rparr>)
       | _ \<Rightarrow> throw SqlError))"

definition load_crypto :: "senv \<Rightarrow> uuid \<Rightarrow> (bytes \<times> bytes \<times> bytes \<times> bytes) option sql" where
  "load_crypto e dev = seq (stmt e 2) (\<lambda>_. gets (\<lambda>d. map_option
     (\<lambda>r. (signScheme r, signKey r, cryptScheme r, cryptKey r)) (map_of (devices d) dev)))"

definition update_login :: "senv \<Rightarrow> uuid \<Rightarrow> string \<Rightarrow> unit sql" where
  "update_login e dev nm = seq (stmt e 2) (\<lambda>_. modify (\<lambda>d. d\<lparr>devices :=
     update_rows (\<lambda>k _. k = dev) (\<lambda>r. r\<lparr>deviceName := nm, lastLogin := today e\<rparr>) (devices d)\<rparr>))"

definition list_devices :: "senv \<Rightarrow> uuid \<Rightarrow> (uuid \<times> string \<times> bytes) list sql" where
  "list_devices e dev = seq (stmt e 2) (\<lambda>_. gets (\<lambda>d. List.map_filter (\<lambda>(k, r).
     if k \<noteq> dev \<and> Some (userId r) = device_user d dev then Some (k, deviceName r, fingerprint r) else None) (devices d)))"

text \<open>
  \<open>SELECT deviceUserId(?)\<close> always returns a row; a NULL in it reads as 0, which is no user.
\<close>

definition remove_device :: "senv \<Rightarrow> uuid \<Rightarrow> uuid \<Rightarrow> unit sql" where
  "remove_device e dev del = transaction e (\<lambda>_.
     seq (stmt e 2) (\<lambda>_.
     seq (gets (\<lambda>d. case_option 0 id (device_user d dev))) (\<lambda>uid.
     seq (stmt e 3) (\<lambda>_.
     seq (modify (delete_devices (\<lambda>k r. k = del \<and> userId r = uid))) (\<lambda>_.
     seq (stmt e 4) (\<lambda>_.
     seq (gets (\<lambda>d. \<exists>(_, r) \<in> set (devices d). userId r = uid)) (\<lambda>used.
     seq (delete_users (\<lambda>i _. i = uid \<and> \<not> used)) (\<lambda>_.
     commit e))))))))"

definition cleanup_devices :: "senv \<Rightarrow> nat \<Rightarrow> unit sql" where
  "cleanup_devices e days = (if days = 0 then ret () else transaction e (\<lambda>_.
     seq (stmt e 2) (\<lambda>_.
     seq (modify (delete_devices (\<lambda>_ r. int (today e) - int (lastLogin r) > int days))) (\<lambda>_.
     seq (stmt e 3) (\<lambda>_.
     seq (gets (\<lambda>d. map (userId \<circ> snd) (devices d))) (\<lambda>used.
     seq (delete_users (\<lambda>i _. i \<notin> set used)) (\<lambda>_.
     commit e)))))))"

section \<open>Changes\<close>

definition other_devices :: "sdb \<Rightarrow> uuid \<Rightarrow> uuid list" where
  "other_devices d dev = map fst (filter (\<lambda>(k, r). k \<noteq> dev \<and> Some (userId r) = device_user d dev) (devices d))"

definition add_change :: "senv \<Rightarrow> uuid \<Rightarrow> bytes \<Rightarrow> u32 \<Rightarrow> bytes \<Rightarrow> bytes \<Rightarrow> bool sql" where
  "add_change e dev i keyIndex slt dat = catch_check (transaction e (\<lambda>_.
     seq (stmt e 2) (\<lambda>_.
     seq (modify (delete_data (\<lambda>_ r. fromDevice r = dev \<and> dataId r = i))) (\<lambda>_.
     seq (stmt e 3) (\<lambda>_.
     seq (insert_data \<lparr>fromDevice = dev, dataId = i, keyIdx = keyIndex, salt = slt, content = dat\<rparr>) (\<lambda>nId.
     seq (stmt e 4) (\<lambda>_.
     seq (gets (\<lambda>d. other_devices d dev)) (\<lambda>others.
     seq (insert_device_changes others nId) (\<lambda>_.
     seq (if others = [] then seq (stmt e 5) (\<lambda>_. modify (delete_data (\<lambda>k _. k = nId))) else ret ()) (\<lambda>_.
     seq (commit e) (\<lambda>_.
     ret True)))))))))))"

definition add_device_change :: "senv \<Rightarrow> uuid \<Rightarrow> uuid \<Rightarrow> bytes \<Rightarrow> u32 \<Rightarrow> bytes \<Rightarrow> bytes \<Rightarrow> bool sql" where
  "add_device_change e dev target i keyIndex slt dat = catch_check (transaction e (\<lambda>_.
     seq (stmt e 2) (\<lambda>_.
     seq (gets (\<lambda>d. filter (\<lambda>(_, r). fromDevice r = dev \<and> dataId r = i) (datachanges d))) (\<lambda>old.
     seq (case old of
            (nId, _) # _ \<Rightarrow> seq (stmt e 3) (\<lambda>_. ret nId)
          | [] \<Rightarrow> insert_data \<lparr>fromDevice = dev, dataId = i, keyIdx = keyIndex, salt = slt, content = dat\<rparr>) (\<lambda>nId.
     seq (stmt e 4) (\<lambda>_.
     seq (gets (\<lambda>d. (target, nId) \<in> set (devicechanges d))) (\<lambda>conflict.
     seq (if conflict then ret () else insert_device_change target nId) (\<lambda>_.
     seq (commit e) (\<lambda>_.
     ret True)))))))))"

definition change_count :: "senv \<Rightarrow> uuid \<Rightarrow> u32 sql" where
  "change_count e dev = seq (stmt e 2) (\<lambda>_.
     gets (\<lambda>d. of_nat (length (filter (\<lambda>(k, _). k = dev) (devicechanges d)))))"

text \<open>The rows waiting for a device, by id.\<close>

definition queue_for :: "sdb \<Rightarrow> uuid \<Rightarrow> (nat \<times> data_row) list" where
  "queue_for d dev = filter (\<lambda>(i, _). (dev, i) \<in> set (devicechanges d)) (datachanges d)"

definition load_next_changes :: "senv \<Rightarrow> uuid \<Rightarrow> u32 \<Rightarrow> u32 \<Rightarrow> (u64 \<times> u32 \<times> bytes \<times> bytes) list sql" where
  "load_next_changes e dev n skip = seq (stmt e 2) (\<lambda>_. gets (\<lambda>d.
     map (\<lambda>(i, r). (of_nat i, keyIdx r, salt r, content r))
       (take (unat n) (drop (unat skip) (queue_for d dev)))))"

definition complete_change :: "senv \<Rightarrow> uuid \<Rightarrow> u64 \<Rightarrow> unit sql" where
  "complete_change e dev idx = transaction e (\<lambda>_.
     seq (stmt e 2) (\<lambda>_.
     seq (modify (\<lambda>d. d\<lparr>devicechanges := filter (\<lambda>x. x \<noteq> (dev, unat idx)) (devicechanges d)\<rparr>)) (\<lambda>_.
     seq (stmt e 3) (\<lambda>_.
     seq (gets (\<lambda>d. unat idx \<in> snd ` set (devicechanges d))) (\<lambda>used.
     seq (modify (delete_data (\<lambda>i _. i = unat idx \<and> \<not> used))) (\<lambda>_.
     commit e))))))"

section \<open>Keys\<close>

text \<open>The pair is the offset and the list; the difference of two \<open>int\<close> conversions.\<close>

definition try_key_change :: "senv \<Rightarrow> uuid \<Rightarrow> u32 \<Rightarrow> (int \<times> (uuid \<times> bytes \<times> bytes \<times> bytes option) list) sql" where
  "try_key_change e dev proposed = transaction e (\<lambda>_.
     seq (stmt e 2) (\<lambda>_.
     seq (gets (\<lambda>d. Option.bind (device_user d dev) (\<lambda>uid. map_option (Pair uid) (map_of (users d) uid)))) (\<lambda>x. case x of
         None \<Rightarrow> throw SqlError
       | Some (uid, u) \<Rightarrow>
           let offset = sint proposed - sint (of_nat (keycount u) :: u32) in
           if offset \<noteq> 1 then seq (commit e) (\<lambda>_. ret (offset, []))
           else
             seq (stmt e 3) (\<lambda>_.
             seq (gets (\<lambda>d. \<exists>(k, _) \<in> set (keychanges d). device_user d k = Some uid)) (\<lambda>busy.
             if busy then seq (commit e) (\<lambda>_. ret (- 1, []))
             else
               seq (stmt e 4) (\<lambda>_.
               seq (gets (\<lambda>d. List.map_filter (\<lambda>(k, r). if k \<noteq> dev \<and> userId r = uid
                 then Some (k, cryptScheme r, cryptKey r, keyMac r) else None) (devices d))) (\<lambda>rows.
               seq (commit e) (\<lambda>_. ret (offset, rows)))))))))"

fun insert_keys :: "senv \<Rightarrow> nat \<Rightarrow> u32 \<Rightarrow> bytes \<Rightarrow> (uuid \<times> bytes \<times> bytes) list \<Rightarrow> unit sql" where
  "insert_keys e uid keyIndex scheme [] = ret ()"
| "insert_keys e uid keyIndex scheme ((dev, key, mac) # rest) =
     seq (stmt e 4) (\<lambda>_.
     seq (gets (\<lambda>d. (device_user d dev = Some uid, map_of (keychanges d) dev))) (\<lambda>x.
     seq (guard_call (fst x) SqlError) (\<lambda>_.
     seq (stmt e 5) (\<lambda>_.
     seq (guard_call (snd x = None) SqlError) (\<lambda>_.
     seq (modify (\<lambda>d. d\<lparr>keychanges := keychanges d @
       [(dev, \<lparr>kcIndex = keyIndex, kcScheme = scheme, kcKey = key, kcMac = mac\<rparr>)]\<rparr>)) (\<lambda>_.
     insert_keys e uid keyIndex scheme rest))))))"

definition update_exchange_key :: "senv \<Rightarrow> uuid \<Rightarrow> u32 \<Rightarrow> bytes \<Rightarrow> bytes \<Rightarrow> (uuid \<times> bytes \<times> bytes) list \<Rightarrow> bool sql" where
  "update_exchange_key e dev keyIndex scheme cmac deviceKeys = transaction e (\<lambda>s0.
     seq (stmt e 2) (\<lambda>_.
     seq (gets (\<lambda>d. Option.bind (device_user d dev) (\<lambda>uid. map_option (Pair uid) (map_of (users d) uid)))) (\<lambda>x. case x of
         None \<Rightarrow> seq (modify (rollback_to s0)) (\<lambda>_. ret False)
       | Some (uid, u) \<Rightarrow>
           seq (guard_call (fits_int (keycount u + 1)) SqlError) (\<lambda>_.
           if keycount u + 1 \<noteq> unat keyIndex then seq (modify (rollback_to s0)) (\<lambda>_. ret False)
           else
             seq (modify (update_user (Some uid) (\<lambda>u. u\<lparr>keycount := keycount u + 1\<rparr>))) (\<lambda>_.
             seq (insert_keys e uid keyIndex scheme deviceKeys) (\<lambda>_.
             seq (stmt e 3) (\<lambda>_.
             seq (modify (\<lambda>d. d\<lparr>devices := update_rows (\<lambda>k _. k = dev) (\<lambda>r. r\<lparr>keyMac := Some cmac\<rparr>) (devices d)\<rparr>)) (\<lambda>_.
             seq (commit e) (\<lambda>_.
             ret True)))))))))"

definition update_cmac :: "senv \<Rightarrow> uuid \<Rightarrow> u32 \<Rightarrow> bytes \<Rightarrow> bool sql" where
  "update_cmac e dev keyIndex cmac = transaction e (\<lambda>s0.
     seq (stmt e 2) (\<lambda>_.
     seq (gets (\<lambda>d. map_option keycount (Option.bind (device_user d dev) (map_of (users d))))) (\<lambda>n.
     if n = Some (unat keyIndex) then
       seq (modify (\<lambda>d. d\<lparr>devices := update_rows (\<lambda>k _. k = dev) (\<lambda>r. r\<lparr>keyMac := Some cmac\<rparr>) (devices d)\<rparr>)) (\<lambda>_.
       seq (stmt e 3) (\<lambda>_.
       seq (modify (\<lambda>d. d\<lparr>keychanges := delete_rows (\<lambda>k r. k = dev \<and> kcIndex r = keyIndex) (keychanges d)\<rparr>)) (\<lambda>_.
       seq (commit e) (\<lambda>_.
       ret True))))
     else seq (modify (rollback_to s0)) (\<lambda>_. ret False))))"

text \<open>\<open>deviceid\<close> is the primary key of keychanges: at most one row; index 0 stands for none.\<close>

definition load_key_changes :: "senv \<Rightarrow> uuid \<Rightarrow> (u32 \<times> bytes \<times> bytes \<times> bytes) sql" where
  "load_key_changes e dev = seq (stmt e 2) (\<lambda>_. gets (\<lambda>d. case map_of (keychanges d) dev of
       Some r \<Rightarrow> (kcIndex r, kcScheme r, kcKey r, kcMac r)
     | None \<Rightarrow> (0, [], [], [])))"

section \<open>The quota limit\<close>

definition update_quota_limit :: "senv \<Rightarrow> int \<Rightarrow> bool \<Rightarrow> unit sql" where
  "update_quota_limit e limit forceQuota = transaction e (\<lambda>_.
     seq (if forceQuota then
            seq (stmt e 2) (\<lambda>_.
            seq (gets (\<lambda>d. map fst (filter (\<lambda>(_, u). quotaLimit u \<noteq> limit \<and> quota u \<ge> limit) (users d)))) (\<lambda>over.
            seq (modify (delete_devices (\<lambda>_ r. userId r \<in> set over))) (\<lambda>_.
            seq (stmt e 3) (\<lambda>_.
            delete_users (\<lambda>_ u. quotaLimit u \<noteq> limit \<and> quota u \<ge> limit)))))
          else ret ()) (\<lambda>_.
     seq (stmt e 4) (\<lambda>_.
     seq (modify (\<lambda>d. d\<lparr>users := update_rows (\<lambda>_ u. quotaLimit u \<noteq> limit \<and> quota u < limit)
            (\<lambda>u. u\<lparr>quotaLimit := limit\<rparr>) (users d)\<rparr>)) (\<lambda>_.
     seq (if \<not> forceQuota then stmt e 5 else ret ()) (\<lambda>_.
     commit e)))))"

end
