(* ===== verification/ServerDbProps.thy ===== *)
theory ServerDbProps
  imports ServerDb
begin

text \<open>
  What the server's tables keep under every operation: keys and references, unique changes,
  and the accounting of the quota (a user never has more data stored than is counted, and
  less than the limit is counted).
\<close>

declare map_of_eq_Some_iff [simp del] Some_eq_map_of_iff [simp del]

section \<open>The invariant\<close>

definition keys_ok :: "sdb \<Rightarrow> bool" where
  "keys_ok d \<longleftrightarrow> distinct_keys (users d) \<and> distinct_keys (devices d) \<and> distinct_keys (keychanges d) \<and>
     distinct (devicechanges d) \<and> sorted_wrt (<) (map fst (datachanges d)) \<and>
     distinct (map (\<lambda>(_, r). (fromDevice r, dataId r)) (datachanges d)) \<and>
     (\<forall>i \<in> fst ` set (users d). 0 < i \<and> i \<le> userSeq d) \<and> (\<forall>i \<in> fst ` set (datachanges d). i \<le> dataSeq d)"

definition refs_ok :: "sdb \<Rightarrow> bool" where
  "refs_ok d \<longleftrightarrow> (userId \<circ> snd) ` set (devices d) \<subseteq> fst ` set (users d) \<and>
     (fromDevice \<circ> snd) ` set (datachanges d) \<subseteq> fst ` set (devices d) \<and>
     fst ` set (devicechanges d) \<subseteq> fst ` set (devices d) \<and>
     snd ` set (devicechanges d) \<subseteq> fst ` set (datachanges d) \<and>
     fst ` set (keychanges d) \<subseteq> fst ` set (devices d)"

text \<open>The bytes stored for a user.\<close>

definition used_in :: "sdb \<Rightarrow> (nat \<times> data_row) list \<Rightarrow> nat \<Rightarrow> int" where
  "used_in d rows i = sum_list (map (\<lambda>(_, r).
     if device_user d (fromDevice r) = Some i then int (length (content r)) else 0) rows)"

definition quota_ok :: "sdb \<Rightarrow> bool" where
  "quota_ok d \<longleftrightarrow> (\<forall>(i, u) \<in> set (users d).
     0 \<le> quota u \<and> quota u < quotaLimit u \<and> used_in d (datachanges d) i \<le> quota u)"

definition sdb_inv :: "sdb \<Rightarrow> bool" where
  "sdb_inv d \<longleftrightarrow> keys_ok d \<and> refs_ok d \<and> quota_ok d"

lemma refs_device:
  assumes "refs_ok d" "(k, r) \<in> set (devices d)" shows "userId r \<in> fst ` set (users d)"
proof -
  have "(userId \<circ> snd) (k, r) \<in> (userId \<circ> snd) ` set (devices d)"
    by (rule imageI) (rule assms(2))
  moreover have "(userId \<circ> snd) ` set (devices d) \<subseteq> fst ` set (users d)"
    using assms(1) unfolding refs_ok_def by (elim conjE)
  ultimately have "(userId \<circ> snd) (k, r) \<in> fst ` set (users d)" by (rule rev_subsetD)
  then show ?thesis by simp
qed

lemma refs_data:
  assumes "refs_ok d" "(i, r) \<in> set (datachanges d)" shows "fromDevice r \<in> fst ` set (devices d)"
proof -
  have "(fromDevice \<circ> snd) (i, r) \<in> (fromDevice \<circ> snd) ` set (datachanges d)"
    by (rule imageI) (rule assms(2))
  moreover have "(fromDevice \<circ> snd) ` set (datachanges d) \<subseteq> fst ` set (devices d)"
    using assms(1) unfolding refs_ok_def by (elim conjE)
  ultimately have "(fromDevice \<circ> snd) (i, r) \<in> fst ` set (devices d)" by (rule rev_subsetD)
  then show ?thesis by simp
qed

lemma device_user_same [simp]:
  "device_user (d\<lparr>datachanges := a\<rparr>) = device_user d" "device_user (d\<lparr>devicechanges := b\<rparr>) = device_user d"
  "device_user (d\<lparr>keychanges := c\<rparr>) = device_user d" "device_user (d\<lparr>users := u\<rparr>) = device_user d"
  "device_user (d\<lparr>dataSeq := n\<rparr>) = device_user d" "device_user (d\<lparr>userSeq := n\<rparr>) = device_user d"
  "device_user (d\<lparr>notified := l\<rparr>) = device_user d"
  by (simp_all add: device_user_def fun_eq_iff)

section \<open>Accounting\<close>

lemma used_in_simps [simp]:
  "used_in d [] i = 0"
  "used_in d (x # xs) i = (if device_user d (fromDevice (snd x)) = Some i then int (length (content (snd x))) else 0) + used_in d xs i"
  "used_in d (xs @ ys) i = used_in d xs i + used_in d ys i"
  by (auto simp: used_in_def split: prod.split)

lemma used_in_nonneg: "0 \<le> used_in d rows i"
  by (induction rows) auto

lemma used_in_split: "used_in d rows i = used_in d (filter P rows) i + used_in d (filter (\<lambda>x. \<not> P x) rows) i"
  by (induction rows) auto

lemma used_in_cong: "(\<And>dev. device_user d dev = device_user d' dev) \<Longrightarrow> used_in d rows i = used_in d' rows i"
  by (simp add: used_in_def)

lemma used_in_mono:
  "(\<And>dev. device_user d' dev = Some i \<Longrightarrow> device_user d dev = Some i) \<Longrightarrow> used_in d' rows i \<le> used_in d rows i"
  by (induction rows) auto

lemma update_user_fields [simp]:
  "devices (update_user uid f d) = devices d" "datachanges (update_user uid f d) = datachanges d"
  "devicechanges (update_user uid f d) = devicechanges d" "keychanges (update_user uid f d) = keychanges d"
  "userSeq (update_user uid f d) = userSeq d" "dataSeq (update_user uid f d) = dataSeq d"
  "notified (update_user uid f d) = notified d" "map fst (users (update_user uid f d)) = map fst (users d)"
  "device_user (update_user uid f d) dev = device_user d dev"
  by (simp_all add: update_user_def device_user_def)

lemma down_quota_fields [simp]:
  "devices (down_quota rows d) = devices d" "datachanges (down_quota rows d) = datachanges d"
  "devicechanges (down_quota rows d) = devicechanges d" "keychanges (down_quota rows d) = keychanges d"
  "userSeq (down_quota rows d) = userSeq d" "dataSeq (down_quota rows d) = dataSeq d"
  "notified (down_quota rows d) = notified d" "map fst (users (down_quota rows d)) = map fst (users d)"
  "device_user (down_quota rows d) dev = device_user d dev"
  by (induction rows d rule: down_quota.induct) simp_all

text \<open>Each user loses at most what is deleted.\<close>

lemma down_quota_users:
  assumes "distinct_keys (users d)" "(i, u') \<in> set (users (down_quota rows d))"
  shows "\<exists>u. (i, u) \<in> set (users d) \<and> quotaLimit u' = quotaLimit u \<and> keycount u' = keycount u \<and>
    quota u - used_in d rows i \<le> quota u' \<and> (0 \<le> quota u \<longrightarrow> 0 \<le> quota u' \<and> quota u' \<le> quota u)"
  using assms
proof (induction rows d rule: down_quota.induct)
  case (1 d)
  then show ?case by auto
next
  case (2 n r rows d)
  let ?d = "update_user (device_user d (fromDevice r)) (drop_quota (int (length (content r)))) d"
  have "distinct_keys (users ?d)" using "2.prems"(1) by simp
  from "2.IH" [OF this] "2.prems"(2) obtain u where u: "(i, u) \<in> set (users ?d)" "quotaLimit u' = quotaLimit u"
    "keycount u' = keycount u" "quota u - used_in ?d rows i \<le> quota u'" "0 \<le> quota u \<longrightarrow> 0 \<le> quota u' \<and> quota u' \<le> quota u"
    by auto
  have same: "used_in ?d rows i = used_in d rows i"
    by (rule used_in_cong) simp
  from u(1) obtain v where v: "(i, v) \<in> set (users d)"
    "u = (if Some i = device_user d (fromDevice r) then drop_quota (int (length (content r))) v else v)"
    by (auto simp: update_user_def update_rows_def)
  show ?case
  proof (cases "Some i = device_user d (fromDevice r)")
    case True
    then have w: "quota u = max (quota v - int (length (content r))) 0" "quotaLimit u = quotaLimit v" "keycount u = keycount v"
      using v(2) by (simp_all add: drop_quota_def)
    have "used_in d ((n, r) # rows) i = int (length (content r)) + used_in d rows i"
      using True by simp
    with u w v(1) same show ?thesis by (intro exI [where x = v]) auto
  next
    case False
    then have "used_in d ((n, r) # rows) i = used_in d rows i" by auto
    with u v same False show ?thesis by (intro exI [where x = v]) auto
  qed
qed

lemma remove_data_fields [simp]:
  "users (remove_data P d) = users d" "devices (remove_data P d) = devices d"
  "keychanges (remove_data P d) = keychanges d" "userSeq (remove_data P d) = userSeq d"
  "dataSeq (remove_data P d) = dataSeq d" "notified (remove_data P d) = notified d"
  "datachanges (remove_data P d) = delete_rows P (datachanges d)"
  "device_user (remove_data P d) dev = device_user d dev"
  by (simp_all add: remove_data_def Let_def device_user_def)

lemma delete_data_fields [simp]:
  "devices (delete_data P d) = devices d" "keychanges (delete_data P d) = keychanges d"
  "userSeq (delete_data P d) = userSeq d" "dataSeq (delete_data P d) = dataSeq d"
  "notified (delete_data P d) = notified d" "map fst (users (delete_data P d)) = map fst (users d)"
  "datachanges (delete_data P d) = delete_rows P (datachanges d)"
  "devicechanges (delete_data P d) =
     filter (\<lambda>(_, i). i \<in> set (map fst (delete_rows P (datachanges d)))) (devicechanges d)"
  "device_user (delete_data P d) dev = device_user d dev"
  by (simp_all add: delete_data_def) (simp add: remove_data_def Let_def)

lemma delete_data_quota:
  assumes "distinct_keys (users d)" "quota_ok d"
  shows "quota_ok (delete_data P d)"
  unfolding quota_ok_def
proof (safe)
  fix i u'
  assume u': "(i, u') \<in> set (users (delete_data P d))"
  let ?del = "filter (\<lambda>(i, r). P i r) (datachanges d)"
  have "used_in (remove_data P d) ?del i = used_in d ?del i"
    by (rule used_in_cong) simp
  with down_quota_users [of "remove_data P d" i u' ?del] u' assms(1) obtain u where
    u: "(i, u) \<in> set (users d)" "quotaLimit u' = quotaLimit u" "quota u - used_in d ?del i \<le> quota u'"
      "0 \<le> quota u \<longrightarrow> 0 \<le> quota u' \<and> quota u' \<le> quota u"
    by (auto simp: delete_data_def)
  from u(1) assms(2) have q: "0 \<le> quota u" "quota u < quotaLimit u" "used_in d (datachanges d) i \<le> quota u"
    by (auto simp: quota_ok_def)
  have "used_in (delete_data P d) (delete_rows P (datachanges d)) i = used_in d (delete_rows P (datachanges d)) i"
    by (rule used_in_cong) simp
  moreover have "used_in d (datachanges d) i = used_in d ?del i + used_in d (delete_rows P (datachanges d)) i"
    using used_in_split [of d "datachanges d" i "\<lambda>(i, r). P i r"] by (simp add: delete_rows_def case_prod_unfold)
  ultimately show "used_in (delete_data P d) (datachanges (delete_data P d)) i \<le> quota u'"
    using u(3) q(3) by simp
  show "0 \<le> quota u'" "quota u' < quotaLimit u'" using u q by auto
qed

lemma fst_delete_rows: "fst ` set (delete_rows P t) \<subseteq> fst ` set t"
  by (auto simp: delete_rows_def)

lemma sorted_delete_rows: "sorted_wrt R (map fst t) \<Longrightarrow> sorted_wrt R (map fst (delete_rows P t))"
  by (auto simp: delete_rows_def sorted_wrt_map intro: sorted_wrt_filter)

lemma distinct_map_delete_rows: "distinct (map f t) \<Longrightarrow> distinct (map f (delete_rows P t))"
  by (auto simp: delete_rows_def intro: distinct_map_filter)

lemma fst_users_delete_data [simp]: "fst ` set (users (delete_data P d)) = fst ` set (users d)"
  by (metis delete_data_fields(6) list.set_map)

lemma delete_data_keys: "keys_ok d \<Longrightarrow> keys_ok (delete_data P d)"
  unfolding keys_ok_def by (auto intro: sorted_delete_rows distinct_map_delete_rows)

lemma delete_data_refs:
  assumes "refs_ok d" shows "refs_ok (delete_data P d)"
proof -
  have "set (delete_rows P (datachanges d)) \<subseteq> set (datachanges d)" by auto
  then have "(fromDevice \<circ> snd) ` set (delete_rows P (datachanges d)) \<subseteq> fst ` set (devices d)"
    using image_mono [of _ _ "fromDevice \<circ> snd"] assms unfolding refs_ok_def by (meson subset_trans)
  moreover have "snd ` set (devicechanges (delete_data P d)) \<subseteq> fst ` set (datachanges (delete_data P d))"
    by force
  moreover have "fst ` set (devicechanges (delete_data P d)) \<subseteq> fst ` set (devices d)"
    using assms unfolding refs_ok_def by auto
  ultimately show ?thesis
    using assms unfolding refs_ok_def by simp
qed

lemma delete_data_inv: "sdb_inv d \<Longrightarrow> sdb_inv (delete_data P d)"
  using delete_data_keys [of d P] delete_data_quota [of d P] delete_data_refs [of d P]
  by (auto simp: sdb_inv_def keys_ok_def)

section \<open>The other statements\<close>

lemma map_of_delete_rows_le: "distinct_keys t \<Longrightarrow> map_of (delete_rows P t) k = Some v \<Longrightarrow> map_of t k = Some v"
  by (auto split: option.splits if_splits)

lemma delete_devices_inv:
  assumes "sdb_inv d" shows "sdb_inv (delete_devices P d)"
proof -
  let ?d1 = "d\<lparr>devices := delete_rows P (devices d)\<rparr>"
  let ?gone = "\<lambda>dev. map_of (devices ?d1) dev = None"
  let ?d2 = "delete_data (\<lambda>_ r. ?gone (fromDevice r)) ?d1"
  have k: "keys_ok d" and r: "refs_ok d" and q: "quota_ok d"
    using assms by (simp_all add: sdb_inv_def)
  have gone: "\<not> ?gone dev \<longleftrightarrow> dev \<in> fst ` set (delete_rows P (devices d))" for dev
    unfolding map_of_eq_None_iff by simp
  have k1: "keys_ok ?d1" using k by (simp add: keys_ok_def)
  have q1: "quota_ok ?d1"
    unfolding quota_ok_def
  proof safe
    fix i u
    assume u: "(i, u) \<in> set (users ?d1)"
    have "distinct_keys (devices d)" using k by (simp add: keys_ok_def)
    then have "used_in ?d1 (datachanges d) i \<le> used_in d (datachanges d) i"
      by (intro used_in_mono) (auto simp: device_user_def split: option.splits if_splits)
    with u q show "used_in ?d1 (datachanges ?d1) i \<le> quota u" "0 \<le> quota u" "quota u < quotaLimit u"
      by (auto simp: quota_ok_def)
  qed
  have d2: "keys_ok ?d2" "quota_ok ?d2"
    using delete_data_keys [OF k1] delete_data_quota [OF _ q1] k1 by (auto simp: keys_ok_def)
  have out: "delete_devices P d = ?d2\<lparr>devicechanges := filter (\<lambda>(dev, _). \<not> ?gone dev) (devicechanges ?d2),
      keychanges := delete_rows (\<lambda>dev _. ?gone dev) (keychanges ?d2)\<rparr>"
    by (simp add: delete_devices_def Let_def)
  have "keys_ok (delete_devices P d)"
    using d2(1) k unfolding out keys_ok_def by auto
  moreover have "quota_ok (delete_devices P d)"
  proof -
    have "used_in (delete_devices P d) rows i = used_in ?d2 rows i" for rows i
      by (rule used_in_cong) (simp add: out device_user_def)
    then show ?thesis using d2(2) by (simp add: quota_ok_def out)
  qed
  moreover have "refs_ok (delete_devices P d)"
  proof -
    have "(userId \<circ> snd) ` set (delete_rows P (devices d)) \<subseteq> fst ` set (users d)"
      using r unfolding refs_ok_def by auto
    moreover have "(fromDevice \<circ> snd) ` set (datachanges ?d2) \<subseteq> fst ` set (delete_rows P (devices d))"
    proof (rule image_subsetI)
      fix x assume "x \<in> set (datachanges ?d2)"
      then have "\<not> ?gone (fromDevice (snd x))" by auto
      then show "(fromDevice \<circ> snd) x \<in> fst ` set (delete_rows P (devices d))" unfolding gone by simp
    qed
    moreover have "fst ` set (devicechanges (delete_devices P d)) \<subseteq> fst ` set (delete_rows P (devices d))"
    proof (rule image_subsetI)
      fix x assume "x \<in> set (devicechanges (delete_devices P d))"
      then have "\<not> ?gone (fst x)" by (auto simp: out)
      then show "fst x \<in> fst ` set (delete_rows P (devices d))" unfolding gone .
    qed
    moreover have "snd ` set (devicechanges (delete_devices P d)) \<subseteq> fst ` set (datachanges ?d2)"
      by (force simp: out)
    moreover have "fst ` set (keychanges (delete_devices P d)) \<subseteq> fst ` set (delete_rows P (devices d))"
    proof (rule image_subsetI)
      fix x assume "x \<in> set (keychanges (delete_devices P d))"
      then have "\<not> ?gone (fst x)" by (auto simp: out)
      then show "fst x \<in> fst ` set (delete_rows P (devices d))" unfolding gone .
    qed
    moreover have "devices (delete_devices P d) = delete_rows P (devices d)" "users (delete_devices P d) = users ?d2"
      "datachanges (delete_devices P d) = datachanges ?d2" by (simp_all add: out)
    ultimately show ?thesis unfolding refs_ok_def by simp
  qed
  ultimately show ?thesis by (simp add: sdb_inv_def)
qed

lemma delete_users_inv:
  assumes "sdb_inv d" shows "sdb_inv (snd (delete_users P d))"
proof (cases "\<exists>(i, u) \<in> set (users d). P i u \<and> (\<exists>(_, r) \<in> set (devices d). userId r = i)")
  case True
  with assms show ?thesis by (simp add: delete_users_def)
next
  case False
  let ?d = "d\<lparr>users := delete_rows P (users d)\<rparr>"
  have "(userId \<circ> snd) ` set (devices d) \<subseteq> fst ` set (delete_rows P (users d))"
  proof
    fix i assume "i \<in> (userId \<circ> snd) ` set (devices d)"
    then obtain k r where r: "(k, r) \<in> set (devices d)" "i = userId r" by auto
    then obtain u where "(i, u) \<in> set (users d)"
      using assms refs_device [of d k r] by (auto simp: sdb_inv_def)
    moreover have "\<not> P i u" using False r calculation by blast
    ultimately show "i \<in> fst ` set (delete_rows P (users d))" by (auto simp: image_iff)
  qed
  moreover have "used_in ?d rows i = used_in d rows i" for rows i
    by (rule used_in_cong) (simp add: device_user_def)
  ultimately have "sdb_inv ?d"
    using assms by (auto simp: sdb_inv_def keys_ok_def refs_ok_def quota_ok_def)
  with False show ?thesis by (simp add: delete_users_def)
qed

lemma insert_data_seq: "sdb_inv d \<Longrightarrow> sdb_inv (d\<lparr>dataSeq := Suc (dataSeq d)\<rparr>)"
proof -
  assume i: "sdb_inv d"
  have "used_in (d\<lparr>dataSeq := Suc (dataSeq d)\<rparr>) rows i = used_in d rows i" for rows i
    by (rule used_in_cong) (simp add: device_user_def)
  with i show ?thesis by (auto simp: sdb_inv_def keys_ok_def refs_ok_def quota_ok_def)
qed

lemma update_users_mem:
  "distinct_keys (users d) \<Longrightarrow> (i, u') \<in> set (users (update_user (Some uid) f d)) \<longleftrightarrow>
   (\<exists>u. (i, u) \<in> set (users d) \<and> u' = (if i = uid then f u else u))"
  by (auto simp: update_user_def update_rows_def) force+

lemma insert_data_inv:
  assumes "sdb_inv d" shows "sdb_inv (snd (insert_data r d))"
proof -
  let ?d1 = "d\<lparr>dataSeq := Suc (dataSeq d)\<rparr>"
  have i1: "sdb_inv ?d1" by (rule insert_data_seq [OF assms])
  show ?thesis
  proof (cases "device_user d (fromDevice r)")
    case None
    with i1 show ?thesis by (simp add: insert_data_def Let_def)
  next
    case (Some uid)
    show ?thesis
    proof (cases "has_data d (fromDevice r) (dataId r) \<or> \<not> fits_int (unat (keyIdx r))")
      case True
      with Some i1 show ?thesis by (simp add: insert_data_def Let_def)
    next
      case False
      let ?n = "Suc (dataSeq d)"
      let ?d0 = "?d1\<lparr>datachanges := datachanges d @ [(?n, r)]\<rparr>"
      let ?d2 = "update_user (Some uid) (add_quota (int (length (content r)))) ?d0"
      obtain x where x: "map_of (devices d) (fromDevice r) = Some x" "userId x = uid"
        using Some by (auto simp: device_user_def)
      then have "uid \<in> fst ` set (users d)"
        using assms refs_device [OF _ map_of_SomeD [OF x(1)]] by (simp add: sdb_inv_def)
      then have "map_of (users ?d2) uid \<noteq> None"
        by (simp add: update_user_def map_of_eq_None_iff)
      then obtain u where u: "map_of (users ?d2) uid = Some u" by blast
      show ?thesis
      proof (cases "quota u < quotaLimit u")
        case False': False
        with u Some False i1 show ?thesis by (simp add: insert_data_def Let_def)
      next
        case True
        have du: "device_user ?d2 dev = device_user d dev" for dev
          by (simp add: device_user_def)
        have used: "used_in ?d2 rows i = used_in d rows i" for rows i
          by (rule used_in_cong) (rule du)
        have keys: "distinct_keys (users d)" using assms by (simp add: sdb_inv_def keys_ok_def)
        have "quota_ok ?d2"
          unfolding quota_ok_def
        proof safe
          fix i v'
          assume "(i, v') \<in> set (users ?d2)"
          then obtain v where v: "(i, v) \<in> set (users d)" "v' = (if i = uid then add_quota (int (length (content r))) v else v)"
            using update_users_mem [of ?d0] keys by auto
          have q: "0 \<le> quota v" "quota v < quotaLimit v" "used_in d (datachanges d) i \<le> quota v"
            using assms v(1) by (auto simp: sdb_inv_def quota_ok_def)
          show "0 \<le> quota v'" using q v(2) by (simp add: add_quota_def)
          show "used_in ?d2 (datachanges ?d2) i \<le> quota v'"
            using q v(2) Some by (auto simp: used add_quota_def)
          show "quota v' < quotaLimit v'"
          proof (cases "i = uid")
            case True
            have "distinct_keys (users ?d2)" using keys by simp
            then have "map_of (users ?d2) uid = Some v'"
              using \<open>(i, v') \<in> set (users ?d2)\<close> True by (simp add: map_of_is_SomeI)
            with u \<open>quota u < quotaLimit u\<close> show ?thesis by simp
          qed (use q v(2) in simp)
        qed
        moreover have "keys_ok ?d2"
        proof -
          have "(fromDevice r, dataId r) \<notin> (\<lambda>(_, r). (fromDevice r, dataId r)) ` set (datachanges d)"
            using False by (auto simp: has_data_def)
          moreover have "fst ` set (users ?d2) = fst ` set (users d)"
            by (metis (no_types, lifting) list.set_map sdb.select_convs(1) sdb.surjective sdb.update_convs(3) sdb.update_convs(7) update_user_fields(8))
          ultimately show ?thesis
            using assms by (auto simp: sdb_inv_def keys_ok_def sorted_wrt_append less_Suc_eq_le)
        qed
        moreover have "refs_ok ?d2"
        proof -
          have "fst ` set (users ?d2) = fst ` set (users d)"
            by (simp add: update_user_def update_rows_def image_image case_prod_unfold)
          moreover have "fromDevice r \<in> fst ` set (devices d)"
            using x by (force dest: map_of_SomeD)
          ultimately show ?thesis
            using assms by (auto simp: sdb_inv_def refs_ok_def)
        qed
        ultimately have "sdb_inv ?d2" by (simp add: sdb_inv_def)
        with u True Some False show ?thesis by (simp add: insert_data_def Let_def)
      qed
    qed
  qed
qed

lemma used_in_devices_same:
  "devices d' = devices d \<Longrightarrow> used_in d' rows i = used_in d rows i"
  by (rule used_in_cong) (simp add: device_user_def)

lemma rollback_to_inv: "sdb_inv s \<Longrightarrow> sdb_inv (rollback_to s t)"
  using used_in_devices_same [of "rollback_to s t" s]
  by (auto simp: sdb_inv_def keys_ok_def refs_ok_def quota_ok_def rollback_to_def le_max_iff_disj)

lemma insert_device_change_inv: "sdb_inv d \<Longrightarrow> sdb_inv (snd (insert_device_change dev i d))"
proof -
  assume inv: "sdb_inv d"
  show ?thesis
  proof (cases "map_of (devices d) dev = None \<or> map_of (datachanges d) i = None \<or> (dev, i) \<in> set (devicechanges d)")
    case True
    with inv show ?thesis by (auto simp: insert_device_change_def)
  next
    case False
    let ?d = "d\<lparr>devicechanges := devicechanges d @ [(dev, i)], notified := notified d @ [dev]\<rparr>"
    have "dev \<in> fst ` set (devices d)" "i \<in> fst ` set (datachanges d)"
      using False by (auto simp: map_of_eq_None_iff)
    with inv False have "sdb_inv ?d"
      using used_in_devices_same [of ?d d]
      by (auto simp: sdb_inv_def keys_ok_def refs_ok_def quota_ok_def)
    with inv False show ?thesis by (auto simp: insert_device_change_def)
  qed
qed

lemma upd_devices_inv:
  assumes "sdb_inv d" "\<And>r. userId (f r) = userId r"
  shows "sdb_inv (d\<lparr>devices := update_rows P f (devices d)\<rparr>)"
proof -
  let ?d = "d\<lparr>devices := update_rows P f (devices d)\<rparr>"
  have k: "fst ` set (update_rows P f (devices d)) = fst ` set (devices d)"
    by (metis list.set_map map_fst_update_rows)
  have "(userId \<circ> snd) ` set (update_rows P f (devices d)) = (userId \<circ> snd) ` set (devices d)"
    using assms(2) by (simp add: update_rows_def image_image case_prod_unfold if_distrib [of userId] cong: if_cong)
  moreover have "used_in ?d rows i = used_in d rows i" for rows i
    by (rule used_in_cong) (auto simp: device_user_def assms(2) option.map_comp comp_def if_distrib cong: if_cong)
  ultimately show ?thesis
    using assms(1) k by (simp add: sdb_inv_def keys_ok_def refs_ok_def quota_ok_def)
qed

lemma upd_users_inv:
  assumes "sdb_inv d" "\<And>i u. P i u \<Longrightarrow> quota (f u) = quota u \<and> (quotaLimit (f u) = quotaLimit u \<or> quota u < quotaLimit (f u))"
  shows "sdb_inv (d\<lparr>users := update_rows P f (users d)\<rparr>)"
proof -
  let ?d = "d\<lparr>users := update_rows P f (users d)\<rparr>"
  have k: "fst ` set (update_rows P f (users d)) = fst ` set (users d)"
    by (metis list.set_map map_fst_update_rows)
  have "quota_ok ?d"
    unfolding quota_ok_def
  proof safe
    fix i u'
    assume "(i, u') \<in> set (users ?d)"
    then obtain u where u: "(i, u) \<in> set (users d)" "u' = (if P i u then f u else u)"
      by (auto simp: update_rows_def)
    have "0 \<le> quota u \<and> quota u < quotaLimit u \<and> used_in d (datachanges d) i \<le> quota u"
      using assms(1) u(1) by (auto simp: sdb_inv_def quota_ok_def)
    with u(2) assms(2) [of i u] used_in_devices_same [of ?d d]
    show "0 \<le> quota u'" "quota u' < quotaLimit u'" "used_in ?d (datachanges ?d) i \<le> quota u'"
      by auto
  qed
  with assms(1) k show ?thesis by (simp add: sdb_inv_def keys_ok_def refs_ok_def)
qed

lemma drop_device_changes_inv: "sdb_inv d \<Longrightarrow> sdb_inv (d\<lparr>devicechanges := filter Q (devicechanges d)\<rparr>)"
  using used_in_devices_same [of "d\<lparr>devicechanges := filter Q (devicechanges d)\<rparr>" d]
  by (auto simp: sdb_inv_def keys_ok_def refs_ok_def quota_ok_def)

lemma drop_keys_inv: "sdb_inv d \<Longrightarrow> sdb_inv (d\<lparr>keychanges := delete_rows Q (keychanges d)\<rparr>)"
  using used_in_devices_same [of "d\<lparr>keychanges := delete_rows Q (keychanges d)\<rparr>" d]
  by (auto simp: sdb_inv_def keys_ok_def refs_ok_def quota_ok_def)

lemma add_key_inv:
  assumes "sdb_inv d" "device_user d dev \<noteq> None" "map_of (keychanges d) dev = None"
  shows "sdb_inv (d\<lparr>keychanges := keychanges d @ [(dev, r)]\<rparr>)"
proof -
  have "dev \<in> fst ` set (devices d)"
    using assms(2) by (auto simp: device_user_def map_of_eq_None_iff)
  then show ?thesis
    using assms(1,3) used_in_devices_same [of "d\<lparr>keychanges := keychanges d @ [(dev, r)]\<rparr>" d]
    by (auto simp: sdb_inv_def keys_ok_def refs_ok_def quota_ok_def map_of_eq_None_iff)
qed

lemma add_device_inv:
  assumes "sdb_inv d" "map_of (devices d) dev = None" "userId r \<in> fst ` set (users d)"
  shows "sdb_inv (d\<lparr>devices := devices d @ [(dev, r)]\<rparr>)"
proof -
  let ?d = "d\<lparr>devices := devices d @ [(dev, r)]\<rparr>"
  have new: "dev \<notin> fst ` set (devices d)"
    using assms(2) by (simp add: map_of_eq_None_iff)
  have "used_in ?d rows i = used_in d rows i" if "(fromDevice \<circ> snd) ` set rows \<subseteq> fst ` set (devices d)" for rows i
  proof -
    have "device_user ?d (fromDevice x) = device_user d (fromDevice x)" if "fromDevice x \<noteq> dev" for x
      using that by (simp add: device_user_def map_add_def split: option.split)
    then show ?thesis
      using \<open>(fromDevice \<circ> snd) ` set rows \<subseteq> fst ` set (devices d)\<close> new
      unfolding used_in_def by (intro arg_cong [of _ _ sum_list] map_cong) fastforce+
  qed
  with assms new show ?thesis
    by (auto simp: sdb_inv_def keys_ok_def refs_ok_def quota_ok_def)
qed

lemma add_user_inv:
  assumes "sdb_inv d" "0 < limit" "i = Suc (userSeq d)"
  shows "sdb_inv (d\<lparr>userSeq := i, users := users d @ [(i, \<lparr>keycount = 0, quota = 0, quotaLimit = limit\<rparr>)]\<rparr>)"
proof -
  let ?d = "d\<lparr>userSeq := i, users := users d @ [(i, \<lparr>keycount = 0, quota = 0, quotaLimit = limit\<rparr>)]\<rparr>"
  have new: "i \<notin> fst ` set (users d)"
    using assms(1,3) by (auto simp: sdb_inv_def keys_ok_def)
  have "device_user d dev \<noteq> Some i" for dev
    using refs_device [of d dev] assms(1) new
    by (auto simp: device_user_def sdb_inv_def dest!: map_of_SomeD)
  then have "used_in d (datachanges d) i = 0"
    unfolding used_in_def by (auto intro!: sum_list_0 simp: case_prod_unfold)
  with assms new used_in_devices_same [of ?d d] show ?thesis
    by (auto simp: sdb_inv_def keys_ok_def refs_ok_def quota_ok_def)
qed

section \<open>The operations\<close>

lemma keeps_transaction:
  assumes "\<And>s. sdb_inv s \<Longrightarrow> keeps sdb_inv (m s)"
  shows "keeps sdb_inv (transaction e m)"
proof (rule keepsI)
  fix s
  assume s: "sdb_inv s"
  have "keeps sdb_inv (on_throw (m s) (rollback_to s))"
    unfolding keeps_def on_throw_def
    using keepsD [OF assms [OF s]] rollback_to_inv [OF s]
    by (fastforce split: prod.splits sum.splits)
  with s show "sdb_inv (snd (transaction e m s))"
    unfolding transaction_def by (simp add: keeps_def)
qed

lemma keeps_catch_check: "keeps P m \<Longrightarrow> keeps P (catch_check m)"
  unfolding keeps_def catch_check_def by (fastforce split: prod.splits sum.splits sql_error.splits)

lemma keeps_insert_data: "keeps sdb_inv (insert_data r)"
  by (rule keepsI) (rule insert_data_inv)

lemma keeps_delete_users: "keeps sdb_inv (delete_users P)"
  by (rule keepsI) (rule delete_users_inv)

lemma keeps_insert_device_change: "keeps sdb_inv (insert_device_change dev i)"
  by (rule keepsI) (rule insert_device_change_inv)

lemma keeps_insert_device_changes: "keeps sdb_inv (insert_device_changes devs i)"
  by (induction devs) (simp_all add: keeps_ret keeps_seq keeps_insert_device_change)

lemma keeps_insert_keys: "keeps sdb_inv (insert_keys e uid keyIndex scheme ks)"
proof (induction ks)
  case Nil
  show ?case by (simp add: keeps_ret)
next
  case (Cons k ks)
  obtain dev key mac where k: "k = (dev, key, mac)" by (cases k)
  show ?case
  proof (rule keepsI)
    fix s
    assume "sdb_inv s"
    with add_key_inv [of s dev] keepsD [OF Cons]
    show "sdb_inv (snd (insert_keys e uid keyIndex scheme (k # ks) s))"
      by (auto simp: k)
  qed
qed

lemmas sql_rules = keeps_ret keeps_throw keeps_gets keeps_guard keeps_seq keeps_if keeps_option keeps_pair
  keeps_transaction keeps_catch_check keeps_insert_data keeps_delete_users keeps_insert_device_changes
  keeps_insert_device_change keeps_insert_keys
  keeps_modify [where P = sdb_inv and f = "delete_data Q" for Q, OF delete_data_inv]
  keeps_modify [where P = sdb_inv and f = "delete_devices Q" for Q, OF delete_devices_inv]
  keeps_modify [where P = sdb_inv and f = "rollback_to s" for s, OF rollback_to_inv]
  keeps_modify [where P = sdb_inv, OF drop_device_changes_inv]
  keeps_modify [where P = sdb_inv, OF drop_keys_inv]
  keeps_modify [where P = sdb_inv, OF upd_devices_inv]

lemma user_seq_inv: "sdb_inv d \<Longrightarrow> sdb_inv (d\<lparr>userSeq := Suc (userSeq d)\<rparr>)"
  using used_in_devices_same [of "d\<lparr>userSeq := Suc (userSeq d)\<rparr>" d]
  by (auto simp: sdb_inv_def keys_ok_def refs_ok_def quota_ok_def intro: le_SucI)

lemma keeps_add_new_device: "keeps sdb_inv (add_new_device e nm ss sk cs ck fp cmac limit)"
  unfolding add_new_device_def
proof (rule keeps_transaction, rule keepsI, goal_cases)
  case (1 s0 s)
  show ?case
    using 1 user_seq_inv [OF 1(2)] add_user_inv [OF 1(2) _ refl, of limit]
      add_device_inv [OF add_user_inv [OF 1(2) _ refl, of limit], of "freshUuid e"]
    by (simp add: ret_def)
qed

lemma keeps_add_new_device_to_user: "keeps sdb_inv (add_new_device_to_user e dev partner nm ss sk cs ck fp)"
proof (rule keepsI)
  fix s
  assume s: "sdb_inv s"
  have "uid \<in> fst ` set (users s)" if "device_user s partner = Some uid" for uid
    using that s refs_device [of s partner] by (auto simp: device_user_def sdb_inv_def dest!: map_of_SomeD)
  with s add_device_inv [OF s, of dev]
  show "sdb_inv (snd (add_new_device_to_user e dev partner nm ss sk cs ck fp s))"
    by (auto simp: add_new_device_to_user_def throw_def modify_def split: option.split)
qed

lemma bump_keycount_inv: "sdb_inv d \<Longrightarrow> sdb_inv (update_user (Some uid) (\<lambda>u. u\<lparr>keycount := keycount u + 1\<rparr>) d)"
  unfolding update_user_def by (rule upd_users_inv) simp_all

lemma keeps_reads:
  "keeps sdb_inv (load_crypto e dev)" "keeps sdb_inv (list_devices e dev)" "keeps sdb_inv (change_count e dev)"
  "keeps sdb_inv (load_next_changes e dev n skip)" "keeps sdb_inv (load_key_changes e dev)"
  unfolding load_crypto_def list_devices_def change_count_def load_next_changes_def load_key_changes_def
  by (intro sql_rules)+

lemma keeps_update_login: "keeps sdb_inv (update_login e dev nm)"
  unfolding update_login_def by (intro sql_rules) simp_all

lemma keeps_remove_device: "keeps sdb_inv (remove_device e dev del)"
  unfolding remove_device_def by (intro sql_rules)

lemma keeps_cleanup_devices: "keeps sdb_inv (cleanup_devices e days)"
  unfolding cleanup_devices_def by (intro sql_rules)

lemma keeps_add_change: "keeps sdb_inv (add_change e dev i keyIndex slt dat)"
  unfolding add_change_def by (intro sql_rules)

lemma keeps_add_device_change: "keeps sdb_inv (add_device_change e dev target i keyIndex slt dat)"
  unfolding add_device_change_def
  by (intro sql_rules) (auto intro!: sql_rules split: list.split)

lemma keeps_complete_change: "keeps sdb_inv (complete_change e dev idx)"
  unfolding complete_change_def by (intro sql_rules)

lemma keeps_try_key_change: "keeps sdb_inv (try_key_change e dev proposed)"
  unfolding try_key_change_def Let_def by (intro sql_rules)

lemma keeps_update_exchange_key: "keeps sdb_inv (update_exchange_key e dev keyIndex scheme cmac deviceKeys)"
  unfolding update_exchange_key_def
  by (intro sql_rules keeps_modify [where P = sdb_inv, OF bump_keycount_inv]) simp_all

lemma keeps_update_cmac: "keeps sdb_inv (update_cmac e dev keyIndex cmac)"
  unfolding update_cmac_def by (intro sql_rules) simp_all

lemma keeps_update_quota_limit: "keeps sdb_inv (update_quota_limit e limit forceQuota)"
  unfolding update_quota_limit_def
  by (intro sql_rules keeps_modify [where P = sdb_inv, OF upd_users_inv]) auto

end
