(* ===== verification/ServerClaims.thy ===== *)
theory ServerClaims
  imports ServerDbProps
begin

text \<open>
  The properties of the server's database (\<open>tools/appserver/databasecontroller.cpp\<close>): its
  integrity under any sequence of operations and failures, the quota, who receives a change,
  when a stored change is dropped, and the exchange of a new key.
\<close>

section \<open>Sequences of operations\<close>

datatype server_op =
    AddNewDevice string bytes bytes bytes bytes bytes bytes int
  | AddNewDeviceToUser uuid uuid string bytes bytes bytes bytes bytes
  | LoadCrypto uuid
  | UpdateLogin uuid string
  | UpdateCmac uuid u32 bytes
  | ListDevices uuid
  | RemoveDevice uuid uuid
  | AddChange uuid bytes u32 bytes bytes
  | AddDeviceChange uuid uuid bytes u32 bytes bytes
  | ChangeCount uuid
  | LoadNextChanges uuid u32 u32
  | CompleteChange uuid u64
  | TryKeyChange uuid u32
  | UpdateExchangeKey uuid u32 bytes bytes "(uuid \<times> bytes \<times> bytes) list"
  | LoadKeyChanges uuid
  | CleanupDevices nat
  | UpdateQuotaLimit int bool

definition forget :: "'a sql \<Rightarrow> unit sql" where
  "forget m = seq m (\<lambda>_. ret ())"

fun server_step :: "senv \<Rightarrow> server_op \<Rightarrow> unit sql" where
  "server_step e (AddNewDevice nm ss sk cs ck fp mac limit) = forget (add_new_device e nm ss sk cs ck fp mac limit)"
| "server_step e (AddNewDeviceToUser dev p nm ss sk cs ck fp) = add_new_device_to_user e dev p nm ss sk cs ck fp"
| "server_step e (LoadCrypto dev) = forget (load_crypto e dev)"
| "server_step e (UpdateLogin dev nm) = update_login e dev nm"
| "server_step e (UpdateCmac dev i mac) = forget (update_cmac e dev i mac)"
| "server_step e (ListDevices dev) = forget (list_devices e dev)"
| "server_step e (RemoveDevice dev del) = remove_device e dev del"
| "server_step e (AddChange dev i k s c) = forget (add_change e dev i k s c)"
| "server_step e (AddDeviceChange dev t i k s c) = forget (add_device_change e dev t i k s c)"
| "server_step e (ChangeCount dev) = forget (change_count e dev)"
| "server_step e (LoadNextChanges dev n skip) = forget (load_next_changes e dev n skip)"
| "server_step e (CompleteChange dev i) = complete_change e dev i"
| "server_step e (TryKeyChange dev p) = forget (try_key_change e dev p)"
| "server_step e (UpdateExchangeKey dev i sch mac ks) = forget (update_exchange_key e dev i sch mac ks)"
| "server_step e (LoadKeyChanges dev) = forget (load_key_changes e dev)"
| "server_step e (CleanupDevices days) = cleanup_devices e days"
| "server_step e (UpdateQuotaLimit limit force) = update_quota_limit e limit force"

definition empty_sdb :: sdb where
  "empty_sdb = \<lparr>users = [], devices = [], datachanges = [], devicechanges = [], keychanges = [],
     userSeq = 0, dataSeq = 0, notified = []\<rparr>"

text \<open>Each operation runs in an environment of its own, which decides what fails in it.\<close>

definition server_run :: "(senv \<times> server_op) list \<Rightarrow> sdb \<Rightarrow> sdb" where
  "server_run = fold (\<lambda>(e, op) d. snd (server_step e op d))"

lemma keeps_forget: "keeps P m \<Longrightarrow> keeps P (forget m)"
  unfolding forget_def by (rule keeps_seq) (simp_all add: keeps_ret)

lemma keeps_server_step: "keeps sdb_inv (server_step e op)"
  by (cases op) (simp_all add: keeps_forget keeps_add_new_device keeps_add_new_device_to_user keeps_reads
    keeps_update_login keeps_update_cmac keeps_remove_device keeps_add_change keeps_add_device_change
    keeps_complete_change keeps_try_key_change keeps_update_exchange_key keeps_cleanup_devices
    keeps_update_quota_limit)

lemma empty_sdb_inv: "sdb_inv empty_sdb"
  by (simp add: sdb_inv_def keys_ok_def refs_ok_def quota_ok_def empty_sdb_def)

lemma server_run_inv: "sdb_inv d \<Longrightarrow> sdb_inv (server_run ops d)"
  unfolding server_run_def
proof (induction ops arbitrary: d)
  case (Cons x ops)
  have "sdb_inv (case x of (e, op) \<Rightarrow> snd (server_step e op d))"
    using keepsD [OF keeps_server_step Cons.prems] by (simp add: case_prod_unfold)
  from Cons.IH [OF this] show ?case by (simp add: case_prod_unfold)
qed simp

text \<open>Whatever operations the clients and the maintenance run on a new server, and
  whichever of their statements fail, the tables keep their keys and references: ids are
  unique, every device belongs to a user, every stored change to a device, every queued
  delivery refers to a stored change and an existing device, and a device has stored at most
  one change per dataset.\<close>

theorem server_tables_invariant:
  "keys_ok (server_run ops empty_sdb) \<and> refs_ok (server_run ops empty_sdb)"
  using server_run_inv [OF empty_sdb_inv, of ops] by (simp add: sdb_inv_def)

text \<open>C14: The bytes stored for all the devices of a user never reach the quota limit of the
  user, in any history of the server.\<close>

theorem stored_below_quota:
  assumes "map_of (users (server_run ops empty_sdb)) uid = Some u"
  shows "(\<Sum>(_, r) \<leftarrow> datachanges (server_run ops empty_sdb).
      if device_user (server_run ops empty_sdb) (fromDevice r) = Some uid then int (length (content r)) else 0)
    \<le> quota u \<and> quota u < quotaLimit u"
  using server_run_inv [OF empty_sdb_inv, of ops] map_of_SomeD [OF assms]
  by (force simp: sdb_inv_def quota_ok_def used_in_def)

section \<open>The effect of the statements\<close>

lemma insert_data_Inr:
  assumes "insert_data r d = (Inr n, d1)"
  obtains uid where "device_user d (fromDevice r) = Some uid" "n = Suc (dataSeq d)"
    "d1 = update_user (Some uid) (add_quota (int (length (content r))))
       (d\<lparr>dataSeq := n, datachanges := datachanges d @ [(n, r)]\<rparr>)"
  using assms unfolding insert_data_def Let_def
  by (auto split: option.splits if_splits)

lemma insert_device_changes_Inr:
  "insert_device_changes devs n d = (Inr (), d2) \<Longrightarrow>
   d2 = d\<lparr>devicechanges := devicechanges d @ map (\<lambda>x. (x, n)) devs, notified := notified d @ devs\<rparr>"
proof (induction devs arbitrary: d)
  case Nil
  then show ?case by (simp add: ret_def)
next
  case (Cons x devs)
  then obtain d1 where d1: "insert_device_change x n d = (Inr (), d1)" "insert_device_changes devs n d1 = (Inr (), d2)"
    by (auto elim: seq_InrE)
  then have "d1 = d\<lparr>devicechanges := devicechanges d @ [(x, n)], notified := notified d @ [x]\<rparr>"
    by (auto simp: insert_device_change_def split: if_splits)
  with Cons.IH [OF d1(2)] show ?case by simp
qed

lemma transaction_Inr:
  "transaction e m s = (Inr a, t) \<longleftrightarrow> sqlOk e 0 \<and> m s s = (Inr a, t)"
  by (auto simp: transaction_def on_throw_def split: prod.splits sum.splits)

lemma transaction_Inl:
  assumes "transaction e m s = (Inl x, t)"
  obtains u where "t = rollback_to s u"
proof (cases "sqlOk e 0")
  case True
  with assms that show ?thesis
    by (auto simp: transaction_def on_throw_Inl)
next
  case False
  with assms that [of s] show ?thesis by (simp add: transaction_def rollback_to_def)
qed

lemma catch_check_True: "catch_check m s = (Inr True, t) \<longleftrightarrow> m s = (Inr True, t)"
  by (auto simp: catch_check_def split: prod.splits sum.splits sql_error.splits)

lemma add_change_True:
  assumes "add_change e dev i k slt dat d = (Inr True, d')"
  obtains n d1 d2 where
    "insert_data \<lparr>fromDevice = dev, dataId = i, keyIdx = k, salt = slt, content = dat\<rparr>
       (delete_data (\<lambda>_ r. fromDevice r = dev \<and> dataId r = i) d) = (Inr n, d1)"
    "insert_device_changes (other_devices d1 dev) n d1 = (Inr (), d2)"
    "d' = (if other_devices d1 dev = [] then delete_data (\<lambda>k _. k = n) d2 else d2)"
  using assms unfolding add_change_def catch_check_True transaction_Inr
  by (fastforce simp: act_Inr elim!: seq_InrE split: if_splits)


lemma add_change_calm:
  assumes "insert_data \<lparr>fromDevice = dev, dataId = i, keyIdx = k, salt = slt, content = dat\<rparr>
       (delete_data (\<lambda>_ r. fromDevice r = dev \<and> dataId r = i) d) = (Inr n, d1)"
    "insert_device_changes (other_devices d1 dev) n d1 = (Inr (), d2)" "\<forall>c. sqlOk e c"
  shows "add_change e dev i k slt dat d =
    (Inr True, if other_devices d1 dev = [] then delete_data (\<lambda>k _. k = n) d2 else d2)"
  using assms
  by (simp add: add_change_def catch_check_True transaction_Inr act_simps seq_if)

lemma queue_for_delete:
  "queue_for (delete_data P d) x = filter (\<lambda>(i, r). \<not> P i r) (queue_for d x)"
  unfolding queue_for_def delete_data_fields delete_rows_def filter_filter
  by (rule filter_cong) (auto simp: image_iff split: prod.splits)

lemma queue_for_insert:
  assumes "n \<notin> snd ` set (devicechanges d)" "n \<notin> fst ` set (datachanges d)"
    "datachanges d' = datachanges d @ [(n, r)]" "devicechanges d' = devicechanges d @ map (\<lambda>x. (x, n)) devs"
  shows "queue_for d' x = queue_for d x @ (if x \<in> set devs then [(n, r)] else [])"
proof -
  have "filter (\<lambda>(i, _). (x, i) \<in> set (devicechanges d')) (datachanges d) = queue_for d x"
    unfolding queue_for_def using assms(2,4) by (intro filter_cong) force+
  moreover have "(x, n) \<notin> set (devicechanges d)"
    using assms(1) by force
  ultimately show ?thesis
    by (auto simp: queue_for_def assms(3,4))
qed

lemma fresh_data_id:
  assumes "sdb_inv d"
  shows "Suc (dataSeq d) \<notin> fst ` set (datachanges d)" "Suc (dataSeq d) \<notin> snd ` set (devicechanges d)"
proof -
  show "Suc (dataSeq d) \<notin> fst ` set (datachanges d)"
    using assms unfolding sdb_inv_def keys_ok_def by fastforce
  then show "Suc (dataSeq d) \<notin> snd ` set (devicechanges d)"
    using assms unfolding sdb_inv_def refs_ok_def by blast
qed

section \<open>Delivery\<close>

lemma other_devices_mem:
  assumes "distinct_keys (devices d)" "device_user d dev \<noteq> None"
  shows "x \<in> set (other_devices d dev) \<longleftrightarrow> x \<noteq> dev \<and> device_user d x = device_user d dev"
proof -
  have "(\<exists>r. (x, r) \<in> set (devices d) \<and> Some (userId r) = device_user d dev) \<longleftrightarrow> device_user d x = device_user d dev"
  proof -
    have "(x, r) \<in> set (devices d) \<longleftrightarrow> map_of (devices d) x = Some r" for r
      by (rule map_of_mem_iff [OF assms(1)])
    then show ?thesis using assms(2) by (auto simp: device_user_def)
  qed
  then show ?thesis by (auto simp: other_devices_def image_iff)
qed

lemma add_change_queues:
  assumes "sdb_inv d" "add_change e dev i k slt dat d = (Inr True, d')"
  shows "notified d' = notified d @ other_devices d dev \<and>
    (\<exists>n > dataSeq d. \<forall>x. queue_for d' x =
      filter (\<lambda>(_, r). \<not> (fromDevice r = dev \<and> dataId r = i)) (queue_for d x) @
      (if x \<in> set (other_devices d dev)
       then [(n, \<lparr>fromDevice = dev, dataId = i, keyIdx = k, salt = slt, content = dat\<rparr>)] else []))"
proof -
  let ?r = "\<lparr>fromDevice = dev, dataId = i, keyIdx = k, salt = slt, content = dat\<rparr>"
  let ?P = "\<lambda>(_::nat) r. fromDevice r = dev \<and> dataId r = i"
  let ?d0 = "delete_data ?P d"
  obtain n d1 d2 where s:
    "insert_data ?r ?d0 = (Inr n, d1)" "insert_device_changes (other_devices d1 dev) n d1 = (Inr (), d2)"
    "d' = (if other_devices d1 dev = [] then delete_data (\<lambda>k _. k = n) d2 else d2)"
    by (rule add_change_True [OF assms(2)])
  obtain uid where i: "n = Suc (dataSeq ?d0)" "d1 = update_user (Some uid) (add_quota (int (length (content ?r))))
      (?d0\<lparr>dataSeq := n, datachanges := datachanges ?d0 @ [(n, ?r)]\<rparr>)"
    by (rule insert_data_Inr [OF s(1)])
  then have n: "n = Suc (dataSeq d)" and d1: "devices d1 = devices d"
      "datachanges d1 = datachanges ?d0 @ [(n, ?r)]" "devicechanges d1 = devicechanges ?d0" "notified d1 = notified d"
    by (simp_all del: delete_data_fields(7,8))
  have others: "other_devices d1 dev = other_devices d dev"
    by (simp add: other_devices_def device_user_def d1(1))
  from insert_device_changes_Inr [OF s(2)] have d2: "datachanges d2 = datachanges ?d0 @ [(n, ?r)]"
      "devicechanges d2 = devicechanges ?d0 @ map (\<lambda>x. (x, n)) (other_devices d dev)"
      "notified d2 = notified d @ other_devices d dev"
    by (simp_all add: d1 others del: delete_data_fields(7,8))
  have inv: "sdb_inv ?d0" by (rule delete_data_inv [OF assms(1)])
  have new: "n \<notin> fst ` set (datachanges ?d0)" "n \<notin> snd ` set (devicechanges ?d0)"
    using fresh_data_id [OF inv] n by simp_all
  then have q: "queue_for d2 x = queue_for ?d0 x @ (if x \<in> set (other_devices d dev) then [(n, ?r)] else [])" for x
    using queue_for_insert d2(1,2) by blast
  have "notified d' = notified d @ other_devices d dev"
    using s(3) d2(3) others by simp
  moreover have "queue_for d' x = queue_for ?d0 x @ (if x \<in> set (other_devices d dev) then [(n, ?r)] else [])" for x
  proof (cases "other_devices d dev = []")
    case True
    have "filter (\<lambda>(k, _). k \<noteq> n) (queue_for ?d0 x) = queue_for ?d0 x"
      using new(1) unfolding queue_for_def by (intro filter_True) force
    with True q [of x] s(3) others show ?thesis by (simp add: queue_for_delete)
  next
    case False
    with q s(3) others show ?thesis by simp
  qed
  ultimately show ?thesis
    using n by (auto simp: queue_for_delete intro!: exI [of _ n])
qed

text \<open>C13: When the server accepts a change it is queued, behind everything queued before, for
  exactly the other devices of the sender's user, who are notified; it replaces the change
  stored by the same device for the same dataset, and no other queue is touched.\<close>

theorem add_change_delivery:
  assumes "sdb_inv d" "add_change e dev i k slt dat d = (Inr True, d')"
  shows "(\<exists>ns. notified d' = notified d @ ns \<and> distinct ns \<and>
      set ns = {x. x \<noteq> dev \<and> device_user d x = device_user d dev}) \<and>
    (\<exists>n > dataSeq d. \<forall>x. queue_for d' x =
      filter (\<lambda>(_, r). \<not> (fromDevice r = dev \<and> dataId r = i)) (queue_for d x) @
      (if x \<noteq> dev \<and> device_user d x = device_user d dev
       then [(n, \<lparr>fromDevice = dev, dataId = i, keyIdx = k, salt = slt, content = dat\<rparr>)] else []))"
proof -
  have user: "device_user d dev \<noteq> None"
  proof -
    obtain n d1 where "insert_data \<lparr>fromDevice = dev, dataId = i, keyIdx = k, salt = slt, content = dat\<rparr>
       (delete_data (\<lambda>_ r. fromDevice r = dev \<and> dataId r = i) d) = (Inr n, d1)"
      by (rule add_change_True [OF assms(2)])
    then show ?thesis by (rule insert_data_Inr) simp
  qed
  have keys: "distinct_keys (devices d)"
    using assms(1) by (simp add: sdb_inv_def keys_ok_def)
  have others: "x \<in> set (other_devices d dev) \<longleftrightarrow> x \<noteq> dev \<and> device_user d x = device_user d dev" for x
    by (rule other_devices_mem [OF keys user])
  have "distinct (other_devices d dev)"
    using keys by (simp add: other_devices_def distinct_map_filter)
  with add_change_queues [OF assms] others show ?thesis
    by (intro conjI exI [of _ "other_devices d dev"]) auto
qed

lemma complete_change_queues:
  assumes "sdb_inv d" "complete_change e dev idx d = (Inr (), d')"
  shows "(\<forall>x. queue_for d' x = filter (\<lambda>(i, _). \<not> (x = dev \<and> i = unat idx)) (queue_for d x)) \<and>
    (\<forall>i r. (i, r) \<in> set (datachanges d') \<longleftrightarrow> (i, r) \<in> set (datachanges d) \<and>
      (i = unat idx \<longrightarrow> (\<exists>x. x \<noteq> dev \<and> (x, i) \<in> set (devicechanges d))))"
proof -
  let ?d1 = "d\<lparr>devicechanges := filter (\<lambda>x. x \<noteq> (dev, unat idx)) (devicechanges d)\<rparr>"
  let ?used = "unat idx \<in> snd ` set (devicechanges ?d1)"
  have d': "d' = delete_data (\<lambda>i _. i = unat idx \<and> \<not> ?used) ?d1"
    using assms(2) unfolding complete_change_def transaction_Inr
    by (auto simp: act_Inr split: if_splits)
  have used: "?used \<longleftrightarrow> (\<exists>x. x \<noteq> dev \<and> (x, unat idx) \<in> set (devicechanges d))"
    by force
  have q: "queue_for ?d1 x = filter (\<lambda>(i, _). \<not> (x = dev \<and> i = unat idx)) (queue_for d x)" for x
    unfolding queue_for_def filter_filter by (rule filter_cong) auto
  have "queue_for d' x = queue_for ?d1 x" for x
    unfolding d' queue_for_delete
    by (rule filter_True) (force simp: queue_for_def)
  moreover have "(i, r) \<in> set (datachanges d') \<longleftrightarrow> (i, r) \<in> set (datachanges d) \<and>
      (i = unat idx \<longrightarrow> (\<exists>x. x \<noteq> dev \<and> (x, i) \<in> set (devicechanges d)))" for i r
    unfolding d' used by auto
  ultimately show ?thesis using q by simp
qed

text \<open>When a device confirms a change, that change leaves its queue and no other: its other
  changes keep their order and every other queue is as before. The stored data is dropped
  exactly when nobody waits for it any more.\<close>

theorem complete_change_correct:
  assumes "sdb_inv d" "complete_change e dev idx d = (Inr (), d')"
  shows "(\<forall>x. queue_for d' x = filter (\<lambda>(i, _). \<not> (x = dev \<and> i = unat idx)) (queue_for d x)) \<and>
    (\<forall>i r. (i, r) \<in> set (datachanges d') \<longleftrightarrow> (i, r) \<in> set (datachanges d) \<and>
      (i = unat idx \<longrightarrow> (\<exists>x. x \<noteq> dev \<and> (x, i) \<in> set (devicechanges d))))"
  by (rule complete_change_queues [OF assms])

section \<open>Failures\<close>

lemma rollback_to_same [simp]: "rollback_to s s = s"
  by (simp add: rollback_to_def)

lemma rollback_to_idem [simp]: "rollback_to s (rollback_to s t) = rollback_to s t"
  by (simp add: rollback_to_def)

lemma catch_check_Inl: "catch_check m s = (Inl x, t) \<Longrightarrow> m s = (Inl x, t)"
  by (auto simp: catch_check_def split: prod.splits sum.splits sql_error.splits)

lemma forget_Inl: "forget m s = (Inl x, t) \<Longrightarrow> m s = (Inl x, t)"
  by (auto simp: forget_def seq_def ret_def split: prod.splits sum.splits)

lemma transaction_Inl_same: "transaction e m s = (Inl x, t) \<Longrightarrow> t = rollback_to s t"
  by (metis transaction_Inl rollback_to_idem)

text \<open>C27: An operation that fails, at whichever of its statements, leaves every table as it
  was: only the counters of the id sequences may have advanced.\<close>

theorem failed_operation_changes_nothing:
  assumes "server_step e op d = (Inl x, d')"
  shows "d' = d\<lparr>userSeq := max (userSeq d) (userSeq d'), dataSeq := max (dataSeq d) (dataSeq d')\<rparr>"
proof -
  have "d' = rollback_to d d'"
  proof (cases op)
    case (AddNewDeviceToUser dev p nm ss sk cs ck fp)
    with assms show ?thesis
      by (auto simp: add_new_device_to_user_def throw_def modify_def split: option.splits if_splits)
  next
    case (CleanupDevices days)
    with assms show ?thesis
      by (auto simp: cleanup_devices_def ret_def dest: transaction_Inl_same split: if_splits)
  qed (use assms in \<open>auto simp: load_crypto_def update_login_def list_devices_def change_count_def
         load_next_changes_def load_key_changes_def gets_def modify_def add_new_device_def update_cmac_def
         remove_device_def add_change_def add_device_change_def complete_change_def try_key_change_def
         update_exchange_key_def update_quota_limit_def
       dest!: forget_Inl catch_check_Inl dest: transaction_Inl_same split: if_splits\<close>)
  then show ?thesis by (simp add: rollback_to_def)
qed

section \<open>The answer to a change\<close>

lemma insert_device_changes_ok:
  assumes "distinct devs" "set devs \<subseteq> fst ` set (devices d)" "map_of (datachanges d) n \<noteq> None"
    "\<forall>x \<in> set devs. (x, n) \<notin> set (devicechanges d)"
  shows "\<exists>d2. insert_device_changes devs n d = (Inr (), d2)"
  using assms
proof (induction devs arbitrary: d)
  case Nil
  then show ?case by (simp add: ret_def)
next
  case (Cons x devs)
  let ?d = "d\<lparr>devicechanges := devicechanges d @ [(x, n)], notified := notified d @ [x]\<rparr>"
  have "map_of (devices d) x \<noteq> None"
    using Cons.prems(2) by (simp add: map_of_eq_None_iff)
  then have "insert_device_change x n d = (Inr (), ?d)"
    using Cons.prems(3,4) by (auto simp: insert_device_change_def)
  moreover have "\<exists>d2. insert_device_changes devs n ?d = (Inr (), d2)"
    using Cons.prems by (intro Cons.IH) auto
  ultimately show ?case by (auto simp: seq_Inr)
qed

text \<open>What the trigger leaves of the quota when the change replaces an earlier one.\<close>

definition quota_after_drop :: "sdb \<Rightarrow> uuid \<Rightarrow> bytes \<Rightarrow> nat \<Rightarrow> int" where
  "quota_after_drop d dev i uid =
     quota (the (map_of (users (delete_data (\<lambda>_ r. fromDevice r = dev \<and> dataId r = i) d)) uid))"

text \<open>When no statement fails, a change of a registered device is accepted exactly when its
  data, after what it replaces has been given back, stays below the quota limit; otherwise
  the client is told and nothing changes.\<close>

theorem add_change_answer:
  assumes "sdb_inv d" "\<forall>c. sqlOk e c" "device_user d dev = Some uid" "map_of (users d) uid = Some u" "fits_int (unat k)"
  shows "\<exists>d'. add_change e dev i k slt dat d =
      (Inr (quota_after_drop d dev i uid + int (length dat) < quotaLimit u), d') \<and>
    (\<not> quota_after_drop d dev i uid + int (length dat) < quotaLimit u \<longrightarrow> d' = d\<lparr>dataSeq := Suc (dataSeq d)\<rparr>)"
proof -
  let ?r = "\<lparr>fromDevice = dev, dataId = i, keyIdx = k, salt = slt, content = dat\<rparr>"
  let ?P = "\<lambda>(_::nat) r. fromDevice r = dev \<and> dataId r = i"
  let ?d0 = "delete_data ?P d"
  let ?n = "Suc (dataSeq d)"
  let ?q = "quota_after_drop d dev i uid + int (length dat)"
  have inv: "sdb_inv ?d0" by (rule delete_data_inv [OF assms(1)])
  have keys: "distinct_keys (users d)" "distinct_keys (users ?d0)"
    using assms(1) inv by (simp_all add: sdb_inv_def keys_ok_def)
  have "uid \<in> fst ` set (users d)"
    using map_of_SomeD [OF assms(4)] by force
  then have "map_of (users ?d0) uid \<noteq> None"
    unfolding map_of_eq_None_iff by simp
  then obtain u0 where u0: "map_of (users ?d0) uid = Some u0" by blast
  obtain v where "(uid, v) \<in> set (users d)" "quotaLimit u0 = quotaLimit v"
    using down_quota_users [of "remove_data ?P d" uid u0] map_of_SomeD [OF u0] keys(1)
    by (auto simp: delete_data_def)
  then have lim: "quotaLimit u0 = quotaLimit u"
    using keys(1) assms(4) by (auto simp: map_of_is_SomeI)
  have q: "quota_after_drop d dev i uid = quota u0"
    by (simp add: quota_after_drop_def u0)
  have fresh: "\<not> has_data ?d0 dev i"
    by (auto simp: has_data_def)
  have du: "device_user ?d0 dev = Some uid" using assms(3) by simp
  let ?d1 = "update_user (Some uid) (add_quota (int (length dat)))
      (?d0\<lparr>dataSeq := ?n, datachanges := datachanges ?d0 @ [(?n, ?r)]\<rparr>)"
  have ins: "insert_data ?r ?d0 = (if ?q < quotaLimit u then (Inr ?n, ?d1) else (Inl CheckViolation, ?d0\<lparr>dataSeq := ?n\<rparr>))"
    using du fresh assms(5) u0
    by (simp add: insert_data_def Let_def q lim update_user_def add_quota_def del: delete_data_fields(7,8))
  show ?thesis
  proof (cases "?q < quotaLimit u")
    case False
    with ins have "insert_data ?r ?d0 = (Inl CheckViolation, ?d0\<lparr>dataSeq := ?n\<rparr>)" by simp
    with False assms(2) show ?thesis
      by (simp add: add_change_def catch_check_def transaction_def on_throw_def act_simps rollback_to_def)
  next
    case True
    with ins have ins: "insert_data ?r ?d0 = (Inr ?n, ?d1)" by simp
    have new: "?n \<notin> fst ` set (datachanges ?d0)" "?n \<notin> snd ` set (devicechanges ?d0)"
      using fresh_data_id [OF inv] by simp_all
    have "distinct (map fst (devices d))"
      using assms(1) by (simp add: sdb_inv_def keys_ok_def)
    then have "distinct (other_devices ?d1 dev)"
      by (simp add: other_devices_def distinct_map_filter)
    moreover have "set (other_devices ?d1 dev) \<subseteq> fst ` set (devices ?d1)"
      by (auto simp: other_devices_def)
    moreover have "map_of (datachanges ?d1) ?n \<noteq> None"
      by (simp add: map_of_eq_None_iff)
    moreover have "\<forall>x \<in> set (other_devices ?d1 dev). (x, ?n) \<notin> set (devicechanges ?d1)"
      using new(2) by (auto simp: image_iff simp del: delete_data_fields(8))
    ultimately obtain d2 where d2: "insert_device_changes (other_devices ?d1 dev) ?n ?d1 = (Inr (), d2)"
      using insert_device_changes_ok by blast
    show ?thesis
      using add_change_calm [OF ins d2 assms(2)] True by auto
  qed
qed

section \<open>A new exchange key\<close>

lemma insert_keys_Inr:
  "insert_keys e uid k sch ks d = (Inr (), d2) \<Longrightarrow>
   d2 = d\<lparr>keychanges := keychanges d @
     map (\<lambda>(x, key, m). (x, \<lparr>kcIndex = k, kcScheme = sch, kcKey = key, kcMac = m\<rparr>)) ks\<rparr> \<and>
   (\<forall>(x, _) \<in> set ks. device_user d x = Some uid)"
proof (induction ks arbitrary: d)
  case Nil
  then show ?case by (simp add: ret_def)
next
  case (Cons y ks)
  obtain x key m where y: "y = (x, key, m)" by (cases y)
  let ?d = "d\<lparr>keychanges := keychanges d @ [(x, \<lparr>kcIndex = k, kcScheme = sch, kcKey = key, kcMac = m\<rparr>)]\<rparr>"
  have x: "device_user d x = Some uid" "insert_keys e uid k sch ks ?d = (Inr (), d2)"
    using Cons.prems by (auto simp: y split: if_splits)
  from Cons.IH [OF x(2)] x(1) show ?case by (auto simp: y)
qed

lemma update_exchange_key_True:
  assumes "update_exchange_key e dev k sch mac ks d = (Inr True, d')"
  obtains uid u d2 where "device_user d dev = Some uid" "map_of (users d) uid = Some u" "keycount u + 1 = unat k"
    "insert_keys e uid k sch ks (update_user (Some uid) (\<lambda>u. u\<lparr>keycount := keycount u + 1\<rparr>) d) = (Inr (), d2)"
    "d' = d2\<lparr>devices := update_rows (\<lambda>x _. x = dev) (\<lambda>r. r\<lparr>keyMac := Some mac\<rparr>) (devices d2)\<rparr>"
  using assms unfolding update_exchange_key_def transaction_Inr
  by (fastforce simp: act_Inr elim!: seq_InrE split: option.splits if_splits bind_splits)

text \<open>C17: A new exchange key is accepted only with the index after the present one, at most once
  per index for all devices of a user, and it reaches exactly the devices it was encrypted
  for, which must all belong to that user: each finds its copy as its pending key.\<close>

theorem key_change_once:
  assumes "sdb_inv d" "update_exchange_key e dev k sch mac ks d = (Inr True, d')"
  shows "\<exists>uid. device_user d dev = Some uid \<and>
    map_option keycount (map_of (users d') uid) = Some (unat k) \<and>
    map_option keycount (map_of (users d) uid) = Some (unat k - 1) \<and>
    (\<forall>x. map_of (keychanges d') x = (case map_of ks x of
        Some (key, m) \<Rightarrow> Some \<lparr>kcIndex = k, kcScheme = sch, kcKey = key, kcMac = m\<rparr>
      | None \<Rightarrow> map_of (keychanges d) x)) \<and>
    (\<forall>x \<in> fst ` set ks. device_user d x = Some uid) \<and>
    (\<forall>e' dev' sch' mac' ks'. device_user d dev' = Some uid \<longrightarrow>
       fst (update_exchange_key e' dev' k sch' mac' ks' d') \<noteq> Inr True)"
proof -
  obtain uid u d2 where a: "device_user d dev = Some uid" "map_of (users d) uid = Some u" "keycount u + 1 = unat k"
    "insert_keys e uid k sch ks (update_user (Some uid) (\<lambda>u. u\<lparr>keycount := keycount u + 1\<rparr>) d) = (Inr (), d2)"
    "d' = d2\<lparr>devices := update_rows (\<lambda>x _. x = dev) (\<lambda>r. r\<lparr>keyMac := Some mac\<rparr>) (devices d2)\<rparr>"
    by (rule update_exchange_key_True [OF assms(2)])
  let ?row = "\<lambda>(key, m). \<lparr>kcIndex = k, kcScheme = sch, kcKey = key, kcMac = m\<rparr>"
  from insert_keys_Inr [OF a(4)] have d2: "users d2 = users (update_user (Some uid) (\<lambda>u. u\<lparr>keycount := keycount u + 1\<rparr>) d)"
    "devices d2 = devices d" "keychanges d2 = keychanges d @ map (\<lambda>(x, y). (x, ?row y)) ks"
    "\<forall>(x, _) \<in> set ks. device_user d x = Some uid"
    by (simp_all add: case_prod_unfold)
  have users: "map_of (users d') uid = Some (u\<lparr>keycount := unat k\<rparr>)"
    using a(2,3,5) by (simp add: d2(1) update_user_def)
  have dev': "device_user d' x = device_user d x" for x
    by (simp add: a(5) device_user_def d2(2) option.map_comp comp_def if_distrib cong: if_cong)
  have "sdb_inv d'"
    using keepsD [OF keeps_update_exchange_key assms(1), of e dev k sch mac ks] assms(2) by simp
  then have "distinct_keys (keychanges d')" by (simp add: sdb_inv_def keys_ok_def)
  then have disj: "fst ` set (keychanges d) \<inter> fst ` set ks = {}"
    by (auto simp: a(5) d2(3) case_prod_unfold comp_def image_image)
  have row: "map_of (map (\<lambda>(x, y). (x, ?row y)) ks) x = map_option ?row (map_of ks x)" for x
    by (simp only: map_of_map comp_apply)
  have "map_of (keychanges d') x = (case map_of ks x of
        Some (key, m) \<Rightarrow> Some \<lparr>kcIndex = k, kcScheme = sch, kcKey = key, kcMac = m\<rparr>
      | None \<Rightarrow> map_of (keychanges d) x)" for x
  proof (cases "map_of ks x")
    case None
    then show ?thesis using row [of x] by (simp add: a(5) d2(3) map_add_def split: option.split)
  next
    case (Some y)
    then have "x \<notin> fst ` set (keychanges d)"
      using disj map_of_SomeD [OF Some] by force
    then have "map_of (keychanges d) x = None" by (simp add: map_of_eq_None_iff)
    with Some show ?thesis using row [of x] by (simp add: a(5) d2(3) map_add_def split: prod.split)
  qed
  moreover have "fst (update_exchange_key e' dev2 k sch' mac' ks' d') \<noteq> Inr True"
    if "device_user d dev2 = Some uid" for e' dev2 sch' mac' ks'
  proof
    assume "fst (update_exchange_key e' dev2 k sch' mac' ks' d') = Inr True"
    then obtain d3 where "update_exchange_key e' dev2 k sch' mac' ks' d' = (Inr True, d3)"
      by (metis fst_conv surj_pair)
    then show False
      by (rule update_exchange_key_True) (use that dev' users in auto)
  qed
  ultimately show ?thesis
    using a(1-3) users d2(4) by (intro exI [of _ uid]) (auto simp flip: a(3))
qed

section \<open>Removing a device\<close>

lemma used_device:
  assumes "distinct_keys (devices d)"
  shows "(\<exists>(_, r) \<in> set (devices d). userId r = uid) \<longleftrightarrow> (\<exists>k. device_user d k = Some uid)"
proof
  assume "\<exists>(_, r) \<in> set (devices d). userId r = uid"
  then obtain k r where "(k, r) \<in> set (devices d)" "userId r = uid" by auto
  then have "device_user d k = Some uid"
    using assms by (simp add: device_user_def map_of_is_SomeI)
  then show "\<exists>k. device_user d k = Some uid" by blast
next
  assume "\<exists>k. device_user d k = Some uid"
  then obtain k r where "map_of (devices d) k = Some r" "userId r = uid"
    by (auto simp: device_user_def)
  then show "\<exists>(_, r) \<in> set (devices d). userId r = uid"
    using map_of_SomeD by fastforce
qed

text \<open>Removing a device removes that device if it belongs to the user of the device that asks
  and nothing otherwise; the user goes with the last device; the remaining devices keep
  everything queued for them that does not come from the removed device.\<close>

theorem remove_device_correct:
  assumes "sdb_inv d" "remove_device e dev del d = (Inr (), d')" "device_user d dev = Some uid"
  shows "(\<forall>k. map_of (devices d') k = (if k = del \<and> device_user d del = Some uid then None else map_of (devices d) k)) \<and>
    (\<forall>i. i \<in> fst ` set (users d') \<longleftrightarrow> i \<in> fst ` set (users d) \<and> (i = uid \<longrightarrow> (\<exists>k. device_user d' k = Some uid))) \<and>
    (\<forall>x. map_of (devices d') x \<noteq> None \<longrightarrow>
      queue_for d' x = filter (\<lambda>(_, r). \<not> (fromDevice r = del \<and> device_user d del = Some uid)) (queue_for d x))"
proof -
  let ?P = "\<lambda>k r. k = del \<and> userId r = uid"
  let ?d1 = "delete_devices ?P d"
  let ?used = "\<exists>(_, r) \<in> set (devices ?d1). userId r = uid"
  have del: "delete_users (\<lambda>i _. i = uid \<and> \<not> ?used) ?d1 = (Inr (), d')"
    using assms(2,3) unfolding remove_device_def transaction_Inr
    by (auto simp: act_Inr elim!: seq_InrE split: if_splits)
  then have d': "d' = ?d1\<lparr>users := delete_rows (\<lambda>i _. i = uid \<and> \<not> ?used) (users ?d1)\<rparr>"
    by (simp add: delete_users_def split: if_splits)
  have keys: "distinct_keys (devices d)" using assms(1) by (simp add: sdb_inv_def keys_ok_def)
  have devs: "devices d' = delete_rows ?P (devices d)"
    by (simp add: d' delete_devices_def Let_def)
  have m: "map_of (devices d') k = (if k = del \<and> device_user d del = Some uid then None else map_of (devices d) k)" for k
    using keys by (auto simp: devs device_user_def split: option.split)
  have keys': "distinct_keys (devices d')" using keys by (simp add: devs)
  have used: "?used \<longleftrightarrow> (\<exists>k. device_user d' k = Some uid)"
    using used_device [OF keys', of uid] by (simp add: d')
  have fst1: "fst ` set (users ?d1) = fst ` set (users d)"
    by (simp add: delete_devices_def Let_def)
  have u: "i \<in> fst ` set (users d') \<longleftrightarrow> i \<in> fst ` set (users d) \<and> (i = uid \<longrightarrow> (\<exists>k. device_user d' k = Some uid))" for i
    unfolding used [symmetric] fst1 [symmetric] by (force simp: d')
  let ?d0 = "d\<lparr>devices := delete_rows ?P (devices d)\<rparr>"
  let ?gone = "\<lambda>x. map_of (devices ?d0) x = None"
  have gone: "?gone x \<longleftrightarrow> map_of (devices d') x = None" for x
    by (simp add: devs)
  have q: "queue_for d' x = filter (\<lambda>(_, r). \<not> (fromDevice r = del \<and> device_user d del = Some uid)) (queue_for d x)"
    if x: "map_of (devices d') x \<noteq> None" for x
  proof -
    have "queue_for d' x = queue_for (delete_data (\<lambda>_ r. ?gone (fromDevice r)) ?d0) x"
      using x unfolding queue_for_def d' gone by (intro filter_cong) (auto simp: delete_devices_def Let_def devs)
    also have "\<dots> = filter (\<lambda>(_, r). \<not> ?gone (fromDevice r)) (queue_for d x)"
      unfolding queue_for_delete by (simp add: queue_for_def)
    also have "\<dots> = filter (\<lambda>(_, r). \<not> (fromDevice r = del \<and> device_user d del = Some uid)) (queue_for d x)"
    proof (rule filter_cong [OF refl])
      fix y assume "y \<in> set (queue_for d x)"
      then obtain n r where y: "y = (n, r)" "(n, r) \<in> set (datachanges d)" by (auto simp: queue_for_def)
      have "fromDevice r \<in> fst ` set (devices d)"
        using assms(1) y(2) refs_data by (simp add: sdb_inv_def)
      then have "map_of (devices d) (fromDevice r) \<noteq> None"
        by (simp add: map_of_eq_None_iff)
      then show "(case y of (_, r) \<Rightarrow> \<not> ?gone (fromDevice r)) =
          (case y of (_, r) \<Rightarrow> \<not> (fromDevice r = del \<and> device_user d del = Some uid))"
        unfolding gone y using m [of "fromDevice r"] by auto
    qed
    finally show ?thesis .
  qed
  show ?thesis using m u q by blast
qed

section \<open>A concrete server\<close>

definition demo_senv :: senv where
  "demo_senv = \<lparr>sqlOk = (\<lambda>_. True), today = 100, freshUuid = 7\<rparr>"

definition demo_device :: "string \<Rightarrow> bytes option \<Rightarrow> device_row" where
  "demo_device nm mac = \<lparr>userId = 1, deviceName = nm, signScheme = ''s'', signKey = ''sk'', cryptScheme = ''c'',
     cryptKey = ''ck'', fingerprint = ''f'', keyMac = mac, lastLogin = 100\<rparr>"

text \<open>A user with two devices.\<close>

definition demo_sdb :: sdb where
  "demo_sdb = \<lparr>users = [(1, \<lparr>keycount = 0, quota = 0, quotaLimit = 10\<rparr>)],
     devices = [(7, demo_device ''pc'' (Some ''m'')), (8, demo_device ''phone'' None)],
     datachanges = [], devicechanges = [], keychanges = [], userSeq = 1, dataSeq = 0, notified = []\<rparr>"

definition demo_change :: data_row where
  "demo_change = \<lparr>fromDevice = 7, dataId = ''i'', keyIdx = 0, salt = ''salt'', content = ''12345''\<rparr>"

text \<open>The first device has sent a change.\<close>

definition demo_sent :: sdb where
  "demo_sent = demo_sdb\<lparr>users := [(1, \<lparr>keycount = 0, quota = 5, quotaLimit = 10\<rparr>)],
     datachanges := [(1, demo_change)], devicechanges := [(8, 1)], dataSeq := 1, notified := [8]\<rparr>"

definition demo_ops :: "(senv \<times> server_op) list" where
  "demo_ops = [(demo_senv, AddNewDevice ''pc'' ''s'' ''sk'' ''c'' ''ck'' ''f'' ''m'' 10),
     (demo_senv, AddNewDeviceToUser 8 7 ''phone'' ''s'' ''sk'' ''c'' ''ck'' ''f'')]"

lemma demo_first:
  "add_new_device demo_senv ''pc'' ''s'' ''sk'' ''c'' ''ck'' ''f'' ''m'' 10 empty_sdb =
   (Inr 7, demo_sdb\<lparr>devices := [(7, demo_device ''pc'' (Some ''m''))]\<rparr>)"
  by (simp add: add_new_device_def transaction_Inr act_simps demo_senv_def empty_sdb_def demo_sdb_def demo_device_def
    cong: seq_weak_cong)

lemma demo_second:
  "add_new_device_to_user demo_senv 8 7 ''phone'' ''s'' ''sk'' ''c'' ''ck'' ''f''
     (demo_sdb\<lparr>devices := [(7, demo_device ''pc'' (Some ''m''))]\<rparr>) = (Inr (), demo_sdb)"
  by (simp add: add_new_device_to_user_def act_simps demo_senv_def demo_sdb_def demo_device_def device_user_def
    cong: seq_weak_cong)

lemma demo_registered: "server_run demo_ops empty_sdb = demo_sdb"
  by (simp add: server_run_def demo_ops_def forget_def seq_def demo_first ret_def demo_second)

lemma demo_sdb_inv: "sdb_inv demo_sdb"
  unfolding demo_registered [symmetric] by (rule server_run_inv [OF empty_sdb_inv])

lemmas demo_table_simps = demo_senv_def demo_sdb_def demo_sent_def demo_change_def demo_device_def
  insert_data_def has_data_def device_user_def fits_int_def update_user_def update_rows_def add_quota_def
  insert_device_change_def delete_data_def remove_data_def delete_devices_def delete_users_def delete_rows_def
  other_devices_def queue_for_def rollback_to_def act_simps Let_def

lemma demo_insert:
  "insert_data demo_change (delete_data (\<lambda>_ r. fromDevice r = 7 \<and> dataId r = ''i'') demo_sdb) =
   (Inr 1, demo_sent\<lparr>devicechanges := [], notified := []\<rparr>)"
  by (simp add: demo_table_simps)

lemma demo_forward:
  "insert_device_changes (other_devices (demo_sent\<lparr>devicechanges := [], notified := []\<rparr>) 7) 1
     (demo_sent\<lparr>devicechanges := [], notified := []\<rparr>) = (Inr (), demo_sent)"
  by (simp add: demo_table_simps)

lemma demo_others: "other_devices (demo_sent\<lparr>devicechanges := [], notified := []\<rparr>) 7 = [8]"
  by (simp add: demo_table_simps)

lemma demo_add: "add_change demo_senv 7 ''i'' 0 ''salt'' ''12345'' demo_sdb = (Inr True, demo_sent)"
  using add_change_calm [OF demo_insert [unfolded demo_change_def] demo_forward, of demo_senv] demo_others
  by (simp add: demo_senv_def)

lemma demo_sent_inv: "sdb_inv demo_sent"
  using keepsD [OF keeps_add_change demo_sdb_inv, of demo_senv 7 "''i''" 0 "''salt''" "''12345''"] by (simp add: demo_add)

lemma demo_sent_run:
  "server_run (demo_ops @ [(demo_senv, AddChange 7 ''i'' 0 ''salt'' ''12345'')]) empty_sdb = demo_sent"
proof -
  have "server_run (demo_ops @ [x]) empty_sdb = snd (server_step (fst x) (snd x) demo_sdb)" for x
    unfolding demo_registered [symmetric] by (simp add: server_run_def case_prod_unfold)
  then show ?thesis by (simp add: forget_def act_simps demo_add)
qed

section \<open>The properties on it\<close>

lemma demo_sent_user: "map_of (users demo_sent) 1 = Some \<lparr>keycount = 0, quota = 5, quotaLimit = 10\<rparr>"
  by (simp add: demo_sent_def)

theorem stored_below_quota_witness:
  "(\<Sum>(_, r) \<leftarrow> datachanges demo_sent.
      if device_user demo_sent (fromDevice r) = Some 1 then int (length (content r)) else 0) \<le> (5::int)"
  using stored_below_quota [of "demo_ops @ [(demo_senv, AddChange 7 ''i'' 0 ''salt'' ''12345'')]" 1] demo_sent_user
  unfolding demo_sent_run by simp

theorem add_change_delivery_witness:
  "\<exists>n > 0. queue_for demo_sent 8 = queue_for demo_sdb 8 @ [(n, demo_change)]"
  using add_change_delivery [OF demo_sdb_inv demo_add]
  by (auto simp: demo_table_simps)

lemma demo_complete:
  "complete_change demo_senv 8 1 demo_sent = (Inr (), delete_data (\<lambda>i _. i = 1) (demo_sent\<lparr>devicechanges := []\<rparr>))"
  by (simp add: complete_change_def transaction_Inr act_simps demo_senv_def demo_sent_def cong: seq_weak_cong)

theorem complete_change_correct_witness:
  "queue_for (snd (complete_change demo_senv 8 1 demo_sent)) 8 = []"
  using complete_change_correct [OF demo_sent_inv demo_complete]
  unfolding demo_complete by (auto simp: queue_for_def demo_sent_def)

lemma demo_fail: "server_step (demo_senv\<lparr>sqlOk := \<lambda>n. n \<noteq> 1\<rparr>) (CompleteChange 8 1) demo_sent = (Inl SqlError, demo_sent)"
  by (simp add: complete_change_def transaction_def on_throw_def act_simps demo_senv_def demo_sent_def demo_sdb_def
    rollback_to_def delete_data_def remove_data_def Let_def delete_rows_def cong: seq_weak_cong)

theorem failed_operation_changes_nothing_witness:
  "\<exists>d'. server_step (demo_senv\<lparr>sqlOk := \<lambda>n. n \<noteq> 1\<rparr>) (CompleteChange 8 1) demo_sent = (Inl SqlError, d') \<and>
     datachanges d' = datachanges demo_sent"
  using failed_operation_changes_nothing [OF demo_fail] demo_fail by blast

theorem add_change_answer_witness:
  "\<exists>d'. add_change demo_senv 7 ''j'' 0 ''salt'' ''12345'' demo_sent = (Inr False, d') \<and> d' = demo_sent\<lparr>dataSeq := 2\<rparr>"
proof -
  have "device_user demo_sent 7 = Some 1"
    by (simp add: device_user_def demo_sent_def demo_sdb_def demo_device_def)
  moreover have "quota_after_drop demo_sent 7 ''j'' 1 = 5"
    by (simp add: quota_after_drop_def delete_data_def remove_data_def demo_sent_def demo_sdb_def demo_change_def Let_def)
  ultimately show ?thesis
    using add_change_answer [OF demo_sent_inv _ _ demo_sent_user, of demo_senv 7 0 "''j''" "''salt''" "''12345''"]
    by (auto simp: demo_senv_def fits_int_def demo_sent_def)
qed

lemma demo_new_key:
  "\<exists>d'. update_exchange_key demo_senv 7 1 ''c'' ''m1'' [(8, ''key'', ''m2'')] demo_sdb = (Inr True, d')"
  by (simp add: update_exchange_key_def transaction_Inr act_simps demo_senv_def demo_sdb_def demo_device_def
    device_user_def fits_int_def update_user_def update_rows_def cong: seq_weak_cong)

theorem key_change_once_witness:
  "\<exists>d'. update_exchange_key demo_senv 7 1 ''c'' ''m1'' [(8, ''key'', ''m2'')] demo_sdb = (Inr True, d') \<and>
    map_of (keychanges d') 8 = Some \<lparr>kcIndex = 1, kcScheme = ''c'', kcKey = ''key'', kcMac = ''m2''\<rparr> \<and>
    fst (update_exchange_key demo_senv 8 1 ''c'' ''m3'' [(7, ''key'', ''m4'')] d') \<noteq> Inr True"
proof -
  obtain d' where d': "update_exchange_key demo_senv 7 1 ''c'' ''m1'' [(8, ''key'', ''m2'')] demo_sdb = (Inr True, d')"
    using demo_new_key by blast
  have "device_user demo_sdb 7 = Some 1" "device_user demo_sdb 8 = Some 1"
    by (simp_all add: device_user_def demo_sdb_def demo_device_def)
  with key_change_once [OF demo_sdb_inv d'] d' show ?thesis by auto
qed

lemma demo_remove: "\<exists>d'. remove_device demo_senv 8 7 demo_sent = (Inr (), d')"
  by (simp add: remove_device_def transaction_Inr act_simps demo_senv_def demo_sent_def demo_sdb_def demo_device_def
    demo_change_def device_user_def delete_devices_def delete_users_def delete_rows_def Let_def cong: seq_weak_cong)

theorem remove_device_correct_witness:
  "\<exists>d'. remove_device demo_senv 8 7 demo_sent = (Inr (), d') \<and> map_of (devices d') 7 = None \<and>
     map_of (devices d') 8 \<noteq> None \<and> queue_for d' 8 = []"
proof -
  obtain d' where d': "remove_device demo_senv 8 7 demo_sent = (Inr (), d')"
    using demo_remove by blast
  have u: "device_user demo_sent 8 = Some 1" "device_user demo_sent 7 = Some 1" "map_of (devices demo_sent) 8 \<noteq> None"
    "queue_for demo_sent 8 = [(1, demo_change)]"
    by (simp_all add: device_user_def demo_sent_def demo_sdb_def demo_device_def queue_for_def)
  from remove_device_correct [OF demo_sent_inv d' u(1)] d' u show ?thesis
    by (auto simp: demo_change_def)
qed

section \<open>What the tables do not give\<close>

text \<open>
  Removing the device that sent a change drops the change, but the bytes stay counted for the
  user: \<open>downquota\<close> looks up the user through the device row, which is gone by then.
\<close>

lemma removed_device_keeps_quota:
  "\<exists>d'. remove_device demo_senv 8 7 demo_sent = (Inr (), d') \<and> datachanges d' = [] \<and>
     map_option quota (map_of (users d') 1) = Some 5"
  by (simp add: remove_device_def transaction_Inr act_simps demo_senv_def demo_sent_def demo_sdb_def demo_device_def
    demo_change_def device_user_def delete_devices_def delete_data_def remove_data_def update_user_def update_rows_def
    delete_users_def delete_rows_def Let_def cong: seq_weak_cong)

text \<open>A device change may be queued for a device of another user: only the device is checked.\<close>

definition demo_foreign :: sdb where
  "demo_foreign = demo_sdb\<lparr>users := [(1, \<lparr>keycount = 0, quota = 0, quotaLimit = 10\<rparr>), (2, \<lparr>keycount = 0, quota = 0, quotaLimit = 10\<rparr>)],
     devices := [(7, demo_device ''pc'' (Some ''m'')), (9, (demo_device ''other'' None)\<lparr>userId := 2\<rparr>)], userSeq := 2\<rparr>"

lemma device_change_to_foreign_user:
  "\<exists>d'. add_device_change demo_senv 7 9 ''i'' 0 ''salt'' ''12345'' demo_foreign = (Inr True, d') \<and>
     queue_for d' 9 \<noteq> [] \<and> device_user d' 9 \<noteq> device_user d' 7"
  by (simp add: add_device_change_def catch_check_True transaction_Inr act_simps demo_senv_def demo_foreign_def demo_sdb_def
    demo_device_def insert_data_def has_data_def device_user_def fits_int_def update_user_def update_rows_def
    add_quota_def insert_device_change_def queue_for_def Let_def cong: seq_weak_cong)

end
