(* ===== verification/Messages.thy ===== *)
theory Messages
  imports DataStream
begin

text \<open>
  The messages of the protocol (\<open>src/messages\<close>) and how \<open>message.cpp\<close> puts them on the
  wire: every message is a gadget whose properties are streamed in the order of its meta
  object (those of the base class first), after its name. What Qt does is a parameter: the
  primitives of \<open>QDataStream\<close>, the stream form of \<open>QString\<close> and the check that a byte array
  survives \<open>fromUtf8\<close> and \<open>toUtf8\<close>. A \<open>QByteArray\<close> property is its content: a null array
  reads as the empty one, except for the trust mac, of which the code asks whether it is null.
\<close>

section \<open>The messages\<close>

type_synonym version_number = "32 word list"
type_synonym device_info = "uuid \<times> string \<times> bytes"
type_synonym device_key = "uuid \<times> bytes \<times> bytes \<times> bytes"
type_synonym key_update = "uuid \<times> bytes \<times> bytes"

datatype error_type = UnknownError | IncompatibleVersionError | UnexpectedMessageError | ServerError | ClientError
  | AuthenticationError | AccessError | KeyIndexError | KeyPendingError | QuotaHitError

datatype message =
    IdentifyMessage version_number bytes u32
  | RegisterMessage version_number bytes bytes bytes bytes bytes string bytes
  | LoginMessage version_number bytes uuid string
  | AccessMessage version_number bytes bytes bytes bytes bytes string bytes uuid bytes bytes "bytes option"
  | AccountMessage uuid
  | WelcomeMessage bool u32 bytes bytes bytes
  | GrantMessage uuid u32 bytes bytes
  | SyncMessage
  | ChangeMessage bytes u32 bytes bytes
  | ChangeAckMessage bytes
  | DeviceChangeMessage bytes u32 bytes bytes uuid
  | DeviceChangeAckMessage bytes uuid
  | ChangedMessage u64 u32 bytes bytes
  | ChangedInfoMessage u64 u32 bytes bytes u32
  | LastChangedMessage
  | ChangedAckMessage u64
  | ListDevicesMessage
  | DevicesMessage "device_info list"
  | RemoveMessage uuid
  | RemoveAckMessage uuid
  | ProofMessage bytes uuid string bytes bytes bytes bytes bytes bytes "bytes option"
  | DenyMessage uuid
  | AcceptMessage uuid u32 bytes bytes
  | AcceptAckMessage uuid
  | MacUpdateMessage u32 bytes
  | MacUpdateAckMessage
  | KeyChangeMessage u32
  | DeviceKeysMessage u32 bool "device_key list"
  | NewKeyMessage u32 bytes bytes "key_update list"
  | NewKeyAckMessage u32
  | ErrorMessage error_type string bool

text \<open>The class of a message, which is what its name tells.\<close>

datatype mkind = KIdentify | KRegister | KLogin | KAccess | KAccount | KWelcome | KGrant | KSync | KChange
  | KChangeAck | KDeviceChange | KDeviceChangeAck | KChanged | KChangedInfo | KLastChanged | KChangedAck
  | KListDevices | KDevices | KRemove | KRemoveAck | KProof | KDeny | KAccept | KAcceptAck | KMacUpdate
  | KMacUpdateAck | KKeyChange | KDeviceKeys | KNewKey | KNewKeyAck | KError

text \<open>\<open>msgNameImpl\<close>: the class name without \<open>QtDataSync::\<close> and \<open>Message\<close>.\<close>

fun message_name :: "mkind \<Rightarrow> bytes" where
  "message_name KIdentify = ''Identify''"
| "message_name KRegister = ''Register''"
| "message_name KLogin = ''Login''"
| "message_name KAccess = ''Access''"
| "message_name KAccount = ''Account''"
| "message_name KWelcome = ''Welcome''"
| "message_name KGrant = ''Grant''"
| "message_name KSync = ''Sync''"
| "message_name KChange = ''Change''"
| "message_name KChangeAck = ''ChangeAck''"
| "message_name KDeviceChange = ''DeviceChange''"
| "message_name KDeviceChangeAck = ''DeviceChangeAck''"
| "message_name KChanged = ''Changed''"
| "message_name KChangedInfo = ''ChangedInfo''"
| "message_name KLastChanged = ''LastChanged''"
| "message_name KChangedAck = ''ChangedAck''"
| "message_name KListDevices = ''ListDevices''"
| "message_name KDevices = ''Devices''"
| "message_name KRemove = ''Remove''"
| "message_name KRemoveAck = ''RemoveAck''"
| "message_name KProof = ''Proof''"
| "message_name KDeny = ''Deny''"
| "message_name KAccept = ''Accept''"
| "message_name KAcceptAck = ''AcceptAck''"
| "message_name KMacUpdate = ''MacUpdate''"
| "message_name KMacUpdateAck = ''MacUpdateAck''"
| "message_name KKeyChange = ''KeyChange''"
| "message_name KDeviceKeys = ''DeviceKeys''"
| "message_name KNewKey = ''NewKey''"
| "message_name KNewKeyAck = ''NewKeyAck''"
| "message_name KError = ''Error''"

section \<open>Properties\<close>

datatype ptype = TU32 | TU64 | TBool | TUuid | TBytes | TNullable | TUtf8 | TString | TVersion | TDevices | TDeviceKeys | TKeyUpdates

datatype pval = VU32 u32 | VU64 u64 | VBool bool | VUuid uuid | VBytes bytes | VNullable "bytes option" | VUtf8 string | VString string
  | VVersion version_number | VDevices "device_info list" | VDeviceKeys "device_key list" | VKeyUpdates "key_update list"

text \<open>The properties each class declares, behind those of its base class.\<close>

definition init_types :: "ptype list" where
  "init_types = [TVersion, TBytes]"

definition identify_types :: "ptype list" where
  "identify_types = init_types @ [TU32]"

definition register_base_types :: "ptype list" where
  "register_base_types = init_types @ [TBytes, TBytes, TBytes, TBytes, TUtf8]"

definition register_types :: "ptype list" where
  "register_types = register_base_types @ [TBytes]"

definition login_types :: "ptype list" where
  "login_types = init_types @ [TUuid, TUtf8]"

definition access_types :: "ptype list" where
  "access_types = register_base_types @ [TBytes, TUuid, TBytes, TBytes, TNullable]"

definition account_types :: "ptype list" where
  "account_types = [TUuid]"

definition welcome_types :: "ptype list" where
  "welcome_types = [TBool, TU32, TBytes, TBytes, TBytes]"

definition grant_types :: "ptype list" where
  "grant_types = account_types @ [TU32, TBytes, TBytes]"

definition change_types :: "ptype list" where
  "change_types = [TBytes, TU32, TBytes, TBytes]"

definition change_ack_types :: "ptype list" where
  "change_ack_types = [TBytes]"

definition device_change_types :: "ptype list" where
  "device_change_types = change_types @ [TUuid]"

definition device_change_ack_types :: "ptype list" where
  "device_change_ack_types = change_ack_types @ [TUuid]"

definition changed_types :: "ptype list" where
  "changed_types = [TU64, TU32, TBytes, TBytes]"

definition changed_info_types :: "ptype list" where
  "changed_info_types = changed_types @ [TU32]"

definition changed_ack_types :: "ptype list" where
  "changed_ack_types = [TU64]"

definition devices_types :: "ptype list" where
  "devices_types = [TDevices]"

definition remove_types :: "ptype list" where
  "remove_types = [TUuid]"

definition remove_ack_types :: "ptype list" where
  "remove_ack_types = [TUuid]"

definition proof_types :: "ptype list" where
  "proof_types = [TBytes, TUuid, TString, TBytes, TBytes, TBytes, TBytes, TBytes, TBytes, TNullable]"

definition deny_types :: "ptype list" where
  "deny_types = [TUuid]"

definition accept_types :: "ptype list" where
  "accept_types = [TUuid, TU32, TBytes, TBytes]"

definition accept_ack_types :: "ptype list" where
  "accept_ack_types = [TUuid]"

definition mac_update_types :: "ptype list" where
  "mac_update_types = [TU32, TBytes]"

definition mac_update_ack_types :: "ptype list" where
  "mac_update_ack_types = []"

definition key_change_types :: "ptype list" where
  "key_change_types = [TU32]"

definition device_keys_types :: "ptype list" where
  "device_keys_types = [TU32, TBool, TDeviceKeys]"

definition new_key_types :: "ptype list" where
  "new_key_types = mac_update_types @ [TBytes, TKeyUpdates]"

definition new_key_ack_types :: "ptype list" where
  "new_key_ack_types = mac_update_ack_types @ [TU32]"

definition error_types :: "ptype list" where
  "error_types = [TU32, TUtf8, TBool]"

lemmas type_defs = init_types_def identify_types_def register_base_types_def register_types_def login_types_def access_types_def account_types_def welcome_types_def grant_types_def change_types_def change_ack_types_def device_change_types_def device_change_ack_types_def changed_types_def changed_info_types_def changed_ack_types_def devices_types_def remove_types_def remove_ack_types_def proof_types_def deny_types_def accept_types_def accept_ack_types_def mac_update_types_def mac_update_ack_types_def key_change_types_def device_keys_types_def new_key_types_def new_key_ack_types_def error_types_def

fun property_types :: "mkind \<Rightarrow> ptype list" where
  "property_types KIdentify = identify_types"
| "property_types KRegister = register_types"
| "property_types KLogin = login_types"
| "property_types KAccess = access_types"
| "property_types KAccount = account_types"
| "property_types KWelcome = welcome_types"
| "property_types KGrant = grant_types"
| "property_types KSync = []"
| "property_types KChange = change_types"
| "property_types KChangeAck = change_ack_types"
| "property_types KDeviceChange = device_change_types"
| "property_types KDeviceChangeAck = device_change_ack_types"
| "property_types KChanged = changed_types"
| "property_types KChangedInfo = changed_info_types"
| "property_types KLastChanged = []"
| "property_types KChangedAck = changed_ack_types"
| "property_types KListDevices = []"
| "property_types KDevices = devices_types"
| "property_types KRemove = remove_types"
| "property_types KRemoveAck = remove_ack_types"
| "property_types KProof = proof_types"
| "property_types KDeny = deny_types"
| "property_types KAccept = accept_types"
| "property_types KAcceptAck = accept_ack_types"
| "property_types KMacUpdate = mac_update_types"
| "property_types KMacUpdateAck = mac_update_ack_types"
| "property_types KKeyChange = key_change_types"
| "property_types KDeviceKeys = device_keys_types"
| "property_types KNewKey = new_key_types"
| "property_types KNewKeyAck = new_key_ack_types"
| "property_types KError = error_types"

text \<open>An enumeration is streamed as an \<open>int\<close>.\<close>

fun error_code :: "error_type \<Rightarrow> u32" where
  "error_code UnknownError = 0"
| "error_code IncompatibleVersionError = 1"
| "error_code UnexpectedMessageError = 2"
| "error_code ServerError = 3"
| "error_code ClientError = 4"
| "error_code AuthenticationError = 5"
| "error_code AccessError = 6"
| "error_code KeyIndexError = 7"
| "error_code KeyPendingError = 8"
| "error_code QuotaHitError = 9"

text \<open>\<open>ErrorMessage::validate\<close> turns an unknown code into \<open>UnknownError\<close>.\<close>

definition error_of_code :: "u32 \<Rightarrow> error_type" where
  "error_of_code c = (if c = 1 then IncompatibleVersionError else if c = 2 then UnexpectedMessageError
     else if c = 3 then ServerError else if c = 4 then ClientError else if c = 5 then AuthenticationError
     else if c = 6 then AccessError else if c = 7 then KeyIndexError else if c = 8 then KeyPendingError
     else if c = 9 then QuotaHitError else UnknownError)"

lemma error_code_back [simp]: "error_of_code (error_code t) = t"
  by (cases t) (simp_all add: error_of_code_def)

text \<open>\<open>readOnGadget\<close> for every property.\<close>

fun kind_of :: "message \<Rightarrow> mkind" where
  "kind_of (IdentifyMessage _ _ _) = KIdentify"
| "kind_of (RegisterMessage _ _ _ _ _ _ _ _) = KRegister"
| "kind_of (LoginMessage _ _ _ _) = KLogin"
| "kind_of (AccessMessage _ _ _ _ _ _ _ _ _ _ _ _) = KAccess"
| "kind_of (AccountMessage _) = KAccount"
| "kind_of (WelcomeMessage _ _ _ _ _) = KWelcome"
| "kind_of (GrantMessage _ _ _ _) = KGrant"
| "kind_of SyncMessage = KSync"
| "kind_of (ChangeMessage _ _ _ _) = KChange"
| "kind_of (ChangeAckMessage _) = KChangeAck"
| "kind_of (DeviceChangeMessage _ _ _ _ _) = KDeviceChange"
| "kind_of (DeviceChangeAckMessage _ _) = KDeviceChangeAck"
| "kind_of (ChangedMessage _ _ _ _) = KChanged"
| "kind_of (ChangedInfoMessage _ _ _ _ _) = KChangedInfo"
| "kind_of LastChangedMessage = KLastChanged"
| "kind_of (ChangedAckMessage _) = KChangedAck"
| "kind_of ListDevicesMessage = KListDevices"
| "kind_of (DevicesMessage _) = KDevices"
| "kind_of (RemoveMessage _) = KRemove"
| "kind_of (RemoveAckMessage _) = KRemoveAck"
| "kind_of (ProofMessage _ _ _ _ _ _ _ _ _ _) = KProof"
| "kind_of (DenyMessage _) = KDeny"
| "kind_of (AcceptMessage _ _ _ _) = KAccept"
| "kind_of (AcceptAckMessage _) = KAcceptAck"
| "kind_of (MacUpdateMessage _ _) = KMacUpdate"
| "kind_of MacUpdateAckMessage = KMacUpdateAck"
| "kind_of (KeyChangeMessage _) = KKeyChange"
| "kind_of (DeviceKeysMessage _ _ _) = KDeviceKeys"
| "kind_of (NewKeyMessage _ _ _ _) = KNewKey"
| "kind_of (NewKeyAckMessage _) = KNewKeyAck"
| "kind_of (ErrorMessage _ _ _) = KError"

fun property_values :: "message \<Rightarrow> pval list" where
  "property_values (IdentifyMessage v n l) = [VVersion v, VBytes n, VU32 l]"
| "property_values (RegisterMessage v n sa sk ca ck nm mac) =
     [VVersion v, VBytes n, VBytes sa, VBytes sk, VBytes ca, VBytes ck, VUtf8 nm, VBytes mac]"
| "property_values (LoginMessage v n dev nm) = [VVersion v, VBytes n, VUuid dev, VUtf8 nm]"
| "property_values (AccessMessage v n sa sk ca ck nm pn p ms mac tm) =
     [VVersion v, VBytes n, VBytes sa, VBytes sk, VBytes ca, VBytes ck, VUtf8 nm, VBytes pn, VUuid p,
      VBytes ms, VBytes mac, VNullable tm]"
| "property_values (AccountMessage dev) = [VUuid dev]"
| "property_values (WelcomeMessage c i sch k mac) = [VBool c, VU32 i, VBytes sch, VBytes k, VBytes mac]"
| "property_values (GrantMessage dev i sch s) = [VUuid dev, VU32 i, VBytes sch, VBytes s]"
| "property_values SyncMessage = []"
| "property_values (ChangeMessage i k s d) = [VBytes i, VU32 k, VBytes s, VBytes d]"
| "property_values (ChangeAckMessage i) = [VBytes i]"
| "property_values (DeviceChangeMessage i k s d dev) = [VBytes i, VU32 k, VBytes s, VBytes d, VUuid dev]"
| "property_values (DeviceChangeAckMessage i dev) = [VBytes i, VUuid dev]"
| "property_values (ChangedMessage i k s d) = [VU64 i, VU32 k, VBytes s, VBytes d]"
| "property_values (ChangedInfoMessage i k s d c) = [VU64 i, VU32 k, VBytes s, VBytes d, VU32 c]"
| "property_values LastChangedMessage = []"
| "property_values (ChangedAckMessage i) = [VU64 i]"
| "property_values ListDevicesMessage = []"
| "property_values (DevicesMessage ds) = [VDevices ds]"
| "property_values (RemoveMessage dev) = [VUuid dev]"
| "property_values (RemoveAckMessage dev) = [VUuid dev]"
| "property_values (ProofMessage pn dev nm sa sk ca ck ms mac tm) =
     [VBytes pn, VUuid dev, VString nm, VBytes sa, VBytes sk, VBytes ca, VBytes ck, VBytes ms, VBytes mac, VNullable tm]"
| "property_values (DenyMessage dev) = [VUuid dev]"
| "property_values (AcceptMessage dev i sch s) = [VUuid dev, VU32 i, VBytes sch, VBytes s]"
| "property_values (AcceptAckMessage dev) = [VUuid dev]"
| "property_values (MacUpdateMessage i mac) = [VU32 i, VBytes mac]"
| "property_values MacUpdateAckMessage = []"
| "property_values (KeyChangeMessage i) = [VU32 i]"
| "property_values (DeviceKeysMessage i dup ks) = [VU32 i, VBool dup, VDeviceKeys ks]"
| "property_values (NewKeyMessage i mac sch ks) = [VU32 i, VBytes mac, VBytes sch, VKeyUpdates ks]"
| "property_values (NewKeyAckMessage i) = [VU32 i]"
| "property_values (ErrorMessage t m c) = [VU32 (error_code t), VUtf8 m, VBool c]"

end
