(* ===== verification/MessageStream.thy ===== *)
theory MessageStream
  imports Messages
begin

text \<open>
  The wire form of the messages (\<open>src/messages/message.cpp\<close>): properties, names, the
  transaction around reading one, validation (\<open>identifymessage.cpp\<close>, \<open>errormessage.cpp\<close>)
  and signatures.
\<close>

section \<open>Values on a stream\<close>

record mlib =
  prims :: qprims
  put_qstring :: "string \<Rightarrow> bytes"
  get_qstring :: "bytes \<Rightarrow> (string \<times> bytes) option"
  utf8_valid :: "bytes \<Rightarrow> bool" \<comment> \<open>\<open>fromUtf8(b).toUtf8() == b\<close>\<close>

text \<open>\<open>QList<T>\<close> and \<open>QVector<int>\<close>: the number of elements, then the elements.\<close>

definition put_list :: "mlib \<Rightarrow> ('a \<Rightarrow> bytes) \<Rightarrow> 'a list \<Rightarrow> bytes" where
  "put_list l f xs = put_u32 (prims l) (of_nat (length xs)) @ concat (map f xs)"

fun get_many :: "(bytes \<Rightarrow> ('a \<times> bytes) option) \<Rightarrow> nat \<Rightarrow> bytes \<Rightarrow> ('a list \<times> bytes) option" where
  "get_many g 0 b = Some ([], b)"
| "get_many g (Suc n) b = (case g b of
     None \<Rightarrow> None
   | Some (x, r) \<Rightarrow> map_option (\<lambda>(xs, r'). (x # xs, r')) (get_many g n r))"

definition get_list :: "mlib \<Rightarrow> (bytes \<Rightarrow> ('a \<times> bytes) option) \<Rightarrow> bytes \<Rightarrow> ('a list \<times> bytes) option" where
  "get_list l g b = (case get_u32 (prims l) b of None \<Rightarrow> None | Some (n, r) \<Rightarrow> get_many g (unat n) r)"

abbreviation put_array :: "mlib \<Rightarrow> bytes \<Rightarrow> bytes" where
  "put_array l b \<equiv> put_bytes (prims l) (Some b)"

definition get_array :: "mlib \<Rightarrow> bytes \<Rightarrow> (bytes \<times> bytes) option" where
  "get_array l b = map_option (\<lambda>(x, r). (case x of None \<Rightarrow> [] | Some y \<Rightarrow> y, r)) (get_bytes (prims l) b)"

text \<open>\<open>operator>>(QDataStream &, Utf8String &)\<close>\<close>

definition get_utf8_string :: "mlib \<Rightarrow> bytes \<Rightarrow> (string \<times> bytes) option" where
  "get_utf8_string l b = (case get_array l b of
       None \<Rightarrow> None
     | Some (m, r) \<Rightarrow> if utf8_valid l m then Some (m, r) else None)"

text \<open>\<open>writeTuple\<close> and \<open>readTuple\<close>\<close>

definition put_pair :: "('a \<Rightarrow> bytes) \<Rightarrow> ('b \<Rightarrow> bytes) \<Rightarrow> 'a \<times> 'b \<Rightarrow> bytes" where
  "put_pair f g x = f (fst x) @ g (snd x)"

definition get_pair :: "(bytes \<Rightarrow> ('a \<times> bytes) option) \<Rightarrow> (bytes \<Rightarrow> ('b \<times> bytes) option) \<Rightarrow>
    bytes \<Rightarrow> (('a \<times> 'b) \<times> bytes) option" where
  "get_pair f g b = (case f b of
       None \<Rightarrow> None
     | Some (x, r) \<Rightarrow> map_option (\<lambda>(y, r'). ((x, y), r')) (g r))"

fun put_value :: "mlib \<Rightarrow> pval \<Rightarrow> bytes" where
  "put_value l (VU32 w) = put_u32 (prims l) w"
| "put_value l (VU64 w) = put_u64 (prims l) w"
| "put_value l (VBool b) = put_bool (prims l) b"
| "put_value l (VUuid u) = put_uuid (prims l) u"
| "put_value l (VBytes b) = put_array l b"
| "put_value l (VNullable b) = put_bytes (prims l) b"
| "put_value l (VUtf8 s) = put_array l s"
| "put_value l (VString s) = put_qstring l s"
| "put_value l (VVersion v) = put_list l (put_u32 (prims l)) v"
| "put_value l (VDevices ds) = put_list l (put_pair (put_uuid (prims l)) (put_pair (put_array l) (put_array l))) ds"
| "put_value l (VDeviceKeys ks) = put_list l (put_pair (put_uuid (prims l))
     (put_pair (put_array l) (put_pair (put_array l) (put_array l)))) ks"
| "put_value l (VKeyUpdates ks) = put_list l (put_pair (put_uuid (prims l)) (put_pair (put_array l) (put_array l))) ks"

text \<open>In C++ the type of a property is static: \<open>get_value\<close> is the family of readers, one for each type, and the constructor of the result only
  says which of them ran.\<close>

fun get_value :: "mlib \<Rightarrow> ptype \<Rightarrow> bytes \<Rightarrow> (pval \<times> bytes) option" where
  "get_value l TU32 b = map_option (apfst VU32) (get_u32 (prims l) b)"
| "get_value l TU64 b = map_option (apfst VU64) (get_u64 (prims l) b)"
| "get_value l TBool b = map_option (apfst VBool) (get_bool (prims l) b)"
| "get_value l TUuid b = map_option (apfst VUuid) (get_uuid (prims l) b)"
| "get_value l TBytes b = map_option (apfst VBytes) (get_array l b)"
| "get_value l TNullable b = map_option (apfst VNullable) (get_bytes (prims l) b)"
| "get_value l TUtf8 b = map_option (apfst VUtf8) (get_utf8_string l b)"
| "get_value l TString b = map_option (apfst VString) (get_qstring l b)"
| "get_value l TVersion b = map_option (apfst VVersion) (get_list l (get_u32 (prims l)) b)"
| "get_value l TDevices b = map_option (apfst VDevices)
     (get_list l (get_pair (get_uuid (prims l)) (get_pair (get_utf8_string l) (get_array l))) b)"
| "get_value l TDeviceKeys b = map_option (apfst VDeviceKeys)
     (get_list l (get_pair (get_uuid (prims l)) (get_pair (get_array l) (get_pair (get_array l) (get_array l)))) b)"
| "get_value l TKeyUpdates b = map_option (apfst VKeyUpdates)
     (get_list l (get_pair (get_uuid (prims l)) (get_pair (get_array l) (get_array l))) b)"

text \<open>What a property holds when the stream has failed: the default of its type.\<close>

fun default_value :: "ptype \<Rightarrow> pval" where
  "default_value TU32 = VU32 0"
| "default_value TU64 = VU64 0"
| "default_value TBool = VBool False"
| "default_value TUuid = VUuid 0"
| "default_value TBytes = VBytes []"
| "default_value TNullable = VNullable None"
| "default_value TUtf8 = VUtf8 []"
| "default_value TString = VString []"
| "default_value TVersion = VVersion []"
| "default_value TDevices = VDevices []"
| "default_value TDeviceKeys = VDeviceKeys []"
| "default_value TKeyUpdates = VKeyUpdates []"

text \<open>\<open>operator>>(QDataStream &, Message &)\<close>: all properties, also after a failure; the result
  is whether the stream is still in order, and its rest.\<close>

fun get_properties :: "mlib \<Rightarrow> ptype list \<Rightarrow> bytes \<Rightarrow> pval list \<times> bytes option" where
  "get_properties l [] b = ([], Some b)"
| "get_properties l (t # ts) b = (case get_value l t b of
     None \<Rightarrow> (map default_value (t # ts), None)
   | Some (v, r) \<Rightarrow> apfst (Cons v) (get_properties l ts r))"

definition put_message :: "mlib \<Rightarrow> message \<Rightarrow> bytes" where
  "put_message l m = concat (map (put_value l) (property_values m))"

section \<open>Building a message from its properties\<close>

fun as_u32 :: "pval \<Rightarrow> u32" where "as_u32 (VU32 w) = w" | "as_u32 _ = 0"
fun as_u64 :: "pval \<Rightarrow> u64" where "as_u64 (VU64 w) = w" | "as_u64 _ = 0"
fun as_bool :: "pval \<Rightarrow> bool" where "as_bool (VBool b) = b" | "as_bool _ = False"
fun as_uuid :: "pval \<Rightarrow> uuid" where "as_uuid (VUuid u) = u" | "as_uuid _ = 0"

fun as_bytes :: "pval \<Rightarrow> bytes" where
  "as_bytes (VBytes b) = b"
| "as_bytes (VUtf8 s) = s"
| "as_bytes (VString s) = s"
| "as_bytes _ = []"

fun as_nullable :: "pval \<Rightarrow> bytes option" where "as_nullable (VNullable b) = b" | "as_nullable _ = None"
fun as_version :: "pval \<Rightarrow> version_number" where "as_version (VVersion v) = v" | "as_version _ = []"
fun as_devices :: "pval \<Rightarrow> device_info list" where "as_devices (VDevices d) = d" | "as_devices _ = []"
fun as_device_keys :: "pval \<Rightarrow> device_key list" where "as_device_keys (VDeviceKeys d) = d" | "as_device_keys _ = []"
fun as_key_updates :: "pval \<Rightarrow> key_update list" where "as_key_updates (VKeyUpdates d) = d" | "as_key_updates _ = []"

fun build :: "mkind \<Rightarrow> pval list \<Rightarrow> message" where
  "build KIdentify vs = IdentifyMessage (as_version (vs ! 0)) (as_bytes (vs ! 1)) (as_u32 (vs ! 2))"
| "build KRegister vs = RegisterMessage (as_version (vs ! 0)) (as_bytes (vs ! 1)) (as_bytes (vs ! 2)) (as_bytes (vs ! 3))
     (as_bytes (vs ! 4)) (as_bytes (vs ! 5)) (as_bytes (vs ! 6)) (as_bytes (vs ! 7))"
| "build KLogin vs = LoginMessage (as_version (vs ! 0)) (as_bytes (vs ! 1)) (as_uuid (vs ! 2)) (as_bytes (vs ! 3))"
| "build KAccess vs = AccessMessage (as_version (vs ! 0)) (as_bytes (vs ! 1)) (as_bytes (vs ! 2)) (as_bytes (vs ! 3))
     (as_bytes (vs ! 4)) (as_bytes (vs ! 5)) (as_bytes (vs ! 6)) (as_bytes (vs ! 7)) (as_uuid (vs ! 8))
     (as_bytes (vs ! 9)) (as_bytes (vs ! 10)) (as_nullable (vs ! 11))"
| "build KAccount vs = AccountMessage (as_uuid (vs ! 0))"
| "build KWelcome vs = WelcomeMessage (as_bool (vs ! 0)) (as_u32 (vs ! 1)) (as_bytes (vs ! 2)) (as_bytes (vs ! 3)) (as_bytes (vs ! 4))"
| "build KGrant vs = GrantMessage (as_uuid (vs ! 0)) (as_u32 (vs ! 1)) (as_bytes (vs ! 2)) (as_bytes (vs ! 3))"
| "build KSync vs = SyncMessage"
| "build KChange vs = ChangeMessage (as_bytes (vs ! 0)) (as_u32 (vs ! 1)) (as_bytes (vs ! 2)) (as_bytes (vs ! 3))"
| "build KChangeAck vs = ChangeAckMessage (as_bytes (vs ! 0))"
| "build KDeviceChange vs = DeviceChangeMessage (as_bytes (vs ! 0)) (as_u32 (vs ! 1)) (as_bytes (vs ! 2)) (as_bytes (vs ! 3)) (as_uuid (vs ! 4))"
| "build KDeviceChangeAck vs = DeviceChangeAckMessage (as_bytes (vs ! 0)) (as_uuid (vs ! 1))"
| "build KChanged vs = ChangedMessage (as_u64 (vs ! 0)) (as_u32 (vs ! 1)) (as_bytes (vs ! 2)) (as_bytes (vs ! 3))"
| "build KChangedInfo vs = ChangedInfoMessage (as_u64 (vs ! 0)) (as_u32 (vs ! 1)) (as_bytes (vs ! 2)) (as_bytes (vs ! 3)) (as_u32 (vs ! 4))"
| "build KLastChanged vs = LastChangedMessage"
| "build KChangedAck vs = ChangedAckMessage (as_u64 (vs ! 0))"
| "build KListDevices vs = ListDevicesMessage"
| "build KDevices vs = DevicesMessage (as_devices (vs ! 0))"
| "build KRemove vs = RemoveMessage (as_uuid (vs ! 0))"
| "build KRemoveAck vs = RemoveAckMessage (as_uuid (vs ! 0))"
| "build KProof vs = ProofMessage (as_bytes (vs ! 0)) (as_uuid (vs ! 1)) (as_bytes (vs ! 2)) (as_bytes (vs ! 3))
     (as_bytes (vs ! 4)) (as_bytes (vs ! 5)) (as_bytes (vs ! 6)) (as_bytes (vs ! 7)) (as_bytes (vs ! 8)) (as_nullable (vs ! 9))"
| "build KDeny vs = DenyMessage (as_uuid (vs ! 0))"
| "build KAccept vs = AcceptMessage (as_uuid (vs ! 0)) (as_u32 (vs ! 1)) (as_bytes (vs ! 2)) (as_bytes (vs ! 3))"
| "build KAcceptAck vs = AcceptAckMessage (as_uuid (vs ! 0))"
| "build KMacUpdate vs = MacUpdateMessage (as_u32 (vs ! 0)) (as_bytes (vs ! 1))"
| "build KMacUpdateAck vs = MacUpdateAckMessage"
| "build KKeyChange vs = KeyChangeMessage (as_u32 (vs ! 0))"
| "build KDeviceKeys vs = DeviceKeysMessage (as_u32 (vs ! 0)) (as_bool (vs ! 1)) (as_device_keys (vs ! 2))"
| "build KNewKey vs = NewKeyMessage (as_u32 (vs ! 0)) (as_bytes (vs ! 1)) (as_bytes (vs ! 2)) (as_key_updates (vs ! 3))"
| "build KNewKeyAck vs = NewKeyAckMessage (as_u32 (vs ! 0))"
| "build KError vs = ErrorMessage (error_of_code (as_u32 (vs ! 0))) (as_bytes (vs ! 1)) (as_bool (vs ! 2))"

section \<open>Reading and writing messages\<close>

definition ping_message :: bytes where
  "ping_message = [CHR 0xFF]"

datatype message_error = DataStreamException | IncompatibleVersionException version_number

definition current_version :: version_number where
  "current_version = [1]"

definition nonce_size :: nat where
  "nonce_size = 16"

text \<open>\<open>QVersionNumber::compare\<close>: the first differing segment decides; a longer number is
  greater unless the next segment is negative.\<close>

fun version_less :: "version_number \<Rightarrow> version_number \<Rightarrow> bool" where
  "version_less [] [] = False"
| "version_less (x # xs) [] = (sint x < 0)"
| "version_less [] (y # ys) = (0 \<le> sint y)"
| "version_less (x # xs) (y # ys) = (if x = y then version_less xs ys else sint x < sint y)"

text \<open>\<open>InitMessage::validate\<close>, inherited by every class derived from it.\<close>

definition validate_init :: "version_number \<Rightarrow> bytes \<Rightarrow> message_error + bool" where
  "validate_init v nonce = (if version_less v current_version then Inl (IncompatibleVersionException v)
     else Inr (nonce_size \<le> length nonce))"

fun validate :: "message \<Rightarrow> message_error + bool" where
  "validate (IdentifyMessage v n _) = validate_init v n"
| "validate (RegisterMessage v n _ _ _ _ _ _) = validate_init v n"
| "validate (LoginMessage v n _ _) = validate_init v n"
| "validate (AccessMessage v n _ _ _ _ _ _ _ _ _ _) = validate_init v n"
| "validate _ = Inr True"

text \<open>\<open>deserializeMessageTo\<close>: the message read and the rest of the stream.\<close>

definition deserialize_message :: "mlib \<Rightarrow> mkind \<Rightarrow> bytes \<Rightarrow> message_error + message \<times> bytes" where
  "deserialize_message l k b =
     (let (vs, rest) = get_properties l (property_types k) b; m = build k vs in
      case validate m of
        Inl e \<Rightarrow> Inl e
      | Inr False \<Rightarrow> Inl DataStreamException
      | Inr True \<Rightarrow> (case rest of None \<Rightarrow> Inl DataStreamException | Some r \<Rightarrow> Inr (m, r)))"

definition serialize :: "mlib \<Rightarrow> message \<Rightarrow> bytes" where
  "serialize l m = put_array l (message_name (kind_of m)) @ put_message l m"

text \<open>The name is read in a transaction of its own.\<close>

definition read_name :: "mlib \<Rightarrow> bytes \<Rightarrow> message_error + bytes \<times> bytes" where
  "read_name l b = (case get_array l b of None \<Rightarrow> Inl DataStreamException | Some x \<Rightarrow> Inr x)"

text \<open>\<open>serializeSigned\<close>: the signature of everything written before it is streamed behind it.\<close>

definition serialize_signed :: "mlib \<Rightarrow> (bytes \<Rightarrow> bytes) \<Rightarrow> message \<Rightarrow> bytes" where
  "serialize_signed l sign m = (let out = serialize l m in out @ put_array l (sign out))"

datatype signature_error = SignatureStream | SignatureInvalid

text \<open>\<open>verifySignature\<close>: \<open>whole\<close> is the device, \<open>rest\<close> what has not been read of it.\<close>

definition verify_signature :: "mlib \<Rightarrow> (bytes \<Rightarrow> bytes \<Rightarrow> bool) \<Rightarrow> bytes \<Rightarrow> bytes \<Rightarrow> signature_error + unit" where
  "verify_signature l verify whole rest = (case get_array l rest of
       None \<Rightarrow> Inl SignatureStream
     | Some (sig, _) \<Rightarrow>
         if verify (take (length whole - length rest) whole) sig then Inr () else Inl SignatureInvalid)"

end
