(* ===== verification/ServerClient.thy ===== *)
theory ServerClient
  imports ServerDb MessageStream
begin

text \<open>
  \<open>tools/appserver/client.cpp\<close>: the connection of one device to the server, as the state
  machine its tasks run. The task queue runs the tasks one at a time (\<open>TaskQueue\<close>), so each is one step on
  the client's state and the database; what it sends and the signals it emits are recorded in
  order. Cryptography is a parameter: which keys can be loaded, what verifies, fingerprints,
  random nonces.
\<close>

section \<open>State\<close>

datatype client_state = Authenticating | AwaitingGrant | Idle | Error

datatype effect =
    Send message
  | Connected uuid
  | ProofRequested uuid message
  | ProofDone uuid bool message
  | ForceDisconnect uuid
  | Pong
  | CloseLater
  | CloseNow

record client =
  cState :: client_state
  deviceId :: uuid
  loginNonce :: bytes
  cachedChanges :: u32
  activeDownloads :: "u64 list"
  cachedAccess :: "message option"   \<comment> \<open>\<open>_cachedAccessRequest\<close>\<close>
  cachedFingerPrint :: bytes
  downLimit :: u32
  downThreshold :: u32

record cworld =
  me :: client
  tables :: sdb
  effects :: "effect list"

datatype client_error =
    DatabaseError sql_error
  | ClientErrorException error_type string bool
  | OtherException
  | VersionException version_number

type_synonym 'a task = "(cworld, client_error, 'a) act"

text \<open>
  The world of one task: the environment of its \<open>n\<close>-th database operation, Qt's streams, and
  Crypto++: \<open>loadable\<close> says whether \<open>AsymmetricCryptoInfo\<close> can be created from the schemes and
  keys, \<open>verifies\<close> is \<open>AsymmetricCrypto::verify\<close> for a scheme and key.
\<close>

record cenv =
  sqlEnv :: "nat \<Rightarrow> senv"
  mlib :: mlib
  loadable :: "bytes \<times> bytes \<times> bytes \<times> bytes \<Rightarrow> bool"
  verifies :: "bytes \<Rightarrow> bytes \<Rightarrow> bytes \<Rightarrow> bytes \<Rightarrow> bool"
  fingerprintOf :: "bytes \<times> bytes \<times> bytes \<times> bytes \<Rightarrow> bytes"
  createUuid :: uuid
  randomNonce :: bytes
  uploadLimit :: u32
  quotaDefault :: int

section \<open>Helpers\<close>

definition upd :: "(client \<Rightarrow> client) \<Rightarrow> unit task" where
  "upd f = modify (\<lambda>w. w\<lparr>me := f (me w)\<rparr>)"

definition emit :: "effect \<Rightarrow> unit task" where
  "emit x = modify (\<lambda>w. w\<lparr>effects := effects w @ [x]\<rparr>)"

abbreviation send :: "message \<Rightarrow> unit task" where
  "send m \<equiv> emit (Send m)"

definition set_state :: "client_state \<Rightarrow> unit task" where
  "set_state st = upd (\<lambda>c. c\<lparr>cState := st\<rparr>)"

definition send_error :: "error_type \<Rightarrow> string \<Rightarrow> bool \<Rightarrow> unit task" where
  "send_error t s r = seq (set_state Error) (\<lambda>_. seq (send (ErrorMessage t s r)) (\<lambda>_. emit CloseLater))"

definition in_db :: "'a sql \<Rightarrow> 'a task" where
  "in_db m w = (case m (tables w) of
       (Inl e, d) \<Rightarrow> (Inl (DatabaseError e), w\<lparr>tables := d\<rparr>)
     | (Inr a, d) \<Rightarrow> (Inr a, w\<lparr>tables := d\<rparr>))"

definition unexpected :: "mkind \<Rightarrow> client_error" where
  "unexpected k = ClientErrorException UnexpectedMessageError
     (''Received unexpected QtDataSync::'' @ message_name k @ ''Message'') True"

definition check_idle :: "mkind \<Rightarrow> unit task" where
  "check_idle k = seq (gets (cState \<circ> me)) (\<lambda>st. guard_call (st = Idle) (unexpected k))"

definition auth_error :: client_error where
  "auth_error = ClientErrorException AuthenticationError [] False"

definition check_signature :: "cenv \<Rightarrow> bytes \<Rightarrow> bytes \<Rightarrow> bytes \<Rightarrow> bytes \<Rightarrow> unit task" where
  "check_signature e scheme key whole rest =
     (case verify_signature (mlib e) (verifies e scheme key) whole rest of
        Inl SignatureStream \<Rightarrow> throw OtherException
      | Inl SignatureInvalid \<Rightarrow> throw auth_error
      | Inr _ \<Rightarrow> ret ())"

text \<open>\<open>loadCrypto\<close> and the check of the signature with the stored key.\<close>

definition check_stored :: "cenv \<Rightarrow> uuid \<Rightarrow> bytes \<Rightarrow> bytes \<Rightarrow> unit task" where
  "check_stored e dev whole rest =
     seq (in_db (load_crypto (sqlEnv e 0) dev)) (\<lambda>c. case c of
         None \<Rightarrow> throw auth_error
       | Some (ss, sk, cs, ck) \<Rightarrow>
           seq (guard_call (loadable e (ss, sk, cs, ck)) OtherException) (\<lambda>_.
           check_signature e ss sk whole rest))"

section \<open>Downloads\<close>

type_synonym data_change = "u64 \<times> u32 \<times> bytes \<times> bytes"

fun send_changes :: "cenv \<Rightarrow> nat \<Rightarrow> bool \<Rightarrow> data_change list \<Rightarrow> unit task" where
  "send_changes e n updateChange [] = ret ()"
| "send_changes e n updateChange ((i, k, s, d) # rest) =
     seq (gets me) (\<lambda>c.
     seq (if cachedChanges c = 0
          then seq (in_db (change_count (sqlEnv e n) (deviceId c))) (\<lambda>cnt.
               seq (upd (\<lambda>c. c\<lparr>cachedChanges := cnt - of_nat (length (activeDownloads c))\<rparr>)) (\<lambda>_. ret True))
          else ret updateChange) (\<lambda>update.
     seq (gets (cachedChanges \<circ> me)) (\<lambda>est.
     seq (send (if update then ChangedInfoMessage i k s d est else ChangedMessage i k s d)) (\<lambda>_.
     seq (upd (\<lambda>c. c\<lparr>activeDownloads := activeDownloads c @ [i], cachedChanges := cachedChanges c - 1\<rparr>)) (\<lambda>_.
     send_changes e (Suc n) False rest)))))"

definition trigger_download :: "cenv \<Rightarrow> nat \<Rightarrow> bool \<Rightarrow> bool \<Rightarrow> unit task" where
  "trigger_download e n forceUpdate skipNoChanges =
     seq (gets me) (\<lambda>c.
     let active = of_nat (length (activeDownloads c)) :: u32; cnt = downLimit c - active in
     seq (if downThreshold c \<le> cnt
          then seq (in_db (load_next_changes (sqlEnv e n) (deviceId c) cnt active)) (\<lambda>changes.
               send_changes e (Suc n) forceUpdate changes)
          else ret ()) (\<lambda>_.
     seq (gets (activeDownloads \<circ> me)) (\<lambda>now.
     if now = [] \<and> \<not> skipNoChanges
     then seq (upd (\<lambda>c. c\<lparr>cachedChanges := 0\<rparr>)) (\<lambda>_. send LastChangedMessage)
     else ret ())))"

section \<open>Handlers\<close>

definition check_login :: "mkind \<Rightarrow> bytes \<Rightarrow> unit task" where
  "check_login k nonce = seq (gets me) (\<lambda>c.
     seq (guard_call (cState c = Authenticating) (unexpected k)) (\<lambda>_.
     seq (guard_call (loginNonce c = nonce) OtherException) (\<lambda>_.
     upd (\<lambda>c. c\<lparr>loginNonce := []\<rparr>))))"

definition on_register :: "cenv \<Rightarrow> bytes \<Rightarrow> bytes \<Rightarrow> bytes \<Rightarrow> bytes \<Rightarrow> bytes \<Rightarrow> bytes \<Rightarrow> string \<Rightarrow> bytes \<Rightarrow> bytes \<Rightarrow> unit task" where
  "on_register e whole nonce sa sk ca ck nm cmac rest =
     seq (check_login KRegister nonce) (\<lambda>_.
     seq (guard_call (loadable e (sa, sk, ca, ck)) OtherException) (\<lambda>_.
     seq (check_signature e sa sk whole rest) (\<lambda>_.
     seq (in_db (add_new_device (sqlEnv e 0) nm sa sk ca ck (fingerprintOf e (sa, sk, ca, ck)) cmac (quotaDefault e))) (\<lambda>dev.
     seq (upd (\<lambda>c. c\<lparr>deviceId := dev\<rparr>)) (\<lambda>_.
     seq (send (AccountMessage dev)) (\<lambda>_.
     seq (set_state Idle) (\<lambda>_.
     emit (Connected dev))))))))"

definition on_login :: "cenv \<Rightarrow> bytes \<Rightarrow> bytes \<Rightarrow> uuid \<Rightarrow> string \<Rightarrow> bytes \<Rightarrow> unit task" where
  "on_login e whole nonce dev nm rest =
     seq (check_login KLogin nonce) (\<lambda>_.
     seq (check_stored e dev whole rest) (\<lambda>_.
     seq (upd (\<lambda>c. c\<lparr>deviceId := dev\<rparr>)) (\<lambda>_.
     seq (in_db (update_login (sqlEnv e 1) dev nm)) (\<lambda>_.
     seq (in_db (change_count (sqlEnv e 2) dev)) (\<lambda>cnt.
     seq (upd (\<lambda>c. c\<lparr>cachedChanges := cnt\<rparr>)) (\<lambda>_.
     seq (in_db (load_key_changes (sqlEnv e 3) dev)) (\<lambda>(i, sch, k, mac).
     seq (send (WelcomeMessage (0 < cnt) i sch k mac)) (\<lambda>_.
     seq (set_state Idle) (\<lambda>_.
     seq (emit (Connected dev)) (\<lambda>_.
     trigger_download e 4 True (cnt = 0)))))))))))"

text \<open>\<open>ProofMessage{message, deviceId}\<close>\<close>

fun proof_of_access :: "message \<Rightarrow> uuid \<Rightarrow> message" where
  "proof_of_access (AccessMessage _ _ sa sk ca ck nm pn _ ms mac tm) dev = ProofMessage pn dev nm sa sk ca ck ms mac tm"
| "proof_of_access _ dev = ProofMessage [] dev [] [] [] [] [] [] [] None"

definition on_access :: "cenv \<Rightarrow> bytes \<Rightarrow> message \<Rightarrow> bytes \<Rightarrow> bytes \<Rightarrow> bytes \<Rightarrow> bytes \<Rightarrow> bytes \<Rightarrow> uuid \<Rightarrow> bytes \<Rightarrow> unit task" where
  "on_access e whole msg nonce sa sk ca ck partner rest =
     seq (check_login KAccess nonce) (\<lambda>_.
     seq (guard_call (loadable e (sa, sk, ca, ck)) OtherException) (\<lambda>_.
     seq (check_signature e sa sk whole rest) (\<lambda>_.
     seq (upd (\<lambda>c. c\<lparr>cachedFingerPrint := fingerprintOf e (sa, sk, ca, ck), deviceId := createUuid e,
        cachedAccess := Some msg, cState := AwaitingGrant\<rparr>)) (\<lambda>_.
     emit (ProofRequested partner (proof_of_access msg (createUuid e)))))))"

definition on_sync :: "cenv \<Rightarrow> unit task" where
  "on_sync e = seq (check_idle KSync) (\<lambda>_. trigger_download e 0 False False)"

definition on_change :: "cenv \<Rightarrow> bytes \<Rightarrow> u32 \<Rightarrow> bytes \<Rightarrow> bytes \<Rightarrow> unit task" where
  "on_change e i k s d = seq (check_idle KChange) (\<lambda>_.
     seq (gets (deviceId \<circ> me)) (\<lambda>dev.
     seq (in_db (add_change (sqlEnv e 0) dev i k s d)) (\<lambda>ok.
     if ok then send (ChangeAckMessage i) else send_error QuotaHitError [] False)))"

definition on_device_change :: "cenv \<Rightarrow> bytes \<Rightarrow> u32 \<Rightarrow> bytes \<Rightarrow> bytes \<Rightarrow> uuid \<Rightarrow> unit task" where
  "on_device_change e i k s d target = seq (check_idle KDeviceChange) (\<lambda>_.
     seq (gets (deviceId \<circ> me)) (\<lambda>dev.
     seq (in_db (add_device_change (sqlEnv e 0) dev target i k s d)) (\<lambda>ok.
     if ok then send (DeviceChangeAckMessage i target) else send_error QuotaHitError [] False)))"

definition on_changed_ack :: "cenv \<Rightarrow> u64 \<Rightarrow> unit task" where
  "on_changed_ack e i = seq (check_idle KChangedAck) (\<lambda>_.
     seq (gets (deviceId \<circ> me)) (\<lambda>dev.
     seq (in_db (complete_change (sqlEnv e 0) dev i)) (\<lambda>_.
     seq (upd (\<lambda>c. c\<lparr>activeDownloads := remove1 i (activeDownloads c)\<rparr>)) (\<lambda>_.
     trigger_download e 1 False False))))"

definition on_list_devices :: "cenv \<Rightarrow> unit task" where
  "on_list_devices e = seq (check_idle KListDevices) (\<lambda>_.
     seq (gets (deviceId \<circ> me)) (\<lambda>dev.
     seq (in_db (list_devices (sqlEnv e 0) dev)) (\<lambda>ds.
     send (DevicesMessage ds))))"

definition on_remove :: "cenv \<Rightarrow> uuid \<Rightarrow> unit task" where
  "on_remove e del = seq (check_idle KRemove) (\<lambda>_.
     seq (gets (deviceId \<circ> me)) (\<lambda>dev.
     seq (in_db (remove_device (sqlEnv e 0) dev del)) (\<lambda>_.
     seq (send (RemoveAckMessage del)) (\<lambda>_.
     if dev = del then seq (set_state Error) (\<lambda>_. emit CloseLater)
     else emit (ForceDisconnect del)))))"

definition on_accept :: "cenv \<Rightarrow> bytes \<Rightarrow> message \<Rightarrow> uuid \<Rightarrow> bytes \<Rightarrow> unit task" where
  "on_accept e whole msg target rest = seq (check_idle KAccept) (\<lambda>_.
     seq (gets (deviceId \<circ> me)) (\<lambda>dev.
     seq (check_stored e dev whole rest) (\<lambda>_.
     emit (ProofDone target True msg))))"

definition no_accept :: message where
  "no_accept = AcceptMessage 0 0 [] []"

definition on_deny :: "uuid \<Rightarrow> unit task" where
  "on_deny target = seq (check_idle KDeny) (\<lambda>_. emit (ProofDone target False no_accept))"

definition on_mac_update :: "cenv \<Rightarrow> u32 \<Rightarrow> bytes \<Rightarrow> unit task" where
  "on_mac_update e i mac = seq (check_idle KMacUpdate) (\<lambda>_.
     seq (gets (deviceId \<circ> me)) (\<lambda>dev.
     seq (in_db (update_cmac (sqlEnv e 0) dev i mac)) (\<lambda>ok.
     if ok then send MacUpdateAckMessage else send_error KeyIndexError [] False)))"

definition as_scheme_key :: "uuid \<times> bytes \<times> bytes \<times> bytes option \<Rightarrow> device_key" where
  "as_scheme_key r = (case r of (dev, s, k, m) \<Rightarrow> (dev, s, k, case_option [] id m))"

definition on_key_change :: "cenv \<Rightarrow> u32 \<Rightarrow> unit task" where
  "on_key_change e nextIndex = seq (check_idle KKeyChange) (\<lambda>_.
     seq (gets (deviceId \<circ> me)) (\<lambda>dev.
     seq (in_db (try_key_change (sqlEnv e 0) dev nextIndex)) (\<lambda>(offset, infos).
     if offset = 1 then send (DeviceKeysMessage nextIndex False (map as_scheme_key infos))
     else if offset = 0 then send (DeviceKeysMessage nextIndex True [])
     else if offset = - 1 then send_error KeyPendingError [] False
     else send_error KeyIndexError [] False)))"

fun force_disconnects :: "key_update list \<Rightarrow> unit task" where
  "force_disconnects [] = ret ()"
| "force_disconnects ((dev, _) # rest) = seq (emit (ForceDisconnect dev)) (\<lambda>_. force_disconnects rest)"

definition on_new_key :: "cenv \<Rightarrow> bytes \<Rightarrow> u32 \<Rightarrow> bytes \<Rightarrow> bytes \<Rightarrow> key_update list \<Rightarrow> bytes \<Rightarrow> unit task" where
  "on_new_key e whole i mac sch ks rest = seq (check_idle KNewKey) (\<lambda>_.
     seq (gets (deviceId \<circ> me)) (\<lambda>dev.
     seq (check_stored e dev whole rest) (\<lambda>_.
     seq (in_db (update_exchange_key (sqlEnv e 1) dev i sch mac ks)) (\<lambda>ok.
     if ok then seq (force_disconnects ks) (\<lambda>_. send (NewKeyAckMessage i))
     else send_error KeyIndexError [] False))))"

section \<open>Tasks\<close>

text \<open>The messages a server understands.\<close>

definition server_kinds :: "mkind list" where
  "server_kinds = [KRegister, KLogin, KAccess, KSync, KChange, KDeviceChange, KChangedAck, KListDevices,
     KRemove, KAccept, KDeny, KMacUpdate, KKeyChange, KNewKey]"

definition dispatch :: "cenv \<Rightarrow> bytes \<Rightarrow> message \<Rightarrow> bytes \<Rightarrow> unit task" where
  "dispatch e whole m rest = (case m of
       RegisterMessage _ n sa sk ca ck nm mac \<Rightarrow> on_register e whole n sa sk ca ck nm mac rest
     | LoginMessage _ n dev nm \<Rightarrow> on_login e whole n dev nm rest
     | AccessMessage _ n sa sk ca ck _ _ p _ _ _ \<Rightarrow> on_access e whole m n sa sk ca ck p rest
     | SyncMessage \<Rightarrow> on_sync e
     | ChangeMessage i k s d \<Rightarrow> on_change e i k s d
     | DeviceChangeMessage i k s d dev \<Rightarrow> on_device_change e i k s d dev
     | ChangedAckMessage i \<Rightarrow> on_changed_ack e i
     | ListDevicesMessage \<Rightarrow> on_list_devices e
     | RemoveMessage dev \<Rightarrow> on_remove e dev
     | AcceptMessage dev _ _ _ \<Rightarrow> on_accept e whole m dev rest
     | DenyMessage dev \<Rightarrow> on_deny dev
     | MacUpdateMessage i mac \<Rightarrow> on_mac_update e i mac
     | KeyChangeMessage i \<Rightarrow> on_key_change e i
     | NewKeyMessage i mac sch ks \<Rightarrow> on_new_key e whole i mac sch ks rest
     | _ \<Rightarrow> ret ())"

text \<open>\<open>QVersionNumber::toString\<close>\<close>

definition int_text :: "int \<Rightarrow> string" where
  "int_text i = (if i < 0 then CHR ''-'' # decimal (nat (- i)) else decimal (nat i))"

fun version_text :: "version_number \<Rightarrow> string" where
  "version_text [] = []"
| "version_text [x] = int_text (sint x)"
| "version_text (x # xs) = int_text (sint x) @ ''.'' @ version_text xs"

definition binary_message_received :: "cenv \<Rightarrow> bytes \<Rightarrow> unit task" where
  "binary_message_received e whole = seq (gets (cState \<circ> me)) (\<lambda>st.
     if st = Error then ret ()
     else case read_name (mlib e) whole of
         Inl _ \<Rightarrow> throw OtherException
       | Inr (name, r) \<Rightarrow> (case find (\<lambda>k. message_name k = name) server_kinds of
             None \<Rightarrow> send_error IncompatibleVersionError
               (''Unknown message type \"QtDataSync::'' @ name @ ''Message\"'') False
           | Some k \<Rightarrow> (case deserialize_message (mlib e) k r of
                 Inl DataStreamException \<Rightarrow> throw OtherException
               | Inl (IncompatibleVersionException v) \<Rightarrow> throw (VersionException v)
               | Inr (m, rest) \<Rightarrow> dispatch e whole m rest)))"

text \<open>The handler in \<open>Client::run\<close>; the version error is caught inside the task.\<close>

definition run_task :: "unit task \<Rightarrow> cworld \<Rightarrow> cworld" where
  "run_task m w = (case m w of
       (Inr _, w') \<Rightarrow> w'
     | (Inl (DatabaseError _), w') \<Rightarrow> snd (send_error ServerError [] True w')
     | (Inl (ClientErrorException t s r), w') \<Rightarrow> snd (send_error t s r w')
     | (Inl (VersionException v), w') \<Rightarrow> snd (send_error IncompatibleVersionError
         (''Version '' @ version_text v @ '' is not compatible to server version '' @ version_text current_version) False w')
     | (Inl OtherException, w') \<Rightarrow> snd (send_error ClientError [] False w'))"

definition start_client :: "cenv \<Rightarrow> unit task" where
  "start_client e = seq (upd (\<lambda>c. c\<lparr>loginNonce := randomNonce e\<rparr>)) (\<lambda>_.
     send (IdentifyMessage current_version (randomNonce e) (uploadLimit e)))"

definition notify_changed :: "cenv \<Rightarrow> unit task" where
  "notify_changed e = seq (gets (cState \<circ> me)) (\<lambda>st.
     if st = Idle then trigger_download e 0 False False else ret ())"

text \<open>\<open>proofResult\<close>: the answer of the partner to a request for access.\<close>

fun grant_of_accept :: "message \<Rightarrow> message" where
  "grant_of_accept (AcceptMessage dev i sch s) = GrantMessage dev i sch s"
| "grant_of_accept _ = GrantMessage 0 0 [] []"

fun accept_device :: "message \<Rightarrow> uuid" where
  "accept_device (AcceptMessage dev _ _ _) = dev"
| "accept_device _ = 0"

definition proof_result :: "cenv \<Rightarrow> bool \<Rightarrow> message \<Rightarrow> unit task" where
  "proof_result e success msg = seq (gets me) (\<lambda>c.
     if cState c \<noteq> AwaitingGrant then ret ()
     else if \<not> success then send_error AccessError [] False
     else if accept_device msg \<noteq> deviceId c then ret ()
     else case cachedAccess c of
         Some (AccessMessage _ _ sa sk ca ck nm _ partner _ _ _) \<Rightarrow>
           seq (in_db (add_new_device_to_user (sqlEnv e 0) (deviceId c) partner nm sa sk ca ck (cachedFingerPrint c))) (\<lambda>_.
           seq (upd (\<lambda>c. c\<lparr>cachedAccess := None, cachedFingerPrint := []\<rparr>)) (\<lambda>_.
           seq (send (grant_of_accept msg)) (\<lambda>_.
           seq (set_state Idle) (\<lambda>_.
           emit (Connected (deviceId c))))))
       | _ \<Rightarrow> throw OtherException)"

fun proof_device :: "message \<Rightarrow> uuid" where
  "proof_device (ProofMessage _ dev _ _ _ _ _ _ _ _) = dev"
| "proof_device _ = 0"

definition send_proof :: "message \<Rightarrow> unit task" where
  "send_proof msg = seq (gets (cState \<circ> me)) (\<lambda>st.
     if st \<noteq> Idle then emit (ProofDone (proof_device msg) False no_accept) else send msg)"

definition accept_done :: "uuid \<Rightarrow> unit task" where
  "accept_done dev = seq (gets (cState \<circ> me)) (\<lambda>st.
     if st \<noteq> Idle then ret () else send (AcceptAckMessage dev))"

text \<open>The slots of the socket and the idle timer.\<close>

definition socket_failed :: "unit task" where
  "socket_failed = seq (set_state Error) (\<lambda>_. emit CloseNow)"

text \<open>\<open>Message::PingMessage\<close> is answered outside the tasks.\<close>

datatype client_event =
    Receive bytes
  | NotifyChanged
  | ProofResult bool message
  | SendProof message
  | AcceptDone uuid
  | SocketFailed

fun client_step :: "cenv \<Rightarrow> client_event \<Rightarrow> cworld \<Rightarrow> cworld" where
  "client_step e (Receive b) = (if b = ping_message then run_task (emit Pong) else run_task (binary_message_received e b))"
| "client_step e NotifyChanged = run_task (notify_changed e)"
| "client_step e (ProofResult ok m) = run_task (proof_result e ok m)"
| "client_step e (SendProof m) = run_task (send_proof m)"
| "client_step e (AcceptDone dev) = run_task (accept_done dev)"
| "client_step e SocketFailed = run_task socket_failed"

definition new_client :: "u32 \<Rightarrow> u32 \<Rightarrow> client" where
  "new_client limit threshold = \<lparr>cState = Authenticating, deviceId = 0, loginNonce = [], cachedChanges = 0,
     activeDownloads = [], cachedAccess = None, cachedFingerPrint = [], downLimit = limit, downThreshold = threshold\<rparr>"

end
