(* ===== verification/ClientClaims.thy ===== *)
theory ClientClaims
  imports ServerClaims ServerClient
begin

text \<open>
  The properties of the server's side of a connection (\<open>tools/appserver/client.cpp\<close>): who gets
  in, what is possible before that, and how the stored changes reach a device.
\<close>

section \<open>The tables\<close>

abbreviation tables_inv :: "cworld \<Rightarrow> bool" where
  "tables_inv w \<equiv> sdb_inv (tables w)"

lemma keeps_in_db: "keeps sdb_inv m \<Longrightarrow> keeps tables_inv (in_db m)"
  unfolding keeps_def in_db_def by (auto split: prod.splits sum.splits)

lemma keeps_upd: "keeps tables_inv (upd f)"
  by (simp add: upd_def keeps_def modify_def)

lemma keeps_emit: "keeps tables_inv (emit x)"
  by (simp add: emit_def keeps_def modify_def)

lemma keeps_check_signature: "keeps tables_inv (check_signature e scheme key whole rest)"
  by (auto simp: check_signature_def keeps_throw keeps_ret split: sum.split signature_error.split)

lemmas server_keeps = keeps_add_new_device keeps_add_new_device_to_user keeps_reads
    keeps_update_login keeps_update_cmac keeps_remove_device keeps_add_change keeps_add_device_change
    keeps_complete_change keeps_try_key_change keeps_update_exchange_key

lemmas task_rules = keeps_ret keeps_throw keeps_gets keeps_guard keeps_seq keeps_if keeps_option keeps_pair
  keeps_upd keeps_emit keeps_check_signature keeps_in_db [OF server_keeps(1)] keeps_in_db [OF server_keeps(2)]
  server_keeps [THEN keeps_in_db]

lemma keeps_send_error: "keeps tables_inv (send_error t s r)"
  unfolding send_error_def set_state_def by (intro task_rules)

lemma keeps_check_stored: "keeps tables_inv (check_stored e dev whole rest)"
  unfolding check_stored_def by (intro task_rules)

lemma keeps_send_changes: "keeps tables_inv (send_changes e n u changes)"
proof (induction e n u changes rule: send_changes.induct)
  case (2 e n u i k s d rest)
  show ?case
    unfolding send_changes.simps by (intro task_rules 2)
qed (simp add: keeps_ret)

lemma keeps_trigger_download: "keeps tables_inv (trigger_download e n f skip)"
  unfolding trigger_download_def Let_def by (intro task_rules keeps_send_changes)

lemma keeps_force_disconnects: "keeps tables_inv (force_disconnects ks)"
  by (induction ks rule: force_disconnects.induct) (auto intro!: task_rules)

lemma keeps_check_login: "keeps tables_inv (check_login k n)"
  unfolding check_login_def by (intro task_rules)

lemmas handler_rules = task_rules keeps_send_error keeps_check_stored keeps_trigger_download
  keeps_force_disconnects keeps_check_login

lemma keeps_dispatch: "keeps tables_inv (dispatch e whole m rest)"
  by (cases m)
    (auto simp: dispatch_def on_register_def on_login_def on_access_def on_sync_def on_change_def on_device_change_def
      on_changed_ack_def on_list_devices_def on_remove_def on_accept_def on_deny_def on_mac_update_def on_key_change_def
      on_new_key_def check_idle_def set_state_def intro!: handler_rules)

lemma keeps_received: "keeps tables_inv (binary_message_received e b)"
  unfolding binary_message_received_def
  by (intro task_rules) (auto intro!: handler_rules keeps_dispatch split: sum.split option.split message_error.split)

lemma run_task_inv:
  assumes "keeps tables_inv m" "tables_inv w" shows "tables_inv (run_task m w)"
proof -
  obtain r w' where m: "m w = (r, w')" by fastforce
  then have "tables_inv w'" using keepsD [OF assms] by simp
  then have err: "tables_inv (snd (send_error t s c w'))" for t s c
    by (rule keepsD [OF keeps_send_error])
  show ?thesis
    using m err \<open>tables_inv w'\<close> by (auto simp: run_task_def split: sum.split client_error.split)
qed

lemma keeps_proof_result: "keeps tables_inv (proof_result e ok m)"
  unfolding proof_result_def
  by (intro task_rules) (auto simp: set_state_def intro!: handler_rules split: option.split message.split)

lemma client_step_inv: "tables_inv w \<Longrightarrow> tables_inv (client_step e ev w)"
  by (cases ev)
    (auto simp: notify_changed_def send_proof_def accept_done_def socket_failed_def set_state_def keeps_received keeps_proof_result
      intro!: run_task_inv handler_rules)

section \<open>Access\<close>

lemma in_db_cases:
  "in_db m w = (case fst (m (tables w)) of Inl e \<Rightarrow> Inl (DatabaseError e) | Inr a \<Rightarrow> Inr a, w\<lparr>tables := snd (m (tables w))\<rparr>)"
  by (auto simp: in_db_def split: prod.split sum.split)

text \<open>What may open the door: a registration or login for the nonce of this connection that is
  signed, over all that precedes the signature, with the key it brings or the stored key.\<close>

definition authentic :: "cenv \<Rightarrow> bytes \<Rightarrow> sdb \<Rightarrow> bytes \<Rightarrow> bool" where
  "authentic e nonce d b \<longleftrightarrow> (\<exists>name r k m rest. read_name (mlib e) b = Inr (name, r) \<and> message_name k = name \<and>
     deserialize_message (mlib e) k r = Inr (m, rest) \<and>
     (case m of
        RegisterMessage _ n sa sk _ _ _ _ \<Rightarrow> n = nonce \<and> verify_signature (mlib e) (verifies e sa sk) b rest = Inr ()
      | LoginMessage _ n dev _ \<Rightarrow> n = nonce \<and> (\<exists>x. map_of (devices d) dev = Some x \<and>
          verify_signature (mlib e) (verifies e (signScheme x) (signKey x)) b rest = Inr ())
      | _ \<Rightarrow> False))"

text \<open>Nothing happened: no change of a table, and the client is not let in.\<close>

definition refused :: "cworld \<Rightarrow> cworld \<Rightarrow> bool" where
  "refused w w' \<longleftrightarrow> tables w' = tables w \<and> cState (me w') \<noteq> Idle"

lemma run_task_refused:
  "m w = (Inl x, w') \<Longrightarrow> tables w' = tables w \<Longrightarrow> refused w (run_task m w)"
  by (cases x) (simp_all add: run_task_def refused_def send_error_def set_state_def upd_def emit_def modify_def seq_def)

lemma load_crypto_calls: "fst (load_crypto e dev d) = Inr (Some (a, b, c, f)) \<Longrightarrow>
    \<exists>x. map_of (devices d) dev = Some x \<and> a = signScheme x \<and> b = signKey x"
  and load_crypto_tables: "snd (load_crypto e dev d) = d"
  by (auto simp: load_crypto_def gets_def split: if_splits)

lemma check_stored_Inr:
  assumes "check_stored e dev whole rest w = (Inr u, w')"
  shows "w' = w \<and> (\<exists>x. map_of (devices (tables w)) dev = Some x \<and>
    verify_signature (mlib e) (verifies e (signScheme x) (signKey x)) whole rest = Inr ())"
  using assms load_crypto_calls [of "sqlEnv e 0" dev "tables w"]
  by (auto simp: check_stored_def in_db_cases seq_def load_crypto_tables throw_def guard_call_def check_signature_def ret_def
    split: sum.splits option.splits prod.splits if_splits signature_error.splits)

lemma check_stored_tables: "tables (snd (check_stored e dev whole rest w)) = tables w"
  by (auto simp: check_stored_def in_db_cases seq_def load_crypto_tables throw_def guard_call_def check_signature_def ret_def
    split: sum.splits option.splits prod.splits if_splits signature_error.splits)

lemma send_error_out:
  "send_error t x r w = (Inr (), w\<lparr>me := (me w)\<lparr>cState := Error\<rparr>,
     effects := effects w @ [Send (ErrorMessage t x r), CloseLater]\<rparr>)"
  by (simp add: send_error_def set_state_def upd_def emit_def modify_def seq_def)

lemma received_step:
  "binary_message_received e b w = (if cState (me w) = Error then (Inr (), w) else case read_name (mlib e) b of
       Inl _ \<Rightarrow> (Inl OtherException, w)
     | Inr (name, r) \<Rightarrow> (case find (\<lambda>k. message_name k = name) server_kinds of
           None \<Rightarrow> send_error IncompatibleVersionError (''Unknown message type \"QtDataSync::'' @ name @ ''Message\"'') False w
         | Some k \<Rightarrow> (case deserialize_message (mlib e) k r of
               Inl DataStreamException \<Rightarrow> (Inl OtherException, w)
             | Inl (IncompatibleVersionException v) \<Rightarrow> (Inl (VersionException v), w)
             | Inr (m, rest) \<Rightarrow> dispatch e b m rest w)))"
  by (simp add: binary_message_received_def ret_def throw_def split: sum.split option.split message_error.split prod.split)

lemma check_idle_out: "cState (me w) \<noteq> Idle \<Longrightarrow> seq (check_idle k) f w = (Inl (unexpected k), w)"
  by (simp add: check_idle_def guard_call_def gets_def seq_def)

lemma check_idle_refused: "cState (me w) \<noteq> Idle \<Longrightarrow> refused w (run_task (seq (check_idle k) f) w)"
  using run_task_refused check_idle_out by blast

lemma check_login_step:
  "seq (check_login k n) f w = (if cState (me w) \<noteq> Authenticating then (Inl (unexpected k), w)
     else if loginNonce (me w) \<noteq> n then (Inl OtherException, w)
     else f () (w\<lparr>me := (me w)\<lparr>loginNonce := []\<rparr>\<rparr>))"
  by (simp add: check_login_def guard_call_def gets_def seq_def upd_def modify_def)

lemma on_register_refused:
  assumes "cState (me w) \<noteq> Idle"
    "\<not> (cState (me w) = Authenticating \<and> n = loginNonce (me w) \<and>
        verify_signature (mlib e) (verifies e sa sk) b rest = Inr ())"
  shows "refused w (run_task (on_register e b n sa sk ca ck nm mac rest) w)"
proof -
  have "\<exists>x w'. on_register e b n sa sk ca ck nm mac rest w = (Inl x, w') \<and> tables w' = tables w"
    using assms by (auto simp: on_register_def check_login_step check_signature_def throw_def
        split: sum.split signature_error.split)
  then show ?thesis using run_task_refused by blast
qed

lemma on_login_refused:
  assumes "cState (me w) \<noteq> Idle"
    "\<not> (cState (me w) = Authenticating \<and> n = loginNonce (me w) \<and> (\<exists>x. map_of (devices (tables w)) dev = Some x \<and>
        verify_signature (mlib e) (verifies e (signScheme x) (signKey x)) b rest = Inr ()))"
  shows "refused w (run_task (on_login e b n dev nm rest) w)"
proof -
  let ?w = "w\<lparr>me := (me w)\<lparr>loginNonce := []\<rparr>\<rparr>"
  have "\<exists>x w'. on_login e b n dev nm rest w = (Inl x, w') \<and> tables w' = tables w"
  proof (cases "cState (me w) = Authenticating \<and> n = loginNonce (me w)")
    case True
    obtain r w' where r: "check_stored e dev b rest ?w = (r, w')" by fastforce
    obtain x where "r = Inl x"
      using r assms(2) True check_stored_Inr [of e dev b rest ?w] by (cases r) auto
    moreover have "tables w' = tables w"
      using check_stored_tables [of e dev b rest ?w] r by simp
    ultimately show ?thesis
      using True r by (auto simp: on_login_def check_login_step seq_Inl)
  qed (auto simp: on_login_def check_login_step)
  then show ?thesis using run_task_refused by blast
qed

lemma on_access_refused:
  assumes "cState (me w) \<noteq> Idle"
  shows "refused w (run_task (on_access e b m n sa sk ca ck p rest) w)"
proof -
  have "(\<exists>x w'. on_access e b m n sa sk ca ck p rest w = (Inl x, w') \<and> tables w' = tables w) \<or>
      (\<exists>w'. on_access e b m n sa sk ca ck p rest w = (Inr (), w') \<and> refused w w')"
    using assms by (auto simp: on_access_def check_login_step check_signature_def throw_def upd_def emit_def
        modify_def refused_def split: sum.split signature_error.split)
  then show ?thesis
    using run_task_refused by (auto simp: run_task_def)
qed

lemma dispatch_refused:
  assumes "cState (me w) \<noteq> Idle"
    "\<not> (cState (me w) = Authenticating \<and> (case m of
        RegisterMessage _ n sa sk _ _ _ _ \<Rightarrow> n = loginNonce (me w) \<and> verify_signature (mlib e) (verifies e sa sk) b rest = Inr ()
      | LoginMessage _ n dev _ \<Rightarrow> n = loginNonce (me w) \<and> (\<exists>x. map_of (devices (tables w)) dev = Some x \<and>
          verify_signature (mlib e) (verifies e (signScheme x) (signKey x)) b rest = Inr ())
      | _ \<Rightarrow> False))"
  shows "refused w (run_task (dispatch e b m rest) w)"
proof -
  have quiet: "refused w (run_task (ret ()) w)"
    using assms(1) by (simp add: run_task_def ret_def refused_def)
  note defs = on_sync_def on_change_def on_device_change_def on_changed_ack_def on_list_devices_def on_remove_def
    on_accept_def on_deny_def on_mac_update_def on_key_change_def on_new_key_def
  show ?thesis
    using assms(2)
    by (cases m) (simp_all add: dispatch_def quiet on_register_refused [OF assms(1)] on_login_refused [OF assms(1)]
      on_access_refused [OF assms(1)] check_idle_refused [OF assms(1)] defs)
qed

text \<open>C6: Before a client is let in, nothing it sends changes a table or lets it in, except a
  registration or a login that answers the nonce of this very connection and is signed with
  the key it registers or the key stored for the device it claims to be. After an error, or
  while it waits for the grant of another device, nothing does.\<close>

theorem only_authentic_clients_act:
  assumes "cState (me w) \<noteq> Idle"
  shows "(tables (client_step e (Receive b) w) = tables w \<and> cState (me (client_step e (Receive b) w)) \<noteq> Idle) \<or>
    (cState (me w) = Authenticating \<and> authentic e (loginNonce (me w)) (tables w) b)"
proof (cases "cState (me w) = Authenticating \<and> authentic e (loginNonce (me w)) (tables w) b")
  case False
  have "refused w (run_task (binary_message_received e b) w)"
  proof (cases "cState (me w) = Error")
    case True
    then show ?thesis by (simp add: received_step run_task_def refused_def)
  next
    case up: False
    show ?thesis
    proof (cases "read_name (mlib e) b")
      case (Inl x)
      with up have "binary_message_received e b w = (Inl OtherException, w)" by (simp add: received_step)
      then show ?thesis using run_task_refused by blast
    next
      case (Inr x)
      obtain name r where x: "x = (name, r)" by fastforce
      show ?thesis
      proof (cases "find (\<lambda>k. message_name k = name) server_kinds")
        case None
        with Inr x up obtain t where "binary_message_received e b w = send_error IncompatibleVersionError t False w"
          by (auto simp: received_step)
        then show ?thesis by (simp add: run_task_def send_error_out refused_def)
      next
        case (Some k)
        then have k: "message_name k = name" by (auto simp: find_Some_iff)
        show ?thesis
        proof (cases "deserialize_message (mlib e) k r")
          case err: (Inl y)
          have "\<exists>z. binary_message_received e b w = (Inl z, w)"
            using err Inr x up Some by (cases y) (simp_all add: received_step)
          then show ?thesis using run_task_refused by blast
        next
          case msg: (Inr y)
          obtain m rest where y: "y = (m, rest)" by fastforce
          have "run_task (binary_message_received e b) w = run_task (dispatch e b m rest) w"
            using msg Inr x up Some y by (simp add: received_step run_task_def)
          moreover have "refused w (run_task (dispatch e b m rest) w)"
            using False Inr x k msg y by (intro dispatch_refused [OF assms]) (auto simp: authentic_def)
          ultimately show ?thesis by simp
        qed
      qed
    qed
  qed
  moreover have "refused w (run_task (emit Pong) w)"
    using assms by (simp add: run_task_def emit_def modify_def refused_def)
  ultimately show ?thesis by (auto simp: refused_def)
qed simp

end
