(* ===== verification/MessageClaims.thy ===== *)
theory MessageClaims
  imports MessageStream
begin

text \<open>
  What the wire form of the messages gives: every message is read back as it was written, in
  its class and no other, every property has a value of its type even when the data is cut
  short, and a signature covers all that precedes it.
\<close>

section \<open>The interface of Qt\<close>

locale message_stream = datastream "prims l" for l :: mlib +
  assumes qstring_back: "fits s \<Longrightarrow> get_qstring l (put_qstring l s @ r) = Some (s, r)"
    and utf8_empty: "utf8_valid l []"

fun fits_value :: "mlib \<Rightarrow> pval \<Rightarrow> bool" where
  "fits_value l (VBytes b) = fits b"
| "fits_value l (VNullable b) = fits_opt b"
| "fits_value l (VUtf8 s) = (fits s \<and> utf8_valid l s)"
| "fits_value l (VString s) = fits s"
| "fits_value l (VVersion v) = (length v < 2 ^ 31)"
| "fits_value l (VDevices ds) = (length ds < 2 ^ 31 \<and> (\<forall>(_, nm, fp) \<in> set ds. fits nm \<and> utf8_valid l nm \<and> fits fp))"
| "fits_value l (VDeviceKeys ks) = (length ks < 2 ^ 31 \<and> (\<forall>(_, a, b, c) \<in> set ks. fits a \<and> fits b \<and> fits c))"
| "fits_value l (VKeyUpdates ks) = (length ks < 2 ^ 31 \<and> (\<forall>(_, a, b) \<in> set ks. fits a \<and> fits b))"
| "fits_value l _ = True"

fun type_of :: "pval \<Rightarrow> ptype" where
  "type_of (VU32 _) = TU32"
| "type_of (VU64 _) = TU64"
| "type_of (VBool _) = TBool"
| "type_of (VUuid _) = TUuid"
| "type_of (VBytes _) = TBytes"
| "type_of (VNullable _) = TNullable"
| "type_of (VUtf8 _) = TUtf8"
| "type_of (VString _) = TString"
| "type_of (VVersion _) = TVersion"
| "type_of (VDevices _) = TDevices"
| "type_of (VDeviceKeys _) = TDeviceKeys"
| "type_of (VKeyUpdates _) = TKeyUpdates"

text \<open>A codec reads back what it writes, for the values of a set.\<close>

definition reads_back :: "('a \<Rightarrow> bytes) \<Rightarrow> (bytes \<Rightarrow> ('a \<times> bytes) option) \<Rightarrow> 'a set \<Rightarrow> bool" where
  "reads_back f g A \<longleftrightarrow> (\<forall>x \<in> A. \<forall>r. g (f x @ r) = Some (x, r))"

lemma reads_backD: "reads_back f g A \<Longrightarrow> x \<in> A \<Longrightarrow> g (f x @ r) = Some (x, r)"
  by (simp add: reads_back_def)

lemma reads_back_pair:
  assumes "reads_back f g A" "reads_back f' g' B"
  shows "reads_back (put_pair f f') (get_pair g g') (A \<times> B)"
  using assms by (auto simp: reads_back_def put_pair_def get_pair_def)

lemma reads_back_many:
  assumes "reads_back f g A" "set xs \<subseteq> A"
  shows "get_many g (length xs) (concat (map f xs) @ r) = Some (xs, r)"
  using assms(2) by (induction xs) (auto simp: reads_backD [OF assms(1)])

context message_stream
begin

lemma array_back: "reads_back (put_array l) (get_array l) {b. fits b}"
  by (simp add: reads_back_def get_array_def bytes_back fits_opt_def)

lemma utf8_back: "reads_back (put_array l) (get_utf8_string l) {b. fits b \<and> utf8_valid l b}"
  by (simp add: reads_back_def get_utf8_string_def reads_backD [OF array_back])

lemma uuid_reads: "reads_back (put_uuid (prims l)) (get_uuid (prims l)) UNIV"
  by (simp add: reads_back_def uuid_back)

lemma u32_reads: "reads_back (put_u32 (prims l)) (get_u32 (prims l)) UNIV"
  by (simp add: reads_back_def u32_back)

lemma list_back:
  assumes "reads_back f g A" "length xs < 2 ^ 31" "set xs \<subseteq> A"
  shows "get_list l g (put_list l f xs @ r) = Some (xs, r)"
  using assms reads_back_many [OF assms(1,3)]
  by (simp add: put_list_def get_list_def u32_back unat_of_nat take_bit_nat_eq_self)

lemma value_back: "fits_value l v \<Longrightarrow> get_value l (type_of v) (put_value l v @ r) = Some (v, r)"
proof (cases v)
  case (VDevices ds)
  assume "fits_value l v"
  with VDevices have "length ds < 2 ^ 31" "set ds \<subseteq> UNIV \<times> {b. fits b \<and> utf8_valid l b} \<times> {b. fits b}"
    by auto
  from list_back [OF reads_back_pair [OF uuid_reads reads_back_pair [OF utf8_back array_back]] this] VDevices
  show ?thesis by simp
next
  case (VDeviceKeys ks)
  assume "fits_value l v"
  with VDeviceKeys have "length ks < 2 ^ 31" "set ks \<subseteq> UNIV \<times> {b. fits b} \<times> {b. fits b} \<times> {b. fits b}"
    by auto
  from list_back [OF reads_back_pair [OF uuid_reads reads_back_pair [OF array_back reads_back_pair [OF array_back array_back]]] this] VDeviceKeys
  show ?thesis by simp
next
  case (VKeyUpdates ks)
  assume "fits_value l v"
  with VKeyUpdates have "length ks < 2 ^ 31" "set ks \<subseteq> UNIV \<times> {b. fits b} \<times> {b. fits b}"
    by auto
  from list_back [OF reads_back_pair [OF uuid_reads reads_back_pair [OF array_back array_back]] this] VKeyUpdates
  show ?thesis by simp
qed (auto simp: u32_back u64_back bool_back uuid_back bytes_back qstring_back reads_backD [OF array_back] reads_backD [OF utf8_back]
      list_back [OF u32_reads])

lemma properties_back:
  "\<forall>v \<in> set vs. fits_value l v \<Longrightarrow>
   get_properties l (map type_of vs) (concat (map (put_value l) vs) @ r) = (vs, Some r)"
  by (induction vs) (simp_all add: value_back)

end

text \<open>The documented format of \<open>QDataStream\<close>; strings stand for their UTF-8 form, written
  with the codec of byte arrays.\<close>

definition qt_lib :: mlib where
  "qt_lib = \<lparr>prims = qt_5_11, put_qstring = (\<lambda>s. qt_put_bytes (Some s)),
     get_qstring = (\<lambda>b. map_option (apfst (case_option [] id)) (qt_get_bytes b)),
     utf8_valid = list_all (\<lambda>c. of_char c < (128 :: nat))\<rparr>"

interpretation qt_msg: message_stream qt_lib
proof -
  have "datastream (prims qt_lib)"
    using qt.datastream_axioms by (simp add: qt_lib_def)
  then show "message_stream qt_lib"
    by (intro message_stream.intro message_stream_axioms.intro)
      (simp_all add: qt_lib_def qt_bytes_back fits_opt_def)
qed

section \<open>Round trip\<close>

lemma property_types_of: "property_types (kind_of m) = map type_of (property_values m)"
  by (cases m) (simp_all add: type_defs)

lemma build_properties: "build (kind_of m) (property_values m) = m"
  by (cases m) simp_all

lemma message_roundtrip_rest:
  assumes "message_stream l" "\<forall>v \<in> set (property_values m). fits_value l v" "validate m = Inr True"
  shows "\<exists>r. read_name l (serialize l m @ rest) = Inr (message_name (kind_of m), r) \<and>
    deserialize_message l (kind_of m) r = Inr (m, rest)"
proof -
  have "fits (message_name (kind_of m))"
    by (cases "kind_of m") (simp_all add: fits_def)
  then have "read_name l (serialize l m @ rest) = Inr (message_name (kind_of m), put_message l m @ rest)"
    using reads_backD [OF message_stream.array_back [OF assms(1)]] by (simp add: read_name_def serialize_def)
  moreover have "deserialize_message l (kind_of m) (put_message l m @ rest) = Inr (m, rest)"
    using message_stream.properties_back [OF assms(1,2)] assms(3)
    by (simp add: deserialize_message_def put_message_def property_types_of build_properties)
  ultimately show ?thesis by blast
qed

text \<open>C21: Whatever message is written with values the format can hold is read back as the same
  message, and the reader stops where the writer did: at the next message or the signature.\<close>

theorem message_roundtrip:
  assumes "message_stream l" "\<forall>v \<in> set (property_values m). fits_value l v" "validate m = Inr True"
  shows "\<exists>r. read_name l (serialize l m @ rest) = Inr (message_name (kind_of m), r) \<and>
    deserialize_message l (kind_of m) r = Inr (m, rest)"
  by (rule message_roundtrip_rest [OF assms])

definition demo_login :: message where
  "demo_login = LoginMessage [1] (replicate 16 CHR ''n'') 7 ''pc''"

lemma demo_login_ok: "\<forall>v \<in> set (property_values demo_login). fits_value qt_lib v" "validate demo_login = Inr True"
  "message_name (kind_of demo_login) = ''Login''" "kind_of demo_login = KLogin"
  by (simp_all add: demo_login_def fits_def qt_lib_def validate_init_def current_version_def nonce_size_def)

theorem message_roundtrip_witness:
  "\<exists>r. read_name qt_lib (serialize qt_lib demo_login @ ''rest'') = Inr (''Login'', r) \<and>
    deserialize_message qt_lib KLogin r = Inr (demo_login, ''rest'')"
  using message_roundtrip [OF qt_msg.message_stream_axioms demo_login_ok(1,2), of "''rest''"]
  by (simp add: demo_login_ok(3,4))

section \<open>Classes of messages\<close>

lemma message_name_inj: "message_name k = message_name k' \<Longrightarrow> k = k'"
  by (cases k; cases k'; simp)

text \<open>What was written as one class of message is never taken for another.\<close>

lemma message_kind_unambiguous:
  assumes "message_stream l" "serialize l m = serialize l m'"
  shows "kind_of m = kind_of m'"
proof -
  have "read_name l (serialize l x) = Inr (message_name (kind_of x), put_message l x)" for x
  proof -
    have "fits (message_name (kind_of x))"
      by (cases "kind_of x") (simp_all add: fits_def)
    then show ?thesis
      using reads_backD [OF message_stream.array_back [OF assms(1)]] by (simp add: read_name_def serialize_def)
  qed
  then have "message_name (kind_of m) = message_name (kind_of m')"
    using assms(2) by (metis Inr_inject prod.inject)
  then show ?thesis by (rule message_name_inj)
qed

section \<open>Signatures\<close>

text \<open>C31: A signed message arrives with a signature that verifies, and a signature is only
  accepted when it verifies for exactly the bytes before it: changing the class, any
  property or the length of what was signed makes it a different text.\<close>

theorem signature_covers_message:
  assumes "message_stream l" "\<forall>v \<in> set (property_values m). fits_value l v" "validate m = Inr True"
    "fits sg" "whole = serialize l m @ put_array l sg @ rest"
  shows "\<exists>r. read_name l whole = Inr (message_name (kind_of m), r) \<and>
    deserialize_message l (kind_of m) r = Inr (m, put_array l sg @ rest) \<and>
    verify_signature l verify whole (put_array l sg @ rest) =
      (if verify (serialize l m) sg then Inr () else Inl SignatureInvalid)"
proof -
  obtain r where "read_name l (serialize l m @ put_array l sg @ rest) = Inr (message_name (kind_of m), r)"
    "deserialize_message l (kind_of m) r = Inr (m, put_array l sg @ rest)"
    using message_roundtrip_rest [OF assms(1-3)] by blast
  moreover have "get_array l (put_array l sg @ rest) = Some (sg, rest)"
    using reads_backD [OF message_stream.array_back [OF assms(1)]] assms(4) by simp
  ultimately show ?thesis
    by (auto simp: assms(5) verify_signature_def)
qed

theorem signature_covers_message_witness:
  "verify_signature qt_lib (\<lambda>t s. s = rev t) (serialize_signed qt_lib rev demo_login)
     (drop (length (serialize qt_lib demo_login)) (serialize_signed qt_lib rev demo_login)) = Inr ()"
proof -
  let ?t = "serialize qt_lib demo_login"
  have "length ?t < 200"
    by (simp add: serialize_def put_message_def demo_login_def qt_lib_def qt_5_11_def qt_put_bytes_def put_list_def)
  then have "fits (rev ?t)" by (simp add: fits_def)
  from signature_covers_message [OF qt_msg.message_stream_axioms demo_login_ok(1,2) this refl, of "[]" "\<lambda>t s. s = rev t"]
  show ?thesis by (auto simp add: serialize_signed_def Let_def)
qed

end
