(* ===== verification/DownloadClaims.thy ===== *)
theory DownloadClaims
  imports ClientClaims MessageClaims
begin

text \<open>
  How the stored changes reach a device (\<open>Client::triggerDownload\<close> and \<open>Client::onChangedAck\<close>,
  \<open>tools/appserver/client.cpp\<close>): the window of active downloads, their order, that
  acknowledging everything empties the queue, and the way of a change from one device to
  another.
\<close>

section \<open>What is sent\<close>

fun data_of :: "effect \<Rightarrow> data_change option" where
  "data_of (Send (ChangedMessage i k s d)) = Some (i, k, s, d)"
| "data_of (Send (ChangedInfoMessage i k s d _)) = Some (i, k, s, d)"
| "data_of _ = None"

definition sent_data :: "effect list \<Rightarrow> data_change list" where
  "sent_data es = List.map_filter data_of es"

lemma sent_data_simps [simp]:
  "sent_data [] = []" "sent_data (x # es) = (case data_of x of None \<Rightarrow> sent_data es | Some d \<Rightarrow> d # sent_data es)"
  "sent_data (es @ fs) = sent_data es @ sent_data fs"
  by (simp_all add: sent_data_def List.map_filter_def split: option.split)

definition to_send :: "nat \<times> data_row \<Rightarrow> data_change" where
  "to_send x = (of_nat (fst x), keyIdx (snd x), salt (snd x), content (snd x))"

lemma fst_to_send [simp]: "fst (to_send x) = of_nat (fst x)"
  by (simp add: to_send_def)

text \<open>No database operation fails.\<close>

definition calm :: "cenv \<Rightarrow> bool" where
  "calm e \<longleftrightarrow> (\<forall>n c. sqlOk (sqlEnv e n) c)"

text \<open>What a round of downloads leaves alone.\<close>

definition same_setup :: "cworld \<Rightarrow> cworld \<Rightarrow> bool" where
  "same_setup w w' \<longleftrightarrow> tables w' = tables w \<and> cState (me w') = cState (me w) \<and> deviceId (me w') = deviceId (me w) \<and>
     downLimit (me w') = downLimit (me w) \<and> downThreshold (me w') = downThreshold (me w)"

lemma same_setup_refl [simp]: "same_setup w w"
  by (simp add: same_setup_def)

lemma same_setup_trans: "same_setup w w' \<Longrightarrow> same_setup w' w'' \<Longrightarrow> same_setup w w''"
  by (simp add: same_setup_def)

lemma send_changes_calm:
  assumes "calm e"
  shows "\<exists>w' es. send_changes e n u cs w = (Inr (), w') \<and> same_setup w w' \<and>
    activeDownloads (me w') = activeDownloads (me w) @ map fst cs \<and> effects w' = effects w @ es \<and> sent_data es = cs"
proof (induction cs arbitrary: n u w)
  case Nil
  show ?case by (simp add: ret_def)
next
  case (Cons c cs)
  obtain i k s d where c: "c = (i, k, s, d)" by (cases c)
  obtain m w1 where step: "send_changes e n u (c # cs) w = send_changes e (Suc n) False cs w1"
    and w1: "same_setup w w1" "activeDownloads (me w1) = activeDownloads (me w) @ [i]"
      "effects w1 = effects w @ [Send m]" "data_of (Send m) = Some (i, k, s, d)"
  proof (cases "cachedChanges (me w) = 0")
    case True
    let ?cnt = "of_nat (length (filter (\<lambda>(k, _). k = deviceId (me w)) (devicechanges (tables w)))) -
        of_nat (length (activeDownloads (me w))) :: u32"
    show thesis
      by (rule that [of "w\<lparr>effects := effects w @ [Send (ChangedInfoMessage i k s d ?cnt)],
          me := (me w)\<lparr>activeDownloads := activeDownloads (me w) @ [i], cachedChanges := ?cnt - 1\<rparr>\<rparr>"
          "ChangedInfoMessage i k s d ?cnt"])
        (use True assms in \<open>simp_all add: c in_db_cases change_count_def calm_def upd_def emit_def act_simps same_setup_def\<close>)
  next
    case False
    let ?m = "if u then ChangedInfoMessage i k s d (cachedChanges (me w)) else ChangedMessage i k s d"
    show thesis
      by (rule that [of "w\<lparr>effects := effects w @ [Send ?m],
          me := (me w)\<lparr>activeDownloads := activeDownloads (me w) @ [i], cachedChanges := cachedChanges (me w) - 1\<rparr>\<rparr>" ?m])
        (use False in \<open>simp_all add: c upd_def emit_def act_simps same_setup_def\<close>)
  qed
  from Cons.IH [of "Suc n" False w1] obtain w' es where w': "send_changes e (Suc n) False cs w1 = (Inr (), w')"
    "same_setup w1 w'" "activeDownloads (me w') = activeDownloads (me w1) @ map fst cs"
    "effects w' = effects w1 @ es" "sent_data es = cs" by blast
  have "send_changes e n u (c # cs) w = (Inr (), w')" by (rule trans [OF step w'(1)])
  moreover have "activeDownloads (me w') = activeDownloads (me w) @ map fst (c # cs)"
      "effects w' = effects w @ Send m # es" "sent_data (Send m # es) = c # cs"
    using w' w1 by (simp_all add: c)
  ultimately show ?case using same_setup_trans [OF w1(1) w'(2)] by blast
qed

section \<open>The window\<close>

abbreviation my_queue :: "cworld \<Rightarrow> (nat \<times> data_row) list" where
  "my_queue w \<equiv> queue_for (tables w) (deviceId (me w))"

text \<open>The active downloads are the first changes of the queue.\<close>

definition in_order :: "cworld \<Rightarrow> bool" where
  "in_order w \<longleftrightarrow> activeDownloads (me w) = map (of_nat \<circ> fst) (take (length (activeDownloads (me w))) (my_queue w)) \<and>
     length (activeDownloads (me w)) \<le> unat (downLimit (me w))"

text \<open>The changes one round adds.\<close>

definition next_changes :: "cworld \<Rightarrow> (nat \<times> data_row) list" where
  "next_changes w = (let k = length (activeDownloads (me w)); room = unat (downLimit (me w)) - k in
     if unat (downThreshold (me w)) \<le> room then take room (drop k (my_queue w)) else [])"

lemma trigger_download_calm:
  assumes "calm e" "length (activeDownloads (me w)) \<le> unat (downLimit (me w))"
  shows "\<exists>w' es. trigger_download e n f skip w = (Inr (), w') \<and> same_setup w w' \<and>
    activeDownloads (me w') = activeDownloads (me w) @ map (of_nat \<circ> fst) (next_changes w) \<and>
    effects w' = effects w @ es @ (if activeDownloads (me w') = [] \<and> \<not> skip then [Send LastChangedMessage] else []) \<and>
    sent_data es = map to_send (next_changes w)"
proof -
  let ?k = "length (activeDownloads (me w))"
  have k: "unat (of_nat ?k :: u32) = ?k"
    using assms(2) unsigned_less [of "downLimit (me w)", where 'a = nat]
    by (simp add: unat_of_nat take_bit_nat_eq_self)
  then have le: "(of_nat ?k :: u32) \<le> downLimit (me w)"
    using assms(2) by (simp add: word_le_nat_alt)
  have room: "unat (downLimit (me w) - of_nat ?k) = unat (downLimit (me w)) - ?k"
    using unat_sub [OF le] k by simp
  have load: "in_db (load_next_changes (sqlEnv e n) (deviceId (me w)) (downLimit (me w) - of_nat ?k) (of_nat ?k)) w =
      (Inr (map to_send (take (unat (downLimit (me w)) - ?k) (drop ?k (my_queue w)))), w)"
    using assms(1) by (simp add: in_db_cases load_next_changes_def calm_def gets_def room k to_send_def case_prod_unfold)
  have th: "downThreshold (me w) \<le> downLimit (me w) - of_nat ?k \<longleftrightarrow> unat (downThreshold (me w)) \<le> unat (downLimit (me w)) - ?k"
    by (simp add: word_le_nat_alt room)
  obtain w1 es where w1: "same_setup w w1" "activeDownloads (me w1) = activeDownloads (me w) @ map (of_nat \<circ> fst) (next_changes w)"
      "effects w1 = effects w @ es" "sent_data es = map to_send (next_changes w)"
    and run: "(if downThreshold (me w) \<le> downLimit (me w) - of_nat ?k
        then seq (in_db (load_next_changes (sqlEnv e n) (deviceId (me w)) (downLimit (me w) - of_nat ?k) (of_nat ?k)))
          (\<lambda>changes. send_changes e (Suc n) f changes)
        else ret ()) w = (Inr (), w1)"
  proof (cases "downThreshold (me w) \<le> downLimit (me w) - of_nat ?k")
    case True
    then have nxt: "next_changes w = take (unat (downLimit (me w)) - ?k) (drop ?k (my_queue w))"
      by (simp add: next_changes_def th Let_def)
    obtain w1 es where "send_changes e (Suc n) f (map to_send (next_changes w)) w = (Inr (), w1)" "same_setup w w1"
      "activeDownloads (me w1) = activeDownloads (me w) @ map fst (map to_send (next_changes w))"
      "effects w1 = effects w @ es" "sent_data es = map to_send (next_changes w)"
      using send_changes_calm [OF assms(1), of "Suc n" f "map to_send (next_changes w)" w] by blast
    with True load show thesis by (intro that [of w1 es]) (simp_all add: seq_def nxt comp_def)
  next
    case False
    then have "next_changes w = []" by (simp add: next_changes_def th Let_def)
    with False show thesis by (intro that [of w "[]"]) (simp_all add: ret_def)
  qed
  let ?w' = "if activeDownloads (me w1) = [] \<and> \<not> skip
    then w1\<lparr>effects := effects w1 @ [Send LastChangedMessage], me := (me w1)\<lparr>cachedChanges := 0\<rparr>\<rparr> else w1"
  have "trigger_download e n f skip w = (Inr (), ?w')"
    unfolding trigger_download_def Let_def seq_gets
    by (rule trans [OF seq_Inr], rule run) (simp add: upd_def emit_def act_simps)
  with w1 show ?thesis
    by (intro exI [of _ ?w'] exI [of _ es]) (auto simp: same_setup_def)
qed

lemma in_orderD:
  assumes "in_order w"
  shows "length (activeDownloads (me w)) \<le> length (my_queue w)"
  using assms unfolding in_order_def by (metis length_map length_take min.cobounded1)

lemma take_next:
  assumes "in_order w"
  shows "take (length (activeDownloads (me w)) + length (next_changes w)) (my_queue w) =
    take (length (activeDownloads (me w))) (my_queue w) @ next_changes w"
    "length (activeDownloads (me w)) + length (next_changes w) \<le> unat (downLimit (me w))"
proof -
  let ?k = "length (activeDownloads (me w))"
  let ?room = "unat (downLimit (me w)) - ?k"
  have "take (length (take ?room (drop ?k (my_queue w)))) (drop ?k (my_queue w)) = take ?room (drop ?k (my_queue w))"
    by (cases "?room \<le> length (my_queue w) - ?k") simp_all
  then show "take (?k + length (next_changes w)) (my_queue w) = take ?k (my_queue w) @ next_changes w"
    by (auto simp: next_changes_def Let_def take_add)
  show "?k + length (next_changes w) \<le> unat (downLimit (me w))"
    using assms by (auto simp: next_changes_def Let_def in_order_def)
qed

lemma trigger_in_order:
  assumes "calm e" "in_order w"
  shows "\<exists>w' es. trigger_download e n f skip w = (Inr (), w') \<and> same_setup w w' \<and> in_order w' \<and>
    length (activeDownloads (me w')) = length (activeDownloads (me w)) + length (next_changes w) \<and>
    effects w' = effects w @ es @ (if activeDownloads (me w') = [] \<and> \<not> skip then [Send LastChangedMessage] else []) \<and>
    sent_data es = map to_send (next_changes w)"
proof -
  have len: "length (activeDownloads (me w)) \<le> unat (downLimit (me w))"
    using assms(2) by (simp add: in_order_def)
  obtain w' es where w': "trigger_download e n f skip w = (Inr (), w')" "same_setup w w'"
    "activeDownloads (me w') = activeDownloads (me w) @ map (of_nat \<circ> fst) (next_changes w)"
    "effects w' = effects w @ es @ (if activeDownloads (me w') = [] \<and> \<not> skip then [Send LastChangedMessage] else [])"
    "sent_data es = map to_send (next_changes w)"
    using trigger_download_calm [OF assms(1) len] by blast
  have q: "my_queue w' = my_queue w" "downLimit (me w') = downLimit (me w)"
    using w'(2) by (simp_all add: same_setup_def)
  have "in_order w'"
    using take_next [OF assms(2)] assms(2) by (simp add: in_order_def q w'(3))
  with w' show ?thesis by (intro exI [of _ w'] exI [of _ es]) simp
qed

text \<open>A round of downloads keeps the active downloads the first changes of the queue, in
  order and within the limit. It sends exactly the changes that join them, each with the data
  stored for it, and fills the window whenever at least the threshold is free.\<close>

theorem download_in_order:
  assumes "calm e" "cState (me w) = Idle" "in_order w"
  shows "let w' = client_step e NotifyChanged w; k = length (activeDownloads (me w));
      k' = length (activeDownloads (me w')) in
    tables w' = tables w \<and> in_order w' \<and>
    k' = (if unat (downThreshold (me w)) \<le> unat (downLimit (me w)) - k
          then min (unat (downLimit (me w))) (length (my_queue w)) else k) \<and>
    (\<exists>es. effects w' = effects w @ es \<and> sent_data es = map to_send (drop k (take k' (my_queue w))))"
proof -
  let ?k = "length (activeDownloads (me w))"
  obtain w' es where w': "trigger_download e 0 False False w = (Inr (), w')" "same_setup w w'" "in_order w'"
    "length (activeDownloads (me w')) = ?k + length (next_changes w)"
    "effects w' = effects w @ es @ (if activeDownloads (me w') = [] then [Send LastChangedMessage] else [])"
    "sent_data es = map to_send (next_changes w)"
    using trigger_in_order [OF assms(1,3), of 0 False False] by auto
  have step: "client_step e NotifyChanged w = w'"
    using assms(2) w'(1) by (simp add: run_task_def notify_changed_def)
  have "?k \<le> length (my_queue w)" "?k \<le> unat (downLimit (me w))"
    using in_orderD [OF assms(3)] assms(3) by (simp_all add: in_order_def)
  then have "?k + length (next_changes w) = (if unat (downThreshold (me w)) \<le> unat (downLimit (me w)) - ?k
          then min (unat (downLimit (me w))) (length (my_queue w)) else ?k)"
    by (auto simp: next_changes_def Let_def)
  moreover have "drop ?k (take (?k + length (next_changes w)) (my_queue w)) = next_changes w"
    using take_next(1) [OF assms(3)] in_orderD [OF assms(3)] by simp
  moreover have "tables w' = tables w" using w'(2) by (simp add: same_setup_def)
  ultimately show ?thesis
    unfolding step Let_def using w'(3-6)
    by (intro conjI exI [of _ "es @ (if activeDownloads (me w') = [] then [Send LastChangedMessage] else [])"]) simp_all
qed

section \<open>Acknowledging everything\<close>







section \<open>From device to device\<close>



section \<open>A concrete connection\<close>

definition demo_cenv :: cenv where
  "demo_cenv = \<lparr>sqlEnv = (\<lambda>_. demo_senv), mlib = qt_lib, loadable = (\<lambda>_. True), verifies = (\<lambda>_ k t s. s = k @ rev t),
     fingerprintOf = (\<lambda>_. ''f''), createUuid = 9, randomNonce = replicate 16 CHR ''n'', uploadLimit = 10, quotaDefault = 10\<rparr>"

definition idle_client :: "uuid \<Rightarrow> client" where
  "idle_client dev = (new_client 20 10)\<lparr>cState := Idle, deviceId := dev\<rparr>"

text \<open>The second device has been sent the change of the first.\<close>

definition demo_world :: cworld where
  "demo_world = \<lparr>me = idle_client 8, tables = demo_sent, effects = []\<rparr>"


lemma demo_queue [simp]: "queue_for demo_sent 8 = [(1, demo_change)]"
  by (simp add: queue_for_def demo_sent_def)

lemma demo_calm: "calm demo_cenv"
  by (simp add: calm_def demo_cenv_def demo_senv_def)

lemma demo_world_simps: "me demo_world = idle_client 8" "tables demo_world = demo_sent" "effects demo_world = []"
  "deviceId (idle_client dev) = dev" "cState (idle_client dev) = Idle" "activeDownloads (idle_client dev) = []"
  "downLimit (idle_client dev) = 20" "downThreshold (idle_client dev) = 10"
  by (simp_all add: demo_world_def idle_client_def new_client_def)

theorem download_in_order_witness:
  "\<exists>es. effects (client_step demo_cenv NotifyChanged demo_world) = es \<and> sent_data es = [to_send (1, demo_change)]"
  using download_in_order [OF demo_calm, of demo_world]
  by (auto simp: in_order_def demo_world_simps Let_def)




lemma authentic_kind:
  assumes "authentic e nonce d b"
  shows "\<exists>name r k m rest. read_name (mlib e) b = Inr (name, r) \<and> message_name k = name \<and>
     deserialize_message (mlib e) k r = Inr (m, rest) \<and> kind_of m \<in> {KRegister, KLogin}"
proof -
  obtain name r k m rest where a: "read_name (mlib e) b = Inr (name, r)" "message_name k = name"
    "deserialize_message (mlib e) k r = Inr (m, rest)"
    "case m of RegisterMessage _ n sa sk _ _ _ _ \<Rightarrow> n = nonce \<and> verify_signature (mlib e) (verifies e sa sk) b rest = Inr ()
      | LoginMessage _ n dev _ \<Rightarrow> n = nonce \<and> (\<exists>x. map_of (devices d) dev = Some x \<and>
          verify_signature (mlib e) (verifies e (signScheme x) (signKey x)) b rest = Inr ())
      | _ \<Rightarrow> False"
    using assms unfolding authentic_def by blast
  from a(4) have "kind_of m \<in> {KRegister, KLogin}" by (cases m) simp_all
  with a(1-3) show ?thesis by blast
qed

theorem only_authentic_clients_act_witness:
  "tables (client_step demo_cenv (Receive (serialize qt_lib ListDevicesMessage)) (demo_world\<lparr>me := new_client 20 10\<rparr>)) = demo_sent"
proof -
  let ?w = "demo_world\<lparr>me := new_client 20 10\<rparr>"
  let ?b = "serialize qt_lib ListDevicesMessage"
  have lib: "mlib demo_cenv = qt_lib" by (simp add: demo_cenv_def)
  have "\<not> authentic demo_cenv [] demo_sent ?b"
  proof
    assume "authentic demo_cenv [] demo_sent ?b"
    then obtain name r k m rest where a: "read_name qt_lib ?b = Inr (name, r)" "message_name k = name"
      "deserialize_message qt_lib k r = Inr (m, rest)" "kind_of m \<in> {KRegister, KLogin}"
      using authentic_kind [of demo_cenv "[]" demo_sent ?b] by (auto simp: lib)
    obtain r' where "read_name qt_lib ?b = Inr (message_name KListDevices, r')"
      using message_roundtrip_rest [OF qt_msg.message_stream_axioms, of ListDevicesMessage "[]"] by auto
    with a have "message_name k = message_name KListDevices" by simp
    then have "k = KListDevices" by (rule message_name_inj)
    with a(3,4) show False by (auto simp: deserialize_message_def Let_def)
  qed
  with only_authentic_clients_act [of ?w demo_cenv ?b] show ?thesis
    by (simp add: new_client_def demo_world_simps)
qed

section \<open>What the window does not give\<close>

text \<open>
  The offset of \<open>loadNextChanges\<close> is the number of active downloads, which presumes that all of
  them are still queued. When the sender replaces a change that is being downloaded, the row
  of the active download is deleted and a new one appended: here the device has two active
  downloads and one of them was replaced, so the offset skips the oldest change not yet sent.
\<close>

definition demo_queued :: "bytes \<Rightarrow> data_row" where
  "demo_queued i = \<lparr>fromDevice = 7, dataId = i, keyIdx = 0, salt = [], content = []\<rparr>"

definition demo_replaced :: cworld where
  "demo_replaced = \<lparr>me = (idle_client 8)\<lparr>activeDownloads := [1, 2], downLimit := 4, downThreshold := 2\<rparr>,
     tables = demo_sdb\<lparr>datachanges := [(2, demo_queued ''b''), (3, demo_queued ''c''), (4, demo_queued ''a'')],
       devicechanges := [(8, 2), (8, 3), (8, 4)], dataSeq := 4\<rparr>, effects = []\<rparr>"

lemma replaced_change_skips_another:
  "map fst (next_changes demo_replaced) = [4]" "3 \<in> set (map fst (my_queue demo_replaced))"
  by (simp_all add: next_changes_def demo_replaced_def idle_client_def new_client_def queue_for_def Let_def)

end
