(* ===== verification/Divergences.thy ===== *)
theory Divergences
  imports UploadClaims EventClaims DownloadClaims
begin

text \<open>
  Behaviour of the code that differs from what its comments, names or documentation promise,
  each shown on the model. Others stand beside the properties they bound:
  \<open>skip_obsolete_hides_removals\<close> (\<open>EventClaims\<close>), \<open>removed_device_keeps_quota\<close> and
  \<open>device_change_to_foreign_user\<close> (\<open>ServerClaims\<close>), \<open>replaced_change_skips_another\<close>
  (\<open>DownloadClaims\<close>).
\<close>

text \<open>The text that is hashed for a dataset does not separate its parts: different data has the
  same checksum, whatever the hash function, and a conflict between them goes unnoticed.\<close>

lemma json_hash_ambiguous:
  "json_hash h [(''tags'', JArray [JString ''a'', JString ''b''])] = json_hash h [(''tags'', JArray [JString ''ab''])]"
  "json_hash h [(''name'', JNull)] = json_hash h [(''name'', JString ''null'')]"
  by (simp_all add: json_hash_def)

text \<open>The same holds for the hash that stands for a key on the server.\<close>

lemma hashed_ambiguous:
  "hashed h \<lparr>typeName = ''Data'', keyId = ''21''\<rparr> = hashed h \<lparr>typeName = ''Data2'', keyId = ''1''\<rparr>"
  by (simp add: hashed_def)

text \<open>\<open>contains\<close> also answers yes for a dataset that was removed, as long as its deletion mark is
  stored.\<close>

lemma contains_removed:
  assumes "row (db s) key = Some x" "dataFile x = None" "contains e key s = (Inr b, t)"
  shows "b"
  using assms by (auto simp: contains_def act_simps split: if_splits elim: seq_InrE)

end
