(* ===== verification/UploadDrain.thy ===== *)
theory UploadDrain
  imports UploadClaims
begin

text \<open>
  That everything is uploaded in the end (\<open>src/datasync/changecontroller.cpp\<close>): uploading is switched on, the event loop runs the calls
  the uploader has queued, and the server answers the messages it has been sent, in any order.
\<close>

section \<open>Answers\<close>

definition messages :: "upload_ctl \<Rightarrow> change_signal list" where
  "messages c = filter (\<lambda>x. \<not> is_notice x) (uploadOut c)"

fun msg_key :: "change_signal \<Rightarrow> cached_key" where
  "msg_key (UploadChange h _) = (h, 0)"
| "msg_key (UploadDeviceChange h dev _) = (h, dev)"
| "msg_key _ = ([], 0)"

abbreviation sent :: "upload_ctl \<Rightarrow> cached_key list" where
  "sent c \<equiv> map msg_key (messages c)"

fun answer :: "env \<Rightarrow> change_signal \<Rightarrow> upload_ctl \<times> store \<Rightarrow> upload_ctl \<times> store" where
  "answer e (UploadChange h _) cs = upload_done e h cs"
| "answer e (UploadDeviceChange h dev _) cs = device_upload_done e h dev cs"
| "answer e _ cs = cs"

text \<open>One step of the environment: a call that is queued runs, or a message that was sent and is not in the list of answered ones
  is answered. Nothing else calls the uploader.\<close>

inductive upload_step :: "env \<Rightarrow> qprims \<Rightarrow> nat list \<times> upload_ctl \<times> store \<Rightarrow> nat list \<times> upload_ctl \<times> store \<Rightarrow> bool" for e p where
  queued_runs: "callQueue c \<noteq> [] \<Longrightarrow> upload_step e p (as, c, s) (as, run_queued e p (c, s))"
| server_answers: "i < length (messages c) \<Longrightarrow> i \<notin> set as \<Longrightarrow>
    upload_step e p (as, c, s) (i # as, answer e (messages c ! i) (c, s))"

section \<open>Pending changes\<close>

definition todo :: "db \<Rightarrow> nat" where
  "todo d = length (filter (\<lambda>(k, r). changed r) (data_index d)) + length (device_uploads d)"

text \<open>Every active upload is of a pending row at its present version.\<close>

definition uploads_current :: "env \<Rightarrow> upload_ctl \<times> store \<Rightarrow> bool" where
  "uploads_current e cs \<longleftrightarrow> distinct_keys (activeUploads (fst cs)) \<and> db_inv (db (snd cs)) \<and>
     hash_ok e (db (snd cs)) \<and>
     (\<forall>(ck, info) \<in> set (activeUploads (fst cs)). \<exists>r \<in> set (pending (db (snd cs))). ck = row_key e r \<and> info = row_info r)"

lemma uploads_current_next:
  assumes "uploads_current e cs"
  shows "uploads_current e (upload_next e p b cs)" and "snd (upload_next e p b cs) = snd cs"
    and "uploadLimit (fst (upload_next e p b cs)) = uploadLimit (fst cs)"
proof -
  obtain c s c' s' where cs: "cs = (c, s)" "upload_next e p b (c, s) = (c', s')" by (metis surj_pair)
  have "distinct_keys (activeUploads c)" using assms by (simp add: uploads_current_def cs)
  note g = upload_next_grows [OF this cs(2)]
  then show "snd (upload_next e p b cs) = snd cs" "uploadLimit (fst (upload_next e p b cs)) = uploadLimit (fst cs)"
    by (simp_all add: cs)
  obtain new where new: "activeUploads c' = activeUploads c @ map (\<lambda>r. (row_key e r, row_info r)) new"
    "set new \<subseteq> set (pending (db s))" using g by blast
  from assms g new show "uploads_current e (upload_next e p b cs)"
    unfolding uploads_current_def cs by (auto simp: cs)
qed

lemma length_filter_update:
  "\<lbrakk>distinct_keys t; map_of t k = Some r; Q r; \<not> Q (f r)\<rbrakk> \<Longrightarrow>
   length (filter (\<lambda>(k', r'). Q r') (update_rows (\<lambda>k' r'. k' = k \<and> V r') f t)) < length (filter (\<lambda>(k', r'). Q r') t)
   \<or> \<not> V r"
proof (induction t)
  case (Cons x t)
  obtain k' r' where x: "x = (k', r')" by fastforce
  show ?case
  proof (cases "k' = k")
    case True
    then have "\<forall>(k'', v) \<in> set t. \<not> (k'' = k \<and> V v)" using Cons.prems(1) x by force
    from update_rows_none [OF this, of f] Cons.prems True show ?thesis
      by (auto simp: x update_rows_def)
  next
    case False
    with Cons show ?thesis by (auto simp: x update_rows_def)
  qed
qed simp

lemma length_filter_delete:
  "\<lbrakk>map_of t k = Some r; Q r; P k r\<rbrakk> \<Longrightarrow>
   length (filter (\<lambda>(k', r'). Q r') (delete_rows P t)) < length (filter (\<lambda>(k', r'). Q r') t)"
proof (induction t)
  case (Cons x t)
  obtain k' r' where x: "x = (k', r')" by fastforce
  have le: "length (filter (\<lambda>(k', r'). Q r') (delete_rows P u)) \<le> length (filter (\<lambda>(k', r'). Q r') u)" for u
    by (induction u) (auto simp: delete_rows_def)
  from le [of t] Cons show ?case
    by (cases "k' = k") (auto simp: x delete_rows_def split: if_splits)
qed simp

text \<open>What is marked for sending; a removal is sent to all devices before to a single one.\<close>

definition to_send :: "db \<Rightarrow> object_key \<Rightarrow> uuid \<Rightarrow> bool" where
  "to_send d k dev \<longleftrightarrow> dev = 0 \<and> (\<exists>x. row d k = Some x \<and> changed x) \<or> (k, dev) \<in> set (device_uploads d)"

definition is_pending :: "db \<Rightarrow> object_key \<Rightarrow> uuid \<Rightarrow> index_entry \<Rightarrow> bool" where
  "is_pending d k dev x \<longleftrightarrow> row d k = Some x \<and>
     (dev = 0 \<and> changed x \<or> (k, dev) \<in> set (device_uploads d) \<and> \<not> (changed x \<and> dataFile x = None))"

lemma pending_iff:
  assumes "db_inv d"
  shows "(k, v, f, dev) \<in> set (pending d) \<longleftrightarrow> (\<exists>x. is_pending d k dev x \<and> v = version x \<and> f = dataFile x)"
proof -
  have keys: "distinct_keys (data_index d)" using assms by (simp add: db_inv_def)
  show ?thesis
    unfolding pending_def set_append Un_iff set_pending is_pending_def map_of_mem_iff [OF keys] by blast
qed

lemma todo_uploads: "todo (d\<lparr>device_uploads := u\<rparr>) = length (filter (\<lambda>(k, r). changed r) (data_index d)) + length u"
  by (simp add: todo_def)

text \<open>Marking a sent row leaves all other pending rows pending.\<close>

lemma marked_pending:
  assumes inv: "db_inv d" and k: "is_pending d k 0 x" "(k, 0) \<notin> set (device_uploads d)"
    and d': "d' = (if dataFile x = None \<and> \<not> pd
      then delete_index (\<lambda>k' r. k' = k \<and> version r = version x \<and> dataFile r = None) d
      else update_index n (\<lambda>k' r. k' = k \<and> version r = version x) (\<lambda>r. r\<lparr>changed := False\<rparr>) d)"
  shows "todo d' < todo d" and "db_inv d'"
    and "set (device_uploads d') \<subseteq> set (device_uploads d)" "fst ` set (data_index d') \<subseteq> fst ` set (data_index d)"
    and "is_pending d k' dev y \<Longrightarrow> (k', dev) \<noteq> (k, 0) \<Longrightarrow> \<exists>y'. is_pending d' k' dev y' \<and> version y' = version y \<and> dataFile y' = dataFile y"
    and "to_send d' k' dev \<Longrightarrow> to_send d k' dev \<and> (k', dev) \<noteq> (k, 0)"
    and "row d' k' = Some y \<Longrightarrow> \<exists>y0. row d k' = Some y0 \<and> dataFile y0 = dataFile y"
proof -
  have keys: "distinct_keys (data_index d)" using inv by (simp add: db_inv_def)
  show "row d' k' = Some y \<Longrightarrow> \<exists>y0. row d k' = Some y0 \<and> dataFile y0 = dataFile y"
    using keys by (auto simp: d' delete_index_row split: if_splits option.splits)
  have row: "row d k = Some x" and ch: "changed x" using k by (auto simp: is_pending_def)
  show "db_inv d'"
    unfolding d' using inv by (auto intro!: delete_index_inv update_index_inv simp: entry_ok_def)
  have gone: "is_pending d' k' dev y" if "k' \<noteq> k" "is_pending d k' dev y" for k' dev y
  proof -
    have r: "row d' k' = row d k'"
      using that(1) keys by (cases "row d k'") (auto simp: d' delete_index_row)
    have "(k', dev) \<in> set (device_uploads d) \<longrightarrow> (k', dev) \<in> set (device_uploads d')"
    proof (cases "dataFile x = None \<and> \<not> pd")
      case True
      have "map_of (delete_rows (\<lambda>k' r. k' = k \<and> version r = version x \<and> dataFile r = None) (data_index d)) k' \<noteq> None"
        using that keys by (auto simp: is_pending_def)
      with True show ?thesis by (simp add: d' delete_index_def Let_def map_of_eq_None_iff)
    qed (auto simp: d')
    with that(2) r show ?thesis by (auto simp: is_pending_def)
  qed
  show "is_pending d k' dev y \<Longrightarrow> (k', dev) \<noteq> (k, 0) \<Longrightarrow>
      \<exists>y'. is_pending d' k' dev y' \<and> version y' = version y \<and> dataFile y' = dataFile y"
  proof (cases "k' = k")
    case True
    assume a: "is_pending d k' dev y" "(k', dev) \<noteq> (k, 0)"
    with True row ch have "y = x" "(k, dev) \<in> set (device_uploads d)" "dataFile x \<noteq> None"
      by (auto simp: is_pending_def)
    with True row have "is_pending d' k dev (x\<lparr>changed := False\<rparr>)"
      by (auto simp: is_pending_def d')
    with True \<open>y = x\<close> show ?thesis by (intro exI [where x = "x\<lparr>changed := False\<rparr>"]) simp
  qed (use gone in blast)
  have sub: "set (device_uploads d') \<subseteq> set (device_uploads d)"
    unfolding d' by (auto simp: delete_index_def Let_def)
  have here: "row d' k = (if dataFile x = None \<and> \<not> pd then None else Some (x\<lparr>changed := False\<rparr>))"
    using row by (simp add: d' delete_index_row keys)
  have there: "row d' k' = row d k'" if "k' \<noteq> k" for k'
    using that keys by (cases "row d k'") (auto simp: d' delete_index_row)
  have "k' \<noteq> k \<and> row d k' = Some z" if "row d' k' = Some z" "changed z" for k' z
    using that here there [of k'] by (cases "k' = k") (auto split: if_splits)
  with sub k(2) show "to_send d' k' dev \<Longrightarrow> to_send d k' dev \<and> (k', dev) \<noteq> (k, 0)"
    unfolding to_send_def by blast
  show "todo d' < todo d"
  proof (cases "dataFile x = None \<and> \<not> pd")
    case True
    let ?P = "\<lambda>k' r. k' = k \<and> version r = version x \<and> dataFile r = None"
    have "length (filter (\<lambda>(k', r'). changed r') (delete_rows ?P (data_index d))) <
        length (filter (\<lambda>(k', r'). changed r') (data_index d))"
      by (rule length_filter_delete [OF row, where Q = changed, OF ch]) (use True in simp)
    moreover have "length (filter Q (device_uploads d)) \<le> length (device_uploads d)" for Q
      by (rule length_filter_le)
    ultimately show ?thesis
      using True by (simp add: d' todo_def delete_index_def Let_def add_less_le_mono)
  next
    case False
    have "length (filter (\<lambda>(k', r'). changed r') (update_rows (\<lambda>k' r'. k' = k \<and> version r' = version x)
        (\<lambda>r. r\<lparr>changed := False\<rparr>) (data_index d))) < length (filter (\<lambda>(k', r'). changed r') (data_index d))"
      using length_filter_update [OF keys row, of changed "\<lambda>r. r\<lparr>changed := False\<rparr>" "\<lambda>r. version r = version x"] ch
      by simp
    with False show ?thesis by (auto simp: d' todo_def update_index_def)
  qed
  show "set (device_uploads d') \<subseteq> set (device_uploads d)" "fst ` set (data_index d') \<subseteq> fst ` set (data_index d)"
    using arg_cong [OF update_index_keys, of set] unfolding d' set_map
    by (auto simp: delete_index_def Let_def)
qed

lemma announced_pending:
  assumes "db_inv d" "(k, dev) \<in> set (device_uploads d)" "dev \<noteq> 0"
    and d': "d' = d\<lparr>device_uploads := filter (\<lambda>x. x \<noteq> (k, dev)) (device_uploads d)\<rparr>"
  shows "todo d' < todo d" and "db_inv d'"
    and "is_pending d k' dev' y \<Longrightarrow> (k', dev') \<noteq> (k, dev) \<Longrightarrow> is_pending d' k' dev' y"
    and "to_send d' k' dev' \<Longrightarrow> to_send d k' dev' \<and> (k', dev') \<noteq> (k, dev)"
proof -
  show "to_send d' k' dev' \<Longrightarrow> to_send d k' dev' \<and> (k', dev') \<noteq> (k, dev)"
    using assms(3) by (auto simp: to_send_def d')
  have "length (filter (\<lambda>x. x \<noteq> (k, dev)) (device_uploads d)) < length (device_uploads d)"
    by (rule length_filter_less [OF assms(2)]) simp
  then show "todo d' < todo d" by (simp add: d' todo_def)
  show "db_inv d'" unfolding d' by (rule db_inv_uploads [OF assms(1)]) (use assms(1) in \<open>auto simp: db_inv_def\<close>)
  show "is_pending d k' dev' y \<Longrightarrow> (k', dev') \<noteq> (k, dev) \<Longrightarrow> is_pending d' k' dev' y"
    by (auto simp: is_pending_def d')
qed

section \<open>One answer\<close>

text \<open>The confirmation of one active upload: what is marked is exactly that less, the rest is as pending as before.\<close>

definition confirmed :: "object_key \<Rightarrow> uuid \<Rightarrow> store \<Rightarrow> store \<Rightarrow> bool" where
  "confirmed k dev s t \<longleftrightarrow> todo (db t) < todo (db s) \<and> db_inv (db t) \<and> files t = files s \<and>
     set (device_uploads (db t)) \<subseteq> set (device_uploads (db s)) \<and>
     fst ` set (data_index (db t)) \<subseteq> fst ` set (data_index (db s)) \<and>
     (\<forall>k' dev' y. is_pending (db s) k' dev' y \<longrightarrow> (k', dev') \<noteq> (k, dev) \<longrightarrow>
        (\<exists>y'. is_pending (db t) k' dev' y' \<and> version y' = version y \<and> dataFile y' = dataFile y)) \<and>
     (\<forall>k' dev'. to_send (db t) k' dev' \<longrightarrow> to_send (db s) k' dev' \<and> (k', dev') \<noteq> (k, dev)) \<and>
     (\<forall>k' y. row (db t) k' = Some y \<longrightarrow> (\<exists>y0. row (db s) k' = Some y0 \<and> dataFile y0 = dataFile y))"

definition confirm :: "env \<Rightarrow> cached_key \<Rightarrow> upload_ctl \<times> store \<Rightarrow> upload_ctl \<times> store" where
  "confirm e key cs = (if snd key = 0 then upload_done e (fst key) cs else device_upload_done e (fst key) (snd key) cs)"

lemma confirm_confirms:
  assumes "\<And>c. ok e c" "uploads_current e (c, s)" "key \<in> fst ` set (activeUploads c)"
  obtains k dev x t where "confirm e key (c, s) = (finish_upload (c\<lparr>activeUploads := AList.delete key (activeUploads c)\<rparr>) (Inr ()), t)"
    "key = cached_key e k dev" "is_pending (db s) k dev x" "confirmed k dev s t"
proof -
  obtain h dev where hk: "key = (h, dev)" by fastforce
  have inv: "db_inv (db s)" and hash: "hash_ok e (db s)" and keys: "distinct_keys (activeUploads c)"
    using assms(2) by (auto simp: uploads_current_def)
  obtain info where act: "(key, info) \<in> set (activeUploads c)" using assms(3) by auto
  then obtain k v f where r: "(k, v, f, dev) \<in> set (pending (db s))" "key = row_key e (k, v, f, dev)"
      "info = row_info (k, v, f, dev)"
    using assms(2) hk by (fastforce simp: uploads_current_def row_key_def cached_key_def)
  then obtain x where x: "is_pending (db s) k dev x" "v = version x" "f = dataFile x"
    using pending_iff [OF inv] by blast
  have info: "uiKey info = k" "uiVersion info = version x" "uiDelete info = (dataFile x = None)"
    using r(3) x by (simp_all add: row_info_def)
  have key: "key = cached_key e k dev" using r(2) by (simp add: row_key_def)
  have found: "map_of (activeUploads c) key = Some info"
    by (rule map_of_is_SomeI [OF keys act])
  show thesis
  proof (cases "dev = 0")
    case True
    obtain t where t: "mark_unchanged e k (version x) (dataFile x = None) s = (Inr (), t)"
      using assms(1)
      by (cases "dataFile x = None \<and> \<not> persistDeleted e")
         (auto simp: mark_unchanged_def mark_unchanged_impl_def modify_def)
    have cs: "confirm e key (c, s) = (finish_upload (c\<lparr>activeUploads := AList.delete key (activeUploads c)\<rparr>) (Inr ()), t)"
      using True found t info hk by (simp add: confirm_def upload_done_def)
    have nu: "(k, 0) \<notin> set (device_uploads (db s))"
      using hash by (auto simp: hash_ok_def)
    note te = mark_unchanged_Inr [OF t]
    have dt: "db t = (if dataFile x = None \<and> \<not> persistDeleted e
      then delete_index (\<lambda>k' r. k' = k \<and> version r = version x \<and> dataFile r = None) (db s)
      else update_index (now e) (\<lambda>k' r. k' = k \<and> version r = version x) (\<lambda>r. r\<lparr>changed := False\<rparr>) (db s))" "files t = files s"
      by (simp_all add: te update_db_def)
    note m = marked_pending [OF inv x(1) [unfolded True] nu dt(1)]
    have "confirmed k dev s t"
      unfolding confirmed_def True by (intro conjI allI impI m(1-4) dt(2)) (use m(5,6,7) in blast)+
    with that cs key x(1) show thesis by blast
  next
    case False
    then have dev: "(k, dev) \<in> set (device_uploads (db s))" using x by (simp add: is_pending_def)
    let ?t = "update_db (\<lambda>d. d\<lparr>device_uploads := filter (\<lambda>x. x \<noteq> (k, dev)) (device_uploads d)\<rparr>) s"
    have "remove_device_change e k dev s = (Inr (), ?t)"
      using assms(1) by (simp add: remove_device_change_def modify_def)
    then have cs: "confirm e key (c, s) = (finish_upload (c\<lparr>activeUploads := AList.delete key (activeUploads c)\<rparr>) (Inr ()), ?t)"
      using False found info hk by (simp add: confirm_def device_upload_done_def)
    have dt: "db ?t = (db s)\<lparr>device_uploads := filter (\<lambda>x. x \<noteq> (k, dev)) (device_uploads (db s))\<rparr>" by simp
    note m = announced_pending [OF inv dev False dt]
    have "set (device_uploads (db ?t)) \<subseteq> set (device_uploads (db s))" "data_index (db ?t) = data_index (db s)" "files ?t = files s"
      by (auto simp: update_db_def)
    with m have "confirmed k dev s ?t" unfolding confirmed_def by auto
    with that cs key x(1) show thesis by blast
  qed
qed

text \<open>The keys of marked rows are as distinct as the rows.\<close>

lemma row_key_inj:
  assumes "hash_ok e d" "row d k \<noteq> None" "row d k' \<noteq> None" "cached_key e k dev = cached_key e k' dev'"
  shows "k = k' \<and> dev = dev'"
proof -
  have "k \<in> fst ` set (data_index d)" "k' \<in> fst ` set (data_index d)"
    using assms(2,3) by (metis map_of_eq_None_iff)+
  with assms(1,4) show ?thesis by (auto simp: cached_key_def hash_ok_def inj_on_def)
qed

lemma to_send_row: "db_inv d \<Longrightarrow> to_send d k dev \<Longrightarrow> row d k \<noteq> None"
  by (auto simp: to_send_def db_inv_def)

lemma pending_to_send: "is_pending d k dev x \<Longrightarrow> to_send d k dev"
  by (auto simp: is_pending_def to_send_def)

lemma pending_keys: "db_inv d \<Longrightarrow> row_key e ` set (pending d) = {cached_key e k dev | k dev. \<exists>x. is_pending d k dev x}"
proof -
  assume inv: "db_inv d"
  have mem: "x \<in> row_key e ` S \<longleftrightarrow> (\<exists>k v f dev. (k, v, f, dev) \<in> S \<and> x = cached_key e k dev)" for x and S :: "change_row set"
    by (force simp: row_key_def)
  show ?thesis
  proof (rule set_eqI)
    fix x
    show "x \<in> row_key e ` set (pending d) \<longleftrightarrow> x \<in> {cached_key e k dev | k dev. \<exists>x. is_pending d k dev x}"
      unfolding mem pending_iff [OF inv] by blast
  qed
qed

lemma confirmed_current:
  assumes "uploads_current e (c, s)" "is_pending (db s) k dev x" "confirmed k dev s t"
    and "activeUploads c1 = AList.delete (cached_key e k dev) (activeUploads c)"
  shows "uploads_current e (c1, t)"
proof -
  note t = assms(3) [unfolded confirmed_def]
  have inv: "db_inv (db s)" and hash: "hash_ok e (db s)" and keys: "distinct_keys (activeUploads c)"
    using assms(1) by (auto simp: uploads_current_def)
  have invt: "db_inv (db t)" using t by blast
  show ?thesis
    unfolding uploads_current_def fst_conv snd_conv
  proof (intro conjI ballI)
    show "distinct_keys (activeUploads c1)" using assms(4) delete_bound [OF keys] by simp
    show "db_inv (db t)" by (rule invt)
    show "hash_ok e (db t)"
      using hash t unfolding hash_ok_def by (meson inj_on_subset subsetD)
  next
    fix z
    assume z: "z \<in> set (activeUploads c1)"
    obtain ck i where z': "z = (ck, i)" by fastforce
    from z have m: "(ck, i) \<in> set (activeUploads c)" "ck \<noteq> cached_key e k dev"
      by (auto simp: assms(4) z' AList.delete_eq)
    then obtain r' where r': "r' \<in> set (pending (db s))" "ck = row_key e r'" "i = row_info r'"
      using assms(1) by (fastforce simp: uploads_current_def)
    obtain k' v' f' dev' where r'': "r' = (k', v', f', dev')" by (cases r')
    then obtain y where y: "is_pending (db s) k' dev' y" "v' = version y" "f' = dataFile y"
      using r'(1) pending_iff [OF inv] by blast
    have "(k', dev') \<noteq> (k, dev)"
      using m(2) r' r'' by (auto simp: row_key_def)
    with t y have "\<exists>y'. is_pending (db t) k' dev' y' \<and> version y' = version y \<and> dataFile y' = dataFile y" by blast
    then have "r' \<in> set (pending (db t))"
      using y r'' pending_iff [OF invt] by metis
    with r' show "case z of (ck, info) \<Rightarrow> \<exists>r \<in> set (pending (db t)). ck = row_key e r \<and> info = row_info r"
      by (auto simp: z')
  qed
qed

section \<open>One round\<close>

definition window_full :: "env \<Rightarrow> upload_ctl \<times> store \<Rightarrow> bool" where
  "window_full e cs \<longleftrightarrow> uploadLimit (fst cs) \<le> active_count (fst cs) \<or>
     (\<forall>r \<in> set (pending (db (snd cs))). map_of (activeUploads (fst cs)) (row_key e r) \<noteq> None)"

lemma window_full_next:
  assumes "\<And>c. ok e c" "uploads_current e cs"
  shows "window_full e (upload_next e p b cs)"
proof -
  obtain c s c' s' where cs: "cs = (c, s)" "upload_next e p b (c, s) = (c', s')" by (metis surj_pair)
  have d: "distinct_keys (activeUploads c)" "db_inv (db s)" "hash_ok e (db s)"
    using assms(2) by (simp_all add: uploads_current_def cs)
  from upload_next_full [OF assms(1) d cs(2)] upload_next_grows [OF d(1) cs(2)] show ?thesis
    by (simp add: window_full_def cs)
qed

lemma drained:
  assumes "uploads_current e cs" "window_full e cs" "activeUploads (fst cs) = []" "0 < uploadLimit (fst cs)"
  shows "pending (db (snd cs)) = []"
  using assms by (cases "pending (db (snd cs))") (auto simp: window_full_def)

text \<open>Without failing calls and with readable files a round sends one message for each upload it starts, and queues nothing.\<close>

definition readable :: "env \<Rightarrow> store \<Rightarrow> bool" where
  "readable e s \<longleftrightarrow> (\<forall>k x f. row (db s) k = Some x \<longrightarrow> dataFile x = Some f \<longrightarrow>
     (\<exists>obj. map_of (files s) (file_path e k f) = Some (JObject obj)))"

definition to_devices :: "upload_ctl \<Rightarrow> bool" where
  "to_devices c \<longleftrightarrow> (\<forall>h b. UploadDeviceChange h 0 b \<notin> set (uploadOut c))"

lemma messages_append: "uploadOut c' = uploadOut c @ out \<Longrightarrow> list_all is_notice out \<Longrightarrow> messages c' = messages c"
  by (simp add: messages_def filter_empty_conv list_all_iff)

lemma notices_to_devices: "uploadOut c' = uploadOut c @ out \<Longrightarrow> list_all is_notice out \<Longrightarrow> to_devices c \<Longrightarrow> to_devices c'"
  by (auto simp: to_devices_def list_all_iff)

definition sends_for :: "upload_ctl \<Rightarrow> upload_ctl \<Rightarrow> bool" where
  "sends_for c0 c \<longleftrightarrow> (\<exists>ks. map fst (activeUploads c) = map fst (activeUploads c0) @ ks \<and> sent c = sent c0 @ ks) \<and>
     callQueue c = callQueue c0 \<and> to_devices c"

lemma same_table_sends: "same_table c c' \<Longrightarrow> sends_for c0 c \<Longrightarrow> sends_for c0 c'"
  unfolding same_table_def sends_for_def using messages_append [of c' c] notices_to_devices [of c' c] by auto

lemma sends_refl: "to_devices c \<Longrightarrow> sends_for c c"
  by (simp add: sends_for_def)

lemma visit_sends:
  assumes "\<And>f. fst (snd (snd r)) = Some f \<Longrightarrow> fst (read_json e (fst r) f s) \<notin> range Inl" "sends_for c0 c"
    and "upload_visit e p s ep r (c, st) = (go, c', st')"
  shows "sends_for c0 c'"
proof (cases "map_of (activeUploads c) (row_key e r)")
  case (Some i)
  with assms(2,3) show ?thesis using upload_visit_known [of c e r p s ep st] by auto
next
  case None
  obtain k v f dev where r: "r = (k, v, f, dev)" by (cases r)
  have rd: "\<exists>j. fst (read_json e k b s) = Inr j" if "f = Some b" for b
    using assms(1) [of b] that r by (cases "fst (read_json e k b s)") auto
  have st: "messages (signal_started st ep c) = messages c" "to_devices c \<Longrightarrow> to_devices (signal_started st ep c)"
    by (auto simp: signal_started_def messages_def to_devices_def)
  have "\<exists>b. uploadOut c' = uploadOut (signal_started st ep c) @
      [if dev = 0 then UploadChange (hashed (hl e) k) b else UploadDeviceChange (hashed (hl e) k) dev b] \<and> callQueue c' = callQueue c"
    using assms(3) None rd
    by (auto simp: upload_visit_def r row_key_def cached_key_def Let_def split: option.splits sum.splits)
  then obtain b where b: "uploadOut c' = uploadOut (signal_started st ep c) @
      [if dev = 0 then UploadChange (hashed (hl e) k) b else UploadDeviceChange (hashed (hl e) k) dev b]" "callQueue c' = callQueue c"
    by blast
  then have "sent c' = sent c @ [row_key e r]" "to_devices c \<Longrightarrow> to_devices c'"
    using st by (auto simp: messages_def r row_key_def cached_key_def to_devices_def)
  with assms(2) upload_visit_new(1) [OF None assms(3)] b(2) show ?thesis
    by (auto simp: sends_for_def)
qed

lemma next_sends:
  assumes "\<And>c. ok e c" "uploads_current e (c, s)" "readable e s" "to_devices c" "upload_next e p b (c, s) = (c', s')"
  shows "sends_for c c'"
  using assms(5)
proof (cases rule: upload_next_cases)
  case full
  then show ?thesis using same_table_sends sends_refl [OF assms(4)] by blast
next
  case no_count
  then show ?thesis using same_table_sends sends_refl [OF assms(4)] by blast
next
  case (scan c2 st ep res c3 st3)
  let ?P = "\<lambda>v :: upload_ctl \<times> bool. sends_for c (fst v)"
  have inv: "db_inv (db s)" using assms(2) by (simp add: uploads_current_def)
  have rd: "fst (read_json e (fst r) f s) \<notin> range Inl" if "r \<in> set (pending (db s))" "fst (snd (snd r)) = Some f" for r f
  proof -
    obtain k v g dev where r: "r = (k, v, g, dev)" by (cases r)
    with that pending_iff [OF inv] obtain x where "row (db s) k = Some x" "dataFile x = Some f" by (auto simp: is_pending_def)
    with assms(3) [unfolded readable_def] obtain obj where "map_of (files s) (file_path e k f) = Some (JObject obj)" by blast
    with read_json_calm [of e s k f obj] assms(1) r show ?thesis by auto
  qed
  have "?P (snd (load_changes e (uploadLimit c2) (upload_visit e p s ep) s (c2, st)))"
  proof (rule load_changes_keeps [where P = ?P])
    show "?P (c2, st)" using same_table_sends [OF scan(3), of c] assms(4) by (simp add: sends_for_def)
    fix r v assume "r \<in> set (pending (db s))" "?P v"
    then show "?P (snd (upload_visit e p s ep r v))"
      using visit_sends [OF rd, of r c "fst v" p ep "snd v"] by (cases "upload_visit e p s ep r v") auto
  qed
  with scan(4) same_table_sends [OF scan(5), of c] show ?thesis by simp
qed

section \<open>Every schedule\<close>

definition answered :: "nat list \<Rightarrow> upload_ctl \<Rightarrow> cached_key set" where
  "answered as c = (\<lambda>i. sent c ! i) ` set as"

text \<open>What holds whatever the queue: what was sent and not answered is under way, what was answered is not marked any more, and
  what was pending at the start is still pending or was answered.\<close>

definition on_the_way :: "env \<Rightarrow> db \<Rightarrow> nat list \<Rightarrow> upload_ctl \<Rightarrow> store \<Rightarrow> bool" where
  "on_the_way e d0 as c s \<longleftrightarrow> uploads_current e (c, s) \<and> readable e s \<and> to_devices c \<and> uploadingEnabled c \<and> 0 < uploadLimit c \<and>
     distinct (sent c) \<and> set as \<subseteq> {..<length (sent c)} \<and>
     fst ` set (activeUploads c) \<inter> answered as c = {} \<and> fst ` set (activeUploads c) \<union> answered as c = set (sent c) \<and>
     (\<forall>k dev. to_send (db s) k dev \<longrightarrow> cached_key e k dev \<notin> answered as c \<and> to_send d0 k dev) \<and>
     set (sent c) \<subseteq> {cached_key e k dev | k dev. to_send d0 k dev} \<and>
     row_key e ` set (pending d0) \<subseteq> row_key e ` set (pending (db s)) \<union> answered as c"

lemma on_the_wayD:
  assumes "on_the_way e d0 as c s"
  shows "uploads_current e (c, s)" "readable e s" "to_devices c" "uploadingEnabled c" "0 < uploadLimit c" "distinct (sent c)"
    "set as \<subseteq> {..<length (sent c)}" "fst ` set (activeUploads c) \<inter> answered as c = {}"
    "fst ` set (activeUploads c) \<union> answered as c = set (sent c)"
    "\<forall>k dev. to_send (db s) k dev \<longrightarrow> cached_key e k dev \<notin> answered as c \<and> to_send d0 k dev"
    "set (sent c) \<subseteq> {cached_key e k dev | k dev. to_send d0 k dev}"
    "row_key e ` set (pending d0) \<subseteq> row_key e ` set (pending (db s)) \<union> answered as c"
  using assms unfolding on_the_way_def by - (elim conjE, assumption)+

definition draining :: "env \<Rightarrow> db \<Rightarrow> nat list \<times> upload_ctl \<times> store \<Rightarrow> bool" where
  "draining e d0 z \<longleftrightarrow> (case z of (as, c, s) \<Rightarrow> on_the_way e d0 as c s \<and> set (callQueue c) \<subseteq> {QUploadNext} \<and>
     (callQueue c = [] \<longrightarrow> window_full e (c, s)))"

definition work :: "nat list \<times> upload_ctl \<times> store \<Rightarrow> nat" where
  "work z = (case z of (as, c, s) \<Rightarrow> 2 * todo (db s) + length (callQueue c))"

lemma active_pending: "uploads_current e (c, s) \<Longrightarrow> fst ` set (activeUploads c) \<subseteq> row_key e ` set (pending (db s))"
  by (force simp: uploads_current_def)

lemma on_the_way_next:
  assumes "\<And>c. ok e c" "on_the_way e d0 as c s" "upload_next e p b (c, s) = (c', s')"
  shows "s' = s" "on_the_way e d0 as c' s" "window_full e (c', s)" "callQueue c' = callQueue c"
proof -
  note w = on_the_wayD [OF assms(2)]
  note cur = w(1)
  have inv: "db_inv (db s)" using cur by (simp add: uploads_current_def)
  show s': "s' = s" using uploads_current_next(2) [OF cur, of p b] assms(3) by simp
  have lim: "uploadLimit c' = uploadLimit c" using uploads_current_next(3) [OF cur, of p b] assms(3) by simp
  have cur': "uploads_current e (c', s)" using uploads_current_next(1) [OF cur, of p b] assms(3) s' by simp
  show "window_full e (c', s)" using window_full_next [OF assms(1) cur, of p b] assms(3) s' by simp
  have en: "uploadingEnabled c' = uploadingEnabled c"
    using upload_next_grows [OF _ assms(3)] cur by (simp add: uploads_current_def)
  have "sends_for c c'" using next_sends [OF assms(1) cur w(2,3) assms(3)] .
  then obtain ks where ks: "map fst (activeUploads c') = map fst (activeUploads c) @ ks" "sent c' = sent c @ ks"
    and q: "callQueue c' = callQueue c" and td: "to_devices c'" by (auto simp: sends_for_def)
  show "callQueue c' = callQueue c" by (rule q)
  have act: "fst ` set (activeUploads c') = fst ` set (activeUploads c) \<union> set ks"
    using arg_cong [OF ks(1), of set] by simp
  have dist: "distinct ks" "fst ` set (activeUploads c) \<inter> set ks = {}"
    using cur' ks(1) arg_cong [OF ks(1), of distinct] by (auto simp: uploads_current_def)
  have pend: "set ks \<subseteq> row_key e ` set (pending (db s))" using active_pending [OF cur'] act by blast
  have free: "set ks \<inter> answered as c = {}"
  proof -
    have "x \<notin> answered as c" if "x \<in> row_key e ` set (pending (db s))" for x
    proof -
      from that obtain k dev y where "x = cached_key e k dev" "is_pending (db s) k dev y"
        unfolding pending_keys [OF inv] by blast
      with w(10) pending_to_send show ?thesis by blast
    qed
    with pend show ?thesis by blast
  qed
  have ans: "answered as c' = answered as c"
    unfolding answered_def ks(2) using w(7) by (intro image_cong) (auto simp: nth_append)
  have "x \<in> {cached_key e k dev | k dev. to_send d0 k dev}" if "x \<in> row_key e ` set (pending (db s))" for x
    using that w(10) pending_to_send unfolding pending_keys [OF inv] by blast
  then have new: "set (sent c') \<subseteq> {cached_key e k dev | k dev. to_send d0 k dev}"
    using w(11) pend unfolding ks(2) set_append by blast
  have "fst ` set (activeUploads c') \<inter> answered as c = {}" "fst ` set (activeUploads c') \<union> answered as c = set (sent c')"
    using w(8,9) free unfolding act ks(2) set_append by blast+
  moreover have "distinct (sent c')"
  proof -
    have "set ks \<inter> set (sent c) = {}" unfolding w(9) [symmetric] using dist(2) free by blast
    then show ?thesis using w(6) dist(1) unfolding ks(2) distinct_append by blast
  qed
  moreover have "set as \<subseteq> {..<length (sent c')}" using w(7) unfolding ks(2) by auto
  ultimately show "on_the_way e d0 as c' s"
    unfolding on_the_way_def ans en lim by (intro conjI allI impI cur' w td new) assumption+
qed

lemma answer_confirms:
  assumes "to_devices c" "i < length (messages c)"
  shows "answer e (messages c ! i) cs = confirm e (sent c ! i) cs"
proof -
  have m: "messages c ! i \<in> set (uploadOut c)" "\<not> is_notice (messages c ! i)"
    using nth_mem [OF assms(2)] by (auto simp: messages_def)
  have "answer e y cs = confirm e (msg_key y) cs" if "y \<in> set (uploadOut c)" "\<not> is_notice y" for y
  proof (cases y)
  qed (use that assms(1) in \<open>auto simp: confirm_def to_devices_def\<close>)
  from this [OF m] assms(2) show ?thesis by simp
qed

lemma finish_ok_fields:
  "uploadingEnabled (finish_upload c (Inr ())) = uploadingEnabled c" "sent (finish_upload c (Inr ())) = sent c"
  "to_devices (finish_upload c (Inr ())) = to_devices c"
  "callQueue (finish_upload c (Inr ())) =
     callQueue c @ (if uploadingEnabled c \<and> active_count c < uploadLimit c then [QUploadNext] else [])"
  by (auto simp: finish_upload_def Let_def messages_def to_devices_def enqueue_def)

lemma on_the_way_answer:
  assumes "\<And>c. ok e c" "on_the_way e d0 as c s" "i < length (messages c)" "i \<notin> set as"
  obtains c' t where "answer e (messages c ! i) (c, s) = (c', t)" "on_the_way e d0 (i # as) c' t" "todo (db t) < todo (db s)"
    "callQueue c' = callQueue c @ (if active_count c' < uploadLimit c' then [QUploadNext] else [])"
proof -
  note w = on_the_wayD [OF assms(2)]
  let ?key = "sent c ! i"
  note cur = w(1) and en = w(4)
  have inv: "db_inv (db s)" and hash: "hash_ok e (db s)" using cur by (simp_all add: uploads_current_def)
  have new: "?key \<notin> answered as c"
  proof
    assume "?key \<in> answered as c"
    then obtain j where "j \<in> set as" "sent c ! j = ?key" unfolding answered_def by (metis imageE)
    with w(7) assms(3,4) nth_eq_iff_index_eq [OF w(6), of j i] show False by auto
  qed
  moreover have "?key \<in> set (sent c)" using assms(3) by (intro nth_mem) simp
  ultimately have "?key \<in> fst ` set (activeUploads c)" unfolding w(9) [symmetric] by blast
  then obtain k dev x t
    where t: "confirm e ?key (c, s) = (finish_upload (c\<lparr>activeUploads := AList.delete ?key (activeUploads c)\<rparr>) (Inr ()), t)"
      "?key = cached_key e k dev" "is_pending (db s) k dev x" "confirmed k dev s t"
    by (rule confirm_confirms [OF assms(1) cur])
  define c' where "c' = finish_upload (c\<lparr>activeUploads := AList.delete ?key (activeUploads c)\<rparr>) (Inr ())"
  note co = t(4) [unfolded confirmed_def]
  have sent': "sent c' = sent c" "to_devices c' = to_devices c" "uploadingEnabled c'" "uploadLimit c' = uploadLimit c"
    "activeUploads c' = AList.delete ?key (activeUploads c)"
    using en by (simp_all add: c'_def finish_ok_fields) (simp_all add: messages_def to_devices_def)
  have cur': "uploads_current e (c', t)"
    using confirmed_current [OF cur t(3,4), of c'] sent'(5) t(2) by simp
  have invt: "db_inv (db t)" using co by blast
  have act: "fst ` set (activeUploads c') = fst ` set (activeUploads c) - {?key}"
    by (force simp: sent'(5) AList.delete_eq)
  have ans: "answered (i # as) c' = insert ?key (answered as c)" by (simp add: answered_def sent'(1))
  have other: "cached_key e k' dev' \<noteq> ?key" if "to_send (db s) k' dev'" "(k', dev') \<noteq> (k, dev)" for k' dev'
    using row_key_inj [OF hash to_send_row [OF inv that(1)] to_send_row [OF inv pending_to_send [OF t(3)]], of dev' dev] that(2) t(2)
    by auto
  have marks: "cached_key e k' dev' \<notin> answered (i # as) c' \<and> to_send d0 k' dev'" if "to_send (db t) k' dev'" for k' dev'
  proof -
    have "to_send (db s) k' dev'" "(k', dev') \<noteq> (k, dev)" using that co by blast+
    with other w(10) show ?thesis unfolding ans by blast
  qed
  have pend: "row_key e ` set (pending (db s)) \<subseteq> insert ?key (row_key e ` set (pending (db t)))"
  proof
    fix z assume "z \<in> row_key e ` set (pending (db s))"
    then obtain k' dev' y where y: "z = cached_key e k' dev'" "is_pending (db s) k' dev' y" unfolding pending_keys [OF inv] by blast
    have "\<exists>y'. is_pending (db t) k' dev' y'" if "(k', dev') \<noteq> (k, dev)" using co y(2) that by blast
    with y(1) t(2) show "z \<in> insert ?key (row_key e ` set (pending (db t)))"
      unfolding pending_keys [OF invt] by (cases "(k', dev') = (k, dev)") auto
  qed
  have rd: "readable e t"
    using w(2) co unfolding readable_def by metis
  have "on_the_way e d0 (i # as) c' t"
    unfolding on_the_way_def
  proof (intro conjI allI impI)
    show "uploads_current e (c', t)" "readable e t" "to_devices c'" "uploadingEnabled c'" "0 < uploadLimit c'" "distinct (sent c')"
      "set (sent c') \<subseteq> {cached_key e k dev | k dev. to_send d0 k dev}"
      using cur' rd sent'(1-4) w(3,5,6,11) by simp_all
    show "set (i # as) \<subseteq> {..<length (sent c')}" using w(7) assms(3) by (simp add: sent'(1))
    show "fst ` set (activeUploads c') \<inter> answered (i # as) c' = {}" using w(8) unfolding act ans by blast
    show "fst ` set (activeUploads c') \<union> answered (i # as) c' = set (sent c')"
      using w(9) \<open>?key \<in> set (sent c)\<close> unfolding act ans sent'(1) by blast
    show "row_key e ` set (pending d0) \<subseteq> row_key e ` set (pending (db t)) \<union> answered (i # as) c'" using w(12) pend unfolding ans by blast
  qed (use marks in blast)+
  moreover have "callQueue c' = callQueue c @ (if active_count c' < uploadLimit c' then [QUploadNext] else [])"
    using en by (simp add: c'_def finish_ok_fields)
  moreover have "answer e (messages c ! i) (c, s) = (c', t)"
    using answer_confirms [OF w(3) assms(3), of e "(c, s)"] t(1) by (simp add: c'_def)
  ultimately show thesis using that co by blast
qed

lemma step_drains:
  assumes "\<And>c. ok e c" "upload_step e p z z'" "draining e d0 z"
  shows "draining e d0 z' \<and> work z' < work z"
  using assms(2)
proof cases
  case (queued_runs c as s)
  then obtain qs where q: "callQueue c = QUploadNext # qs" "set qs \<subseteq> {QUploadNext}"
    using assms(3) by (cases "callQueue c") (auto simp: draining_def)
  let ?c = "c\<lparr>callQueue := qs\<rparr>"
  have "messages ?c = messages c" "to_devices ?c = to_devices c" by (simp_all add: messages_def to_devices_def)
  then have w: "on_the_way e d0 as ?c s"
    using assms(3) queued_runs(1) by (simp add: draining_def on_the_way_def answered_def uploads_current_def)
  obtain c' s' where n: "upload_next e p False (?c, s) = (c', s')" by fastforce
  from on_the_way_next [OF assms(1) w n] n q queued_runs(1,2) show ?thesis
    by (simp add: draining_def work_def run_queued_def)
next
  case (server_answers i c as s)
  then have w: "on_the_way e d0 as c s" "set (callQueue c) \<subseteq> {QUploadNext}" using assms(3) by (simp_all add: draining_def)
  obtain c' t where "answer e (messages c ! i) (c, s) = (c', t)" "on_the_way e d0 (i # as) c' t" "todo (db t) < todo (db s)"
    "callQueue c' = callQueue c @ (if active_count c' < uploadLimit c' then [QUploadNext] else [])"
    using on_the_way_answer [OF assms(1) w(1) server_answers(3,4)] by blast
  with w server_answers(1,2) show ?thesis by (auto simp: draining_def work_def window_full_def)
qed

lemma steps_drain:
  assumes "\<And>c. ok e c" "draining e d0 z"
  shows "(upload_step e p ^^ n) z z' \<Longrightarrow> draining e d0 z' \<and> n + work z' \<le> work z"
proof (induction n arbitrary: z')
  case 0
  with assms(2) show ?case by simp
next
  case (Suc n)
  then obtain y where "(upload_step e p ^^ n) z y" "upload_step e p y z'" by auto
  with Suc.IH step_drains [OF assms(1), of p y z' d0] show ?case by fastforce
qed

lemma start_drains:
  assumes "\<And>c. ok e c" "store_ok e s" "hash_ok e (db s)" "0 < uploadLimit c" "activeUploads c = []" "callQueue c = []" "uploadOut c = []"
  shows "draining e (db s) ([], set_uploading_enabled e p True (c, s)) \<and> work ([], set_uploading_enabled e p True (c, s)) = 2 * todo (db s)"
proof -
  let ?c = "c\<lparr>uploadingEnabled := True\<rparr>"
  have "db_inv (db s)" using store_okD(1) [OF assms(2)] by (simp add: tables_ok_def)
  then have "uploads_current e (?c, s)" using assms(3,5) by (simp add: uploads_current_def)
  moreover have "readable e s" unfolding readable_def using disk_okD [OF store_okD(2) [OF assms(2)]] by blast
  ultimately have w: "on_the_way e (db s) [] ?c s"
    using assms by (simp add: on_the_way_def answered_def messages_def to_devices_def)
  obtain c' s' where n: "upload_next e p True (?c, s) = (c', s')" by fastforce
  from on_the_way_next [OF assms(1) w n] n assms(6) show ?thesis
    by (simp add: draining_def work_def set_uploading_enabled_def)
qed

lemma stuck_drained:
  assumes "draining e d0 (as, c, s)" "\<nexists>z. upload_step e p (as, c, s) z"
  shows "pending (db s) = []" "activeUploads c = []" "distinct (sent c)" "row_key e ` set (pending d0) \<subseteq> set (sent c)"
    "set (sent c) \<subseteq> {cached_key e k dev | k dev. to_send d0 k dev}"
proof -
  have w: "on_the_way e d0 as c s" using assms(1) by (simp add: draining_def)
  have q: "callQueue c = []" using assms(2) queued_runs by blast
  have "i \<in> set as" if "i < length (messages c)" for i using assms(2) server_answers [OF that] by blast
  then have "set (sent c) \<subseteq> answered as c" by (force simp: answered_def in_set_conv_nth)
  moreover have "X \<inter> B = {} \<Longrightarrow> X \<union> B = S \<Longrightarrow> S \<subseteq> B \<Longrightarrow> X = {} \<and> B = S" for X B S :: "cached_key set" by blast
  ultimately have "fst ` set (activeUploads c) = {} \<and> answered as c = set (sent c)" using on_the_wayD(8,9) [OF w] by blast
  then have a: "activeUploads c = []" "answered as c = set (sent c)" by simp_all
  then have "pending (db s) = []"
    using drained [of e "(c, s)"] on_the_wayD(1,5) [OF w] assms(1) q by (simp add: draining_def)
  with a on_the_wayD(6,11,12) [OF w] show "pending (db s) = []" "activeUploads c = []" "distinct (sent c)"
    "row_key e ` set (pending d0) \<subseteq> set (sent c)" "set (sent c) \<subseteq> {cached_key e k dev | k dev. to_send d0 k dev}"
    by simp_all
qed

text \<open>C15: When uploading is switched on and nothing fails, everything pending is sent and confirmed, in whatever order the server answers
  the messages it was sent and the event loop runs the calls the uploader has queued: there are at most two steps for
  every marked change, and when there is none left, nothing is pending or under way, every pending change has been
  sent, none twice, and nothing but what was marked. No one else calls the uploader: each further
  round is one it has queued itself.\<close>

theorem uploads_drain:
  assumes "\<And>c. ok e c" "store_ok e s" "hash_ok e (db s)"
    and "0 < uploadLimit c" "activeUploads c = []" "callQueue c = []" "uploadOut c = []"
    and "(upload_step e p ^^ n) ([], set_uploading_enabled e p True (c, s)) (as, v, t)"
  shows "n \<le> 2 * todo (db s) \<and> ((\<nexists>z. upload_step e p (as, v, t) z) \<longrightarrow>
      pending (db t) = [] \<and> activeUploads v = [] \<and> distinct (map msg_key (messages v)) \<and>
      row_key e ` set (pending (db s)) \<subseteq> set (map msg_key (messages v)) \<and>
      set (map msg_key (messages v)) \<subseteq> {cached_key e k dev | k dev. to_send (db s) k dev})"
proof -
  note z = start_drains [OF assms(1-7), of p]
  from steps_drain [OF assms(1) conjunct1 [OF z] assms(8)] conjunct2 [OF z] stuck_drained [of e "db s" as v t p] show ?thesis
    by simp
qed

lemma maximal_run:
  assumes "\<And>n y. (R ^^ n) x y \<Longrightarrow> n \<le> N"
  shows "\<exists>n y. (R ^^ n) x y \<and> (\<nexists>z. R y z)"
proof (rule ccontr)
  assume "\<nexists>n y. (R ^^ n) x y \<and> (\<nexists>z. R y z)"
  then have go: "\<exists>z. R y z" if "(R ^^ n) x y" for n y using that by blast
  have "\<exists>y. (R ^^ n) x y" for n
  proof (induction n)
    case (Suc n)
    with go show ?case by (meson relpowp_Suc_I)
  qed simp
  from this [of "Suc N"] assms show False by (meson Suc_n_not_le_n)
qed

theorem uploads_drain_witness:
  "\<exists>n as v t. (upload_step demo_env qt_5_11 ^^ n) ([], set_uploading_enabled demo_env qt_5_11 True (new_uploads, demo_store)) (as, v, t) \<and>
    n \<le> 2 \<and> pending (db t) = [] \<and> map msg_key (messages v) = [cached_key demo_env demo_key 0]"
proof -
  let ?z = "([], set_uploading_enabled demo_env qt_5_11 True (new_uploads, demo_store))"
  have new: "0 < uploadLimit new_uploads" "activeUploads new_uploads = []" "callQueue new_uploads = []" "uploadOut new_uploads = []"
    by (simp_all add: new_uploads_def)
  note drain = uploads_drain [OF demo_env_ok(2) demo_store_ok(1) demo_hash_ok new, of _ qt_5_11]
  have todo: "todo (db demo_store) = 1" by code_simp
  have two: "n \<le> 2" if "(upload_step demo_env qt_5_11 ^^ n) ?z y" for n y
    using that drain [of n "fst y" "fst (snd y)" "snd (snd y)"] todo by simp
  have "\<exists>n y. (upload_step demo_env qt_5_11 ^^ n) ?z y \<and> (\<nexists>z. upload_step demo_env qt_5_11 y z)"
    by (rule maximal_run [where N = 2]) (erule two)
  then obtain n y where "(upload_step demo_env qt_5_11 ^^ n) ?z y" "\<nexists>z. upload_step demo_env qt_5_11 y z"
    by blast
  then obtain as v t where
    run: "(upload_step demo_env qt_5_11 ^^ n) ?z (as, v, t)" "\<nexists>z. upload_step demo_env qt_5_11 (as, v, t) z"
    by (cases y) blast
  note d = drain [OF run(1)]
  have inv: "db_inv (db demo_store)" using demo_store_ok(1) by (simp add: store_ok_def tables_ok_def)
  have "is_pending (db demo_store) demo_key 0 demo_row"
    using demo_store_row by (simp add: is_pending_def demo_row_def)
  then have "(demo_key, 1, Some ''x'', 0) \<in> set (pending (db demo_store))"
    unfolding pending_iff [OF inv] by (intro exI [of _ demo_row]) (simp add: demo_row_def)
  then have key: "cached_key demo_env demo_key 0 \<in> row_key demo_env ` set (pending (db demo_store))"
    by (rule rev_image_eqI) (simp add: row_key_def)
  have "map fst (data_index (db demo_store)) = [demo_key]" "device_uploads (db demo_store) = []"
    by code_simp+
  then have "to_send (db demo_store) k dev \<Longrightarrow> k = demo_key \<and> dev = 0" for k dev
    by (auto simp: to_send_def map_eq_Cons_conv split: if_splits)
  then have only: "{cached_key demo_env k dev | k dev. to_send (db demo_store) k dev} \<subseteq> {cached_key demo_env demo_key 0}" by blast
  have one: "distinct xs \<Longrightarrow> x \<in> set xs \<Longrightarrow> set xs \<subseteq> {x} \<Longrightarrow> xs = [x]" for x and xs :: "cached_key list"
    by (cases xs; cases "tl xs") auto
  have end_state: "pending (db t) = [] \<and> activeUploads v = [] \<and> distinct (sent v) \<and>
      row_key demo_env ` set (pending (db demo_store)) \<subseteq> set (sent v) \<and>
      set (sent v) \<subseteq> {cached_key demo_env k dev | k dev. to_send (db demo_store) k dev}"
    using conjunct2 [OF d] run(2) by (rule mp)
  have "sent v = [cached_key demo_env demo_key 0]"
    using end_state key only by (intro one) (elim conjE, blast)+
  moreover have "n \<le> 2" by (rule two [OF run(1)])
  ultimately show ?thesis using run(1) conjunct1 [OF end_state] by - (intro exI conjI, assumption+)
qed

end
