(* ===== verification/AsymmetricCrypto.thy ===== *)
theory AsymmetricCrypto
  imports Prelude
begin

text \<open>
  Public key cryptography of both sides (\<open>src/messages/asymmetriccrypto.cpp\<close>): which schemes a
  device uses, how keys are read, and the calls into Crypto++. What Crypto++ computes is a
  parameter (record \<open>alib\<close>). A key object is represented by the bytes its \<open>Save\<close> writes, so
  \<open>writeKey\<close> is the identity. The randomness of an operation is chosen by a number that the
  caller never uses twice.
\<close>

section \<open>Errors\<close>

text \<open>\<open>CryptoPP::Exception::ErrorType\<close>\<close>

datatype cpp_error = NOT_IMPLEMENTED | INVALID_ARGUMENT | CANNOT_FLUSH | DATA_INTEGRITY_CHECK_FAILED
  | INVALID_DATA_FORMAT | IO_ERROR | OTHER_ERROR

text \<open>
  What the crypto code throws: an exception of Crypto++, one of a key store, one of the
  library with the cause inside. \<open>NullPointer\<close> stands for the undefined behaviour of reading
  through a null pointer or past the end of a \<open>switch\<close>.
\<close>

datatype crypto_error = CppException cpp_error | KeyStoreException string | LibException string
  | CryptoException string cpp_error | NullPointer

section \<open>Schemes\<close>

datatype sign_alg = Rsass | Ecdsa | Ecnr | Ed25519
datatype crypt_alg = Rsaes | Ecies
datatype key_alg = SignAlg sign_alg | CryptAlg crypt_alg

record alib =
  signAlgName :: "sign_alg \<Rightarrow> bytes" \<comment> \<open>\<open>StaticAlgorithmName\<close>\<close>
  cryptAlgName :: "crypt_alg \<Rightarrow> bytes"
  loadPublic :: "key_alg \<Rightarrow> bytes \<Rightarrow> bytes option" \<comment> \<open>\<open>X509PublicKey::Load\<close>\<close>
  publicValid :: "bytes \<Rightarrow> bool" \<comment> \<open>\<open>Validate(rng, 3)\<close>\<close>
  sha3 :: "bytes \<Rightarrow> bytes"
  signatureLength :: "sign_alg \<Rightarrow> bytes \<Rightarrow> nat"
  pkSign :: "sign_alg \<Rightarrow> nat \<Rightarrow> bytes \<Rightarrow> bytes \<Rightarrow> bytes"
  pkVerify :: "sign_alg \<Rightarrow> bytes \<Rightarrow> bytes \<Rightarrow> bytes \<Rightarrow> bool"
  pkEncrypt :: "crypt_alg \<Rightarrow> nat \<Rightarrow> bytes \<Rightarrow> bytes \<Rightarrow> bytes option"
  pkDecrypt :: "crypt_alg \<Rightarrow> bytes \<Rightarrow> bytes \<Rightarrow> bytes option"

text \<open>\<open>name()\<close> of the schemes; the one of \<open>ed25519\<close> is fixed by \<open>Ed25519SchemeName\<close>.\<close>

definition ed25519_scheme_name :: bytes where
  "ed25519_scheme_name = ''ed25519''"

fun sign_name :: "('x) alib_scheme \<Rightarrow> sign_alg \<Rightarrow> bytes" where
  "sign_name l Ed25519 = ed25519_scheme_name"
| "sign_name l a = signAlgName l a"

definition crypt_name :: "('x) alib_scheme \<Rightarrow> crypt_alg \<Rightarrow> bytes" where
  "crypt_name l a = cryptAlgName l a"

text \<open>The two pointers \<open>_signature\<close> and \<open>_encryption\<close>.\<close>

record asym_crypto =
  acSignature :: "sign_alg option"
  acEncryption :: "crypt_alg option"

type_synonym ('s, 'a) crypto_act = "('s, crypto_error, 'a) act"

definition deref :: "'a option \<Rightarrow> ('s, 'a) crypto_act" where
  "deref p = (case p of None \<Rightarrow> throw NullPointer | Some a \<Rightarrow> ret a)"

definition cpp_result :: "cpp_error \<Rightarrow> 'a option \<Rightarrow> ('s, 'a) crypto_act" where
  "cpp_result x r = (case r of None \<Rightarrow> throw (CppException x) | Some a \<Rightarrow> ret a)"

text \<open>The schemes by name: \<open>setSignatureScheme\<close> and \<open>setEncryptionScheme\<close> choose with the same
  comparisons, in the same order, as \<open>setSignatureKey\<close> and \<open>setEncryptionKey\<close> of the client.\<close>

definition sign_alg_by_name :: "('x) alib_scheme \<Rightarrow> bytes \<Rightarrow> ('s, sign_alg) crypto_act" where
  "sign_alg_by_name l n =
     (if n = signAlgName l Rsass then ret Rsass
      else if n = signAlgName l Ecdsa then ret Ecdsa
      else if n = signAlgName l Ecnr then ret Ecnr
      else if n = ed25519_scheme_name then ret Ed25519
      else throw (CppException NOT_IMPLEMENTED))"

definition crypt_alg_by_name :: "('x) alib_scheme \<Rightarrow> bytes \<Rightarrow> ('s, crypt_alg) crypto_act" where
  "crypt_alg_by_name l n =
     (if n = cryptAlgName l Rsaes then ret Rsaes
      else if n = cryptAlgName l Ecies then ret Ecies
      else throw (CppException NOT_IMPLEMENTED))"

definition signature_scheme :: "('x) alib_scheme \<Rightarrow> ('y) asym_crypto_scheme \<Rightarrow> ('s, bytes) crypto_act" where
  "signature_scheme l c = seq (deref (acSignature c)) (\<lambda>a. ret (sign_name l a))"

definition encryption_scheme :: "('x) alib_scheme \<Rightarrow> ('y) asym_crypto_scheme \<Rightarrow> ('s, bytes) crypto_act" where
  "encryption_scheme l c = seq (deref (acEncryption c)) (\<lambda>a. ret (crypt_name l a))"

section \<open>Keys and operations\<close>

definition write_key :: "bytes \<Rightarrow> bytes" where
  "write_key k = k"

definition crypto_fingerprint :: "('x) alib_scheme \<Rightarrow> ('y) asym_crypto_scheme \<Rightarrow> bytes \<Rightarrow> bytes \<Rightarrow> ('s, bytes) crypto_act" where
  "crypto_fingerprint l c sk ck =
     seq (signature_scheme l c) (\<lambda>sn. seq (encryption_scheme l c) (\<lambda>cn.
       ret (sha3 l (sn @ write_key sk @ cn @ write_key ck))))"

definition read_key :: "('x) alib_scheme \<Rightarrow> ('y) asym_crypto_scheme \<Rightarrow> bool \<Rightarrow> bytes \<Rightarrow> ('s, bytes) crypto_act" where
  "read_key l c signing data =
     seq (if signing then seq (deref (acSignature c)) (\<lambda>a. ret (SignAlg a))
          else seq (deref (acEncryption c)) (\<lambda>a. ret (CryptAlg a))) (\<lambda>a.
     seq (cpp_result INVALID_DATA_FORMAT (loadPublic l a data)) (\<lambda>key.
     seq (guard_call (publicValid l key) (CppException INVALID_DATA_FORMAT)) (\<lambda>_. ret key)))"

text \<open>
  The verifier gets message and signature as one stream and takes the last
  \<open>SignatureLength()\<close> bytes for the signature.
\<close>

definition asym_verify :: "('x) alib_scheme \<Rightarrow> ('y) asym_crypto_scheme \<Rightarrow> bytes \<Rightarrow> bytes \<Rightarrow> bytes \<Rightarrow> ('s, unit) crypto_act" where
  "asym_verify l c key msg sig = seq (deref (acSignature c)) (\<lambda>a.
     let whole = msg @ sig; n = length whole - signatureLength l a key in
     guard_call (signatureLength l a key \<le> length whole \<and> pkVerify l a key (take n whole) (drop n whole))
       (CppException DATA_INTEGRITY_CHECK_FAILED))"

definition asym_sign :: "('x) alib_scheme \<Rightarrow> ('y) asym_crypto_scheme \<Rightarrow> nat \<Rightarrow> bytes \<Rightarrow> bytes \<Rightarrow> ('s, bytes) crypto_act" where
  "asym_sign l c n key msg = seq (deref (acSignature c)) (\<lambda>a. ret (pkSign l a n key msg))"

definition asym_encrypt :: "('x) alib_scheme \<Rightarrow> ('y) asym_crypto_scheme \<Rightarrow> nat \<Rightarrow> bytes \<Rightarrow> bytes \<Rightarrow> ('s, bytes) crypto_act" where
  "asym_encrypt l c n key msg = seq (deref (acEncryption c)) (\<lambda>a. cpp_result INVALID_ARGUMENT (pkEncrypt l a n key msg))"

definition asym_decrypt :: "('x) alib_scheme \<Rightarrow> ('y) asym_crypto_scheme \<Rightarrow> bytes \<Rightarrow> bytes \<Rightarrow> ('s, bytes) crypto_act" where
  "asym_decrypt l c key msg = seq (deref (acEncryption c)) (\<lambda>a. cpp_result INVALID_DATA_FORMAT (pkDecrypt l a key msg))"

section \<open>The keys of another device\<close>

text \<open>\<open>AsymmetricCryptoInfo\<close>: public keys of a partner; the second constructor has no key for signatures.\<close>

record crypto_info = asym_crypto +
  ciSignKey :: "bytes option"
  ciCryptKey :: "bytes option"

definition new_crypto_info :: "('x) alib_scheme \<Rightarrow> bytes \<Rightarrow> bytes \<Rightarrow> bytes \<Rightarrow> bytes \<Rightarrow> ('s, crypto_info) crypto_act" where
  "new_crypto_info l sn sk cn ck =
     seq (sign_alg_by_name l sn) (\<lambda>a. seq (crypt_alg_by_name l cn) (\<lambda>b.
     let c = \<lparr>acSignature = Some a, acEncryption = Some b, ciSignKey = None, ciCryptKey = None\<rparr> in
     seq (read_key l c True sk) (\<lambda>s. seq (read_key l c False ck) (\<lambda>k.
     ret (c\<lparr>ciSignKey := Some s, ciCryptKey := Some k\<rparr>)))))"

definition new_encryption_info :: "('x) alib_scheme \<Rightarrow> bytes \<Rightarrow> bytes \<Rightarrow> ('s, crypto_info) crypto_act" where
  "new_encryption_info l cn ck =
     seq (crypt_alg_by_name l cn) (\<lambda>b.
     let c = \<lparr>acSignature = None, acEncryption = Some b, ciSignKey = None, ciCryptKey = None\<rparr> in
     seq (read_key l c False ck) (\<lambda>k. ret (c\<lparr>ciCryptKey := Some k\<rparr>)))"

definition info_fingerprint :: "('x) alib_scheme \<Rightarrow> crypto_info \<Rightarrow> ('s, bytes) crypto_act" where
  "info_fingerprint l c = seq (deref (ciSignKey c)) (\<lambda>s. seq (deref (ciCryptKey c)) (\<lambda>k. crypto_fingerprint l c s k))"

definition info_verify :: "('x) alib_scheme \<Rightarrow> crypto_info \<Rightarrow> bytes \<Rightarrow> bytes \<Rightarrow> ('s, unit) crypto_act" where
  "info_verify l c msg sig = seq (deref (ciSignKey c)) (\<lambda>k. asym_verify l c k msg sig)"

definition info_encrypt :: "('x) alib_scheme \<Rightarrow> crypto_info \<Rightarrow> nat \<Rightarrow> bytes \<Rightarrow> ('s, bytes) crypto_act" where
  "info_encrypt l c n msg = seq (deref (ciCryptKey c)) (\<lambda>k. asym_encrypt l c n k msg)"

section \<open>What is documented of the library\<close>

text \<open>
  The names differ, an encoding that \<open>Save\<close> wrote is read back, and decryption and
  verification undo encryption and signing under keys that belong together, \<open>publicOf\<close> being
  the public key of a private one. A signature has the length the scheme tells.
\<close>

definition names_differ :: "('x) alib_scheme \<Rightarrow> bool" where
  "names_differ l \<longleftrightarrow> distinct [signAlgName l Rsass, signAlgName l Ecdsa, signAlgName l Ecnr, ed25519_scheme_name] \<and>
     cryptAlgName l Rsaes \<noteq> cryptAlgName l Ecies"

definition decrypts :: "('x) alib_scheme \<Rightarrow> crypt_alg \<Rightarrow> bytes \<Rightarrow> bytes \<Rightarrow> bool" where
  "decrypts l a priv pub \<longleftrightarrow> (\<forall>n m c. pkEncrypt l a n pub m = Some c \<longrightarrow> pkDecrypt l a priv c = Some m)"

definition authenticates :: "('x) alib_scheme \<Rightarrow> sign_alg \<Rightarrow> bytes \<Rightarrow> bytes \<Rightarrow> bool" where
  "authenticates l a priv pub \<longleftrightarrow>
     (\<forall>n m. pkVerify l a pub m (pkSign l a n priv m) \<and> length (pkSign l a n priv m) = signatureLength l a pub)"

lemma deref_simps [simp]: "deref (Some a) = ret a" "deref None = throw NullPointer"
  by (simp_all add: deref_def)

lemma cpp_result_simps [simp]: "cpp_result x (Some a) = ret a" "cpp_result x None = throw (CppException x)"
  by (simp_all add: cpp_result_def)

lemma seq_ret_fun [simp]: "seq m ret = m"
  by (simp add: fun_eq_iff seq_def ret_def split: prod.splits sum.splits)

lemma sign_alg_by_name_of [simp]: "names_differ l \<Longrightarrow> sign_alg_by_name l (sign_name l a) = ret a"
  by (cases a) (auto simp: sign_alg_by_name_def names_differ_def)

lemma crypt_alg_by_name_of [simp]: "names_differ l \<Longrightarrow> crypt_alg_by_name l (crypt_name l a) = ret a"
  by (cases a) (auto simp: crypt_alg_by_name_def crypt_name_def names_differ_def)

lemma sign_verify:
  assumes "acSignature c = Some a" and "acSignature d = Some a" and "authenticates l a priv pub"
  shows "seq (asym_sign l c n priv msg) (asym_verify l d pub msg) = ret ()"
  using assms by (simp add: asym_sign_def asym_verify_def authenticates_def Let_def fun_eq_iff)
    (simp add: act_defs)

lemma encrypt_decrypt:
  assumes "acEncryption c = Some a" and "acEncryption d = Some a" and "decrypts l a priv pub"
    and "asym_encrypt l c n pub msg s = (Inr enc, t)"
  shows "asym_decrypt l d priv enc = ret msg" and "t = s"
  using assms by (auto simp: asym_encrypt_def asym_decrypt_def decrypts_def cpp_result_def act_defs split: option.splits)

end
