(* ===== verification/CryptoController.thy ===== *)
theory CryptoController
  imports AsymmetricCrypto
begin

text \<open>
  The keys of a device (\<open>src/datasync/cryptocontroller.cpp\<close>): the private keys of its account,
  the numbered secret keys shared by the devices of a user, and what is encrypted and
  authenticated with them. The state holds the loaded keys, the settings, the key files and the
  key stores. Crypto++ is a parameter (record \<open>kenv\<close>); \<open>kSucceeds\<close> says whether the \<open>n\<close>-th call
  into file system or key store succeeds, and \<open>kDraw\<close> what the random generator yields at its
  \<open>n\<close>-th use. A throw keeps the side effects made before it.
\<close>

section \<open>Cipher schemes\<close>

datatype block_cipher = AES | Twofish | Serpent | IDEA
datatype cipher_mode = EAX | GCM

type_synonym sym_scheme = "cipher_mode \<times> block_cipher"

text \<open>\<open>Setup::CipherScheme\<close>, \<open>Setup::SignatureScheme\<close>, \<open>Setup::EncryptionScheme\<close>\<close>

datatype cipher_choice = AES_EAX | AES_GCM | TWOFISH_EAX | TWOFISH_GCM | SERPENT_EAX | SERPENT_GCM | IDEA_EAX
datatype sign_choice = RSA_PSS_SHA3_512 | ECDSA_ECP_SHA3_512 | ECNR_ECP_SHA3_512 | ED25519
datatype crypt_choice = RSA_OAEP_SHA3_512 | ECIES_ECP_SHA3_512

text \<open>A \<open>QVariant\<close>: an integer or something else.\<close>

datatype key_param = IntParam int | OtherParam

record kdefaults =
  signChoice :: sign_choice
  signKeyParam :: key_param
  cryptChoice :: crypt_choice
  cryptKeyParam :: key_param
  symChoice :: cipher_choice
  symKeyParam :: u32
  keyStoreProvider :: "string option"
  defaultKeyStore :: string \<comment> \<open>\<open>Setup::defaultKeystoreProvider()\<close>\<close>

record kenv = alib +
  kDefaults :: kdefaults
  kSucceeds :: "nat \<Rightarrow> bool"
  kDraw :: "nat \<Rightarrow> nat \<Rightarrow> char"
  canIncorporateEntropy :: bool
  keptFiles :: "nat \<Rightarrow> u32 \<Rightarrow> bool" \<comment> \<open>what a failed \<open>removeRecursively\<close> leaves\<close>
  writtenBytes :: "nat \<Rightarrow> nat" \<comment> \<open>how much a failed \<open>QFile::write\<close> has written\<close>
  pluginAvailable :: "string \<Rightarrow> bool"
  symName :: "sym_scheme \<Rightarrow> bytes"
  maxKeyLength :: "block_cipher \<Rightarrow> nat"
  blockSize :: "block_cipher \<Rightarrow> nat"
  validKeyLength :: "block_cipher \<Rightarrow> nat \<Rightarrow> nat" \<comment> \<open>\<open>StaticGetValidKeyLength\<close>\<close>
  symEncrypt :: "sym_scheme \<Rightarrow> bytes \<Rightarrow> bytes \<Rightarrow> bytes \<Rightarrow> bytes option"
  symDecrypt :: "sym_scheme \<Rightarrow> bytes \<Rightarrow> bytes \<Rightarrow> bytes \<Rightarrow> bytes option"
  cmacOf :: "block_cipher \<Rightarrow> bytes \<Rightarrow> bytes \<Rightarrow> bytes option"
  cmacSize :: "block_cipher \<Rightarrow> nat"
  pbkdf2 :: "nat \<Rightarrow> nat \<Rightarrow> bytes \<Rightarrow> bytes \<Rightarrow> nat \<Rightarrow> bytes"
  genRsa :: "key_alg \<Rightarrow> nat \<Rightarrow> int \<Rightarrow> bytes option"
  genEcc :: "key_alg \<Rightarrow> nat \<Rightarrow> string \<Rightarrow> bytes option"
  genEd25519 :: "nat \<Rightarrow> bytes"
  loadPrivate :: "key_alg \<Rightarrow> bytes \<Rightarrow> bytes option" \<comment> \<open>\<open>PKCS8PrivateKey::Load\<close>\<close>
  privateValid :: "bytes \<Rightarrow> bool"
  publicOf :: "key_alg \<Rightarrow> bytes \<Rightarrow> bytes"

section \<open>State\<close>

record cipher_info =
  infoScheme :: sym_scheme
  infoKey :: bytes

text \<open>\<open>ClientCrypto\<close>: the schemes and the private keys, each with the class it was created for.\<close>

record client_crypto = asym_crypto +
  ccSignKey :: "(sign_alg \<times> bytes option) option"
  ccCryptKey :: "(crypt_alg \<times> bytes option) option"

record ksettings =
  setKeystore :: "string option"
  setSignScheme :: "bytes option"
  setCryptScheme :: "bytes option"
  setLocalKey :: "u32 option"
  setNextKey :: "u32 option"
  setSymKeys :: "(u32 \<times> bytes) list" \<comment> \<open>\<open>scheme/key/%1\<close>\<close>

datatype store_key = SigningKey uuid | EncryptionKey uuid

record key_store =
  providerName :: string
  storeOpen :: bool

record crypto =
  asymCrypto :: client_crypto
  loadedCiphers :: "u32 \<Rightarrow> cipher_info option"
  localCipher :: u32
  fingerprint :: bytes
  keyStore :: "key_store option"
  settings :: ksettings
  keyFiles :: "u32 \<Rightarrow> bytes option" \<comment> \<open>\<open>keys/key_%1.enc\<close>\<close>
  storedKeys :: "string \<Rightarrow> store_key \<Rightarrow> bytes option"
  fpSignals :: "bytes list" \<comment> \<open>\<open>fingerprintChanged\<close>\<close>
  clock :: nat

type_synonym 'a kop = "(crypto, crypto_error, 'a) act"

definition tick :: "crypto \<Rightarrow> crypto" where
  "tick s = s\<lparr>clock := Suc (clock s)\<rparr>"

text \<open>A call into file system or key store, and one use of the random generator.\<close>

definition external :: "kenv \<Rightarrow> bool kop" where
  "external e s = (Inr (kSucceeds e (clock s)), tick s)"

definition require :: "kenv \<Rightarrow> crypto_error \<Rightarrow> unit kop" where
  "require e x = seq (external e) (\<lambda>b. guard_call b x)"

definition fresh :: "nat kop" where
  "fresh s = (Inr (clock s), tick s)"

definition generate_block :: "kenv \<Rightarrow> nat \<Rightarrow> bytes kop" where
  "generate_block e n = seq fresh (\<lambda>i. ret (map (kDraw e i) [0..<n]))"

text \<open>\<open>try { m } catch(CppException &e) { undo; throw CryptoException(msg, e); }\<close>\<close>

definition wrap_with :: "string \<Rightarrow> unit kop \<Rightarrow> 'a kop \<Rightarrow> 'a kop" where
  "wrap_with msg undo m s = (case m s of
       (Inl (CppException x), t) \<Rightarrow> seq undo (\<lambda>_. throw (CryptoException msg x)) t
     | r \<Rightarrow> r)"

definition wrap :: "string \<Rightarrow> 'a kop \<Rightarrow> 'a kop" where
  "wrap msg m = wrap_with msg (ret ()) m"

definition upd_asym :: "(client_crypto \<Rightarrow> client_crypto) \<Rightarrow> unit kop" where
  "upd_asym f = modify (\<lambda>s. s\<lparr>asymCrypto := f (asymCrypto s)\<rparr>)"

definition upd_settings :: "(ksettings \<Rightarrow> ksettings) \<Rightarrow> unit kop" where
  "upd_settings f = modify (\<lambda>s. s\<lparr>settings := f (settings s)\<rparr>)"

definition set_fingerprint :: "bytes \<Rightarrow> unit kop" where
  "set_fingerprint fp = modify (\<lambda>s. s\<lparr>fingerprint := fp, fpSignals := fpSignals s @ [fp]\<rparr>)"

section \<open>ClientCrypto\<close>

definition reset_crypto :: "unit kop" where
  "reset_crypto = upd_asym (\<lambda>_. \<lparr>acSignature = None, acEncryption = None, ccSignKey = None, ccCryptKey = None\<rparr>)"

text \<open>\<open>setSignatureScheme\<close>, \<open>setEncryptionScheme\<close> of the base class\<close>

definition set_signature_scheme :: "kenv \<Rightarrow> bytes \<Rightarrow> unit kop" where
  "set_signature_scheme e n = seq (sign_alg_by_name e n) (\<lambda>a. upd_asym (\<lambda>c. c\<lparr>acSignature := Some a\<rparr>))"

definition set_encryption_scheme :: "kenv \<Rightarrow> bytes \<Rightarrow> unit kop" where
  "set_encryption_scheme e n = seq (crypt_alg_by_name e n) (\<lambda>a. upd_asym (\<lambda>c. c\<lparr>acEncryption := Some a\<rparr>))"

text \<open>\<open>setSignatureKey(name)\<close>: a new object without a key in it.\<close>

definition set_signature_key :: "kenv \<Rightarrow> bytes \<Rightarrow> unit kop" where
  "set_signature_key e n =
     (if n = signAlgName e Rsass then upd_asym (\<lambda>c. c\<lparr>ccSignKey := Some (Rsass, None)\<rparr>)
      else if n = signAlgName e Ecdsa then upd_asym (\<lambda>c. c\<lparr>ccSignKey := Some (Ecdsa, None)\<rparr>)
      else if n = signAlgName e Ecnr then upd_asym (\<lambda>c. c\<lparr>ccSignKey := Some (Ecnr, None)\<rparr>)
      else if n = ed25519_scheme_name then upd_asym (\<lambda>c. c\<lparr>ccSignKey := Some (Ed25519, None)\<rparr>)
      else throw (CppException NOT_IMPLEMENTED))"

fun choose_signature_key :: "kenv \<Rightarrow> sign_choice \<Rightarrow> unit kop" where
  "choose_signature_key e RSA_PSS_SHA3_512 = set_signature_key e (signAlgName e Rsass)"
| "choose_signature_key e ECDSA_ECP_SHA3_512 = set_signature_key e (signAlgName e Ecdsa)"
| "choose_signature_key e ECNR_ECP_SHA3_512 = set_signature_key e (signAlgName e Ecnr)"
| "choose_signature_key e ED25519 = set_signature_key e ed25519_scheme_name"

definition set_encryption_key :: "kenv \<Rightarrow> bytes \<Rightarrow> unit kop" where
  "set_encryption_key e n =
     (if n = cryptAlgName e Rsaes then upd_asym (\<lambda>c. c\<lparr>ccCryptKey := Some (Rsaes, None)\<rparr>)
      else if n = cryptAlgName e Ecies then upd_asym (\<lambda>c. c\<lparr>ccCryptKey := Some (Ecies, None)\<rparr>)
      else throw (CppException NOT_IMPLEMENTED))"

fun choose_encryption_key :: "kenv \<Rightarrow> crypt_choice \<Rightarrow> unit kop" where
  "choose_encryption_key e ECIES_ECP_SHA3_512 = set_encryption_key e (cryptAlgName e Ecies)"
| "choose_encryption_key e RSA_OAEP_SHA3_512 = set_encryption_key e (cryptAlgName e Rsaes)"

text \<open>\<open>curveId\<close>: the enumerators of \<open>Setup::EllipticCurve\<close> in their order, each mapped to the
  curve of the same name; any other number runs into \<open>Q_UNREACHABLE\<close>.\<close>

definition curve_names :: "string list" where
  "curve_names = [''secp112r1'', ''secp128r1'', ''secp160r1'', ''secp192r1'', ''secp224r1'', ''secp256r1'',
     ''secp384r1'', ''secp521r1'', ''brainpoolP160r1'', ''brainpoolP192r1'', ''brainpoolP224r1'',
     ''brainpoolP256r1'', ''brainpoolP320r1'', ''brainpoolP384r1'', ''brainpoolP512r1'', ''secp112r2'',
     ''secp128r2'', ''secp160r2'', ''secp160k1'', ''secp192k1'', ''secp224k1'', ''secp256k1'']"

definition curve_id :: "int \<Rightarrow> string kop" where
  "curve_id n = deref (if 0 \<le> n \<and> n < int (length curve_names) then Some (curve_names ! nat n) else None)"

text \<open>\<open>RsaKeyScheme\<close>, \<open>EccKeyScheme\<close> and \<open>Ed25519KeyScheme\<close>: \<open>createPrivateKey\<close>. The last two load
  what they saved of the new key.\<close>

definition rsa_create_key :: "kenv \<Rightarrow> key_alg \<Rightarrow> key_param \<Rightarrow> bytes kop" where
  "rsa_create_key e a p = (case p of
       OtherParam \<Rightarrow> throw (CppException INVALID_ARGUMENT)
     | IntParam n \<Rightarrow> seq fresh (\<lambda>i. cpp_result INVALID_ARGUMENT (genRsa e a i n)))"

definition ecc_create_key :: "kenv \<Rightarrow> key_alg \<Rightarrow> key_param \<Rightarrow> bytes kop" where
  "ecc_create_key e a p = (case p of
       OtherParam \<Rightarrow> throw (CppException INVALID_ARGUMENT)
     | IntParam n \<Rightarrow> seq (curve_id n) (\<lambda>c. seq fresh (\<lambda>i.
         seq (cpp_result INVALID_ARGUMENT (genEcc e a i c)) (\<lambda>k.
           cpp_result INVALID_DATA_FORMAT (loadPrivate e a k)))))"

definition ed25519_create_key :: "kenv \<Rightarrow> key_param \<Rightarrow> bytes kop" where
  "ed25519_create_key e p = seq fresh (\<lambda>i. cpp_result INVALID_DATA_FORMAT (loadPrivate e (SignAlg Ed25519) (genEd25519 e i)))"

text \<open>The virtual call on \<open>_signKey\<close> or \<open>_cryptKey\<close>.\<close>

definition create_private_key :: "kenv \<Rightarrow> key_alg \<Rightarrow> key_param \<Rightarrow> bytes kop" where
  "create_private_key e a p = (case a of
       SignAlg Rsass \<Rightarrow> rsa_create_key e a p
     | CryptAlg Rsaes \<Rightarrow> rsa_create_key e a p
     | SignAlg Ed25519 \<Rightarrow> ed25519_create_key e p
     | _ \<Rightarrow> ecc_create_key e a p)"

definition put_sign_key :: "sign_alg \<Rightarrow> bytes \<Rightarrow> unit kop" where
  "put_sign_key a k = upd_asym (\<lambda>c. c\<lparr>ccSignKey := Some (a, Some k)\<rparr>)"

definition put_crypt_key :: "crypt_alg \<Rightarrow> bytes \<Rightarrow> unit kop" where
  "put_crypt_key a k = upd_asym (\<lambda>c. c\<lparr>ccCryptKey := Some (a, Some k)\<rparr>)"

definition check_schemes :: "kenv \<Rightarrow> (sign_alg \<times> crypt_alg) kop" where
  "check_schemes e = seq (gets asymCrypto) (\<lambda>c.
     seq (deref (ccSignKey c)) (\<lambda>(sa, _). seq (signature_scheme e c) (\<lambda>sn.
     seq (guard_call (sign_name e sa = sn) (CppException OTHER_ERROR)) (\<lambda>_.
     seq (deref (ccCryptKey c)) (\<lambda>(ca, _). seq (encryption_scheme e c) (\<lambda>cn.
     seq (guard_call (crypt_name e ca = cn) (CppException OTHER_ERROR)) (\<lambda>_. ret (sa, ca))))))))"

text \<open>The key is in place when its validation fails.\<close>

definition place_keys :: "kenv \<Rightarrow> sign_alg \<times> crypt_alg \<Rightarrow> bytes kop \<Rightarrow> bytes kop \<Rightarrow> unit kop" where
  "place_keys e algs get_sign get_crypt =
     seq get_sign (\<lambda>sk. seq (put_sign_key (fst algs) sk) (\<lambda>_.
     seq (guard_call (privateValid e sk) (CppException INVALID_DATA_FORMAT)) (\<lambda>_.
     seq get_crypt (\<lambda>ck. seq (put_crypt_key (snd algs) ck) (\<lambda>_.
     guard_call (privateValid e ck) (CppException INVALID_DATA_FORMAT))))))"

definition crypto_generate :: "kenv \<Rightarrow> sign_choice \<Rightarrow> key_param \<Rightarrow> crypt_choice \<Rightarrow> key_param \<Rightarrow> unit kop" where
  "crypto_generate e sc sp cc cp =
     seq reset_crypto (\<lambda>_. seq (choose_signature_key e sc) (\<lambda>_.
     seq (gets (ccSignKey \<circ> asymCrypto)) (\<lambda>k. seq (deref k) (\<lambda>(sa, _).
     seq (set_signature_scheme e (sign_name e sa)) (\<lambda>_. seq (choose_encryption_key e cc) (\<lambda>_.
     seq (gets (ccCryptKey \<circ> asymCrypto)) (\<lambda>k. seq (deref k) (\<lambda>(ca, _).
     seq (set_encryption_scheme e (crypt_name e ca)) (\<lambda>_. seq (check_schemes e) (\<lambda>algs.
     place_keys e algs (create_private_key e (SignAlg (fst algs)) sp)
       (create_private_key e (CryptAlg (snd algs)) cp)))))))))))"

definition load_key :: "kenv \<Rightarrow> key_alg \<Rightarrow> bytes \<Rightarrow> bytes kop" where
  "load_key e a d = cpp_result INVALID_DATA_FORMAT (loadPrivate e a d)"

definition crypto_load :: "kenv \<Rightarrow> bytes \<Rightarrow> bytes \<Rightarrow> bytes \<Rightarrow> bytes \<Rightarrow> unit kop" where
  "crypto_load e sn sk cn ck =
     seq reset_crypto (\<lambda>_. seq (set_signature_key e sn) (\<lambda>_. seq (set_signature_scheme e sn) (\<lambda>_.
     seq (set_encryption_key e cn) (\<lambda>_. seq (set_encryption_scheme e cn) (\<lambda>_. seq (check_schemes e) (\<lambda>algs.
     place_keys e algs (load_key e (SignAlg (fst algs)) sk) (load_key e (CryptAlg (snd algs)) ck)))))))"

text \<open>\<open>privateSignKey\<close>, \<open>privateCryptKey\<close> and what \<open>savePrivateSignKey\<close>, \<open>savePrivateCryptKey\<close> write of
  them; reading an object that holds no key yet is as undefined as reading a null pointer.\<close>

definition private_sign_key :: "(sign_alg \<times> bytes) kop" where
  "private_sign_key = seq (gets (ccSignKey \<circ> asymCrypto)) (\<lambda>p.
     seq (deref p) (\<lambda>(a, k). seq (deref k) (\<lambda>k. ret (a, k))))"

definition private_crypt_key :: "(crypt_alg \<times> bytes) kop" where
  "private_crypt_key = seq (gets (ccCryptKey \<circ> asymCrypto)) (\<lambda>p.
     seq (deref p) (\<lambda>(a, k). seq (deref k) (\<lambda>k. ret (a, k))))"

definition sign_key :: "kenv \<Rightarrow> bytes kop" where
  "sign_key e = seq private_sign_key (\<lambda>(a, k). ret (publicOf e (SignAlg a) k))"

definition crypt_key :: "kenv \<Rightarrow> bytes kop" where
  "crypt_key e = seq private_crypt_key (\<lambda>(a, k). ret (publicOf e (CryptAlg a) k))"

definition own_fingerprint :: "kenv \<Rightarrow> bytes kop" where
  "own_fingerprint e = seq (sign_key e) (\<lambda>s. seq (crypt_key e) (\<lambda>k. seq (gets asymCrypto) (\<lambda>c.
     crypto_fingerprint e c s k)))"

definition own_sign :: "kenv \<Rightarrow> bytes \<Rightarrow> bytes kop" where
  "own_sign e msg = seq private_sign_key (\<lambda>(_, k). seq (gets asymCrypto) (\<lambda>c. seq fresh (\<lambda>i. asym_sign e c i k msg)))"

definition own_encrypt :: "kenv \<Rightarrow> bytes \<Rightarrow> bytes \<Rightarrow> bytes kop" where
  "own_encrypt e key msg = seq (gets asymCrypto) (\<lambda>c. seq fresh (\<lambda>i. asym_encrypt e c i key msg))"

definition own_decrypt :: "kenv \<Rightarrow> bytes \<Rightarrow> bytes kop" where
  "own_decrypt e msg = seq private_crypt_key (\<lambda>(_, k). seq (gets asymCrypto) (\<lambda>c. asym_decrypt e c k msg))"

end
