(* ===== verification/SecretKeys.thy ===== *)
theory SecretKeys
  imports CryptoController
begin

text \<open>
  The secret keys of \<open>CryptoController\<close>: the cipher schemes, loading, storing and cleaning of
  the numbered keys, the key stores, and every public operation of the controller on them.
\<close>

section \<open>Cipher schemes by name and by choice\<close>

definition all_schemes :: "sym_scheme list" where
  "all_schemes = [(EAX, AES), (GCM, AES), (EAX, Twofish), (GCM, Twofish), (EAX, Serpent), (GCM, Serpent), (EAX, IDEA)]"

text \<open>\<open>createScheme(name)\<close>: the first scheme with this name.\<close>

definition create_scheme :: "kenv \<Rightarrow> bytes \<Rightarrow> ('s, sym_scheme) crypto_act" where
  "create_scheme e n = cpp_result NOT_IMPLEMENTED (List.find (\<lambda>sch. symName e sch = n) all_schemes)"

text \<open>\<open>createScheme(Setup::CipherScheme)\<close>, as written: two of the choices of GCM name the EAX scheme.\<close>

fun chosen_scheme :: "cipher_choice \<Rightarrow> sym_scheme" where
  "chosen_scheme AES_EAX = (EAX, AES)"
| "chosen_scheme AES_GCM = (GCM, AES)"
| "chosen_scheme TWOFISH_EAX = (EAX, Twofish)"
| "chosen_scheme TWOFISH_GCM = (EAX, Twofish)"
| "chosen_scheme SERPENT_EAX = (EAX, Serpent)"
| "chosen_scheme SERPENT_GCM = (EAX, Serpent)"
| "chosen_scheme IDEA_EAX = (EAX, IDEA)"

definition choose_scheme :: "kenv \<Rightarrow> cipher_choice \<Rightarrow> ('s, sym_scheme) crypto_act" where
  "choose_scheme e c = create_scheme e (symName e (chosen_scheme c))"

text \<open>\<open>StandardCipherScheme\<close>\<close>

definition default_key_length :: "kenv \<Rightarrow> sym_scheme \<Rightarrow> nat" where
  "default_key_length e sch = maxKeyLength e (snd sch)"

definition iv_length :: "kenv \<Rightarrow> sym_scheme \<Rightarrow> nat" where
  "iv_length e sch = blockSize e (snd sch)"

definition to_key_length :: "kenv \<Rightarrow> sym_scheme \<Rightarrow> nat \<Rightarrow> nat" where
  "to_key_length e sch n = validKeyLength e (snd sch) n"

section \<open>Encryption and authentication with a given key\<close>

text \<open>\<open>SetKey\<close> and \<open>SetKeyWithIV\<close> throw \<open>INVALID_ARGUMENT\<close> when key or iv do not fit; the
  decryption filter throws when the data has been changed.\<close>

definition encrypt_impl :: "kenv \<Rightarrow> cipher_info \<Rightarrow> bytes \<Rightarrow> bytes \<Rightarrow> ('s, bytes) crypto_act" where
  "encrypt_impl e i salt plain = cpp_result INVALID_ARGUMENT (symEncrypt e (infoScheme i) (infoKey i) salt plain)"

definition decrypt_impl :: "kenv \<Rightarrow> cipher_info \<Rightarrow> bytes \<Rightarrow> bytes \<Rightarrow> ('s, bytes) crypto_act" where
  "decrypt_impl e i salt cipher = cpp_result DATA_INTEGRITY_CHECK_FAILED (symDecrypt e (infoScheme i) (infoKey i) salt cipher)"

definition create_cmac_impl :: "kenv \<Rightarrow> cipher_info \<Rightarrow> bytes \<Rightarrow> ('s, bytes) crypto_act" where
  "create_cmac_impl e i data = cpp_result INVALID_ARGUMENT (cmacOf e (snd (infoScheme i)) (infoKey i) data)"

text \<open>Data and mac go through the filter as one stream, whose last bytes it takes for the mac.\<close>

definition verify_cmac_impl :: "kenv \<Rightarrow> cipher_info \<Rightarrow> bytes \<Rightarrow> bytes \<Rightarrow> ('s, unit) crypto_act" where
  "verify_cmac_impl e i data mac =
     (let whole = data @ mac; size = cmacSize e (snd (infoScheme i)); n = length whole - size in
      seq (create_cmac_impl e i (take n whole)) (\<lambda>expected.
        guard_call (size \<le> length whole \<and> expected = drop n whole) (CppException DATA_INTEGRITY_CHECK_FAILED)))"

section \<open>Loading and storing secret keys\<close>

definition keys_dir :: "kenv \<Rightarrow> unit kop" where
  "keys_dir e = require e (CppException IO_ERROR)"

definition put_cipher :: "u32 \<Rightarrow> cipher_info \<Rightarrow> unit kop" where
  "put_cipher k i = modify (\<lambda>s. s\<lparr>loadedCiphers := (loadedCiphers s)(k \<mapsto> i)\<rparr>)"

definition create_info :: "kenv \<Rightarrow> cipher_info kop" where
  "create_info e = seq (choose_scheme e (symChoice (kDefaults e))) (\<lambda>sch.
     let p = symKeyParam (kDefaults e);
         size = (if p = 0 then default_key_length e sch else to_key_length e sch (unat p)) in
     seq (generate_block e size) (\<lambda>k. ret \<lparr>infoScheme = sch, infoKey = k\<rparr>))"

text \<open>\<open>QFile::open\<close> to read: the file must be there; then its content.\<close>

definition read_key_file :: "kenv \<Rightarrow> u32 \<Rightarrow> bytes kop" where
  "read_key_file e k = seq (gets keyFiles) (\<lambda>fs. case fs k of
       None \<Rightarrow> throw (CppException IO_ERROR)
     | Some d \<Rightarrow> seq (require e (CppException IO_ERROR)) (\<lambda>_. ret d))"

definition get_info :: "kenv \<Rightarrow> u32 \<Rightarrow> cipher_info kop" where
  "get_info e k = seq (gets loadedCiphers) (\<lambda>l. case l k of
       Some i \<Rightarrow> ret i
     | None \<Rightarrow>
         seq (keys_dir e) (\<lambda>_.
         seq (gets (\<lambda>s. case map_of (setSymKeys (settings s)) k of None \<Rightarrow> [] | Some n \<Rightarrow> n)) (\<lambda>n.
         seq (create_scheme e n) (\<lambda>sch.
         seq (read_key_file e k) (\<lambda>enc.
         seq (own_decrypt e enc) (\<lambda>key.
         seq (guard_call (length key = to_key_length e sch (length key)) (CppException OTHER_ERROR)) (\<lambda>_.
         let i = \<lparr>infoScheme = sch, infoKey = key\<rparr> in seq (put_cipher k i) (\<lambda>_. ret i))))))))"

text \<open>The result of \<open>QFile::write\<close> is not looked at: a failed one leaves a part of the data.\<close>

definition write_key_file :: "kenv \<Rightarrow> u32 \<Rightarrow> bytes \<Rightarrow> unit kop" where
  "write_key_file e k d =
     seq (require e (CppException IO_ERROR)) (\<lambda>_. seq (gets clock) (\<lambda>n. seq (external e) (\<lambda>b.
     modify (\<lambda>s. s\<lparr>keyFiles := (keyFiles s)(k \<mapsto> if b then d else take (writtenBytes e n) d)\<rparr>))))"

definition store_cipher_key :: "kenv \<Rightarrow> u32 \<Rightarrow> unit kop" where
  "store_cipher_key e k =
     seq (keys_dir e) (\<lambda>_. seq (get_info e k) (\<lambda>i. seq (crypt_key e) (\<lambda>pub.
     seq (own_encrypt e pub (infoKey i)) (\<lambda>enc. seq (write_key_file e k enc) (\<lambda>_.
     upd_settings (\<lambda>c. c\<lparr>setSymKeys := AList.update k (symName e (infoScheme i)) (setSymKeys c)\<rparr>))))))"

definition clean_cipher :: "kenv \<Rightarrow> u32 \<Rightarrow> unit kop" where
  "clean_cipher e k = seq (gets localCipher) (\<lambda>l.
     if k + 5 < l then
       seq (upd_settings (\<lambda>c. c\<lparr>setSymKeys := AList.delete k (setSymKeys c)\<rparr>)) (\<lambda>_. seq (external e) (\<lambda>b.
         modify (\<lambda>s. s\<lparr>keyFiles := (if b then (keyFiles s)(k := None) else keyFiles s),
                        loadedCiphers := (loadedCiphers s)(k := None)\<rparr>)))
     else ret ())"

fun clean_each :: "kenv \<Rightarrow> u32 list \<Rightarrow> unit kop" where
  "clean_each e [] = ret ()"
| "clean_each e (k # ks) = seq (clean_cipher e k) (\<lambda>_. clean_each e ks)"

definition clean_ciphers :: "kenv \<Rightarrow> unit kop" where
  "clean_ciphers e = seq (keys_dir e) (\<lambda>_. seq (gets (map fst \<circ> setSymKeys \<circ> settings)) (\<lambda>ks. clean_each e ks))"

section \<open>The key store\<close>

definition set_store_open :: "bool \<Rightarrow> unit kop" where
  "set_store_open b = modify (\<lambda>s. s\<lparr>keyStore := map_option (\<lambda>k. k\<lparr>storeOpen := b\<rparr>) (keyStore s)\<rparr>)"

definition ensure_store_open :: "kenv \<Rightarrow> unit kop" where
  "ensure_store_open e = seq (gets keyStore) (\<lambda>k. case k of
       None \<Rightarrow> throw (CppException NOT_IMPLEMENTED)
     | Some k \<Rightarrow> if storeOpen k then ret ()
         else seq (require e (KeyStoreException ''openStore'')) (\<lambda>_. set_store_open True))"

definition close_store :: "kenv \<Rightarrow> unit kop" where
  "close_store e = seq (gets keyStore) (\<lambda>k. case k of
       None \<Rightarrow> ret ()
     | Some k \<Rightarrow> if storeOpen k then seq (external e) (\<lambda>b. if b then set_store_open False else ret ()) else ret ())"

definition acquire_store :: "kenv \<Rightarrow> bool \<Rightarrow> unit kop" where
  "acquire_store e existing =
     seq (close_store e) (\<lambda>_. seq (gets settings) (\<lambda>c. seq (gets keyStore) (\<lambda>ks.
     let provider = (if existing then (case setKeystore c of None \<Rightarrow> [] | Some p \<Rightarrow> p)
                     else (case keyStoreProvider (kDefaults e) of None \<Rightarrow> defaultKeyStore (kDefaults e) | Some p \<Rightarrow> p)) in
     if (case ks of None \<Rightarrow> False | Some k \<Rightarrow> providerName k = provider) then ret ()
     else seq (modify (\<lambda>s. s\<lparr>keyStore := None\<rparr>)) (\<lambda>_.
          seq (guard_call (pluginAvailable e provider) (LibException ''Keystore not available'')) (\<lambda>_.
          modify (\<lambda>s. s\<lparr>keyStore := Some \<lparr>providerName = provider, storeOpen = False\<rparr>\<rparr>))))))"

text \<open>\<open>load\<close>, \<open>save\<close> and \<open>remove\<close> of the open store; an unknown key loads as a null array.\<close>

definition store_load :: "kenv \<Rightarrow> store_key \<Rightarrow> bytes option kop" where
  "store_load e k = seq (gets keyStore) (\<lambda>ks. seq (deref ks) (\<lambda>ks.
     seq (require e (KeyStoreException ''load'')) (\<lambda>_. gets (\<lambda>s. storedKeys s (providerName ks) k))))"

definition store_put :: "kenv \<Rightarrow> string \<Rightarrow> store_key \<Rightarrow> bytes option \<Rightarrow> unit kop" where
  "store_put e op k d = seq (gets keyStore) (\<lambda>ks. seq (deref ks) (\<lambda>ks.
     seq (require e (KeyStoreException op)) (\<lambda>_. modify (\<lambda>s. s\<lparr>storedKeys := (storedKeys s)
       (providerName ks := (storedKeys s (providerName ks))(k := d))\<rparr>))))"

definition load_private_key :: "kenv \<Rightarrow> store_key \<Rightarrow> bytes kop" where
  "load_private_key e k = seq (store_load e k) (\<lambda>d. case d of
       None \<Rightarrow> throw (KeyStoreException ''Unable to load private key from keystore'') | Some d \<Rightarrow> ret d)"

definition load_key_material :: "kenv \<Rightarrow> uuid \<Rightarrow> unit kop" where
  "load_key_material e dev = wrap_with ''Failed to load key material'' (close_store e)
     (seq (ensure_store_open e) (\<lambda>_.
      seq (gets (\<lambda>s. case setSignScheme (settings s) of None \<Rightarrow> [] | Some n \<Rightarrow> n)) (\<lambda>sn.
      seq (load_private_key e (SigningKey dev)) (\<lambda>sk.
      seq (gets (\<lambda>s. case setCryptScheme (settings s) of None \<Rightarrow> [] | Some n \<Rightarrow> n)) (\<lambda>cn.
      seq (load_private_key e (EncryptionKey dev)) (\<lambda>ck.
      seq (crypto_load e sn sk cn ck) (\<lambda>_.
      seq (own_fingerprint e) (\<lambda>fp. seq (set_fingerprint fp) (\<lambda>_.
      seq (modify (\<lambda>s. s\<lparr>localCipher := (case setLocalKey (settings s) of None \<Rightarrow> 0 | Some k \<Rightarrow> k)\<rparr>)) (\<lambda>_.
      seq (gets localCipher) (\<lambda>k. seq (get_info e k) (\<lambda>_. close_store e))))))))))))"

definition clear_key_material :: "kenv \<Rightarrow> unit kop" where
  "clear_key_material e =
     seq (modify (\<lambda>s. s\<lparr>fingerprint := []\<rparr>)) (\<lambda>_. seq reset_crypto (\<lambda>_.
     seq (modify (\<lambda>s. s\<lparr>loadedCiphers := (\<lambda>_. None), localCipher := 0\<rparr>)) (\<lambda>_.
     seq (close_store e) (\<lambda>_. set_fingerprint []))))"

text \<open>\<open>removeRecursively\<close>: when it fails, some of the files stay. An exception of Crypto++ while the
  private keys are removed is logged only.\<close>

definition remove_key_files :: "kenv \<Rightarrow> unit kop" where
  "remove_key_files e = seq (gets clock) (\<lambda>n. seq (external e) (\<lambda>b.
     modify (\<lambda>s. s\<lparr>keyFiles := (\<lambda>k. if \<not> b \<and> keptFiles e n k then keyFiles s k else None)\<rparr>)))"

definition ignore_cpp :: "unit kop \<Rightarrow> unit kop" where
  "ignore_cpp m s = (case m s of (Inl (CppException x), t) \<Rightarrow> (Inr (), t) | r \<Rightarrow> r)"

definition delete_key_material :: "kenv \<Rightarrow> uuid \<Rightarrow> unit kop" where
  "delete_key_material e dev =
     seq (keys_dir e) (\<lambda>_. seq (remove_key_files e) (\<lambda>_.
     seq (upd_settings (\<lambda>c. c\<lparr>setSignScheme := None, setCryptScheme := None, setLocalKey := None, setKeystore := None\<rparr>)) (\<lambda>_.
     seq (ignore_cpp (seq (ensure_store_open e) (\<lambda>_. seq (store_put e ''remove'' (SigningKey dev) None) (\<lambda>_.
       store_put e ''remove'' (EncryptionKey dev) None)))) (\<lambda>_.
     seq (close_store e) (\<lambda>_. clear_key_material e)))))"

definition create_private_keys :: "kenv \<Rightarrow> bytes \<Rightarrow> unit kop" where
  "create_private_keys e nonce = wrap ''Failed to generate key material''
     (seq (if canIncorporateEntropy e then seq fresh (\<lambda>_. ret ()) else ret ()) (\<lambda>_.
      seq (crypto_generate e (signChoice (kDefaults e)) (signKeyParam (kDefaults e))
             (cryptChoice (kDefaults e)) (cryptKeyParam (kDefaults e))) (\<lambda>_.
      seq (own_fingerprint e) (\<lambda>fp. seq (set_fingerprint fp) (\<lambda>_.
      seq (create_info e) (\<lambda>i. seq (modify (\<lambda>s. s\<lparr>localCipher := 0\<rparr>)) (\<lambda>_. put_cipher 0 i)))))))"

definition store_private_keys :: "kenv \<Rightarrow> uuid \<Rightarrow> unit kop" where
  "store_private_keys e dev = wrap_with ''Failed to store key material'' (close_store e)
     (seq (ensure_store_open e) (\<lambda>_. seq (gets asymCrypto) (\<lambda>c.
      seq (signature_scheme e c) (\<lambda>sn. seq (upd_settings (\<lambda>c. c\<lparr>setSignScheme := Some sn\<rparr>)) (\<lambda>_.
      seq private_sign_key (\<lambda>(_, sk). seq (store_put e ''save'' (SigningKey dev) (Some sk)) (\<lambda>_.
      seq (encryption_scheme e c) (\<lambda>cn. seq (upd_settings (\<lambda>c. c\<lparr>setCryptScheme := Some cn\<rparr>)) (\<lambda>_.
      seq private_crypt_key (\<lambda>(_, ck). seq (store_put e ''save'' (EncryptionKey dev) (Some ck)) (\<lambda>_.
      seq (gets localCipher) (\<lambda>k. seq (store_cipher_key e k) (\<lambda>_.
      seq (upd_settings (\<lambda>c. c\<lparr>setLocalKey := Some k\<rparr>)) (\<lambda>_. seq (close_store e) (\<lambda>_.
      seq (gets keyStore) (\<lambda>ks. seq (deref ks) (\<lambda>ks.
      upd_settings (\<lambda>c. c\<lparr>setKeystore := Some (providerName ks)\<rparr>))))))))))))))))))"

definition has_key_update :: "crypto \<Rightarrow> bool" where
  "has_key_update s = (setNextKey (settings s) \<noteq> None)"

section \<open>Data, macs and the exchange of keys\<close>

definition encrypt_data :: "kenv \<Rightarrow> bytes \<Rightarrow> (u32 \<times> bytes \<times> bytes) kop" where
  "encrypt_data e plain = wrap ''Failed to encrypt data for upload''
     (seq (gets localCipher) (\<lambda>k. seq (get_info e k) (\<lambda>i.
      seq (generate_block e (iv_length e (infoScheme i))) (\<lambda>salt.
      seq (encrypt_impl e i salt plain) (\<lambda>c. ret (k, salt, c))))))"

definition decrypt_data :: "kenv \<Rightarrow> u32 \<Rightarrow> bytes \<Rightarrow> bytes \<Rightarrow> bytes kop" where
  "decrypt_data e k salt c = wrap ''Failed to decrypt downloaded data''
     (seq (get_info e k) (\<lambda>i. decrypt_impl e i salt c))"

definition create_cmac :: "kenv \<Rightarrow> u32 \<Rightarrow> bytes \<Rightarrow> bytes kop" where
  "create_cmac e k data = wrap ''Failed to create CMAC'' (seq (get_info e k) (\<lambda>i. create_cmac_impl e i data))"

definition verify_cmac :: "kenv \<Rightarrow> u32 \<Rightarrow> bytes \<Rightarrow> bytes \<Rightarrow> unit kop" where
  "verify_cmac e k data mac = wrap ''Failed to verify CMAC'' (seq (get_info e k) (\<lambda>i. verify_cmac_impl e i data mac))"

text \<open>\<open>encryptSecretKey(keyIndex, crypto, pubKey)\<close> and the variant for the local key.\<close>

definition encrypt_secret_key_at :: "kenv \<Rightarrow> u32 \<Rightarrow> ('y) asym_crypto_scheme \<Rightarrow> bytes \<Rightarrow> bytes kop" where
  "encrypt_secret_key_at e k c pub = wrap ''Failed to encrypt exchange key for peer''
     (seq (get_info e k) (\<lambda>i. seq fresh (\<lambda>n. asym_encrypt e c n pub (infoKey i))))"

definition encrypt_secret_key :: "kenv \<Rightarrow> ('y) asym_crypto_scheme \<Rightarrow> bytes \<Rightarrow> (u32 \<times> bytes \<times> bytes) kop" where
  "encrypt_secret_key e c pub = wrap ''Failed to encrypt exchange key for peer''
     (seq (gets localCipher) (\<lambda>k. seq (get_info e k) (\<lambda>i.
      seq (encrypt_secret_key_at e k c pub) (\<lambda>d. ret (k, symName e (infoScheme i), d)))))"

definition decrypt_secret_key :: "kenv \<Rightarrow> u32 \<Rightarrow> bytes \<Rightarrow> bytes \<Rightarrow> bool \<Rightarrow> unit kop" where
  "decrypt_secret_key e k sn data grant_init = wrap ''Failed to exchange secret key from peer''
     (seq (own_decrypt e data) (\<lambda>key. seq (create_scheme e sn) (\<lambda>sch.
      seq (put_cipher k \<lparr>infoScheme = sch, infoKey = key\<rparr>) (\<lambda>_.
      if grant_init then modify (\<lambda>s. s\<lparr>localCipher := k\<rparr>)
      else seq (store_cipher_key e k) (\<lambda>_. seq (gets localCipher) (\<lambda>l.
        if l < k then
          seq (modify (\<lambda>s. s\<lparr>localCipher := k\<rparr>)) (\<lambda>_.
          seq (upd_settings (\<lambda>c. c\<lparr>setLocalKey := Some k\<rparr>)) (\<lambda>_. clean_ciphers e))
        else ret ()))))))"

definition key_cmac_message :: "kenv \<Rightarrow> ('y) asym_crypto_scheme \<Rightarrow> bytes \<Rightarrow> bytes kop" where
  "key_cmac_message e c pub = seq (encryption_scheme e c) (\<lambda>n. ret (n @ write_key pub))"

definition generate_encryption_key_cmac :: "kenv \<Rightarrow> u32 \<Rightarrow> bytes kop" where
  "generate_encryption_key_cmac e k = wrap ''Failed to create CMAC for private encryption key''
     (seq (gets asymCrypto) (\<lambda>c. seq (crypt_key e) (\<lambda>pub. seq (key_cmac_message e c pub) (\<lambda>msg.
      seq (get_info e k) (\<lambda>i. create_cmac_impl e i msg)))))"

definition verify_encryption_key_cmac :: "kenv \<Rightarrow> ('y) asym_crypto_scheme \<Rightarrow> bytes \<Rightarrow> bytes \<Rightarrow> unit kop" where
  "verify_encryption_key_cmac e c pub mac = wrap ''Failed to verify CMAC for private encryption key''
     (seq (key_cmac_message e c pub) (\<lambda>msg. seq (gets localCipher) (\<lambda>k.
      seq (get_info e k) (\<lambda>i. verify_cmac_impl e i msg mac))))"

definition generate_next_key :: "kenv \<Rightarrow> (u32 \<times> bytes) kop" where
  "generate_next_key e = wrap ''Failed to generate new exchange key''
     (seq (gets localCipher) (\<lambda>l. seq (gets (setNextKey \<circ> settings)) (\<lambda>nx.
      let k = l + 1 in
      seq (if nx = Some k then get_info e k
           else seq (create_info e) (\<lambda>i. seq (put_cipher k i) (\<lambda>_. seq (store_cipher_key e k) (\<lambda>_.
                seq (upd_settings (\<lambda>c. c\<lparr>setNextKey := Some k\<rparr>)) (\<lambda>_. ret i))))) (\<lambda>i.
      ret (k, symName e (infoScheme i))))))"

definition activate_next_key :: "kenv \<Rightarrow> u32 \<Rightarrow> unit kop" where
  "activate_next_key e k = wrap ''Failed to save new exchange key''
     (seq (gets localCipher) (\<lambda>l.
      if l + 1 \<noteq> k then ret ()
      else seq (gets (setNextKey \<circ> settings)) (\<lambda>nx.
        if k \<noteq> (case nx of None \<Rightarrow> 0 | Some n \<Rightarrow> n) then ret ()
        else seq (get_info e k) (\<lambda>_. seq (modify (\<lambda>s. s\<lparr>localCipher := k\<rparr>)) (\<lambda>_.
          seq (upd_settings (\<lambda>c. c\<lparr>setLocalKey := Some k\<rparr>)) (\<lambda>_.
          seq (upd_settings (\<lambda>c. c\<lparr>setNextKey := None\<rparr>)) (\<lambda>_. clean_ciphers e)))))))"

section \<open>Export and import of an account\<close>

definition pw_purpose :: nat where "pw_purpose = 0x42"
definition pw_rounds :: nat where "pw_rounds = 5"

definition generate_export_key :: "kenv \<Rightarrow> string option \<Rightarrow> (bytes \<times> bytes \<times> bytes) kop" where
  "generate_export_key e password = wrap ''Failed to generate key from password''
     (seq (choose_scheme e (symChoice (kDefaults e))) (\<lambda>sch. let size = default_key_length e sch in
      case password of
        None \<Rightarrow> seq (generate_block e size) (\<lambda>key. ret (symName e sch, [], key))
      | Some pw \<Rightarrow> seq (generate_block e (iv_length e sch)) (\<lambda>salt.
          ret (symName e sch, salt, pbkdf2 e size pw_purpose pw salt pw_rounds))))"

definition recover_export_key :: "kenv \<Rightarrow> bytes \<Rightarrow> bytes \<Rightarrow> string \<Rightarrow> bytes kop" where
  "recover_export_key e sn salt pw = wrap ''Failed to recover key from password''
     (seq (create_scheme e sn) (\<lambda>sch. ret (pbkdf2 e (default_key_length e sch) pw_purpose pw salt pw_rounds)))"

definition with_scheme :: "kenv \<Rightarrow> bytes \<Rightarrow> bytes \<Rightarrow> (cipher_info \<Rightarrow> 'a kop) \<Rightarrow> 'a kop" where
  "with_scheme e sn key f = seq (create_scheme e sn) (\<lambda>sch. f \<lparr>infoScheme = sch, infoKey = key\<rparr>)"

definition create_export_cmac :: "kenv \<Rightarrow> bytes \<Rightarrow> bytes \<Rightarrow> bytes \<Rightarrow> bytes kop" where
  "create_export_cmac e sn key data = wrap ''Failed to generate cmac for export data''
     (with_scheme e sn key (\<lambda>i. create_cmac_impl e i data))"

text \<open>The message of the trust mac: both schemes and both public keys.\<close>

definition trust_message :: "kenv \<Rightarrow> ('y) asym_crypto_scheme \<Rightarrow> bytes \<Rightarrow> bytes \<Rightarrow> bytes kop" where
  "trust_message e c sk ck = seq (signature_scheme e c) (\<lambda>sn. seq (encryption_scheme e c) (\<lambda>cn.
     ret (sn @ write_key sk @ cn @ write_key ck)))"

definition create_export_cmac_for_crypto :: "kenv \<Rightarrow> bytes \<Rightarrow> bytes \<Rightarrow> bytes kop" where
  "create_export_cmac_for_crypto e sn key = wrap ''Failed to generate cmac for crypto keys''
     (seq (gets asymCrypto) (\<lambda>c. seq (sign_key e) (\<lambda>sk. seq (crypt_key e) (\<lambda>ck.
      seq (trust_message e c sk ck) (\<lambda>msg. with_scheme e sn key (\<lambda>i. create_cmac_impl e i msg))))))"

definition verify_import_cmac :: "kenv \<Rightarrow> bytes \<Rightarrow> bytes \<Rightarrow> bytes \<Rightarrow> bytes \<Rightarrow> unit kop" where
  "verify_import_cmac e sn key data mac = wrap ''Failed to verify cmac for import data''
     (with_scheme e sn key (\<lambda>i. verify_cmac_impl e i data mac))"

definition verify_import_cmac_for_crypto :: "kenv \<Rightarrow> bytes \<Rightarrow> bytes \<Rightarrow> crypto_info \<Rightarrow> bytes \<Rightarrow> unit kop" where
  "verify_import_cmac_for_crypto e sn key c mac = wrap ''Failed to verify cmac for crypto keys''
     (seq (deref (ciSignKey c)) (\<lambda>sk. seq (deref (ciCryptKey c)) (\<lambda>ck.
      seq (trust_message e c sk ck) (\<lambda>msg. with_scheme e sn key (\<lambda>i. verify_cmac_impl e i msg mac)))))"

definition export_encrypt :: "kenv \<Rightarrow> bytes \<Rightarrow> bytes \<Rightarrow> bytes \<Rightarrow> bytes \<Rightarrow> bytes kop" where
  "export_encrypt e sn salt key data = wrap ''Failed to encrypt export data''
     (with_scheme e sn key (\<lambda>i. encrypt_impl e i salt data))"

definition import_decrypt :: "kenv \<Rightarrow> bytes \<Rightarrow> bytes \<Rightarrow> bytes \<Rightarrow> bytes \<Rightarrow> bytes kop" where
  "import_decrypt e sn salt key data = wrap ''Failed to decrypt import data''
     (with_scheme e sn key (\<lambda>i. decrypt_impl e i salt data))"

end
