(* ===== verification/SecretKeyProps.thy ===== *)
theory SecretKeyProps
  imports SecretKeys
begin

text \<open>
  What the operations on secret keys keep. The invariant \<open>secured\<close> says that a key is on disk,
  that the loaded copy, if there is one, is the same key, and that the device can read it again
  after a restart; every operation keeps it as long as the key is not older than five
  generations.
\<close>

section \<open>Building blocks\<close>

lemma keeps_external: "(\<And>s. P s \<Longrightarrow> P (tick s)) \<Longrightarrow> keeps P (external e)"
  by (simp add: keeps_def external_def)

lemma keeps_fresh: "(\<And>s. P s \<Longrightarrow> P (tick s)) \<Longrightarrow> keeps P fresh"
  by (simp add: keeps_def fresh_def)

lemma keeps_deref: "keeps P (deref x)"
  by (cases x) (simp_all add: keeps_ret keeps_throw)

lemma keeps_cpp_result: "keeps P (cpp_result x r)"
  by (cases r) (simp_all add: keeps_ret keeps_throw)

lemma keeps_wrap_with: "keeps P m \<Longrightarrow> keeps P undo \<Longrightarrow> keeps P (wrap_with msg undo m)"
  unfolding keeps_def wrap_with_def seq_def throw_def
  by (auto split: prod.splits sum.splits crypto_error.splits)

lemma keeps_wrap: "keeps P m \<Longrightarrow> keeps P (wrap msg m)"
  by (simp add: wrap_def keeps_wrap_with keeps_ret)

lemma wrap_Inr: "wrap msg m s = (Inr a, t) \<longleftrightarrow> m s = (Inr a, t)"
  by (auto simp: wrap_def wrap_with_def seq_def ret_def throw_def split: prod.splits sum.splits crypto_error.splits)

lemma wrap_state: "snd (wrap msg m s) = snd (m s)"
  by (auto simp: wrap_def wrap_with_def seq_def ret_def throw_def split: prod.splits sum.splits crypto_error.splits)

lemma wrap_with_Inr: "wrap_with msg u m s = (Inr a, t) \<longleftrightarrow> m s = (Inr a, t)"
  by (auto simp: wrap_with_def seq_def throw_def split: prod.splits sum.splits crypto_error.splits)

lemma fresh_seq [simp]: "seq fresh f s = f (clock s) (tick s)"
  by (simp add: seq_def fresh_def)

lemma external_seq [simp]: "seq (external e) f s = f (kSucceeds e (clock s)) (tick s)"
  by (simp add: seq_def external_def)

lemma fresh_Inr: "fresh s = (Inr i, t) \<longleftrightarrow> i = clock s \<and> t = tick s"
  by (auto simp: fresh_def)

lemma external_Inr: "external e s = (Inr b, t) \<longleftrightarrow> b = kSucceeds e (clock s) \<and> t = tick s"
  by (auto simp: external_def)

lemma deref_Inr: "deref x s = (Inr a, t) \<longleftrightarrow> x = Some a \<and> t = s"
  by (cases x) (auto simp: act_defs)

lemma cpp_result_Inr: "cpp_result c x s = (Inr a, t) \<longleftrightarrow> x = Some a \<and> t = s"
  by (cases x) (auto simp: act_defs)

lemma tick_simps [simp]:
  "asymCrypto (tick s) = asymCrypto s" "loadedCiphers (tick s) = loadedCiphers s"
  "localCipher (tick s) = localCipher s" "settings (tick s) = settings s" "keyFiles (tick s) = keyFiles s"
  "storedKeys (tick s) = storedKeys s" "clock (tick s) = Suc (clock s)" "keyStore (tick s) = keyStore s"
  "fingerprint (tick s) = fingerprint s"
  by (simp_all add: tick_def)

lemma tick_as_update: "tick s = s\<lparr>clock := Suc (clock s)\<rparr>"
  by (simp add: tick_def)

section \<open>The key on disk\<close>

definition scheme_of_name :: "kenv \<Rightarrow> bytes \<Rightarrow> sym_scheme option" where
  "scheme_of_name e n = List.find (\<lambda>sch. symName e sch = n) all_schemes"

definition name_of_key :: "crypto \<Rightarrow> u32 \<Rightarrow> bytes" where
  "name_of_key s k = (case map_of (setSymKeys (settings s)) k of None \<Rightarrow> [] | Some n \<Rightarrow> n)"

text \<open>What the private key \<open>priv\<close> makes of key file and settings.\<close>

definition stored_info :: "kenv \<Rightarrow> crypt_alg \<Rightarrow> bytes \<Rightarrow> crypto \<Rightarrow> u32 \<Rightarrow> cipher_info option" where
  "stored_info e a priv s k = (case keyFiles s k of None \<Rightarrow> None | Some d \<Rightarrow>
     (case pkDecrypt e a priv d of None \<Rightarrow> None | Some key \<Rightarrow>
     (case scheme_of_name e (name_of_key s k) of None \<Rightarrow> None | Some sch \<Rightarrow>
       if length key = to_key_length e sch (length key) then Some \<lparr>infoScheme = sch, infoKey = key\<rparr> else None)))"

text \<open>The private key for secret keys is loaded.\<close>

definition ready :: "crypt_alg \<Rightarrow> bytes \<Rightarrow> crypto \<Rightarrow> bool" where
  "ready a priv s \<longleftrightarrow> ccCryptKey (asymCrypto s) = Some (a, Some priv) \<and> acEncryption (asymCrypto s) = Some a"

lemma ready_simps [simp]:
  "ready a priv (tick s) = ready a priv s"
  "ready a priv (s\<lparr>loadedCiphers := l\<rparr>) = ready a priv s"
  "ready a priv (s\<lparr>localCipher := k\<rparr>) = ready a priv s"
  "ready a priv (s\<lparr>settings := c\<rparr>) = ready a priv s"
  "ready a priv (s\<lparr>keyFiles := f\<rparr>) = ready a priv s"
  "ready a priv (s\<lparr>clock := n\<rparr>) = ready a priv s"
  "ready a priv (s\<lparr>storedKeys := h\<rparr>) = ready a priv s"
  "ready a priv (s\<lparr>keyStore := ks\<rparr>) = ready a priv s"
  by (simp_all add: ready_def)

lemma stored_info_simps [simp]:
  "stored_info e a priv (tick s) = stored_info e a priv s"
  "stored_info e a priv (s\<lparr>loadedCiphers := l\<rparr>) = stored_info e a priv s"
  "stored_info e a priv (s\<lparr>localCipher := k\<rparr>) = stored_info e a priv s"
  "stored_info e a priv (s\<lparr>clock := n\<rparr>) = stored_info e a priv s"
  "stored_info e a priv (s\<lparr>asymCrypto := c\<rparr>) = stored_info e a priv s"
  "stored_info e a priv (s\<lparr>storedKeys := h\<rparr>) = stored_info e a priv s"
  "stored_info e a priv (s\<lparr>keyStore := ks\<rparr>) = stored_info e a priv s"
  by (simp_all add: stored_info_def name_of_key_def fun_eq_iff cong: option.case_cong)

text \<open>
  \<open>getInfo\<close> finds the loaded key, loads the stored one, or fails; nothing else changes. The
  last possibility needs a failing call or a key that is not stored.
\<close>

lemma get_info_loaded: "loadedCiphers s k = Some i \<Longrightarrow> get_info e k s = (Inr i, s)"
  by (simp add: get_info_def) (simp add: ret_def)

lemma get_info_absent:
  assumes "ready a priv s" and "loadedCiphers s k = None"
  shows "get_info e k s =
    (if \<not> kSucceeds e (clock s) then (Inl (CppException IO_ERROR), tick s)
     else case scheme_of_name e (name_of_key s k) of None \<Rightarrow> (Inl (CppException NOT_IMPLEMENTED), tick s)
     | Some sch \<Rightarrow> (case keyFiles s k of None \<Rightarrow> (Inl (CppException IO_ERROR), tick s)
     | Some d \<Rightarrow> if \<not> kSucceeds e (Suc (clock s)) then (Inl (CppException IO_ERROR), tick (tick s))
       else (case pkDecrypt e a priv d of None \<Rightarrow> (Inl (CppException INVALID_DATA_FORMAT), tick (tick s))
     | Some key \<Rightarrow> if length key = to_key_length e sch (length key)
         then (Inr \<lparr>infoScheme = sch, infoKey = key\<rparr>,
               (tick (tick s))\<lparr>loadedCiphers := (loadedCiphers s)(k \<mapsto> \<lparr>infoScheme = sch, infoKey = key\<rparr>)\<rparr>)
         else (Inl (CppException OTHER_ERROR), tick (tick s)))))"
proof -
  note [simp] = require_def keys_dir_def seq_assoc create_scheme_def read_key_file_def own_decrypt_def
    private_crypt_key_def asym_decrypt_def Let_def
  have "get_info e k s = seq (require e (CppException IO_ERROR)) (\<lambda>_.
      seq (create_scheme e (name_of_key s k)) (\<lambda>sch. seq (read_key_file e k) (\<lambda>enc.
      seq (own_decrypt e enc) (\<lambda>key.
      seq (guard_call (length key = to_key_length e sch (length key)) (CppException OTHER_ERROR)) (\<lambda>_.
      let i = \<lparr>infoScheme = sch, infoKey = key\<rparr> in seq (put_cipher k i) (\<lambda>_. ret i)))))) s"
    using assms(2) by (simp add: get_info_def name_of_key_def)
  then show ?thesis
    using assms
    by (simp add: ready_def scheme_of_name_def put_cipher_def throw_def split: option.splits)
      (simp add: ret_def)
qed

lemma get_info_cases:
  assumes "ready a priv s" and "get_info e k s = (r, t)"
  shows "(\<exists>n. t = s\<lparr>clock := n\<rparr> \<and> (\<forall>i. r = Inr i \<longrightarrow> loadedCiphers s k = Some i)) \<or>
         (\<exists>i n. loadedCiphers s k = None \<and> stored_info e a priv s k = Some i \<and> r = Inr i \<and>
            t = s\<lparr>clock := n, loadedCiphers := (loadedCiphers s)(k \<mapsto> i)\<rparr>)"
proof (cases "loadedCiphers s k")
  case (Some i)
  with assms(2) have "t = s\<lparr>clock := clock s\<rparr> \<and> r = Inr i" by (simp add: get_info_loaded)
  with Some show ?thesis by blast
next
  case None
  with get_info_absent [OF assms(1) None, of e] assms(2) show ?thesis
    by (auto simp: stored_info_def tick_as_update split: if_splits option.splits)
qed

text \<open>When the calls succeed, a stored key is found.\<close>

lemma get_info_calm:
  assumes "ready a priv s" and "loadedCiphers s k = Some i \<or> loadedCiphers s k = None \<and> stored_info e a priv s k = Some i"
    and "\<And>n. clock s \<le> n \<Longrightarrow> kSucceeds e n"
  shows "\<exists>t. get_info e k s = (Inr i, t)"
proof (cases "loadedCiphers s k")
  case Some
  with assms(2) show ?thesis by (auto simp: get_info_loaded)
next
  case None
  with assms(2) assms(3) [of "clock s"] assms(3) [of "Suc (clock s)"] get_info_absent [OF assms(1) None, of e]
  show ?thesis by (auto simp: stored_info_def split: if_splits option.splits)
qed

section \<open>A key that is safe\<close>

text \<open>
  The device can use and reload its private key, its local key has the index \<open>l\<close>, the secret
  key \<open>k\<close> is stored as \<open>i\<close>, and a loaded copy is the same.
\<close>

definition restartable :: "kenv \<Rightarrow> uuid \<Rightarrow> crypt_alg \<Rightarrow> bytes \<Rightarrow> crypto \<Rightarrow> bool" where
  "restartable e dev a priv s \<longleftrightarrow>
     setCryptScheme (settings s) = Some (crypt_name e a) \<and> setLocalKey (settings s) = Some (localCipher s) \<and>
     (case setKeystore (settings s) of None \<Rightarrow> False | Some p \<Rightarrow>
       (case storedKeys s p (EncryptionKey dev) of None \<Rightarrow> False | Some d \<Rightarrow> loadPrivate e (CryptAlg a) d = Some priv))"

definition secured :: "kenv \<Rightarrow> uuid \<Rightarrow> crypt_alg \<Rightarrow> bytes \<Rightarrow> u32 \<Rightarrow> u32 \<Rightarrow> cipher_info \<Rightarrow> crypto \<Rightarrow> bool" where
  "secured e dev a priv l k i s \<longleftrightarrow> ready a priv s \<and> restartable e dev a priv s \<and>
     stored_info e a priv s k = Some i \<and> loadedCiphers s k \<in> {None, Some i} \<and> localCipher s = l"

lemma stored_info_upd_key:
  "stored_info e a priv (s\<lparr>keyFiles := (keyFiles s)(j := f)\<rparr>) k =
     (if j = k then stored_info e a priv (s\<lparr>keyFiles := (keyFiles s)(j := f)\<rparr>) k else stored_info e a priv s k)"
  by (simp add: stored_info_def name_of_key_def cong: option.case_cong)

lemma stored_info_cong:
  "stored_info e a priv s k = x \<Longrightarrow> keyFiles t k = keyFiles s k \<Longrightarrow> settings t = settings s \<Longrightarrow>
     stored_info e a priv t k = x"
  by (simp add: stored_info_def name_of_key_def cong: option.case_cong)

lemma stored_info_settings:
  "map_of (setSymKeys c) k = map_of (setSymKeys (settings s)) k \<Longrightarrow>
     stored_info e a priv (s\<lparr>settings := c\<rparr>) k = stored_info e a priv s k"
  by (simp add: stored_info_def name_of_key_def cong: option.case_cong)

lemma restartable_simps [simp]:
  "restartable e dev a priv (tick s) = restartable e dev a priv s"
  "restartable e dev a priv (s\<lparr>loadedCiphers := l\<rparr>) = restartable e dev a priv s"
  "restartable e dev a priv (s\<lparr>clock := n\<rparr>) = restartable e dev a priv s"
  "restartable e dev a priv (s\<lparr>keyFiles := f\<rparr>) = restartable e dev a priv s"
  "restartable e dev a priv (s\<lparr>asymCrypto := c\<rparr>) = restartable e dev a priv s"
  by (simp_all add: restartable_def cong: option.case_cong)

lemma restartable_settings:
  "setCryptScheme c = setCryptScheme (settings s) \<Longrightarrow> setLocalKey c = setLocalKey (settings s) \<Longrightarrow>
   setKeystore c = setKeystore (settings s) \<Longrightarrow>
   restartable e dev a priv (s\<lparr>settings := c\<rparr>) = restartable e dev a priv s"
  by (simp add: restartable_def cong: option.case_cong)

lemma secured_tick [simp]: "secured e dev a priv l k i (tick s) = secured e dev a priv l k i s"
  by (simp add: secured_def)

lemma keeps_get_info: "keeps (secured e dev a priv l k i) (get_info e j)"
proof (rule keepsI)
  fix s assume s: "secured e dev a priv l k i s"
  obtain r t where rt: "get_info e j s = (r, t)" by fastforce
  from s have "ready a priv s" by (simp add: secured_def)
  from get_info_cases [OF this rt] s show "secured e dev a priv l k i (snd (get_info e j s))"
    by (auto simp: rt secured_def split: if_splits)
qed

lemma keeps_require: "keeps (secured e dev a priv l k i) (require e x)"
  unfolding require_def by (intro keeps_rules keeps_external) simp

lemma keeps_block: "keeps (secured e dev a priv l k i) (generate_block e n)"
  unfolding generate_block_def by (intro keeps_rules keeps_fresh) simp

lemma keeps_put_cipher: "j \<noteq> k \<Longrightarrow> keeps (secured e dev a priv l k i) (put_cipher j x)"
  unfolding put_cipher_def by (rule keeps_modify) (simp add: secured_def)

lemma keeps_case_pair: "(\<And>x y. keeps P (f x y)) \<Longrightarrow> keeps P (case z of (x, y) \<Rightarrow> f x y)"
  by (cases z) simp

lemma keeps_create_scheme: "keeps P (create_scheme e n)"
  by (simp add: create_scheme_def keeps_cpp_result)

lemma keeps_private_keys: "keeps P private_crypt_key" "keeps P private_sign_key"
  unfolding private_crypt_key_def private_sign_key_def
  by (intro keeps_rules keeps_deref keeps_case_pair)+

lemma keeps_crypt_key: "keeps P (crypt_key e)"
  unfolding crypt_key_def by (intro keeps_rules keeps_case_pair keeps_private_keys)

lemma keeps_asym: "keeps P (asym_encrypt ax c n key msg)" "keeps P (asym_decrypt ax c key msg)"
  "keeps P (encryption_scheme ax c)" "keeps P (signature_scheme ax c)"
  unfolding asym_encrypt_def asym_decrypt_def encryption_scheme_def signature_scheme_def
  by (intro keeps_rules keeps_deref keeps_cpp_result)+

lemma keeps_own_decrypt: "keeps P (own_decrypt e msg)"
  unfolding own_decrypt_def by (intro keeps_rules keeps_case_pair keeps_private_keys keeps_asym)

lemma keeps_own_encrypt: "keeps (secured e dev a priv l k i) (own_encrypt e key msg)"
  unfolding own_encrypt_def by (intro keeps_rules keeps_fresh keeps_asym) simp

lemma keeps_key_cmac_message: "keeps P (key_cmac_message e c pub)"
  unfolding key_cmac_message_def by (intro keeps_rules keeps_asym)

lemma keeps_impl:
  "keeps P (encrypt_impl e x salt d)" "keeps P (decrypt_impl e x salt d)" "keeps P (create_cmac_impl e x d)"
  "keeps P (verify_cmac_impl e x d m)"
  unfolding encrypt_impl_def decrypt_impl_def create_cmac_impl_def verify_cmac_impl_def Let_def
  by (intro keeps_rules keeps_cpp_result)+

lemma keeps_write_key_file: "j \<noteq> k \<Longrightarrow> keeps (secured e dev a priv l k i) (write_key_file e j d)"
  unfolding write_key_file_def
  by (intro keeps_rules keeps_require keeps_external) (simp_all add: secured_def stored_info_upd_key)

lemma keeps_keys_dir: "keeps (secured e dev a priv l k i) (keys_dir e)"
  unfolding keys_dir_def by (rule keeps_require)

lemma keeps_store_cipher_key:
  assumes "j \<noteq> k" shows "keeps (secured e dev a priv l k i) (store_cipher_key e j)"
  unfolding store_cipher_key_def upd_settings_def
  by (intro keeps_rules keeps_keys_dir keeps_get_info keeps_crypt_key keeps_own_encrypt keeps_write_key_file assms)
    (use assms in \<open>simp add: secured_def stored_info_settings restartable_settings update_conv'\<close>)

lemma keeps_create_info: "keeps (secured e dev a priv l k i) (create_info e)"
  unfolding create_info_def choose_scheme_def Let_def by (intro keeps_rules keeps_create_scheme keeps_block)

lemmas keeps_key_rules = keeps_rules keeps_get_info keeps_require keeps_block keeps_put_cipher keeps_create_scheme
  keeps_crypt_key keeps_asym keeps_own_decrypt keeps_own_encrypt keeps_impl keeps_keys_dir keeps_store_cipher_key
  keeps_create_info keeps_wrap keeps_key_cmac_message keeps_fresh

section \<open>Operations that leave the local key alone\<close>

lemma keeps_encrypt_data: "keeps (secured e dev a priv l k i) (encrypt_data e plain)"
  unfolding encrypt_data_def by (intro keeps_key_rules)

lemma keeps_decrypt_data: "keeps (secured e dev a priv l k i) (decrypt_data e j salt c)"
  unfolding decrypt_data_def by (intro keeps_key_rules)

lemma keeps_create_cmac: "keeps (secured e dev a priv l k i) (create_cmac e j d)"
  unfolding create_cmac_def by (intro keeps_key_rules)

lemma keeps_verify_cmac: "keeps (secured e dev a priv l k i) (verify_cmac e j d m)"
  unfolding verify_cmac_def by (intro keeps_key_rules)

lemma keeps_encrypt_secret_key_at: "keeps (secured e dev a priv l k i) (encrypt_secret_key_at e j c pub)"
  unfolding encrypt_secret_key_at_def by (intro keeps_key_rules) simp

lemma keeps_encrypt_secret_key: "keeps (secured e dev a priv l k i) (encrypt_secret_key e c pub)"
  unfolding encrypt_secret_key_def by (intro keeps_key_rules keeps_encrypt_secret_key_at)

lemma keeps_generate_encryption_key_cmac: "keeps (secured e dev a priv l k i) (generate_encryption_key_cmac e j)"
  unfolding generate_encryption_key_cmac_def by (intro keeps_key_rules)

lemma keeps_verify_encryption_key_cmac: "keeps (secured e dev a priv l k i) (verify_encryption_key_cmac e c pub m)"
  unfolding verify_encryption_key_cmac_def by (intro keeps_key_rules)

section \<open>Cleaning and changing the local key\<close>

lemma young_not_cleaned:
  fixes k l :: u32
  assumes "unat l \<le> unat k + 5" and "unat k + 5 < 2 ^ 32"
  shows "\<not> k + 5 < l"
proof -
  have "unat (k + 5) = unat k + 5"
    using assms(2) by (simp add: unat_word_ariths)
  with assms(1) show ?thesis by (simp add: word_less_nat_alt)
qed

lemma next_is_new:
  fixes k l :: u32
  assumes "k \<le> l" and "unat l \<le> unat k + 5"
  shows "l + 1 \<noteq> k"
proof
  assume "l + 1 = k"
  have bound: "unat l < 2 ^ 32" using unsigned_less [of l] by simp
  have k: "unat k = (unat l + 1) mod 2 ^ 32" using \<open>l + 1 = k\<close> by (auto simp: unat_word_ariths)
  show False
  proof (cases "unat l + 1 < 2 ^ 32")
    case True
    with k assms(1) show False by (simp add: word_le_nat_alt)
  next
    case False
    with bound have "unat l = 2 ^ 32 - 1" by simp
    with k assms(2) show False by simp
  qed
qed

lemma keeps_clean_ciphers:
  assumes "unat l \<le> unat k + 5" and "unat k + 5 < 2 ^ 32"
  shows "keeps (secured e dev a priv l k i) (clean_ciphers e)"
proof -
  have one: "keeps (secured e dev a priv l k i) (clean_cipher e j)" for j
  proof (cases "j = k")
    case True
    with young_not_cleaned [OF assms] show ?thesis
      by (auto simp: keeps_def clean_cipher_def secured_def) (simp_all add: act_defs)
  next
    case False
    then show ?thesis
      unfolding clean_cipher_def upd_settings_def
      by (intro keeps_rules keeps_external)
        (auto simp: secured_def stored_info_settings restartable_settings delete_conv' intro: stored_info_cong)
  qed
  have "keeps (secured e dev a priv l k i) (clean_each e js)" for js
    by (induction js) (simp_all add: keeps_ret keeps_seq one)
  then show ?thesis unfolding clean_ciphers_def by (intro keeps_key_rules)
qed

lemma next_is_greater:
  fixes l :: u32
  assumes "l + 1 \<noteq> 0"
  shows "l < l + 1"
proof -
  have "unat l < 2 ^ 32" using unsigned_less [of l] by simp
  moreover have "unat l + 1 \<noteq> 2 ^ 32"
  proof
    assume "unat l + 1 = 2 ^ 32"
    then have "unat (l + 1) = 0" by (simp add: unat_word_ariths)
    with assms show False by (simp add: unat_eq_zero)
  qed
  ultimately have "unat l + 1 < 2 ^ 32" by simp
  then have "unat (l + 1) = unat l + 1" by (simp add: unat_word_ariths)
  then show ?thesis by (simp add: word_less_nat_alt)
qed

lemma seq_state:
  "snd (seq m f s) = (case m s of (Inl e, t) \<Rightarrow> t | (Inr x, t) \<Rightarrow> snd (f x t))"
  by (simp add: seq_def split: prod.splits sum.splits)

lemma keeps_local_clean: "keeps (\<lambda>s. localCipher s = l) (clean_ciphers e)"
proof -
  have "keeps (\<lambda>s. localCipher s = l) (clean_cipher e j)" for j
    unfolding clean_cipher_def upd_settings_def by (intro keeps_rules keeps_external) simp_all
  then have "keeps (\<lambda>s. localCipher s = l) (clean_each e js)" for js
    by (induction js) (simp_all add: keeps_ret keeps_seq)
  then show ?thesis
    unfolding clean_ciphers_def keys_dir_def require_def by (intro keeps_rules keeps_external) simp_all
qed

text \<open>A new local key \<open>j\<close> is written to the state and to the settings, then old keys are cleaned.\<close>

lemma secured_advance:
  assumes "secured e dev a priv l k i s"
    and t: "t = snd (clean_ciphers e (s\<lparr>localCipher := j, settings := c\<rparr>))"
    and c: "c = (settings s)\<lparr>setLocalKey := Some j, setNextKey := nx\<rparr>"
    and "unat (localCipher t) \<le> unat k + 5" and "unat k + 5 < 2 ^ 32"
  shows "secured e dev a priv j k i t" and "localCipher t = j"
proof -
  let ?u = "s\<lparr>localCipher := j, settings := c\<rparr>"
  show t': "localCipher t = j" using keepsD [OF keeps_local_clean, of ?u j e] t by simp
  have "stored_info e a priv (s\<lparr>localCipher := j, settings := c\<rparr>) k = stored_info e a priv s k"
    using stored_info_settings [of c k "s\<lparr>localCipher := j\<rparr>"] c by simp
  then have "secured e dev a priv j k i ?u"
    using assms(1) c by (simp add: secured_def ready_def restartable_def cong: option.case_cong)
  from keepsD [OF keeps_clean_ciphers this] assms(4,5) t t'
  show "secured e dev a priv j k i t" by simp
qed

lemma activate_keeps_secured:
  assumes s: "secured e dev a priv l k i s" and t: "snd (activate_next_key e j s) = t" and "j \<noteq> 0"
    and bound: "unat (localCipher t) \<le> unat k + 5" "unat k + 5 < 2 ^ 32"
  shows "secured e dev a priv (localCipher t) k i t" and "l \<le> localCipher t"
proof -
  have l: "localCipher s = l" using s by (simp add: secured_def)
  have "secured e dev a priv (localCipher t) k i t \<and> l \<le> localCipher t"
  proof (cases "l + 1 = j \<and> setNextKey (settings s) = Some j")
    case False
    then have "t = s" using t l assms(3)
      by (auto simp: activate_next_key_def wrap_state ret_def split: option.splits)
    with s l show ?thesis by simp
  next
    case True
    obtain r u where g: "get_info e j s = (r, u)" by fastforce
    have u: "secured e dev a priv l k i u" using keepsD [OF keeps_get_info s, of j] g by simp
    have run: "t = snd (seq (get_info e j) (\<lambda>_. seq (modify (\<lambda>s. s\<lparr>localCipher := j\<rparr>)) (\<lambda>_.
          seq (upd_settings (\<lambda>c. c\<lparr>setLocalKey := Some j\<rparr>)) (\<lambda>_.
          seq (upd_settings (\<lambda>c. c\<lparr>setNextKey := None\<rparr>)) (\<lambda>_. clean_ciphers e)))) s)"
      using t True l by (simp add: activate_next_key_def wrap_state)
    show ?thesis
    proof (cases r)
      case (Inl x)
      with run g have "t = u" by (simp add: seq_state)
      moreover have "localCipher u = l" using u by (simp add: secured_def)
      ultimately show ?thesis using u by simp
    next
      case (Inr x)
      with run g have "t = snd (clean_ciphers e (u\<lparr>localCipher := j,
          settings := (settings u)\<lparr>setLocalKey := Some j, setNextKey := None\<rparr>\<rparr>))"
        by (simp add: seq_state upd_settings_def)
      from secured_advance [OF u this refl bound] True assms(3) next_is_greater [of l]
      show ?thesis by auto
    qed
  qed
  then show "secured e dev a priv (localCipher t) k i t" and "l \<le> localCipher t" by simp_all
qed

lemma import_keeps_secured:
  assumes s: "secured e dev a priv l k i s" and t: "snd (decrypt_secret_key e j sn d False s) = t" and "j \<noteq> k"
    and bound: "unat (localCipher t) \<le> unat k + 5" "unat k + 5 < 2 ^ 32"
  shows "secured e dev a priv (localCipher t) k i t" and "l \<le> localCipher t"
proof -
  let ?get = "seq (own_decrypt e d) (\<lambda>key. seq (create_scheme e sn) (\<lambda>sch.
      seq (put_cipher j \<lparr>infoScheme = sch, infoKey = key\<rparr>) (\<lambda>_. store_cipher_key e j)))"
  let ?tail = "\<lambda>_. seq (gets localCipher) (\<lambda>l. if l < j then
          seq (modify (\<lambda>s. s\<lparr>localCipher := j\<rparr>)) (\<lambda>_.
          seq (upd_settings (\<lambda>c. c\<lparr>setLocalKey := Some j\<rparr>)) (\<lambda>_. clean_ciphers e))
        else ret ())"
  have run: "t = snd (seq ?get ?tail s)"
    using t by (simp add: decrypt_secret_key_def wrap_state seq_assoc)
  obtain r u where g: "?get s = (r, u)" by fastforce
  have "keeps (secured e dev a priv l k i) ?get" using assms(3) by (intro keeps_key_rules)
  from keepsD [OF this s] g have u: "secured e dev a priv l k i u" by simp
  then have l: "localCipher u = l" by (simp add: secured_def)
  have "secured e dev a priv (localCipher t) k i t \<and> l \<le> localCipher t"
  proof (cases "\<exists>x. r = Inr x \<and> l < j")
    case False
    then have "t = u" using run g l by (cases r) (auto simp: seq_state ret_def)
    with u l show ?thesis by simp
  next
    case True
    with run g l have "t = snd (clean_ciphers e (u\<lparr>localCipher := j,
          settings := (settings u)\<lparr>setLocalKey := Some j, setNextKey := setNextKey (settings u)\<rparr>\<rparr>))"
      by (auto simp: seq_state upd_settings_def)
    from secured_advance [OF u this refl bound] True show ?thesis by auto
  qed
  then show "secured e dev a priv (localCipher t) k i t" and "l \<le> localCipher t" by simp_all
qed

lemma generate_keeps_secured:
  assumes s: "secured e dev a priv l k i s" and "k \<le> l" and "unat l \<le> unat k + 5"
  shows "secured e dev a priv l k i (snd (generate_next_key e s))"
proof -
  have l: "localCipher s = l" using s by (simp add: secured_def)
  have ne: "l + 1 \<noteq> k" by (rule next_is_new [OF assms(2,3)])
  have new: "keeps (secured e dev a priv l k i) (seq (create_info e) (\<lambda>x. seq (put_cipher (l + 1) x) (\<lambda>_.
      seq (store_cipher_key e (l + 1)) (\<lambda>_. seq (upd_settings (\<lambda>c. c\<lparr>setNextKey := Some (l + 1)\<rparr>)) (\<lambda>_. ret x)))))"
    unfolding upd_settings_def using ne
    by (intro keeps_key_rules) (simp_all add: secured_def stored_info_settings restartable_settings)
  have "keeps (secured e dev a priv l k i) (seq (if setNextKey (settings s) = Some (l + 1) then get_info e (l + 1)
           else seq (create_info e) (\<lambda>i. seq (put_cipher (l + 1) i) (\<lambda>_. seq (store_cipher_key e (l + 1)) (\<lambda>_.
                seq (upd_settings (\<lambda>c. c\<lparr>setNextKey := Some (l + 1)\<rparr>)) (\<lambda>_. ret i))))) (\<lambda>i.
      ret (l + 1, symName e (infoScheme i))))"
    by (intro new keeps_seq keeps_if keeps_get_info keeps_ret)
  from keepsD [OF this s] show ?thesis
    by (simp add: generate_next_key_def wrap_state l Let_def cong: if_cong split del: if_split)
qed

section \<open>Restart\<close>

lemma keeps_close_store:
  "(\<And>s. P (tick s) = P s) \<Longrightarrow> (\<And>s ks. P (s\<lparr>keyStore := ks\<rparr>) = P s) \<Longrightarrow> keeps P (close_store e)"
  unfolding close_store_def set_store_open_def by (intro keeps_rules keeps_external) simp_all

text \<open>Leaving and coming back: the state is cleared, then the store is acquired and the keys are loaded.\<close>

definition restart_keys :: "kenv \<Rightarrow> uuid \<Rightarrow> unit kop" where
  "restart_keys e dev = seq (clear_key_material e) (\<lambda>_. seq (acquire_store e True) (\<lambda>_. load_key_material e dev))"

text \<open>What is stored, which keys are loaded and which store is used.\<close>

definition frame :: "crypto \<Rightarrow> crypto \<Rightarrow> bool" where
  "frame s t \<longleftrightarrow> settings t = settings s \<and> keyFiles t = keyFiles s \<and> storedKeys t = storedKeys s \<and>
     loadedCiphers t = loadedCiphers s \<and> map_option providerName (keyStore t) = map_option providerName (keyStore s)"

lemma keeps_frame_store: "keeps (frame s0) (close_store e)" "keeps (frame s0) (ensure_store_open e)"
  "keeps (frame s0) (set_fingerprint fp)"
  unfolding close_store_def ensure_store_open_def set_store_open_def require_def set_fingerprint_def
  by (intro keeps_rules keeps_external; simp add: frame_def map_option.compositionality o_def)+

lemma keeps_frame_load: "keeps (frame s0) (load_private_key e k)"
  unfolding load_private_key_def store_load_def require_def
  by (intro keeps_rules keeps_external keeps_deref; simp add: frame_def)+

lemma keeps_crypto_load: "keeps (frame s0) (crypto_load e sn sk cn ck)"
  unfolding crypto_load_def reset_crypto_def upd_asym_def set_signature_key_def set_signature_scheme_def
    set_encryption_key_def set_encryption_scheme_def check_schemes_def place_keys_def put_sign_key_def
    put_crypt_key_def load_key_def sign_alg_by_name_def crypt_alg_by_name_def
  by (intro keeps_rules keeps_deref keeps_cpp_result keeps_case_pair keeps_asym) (simp_all add: frame_def)

lemma load_private_key_Inr:
  "load_private_key e k s = (Inr v, t) \<Longrightarrow> keyStore s = Some ks \<Longrightarrow> storedKeys s (providerName ks) k = Some v"
  by (auto simp: load_private_key_def store_load_def require_def seq_assoc act_defs split: if_splits option.splits
      elim!: seq_InrE)

lemma crypto_load_ready:
  assumes "crypto_load e sn sk (crypt_name e a) ck s = (Inr x, t)" and "names_differ e"
    and "loadPrivate e (CryptAlg a) ck = Some priv"
  shows "ready a priv t"
proof -
  have set_key: "set_encryption_key e (crypt_name e a) = upd_asym (\<lambda>c. c\<lparr>ccCryptKey := Some (a, None)\<rparr>)"
    using assms(2) by (cases a) (auto simp: set_encryption_key_def crypt_name_def names_differ_def)
  have set_scheme: "set_encryption_scheme e (crypt_name e a) = upd_asym (\<lambda>c. c\<lparr>acEncryption := Some a\<rparr>)"
    using assms(2) by (simp add: set_encryption_scheme_def)
  from assms(1)[unfolded crypto_load_def set_key set_scheme] assms(3) show ?thesis
    by (auto elim!: seq_InrE simp: reset_crypto_def upd_asym_def act_Inr check_schemes_def deref_Inr place_keys_def
        put_sign_key_def put_crypt_key_def load_key_def cpp_result_Inr ready_def encryption_scheme_def
        signature_scheme_def set_signature_key_def set_signature_scheme_def sign_alg_by_name_def split: if_splits prod.splits)
qed

lemma own_fingerprint_state: "own_fingerprint e s = (r, t) \<Longrightarrow> t = s"
proof -
  have "keeps (\<lambda>t. t = s) (own_fingerprint e)"
    unfolding own_fingerprint_def sign_key_def crypt_key_def crypto_fingerprint_def
    by (intro keeps_rules keeps_case_pair keeps_private_keys keeps_asym)
  from keepsD [OF this refl] show "own_fingerprint e s = (r, t) \<Longrightarrow> t = s" by simp
qed

text \<open>Loading with an empty list of ciphers: the private key is ready and the local key is loaded.\<close>

lemma load_key_material_ready:
  assumes run: "load_key_material e dev s = (Inr x, t)" and "names_differ e"
    and ks: "keyStore s = Some ks" "storedKeys s (providerName ks) (EncryptionKey dev) = Some d"
    and d: "loadPrivate e (CryptAlg a) d = Some priv" and scheme: "setCryptScheme (settings s) = Some (crypt_name e a)"
    and l: "setLocalKey (settings s) = Some l" and empty: "loadedCiphers s = (\<lambda>_. None)"
  shows "ready a priv t" and "localCipher t = l" and "settings t = settings s" and "keyFiles t = keyFiles s"
    and "storedKeys t = storedKeys s" and "\<exists>i. stored_info e a priv s l = Some i \<and> loadedCiphers t = [l \<mapsto> i]"
proof -
  define key where "key u = (case setLocalKey (settings u) of None \<Rightarrow> 0 | Some k \<Rightarrow> k)" for u :: crypto
  from run obtain s1 sk s2 ck s3 u1 s4 fp s5 s6 i s7 where
    1: "ensure_store_open e s = (Inr u1, s1)"
    and 2: "load_private_key e (SigningKey dev) s1 = (Inr sk, s2)"
    and 3: "load_private_key e (EncryptionKey dev) s2 = (Inr ck, s3)"
    and 4: "crypto_load e (case setSignScheme (settings s1) of None \<Rightarrow> [] | Some n \<Rightarrow> n) sk
        (case setCryptScheme (settings s2) of None \<Rightarrow> [] | Some n \<Rightarrow> n) ck s3 = (Inr (), s4)"
    and 5: "own_fingerprint e s4 = (Inr fp, s5)" and 6: "set_fingerprint fp s5 = (Inr (), s6)"
    and 7: "get_info e (key s6) (s6\<lparr>localCipher := key s6\<rparr>) = (Inr i, s7)" and 8: "close_store e s7 = (Inr x, t)"
    unfolding key_def by (auto simp: load_key_material_def wrap_with_Inr act_Inr elim!: seq_InrE)
  note f = keepsD [OF keeps_frame_store(2), of s s e] keepsD [OF keeps_frame_load, of s s1 e "SigningKey dev"]
    keepsD [OF keeps_frame_load, of s s2 e "EncryptionKey dev"] keepsD [OF keeps_crypto_load, of s s3]
  have f1: "frame s s1" using f(1) 1 by (simp add: frame_def)
  have f2: "frame s s2" using f(2) 2 f1 by simp
  have f3: "frame s s3" using f(3) 3 f2 by simp
  have f4: "frame s s4" using keepsD [OF keeps_crypto_load f3] 4 by (metis snd_conv)
  have "storedKeys s2 (providerName ks) (EncryptionKey dev) = Some ck"
    using load_private_key_Inr [OF 3] f2 ks(1) by (auto simp: frame_def)
  then have "ck = d" using f2 ks(2) by (simp add: frame_def)
  with 4 scheme f2 have "crypto_load e (case setSignScheme (settings s1) of None \<Rightarrow> [] | Some n \<Rightarrow> n) sk
      (crypt_name e a) d s3 = (Inr (), s4)" by (simp add: frame_def)
  from crypto_load_ready [OF this assms(2) d] have r4: "ready a priv s4" .
  have "s5 = s4" by (rule own_fingerprint_state [OF 5])
  let ?s6 = "s4\<lparr>fingerprint := fp, fpSignals := fpSignals s4 @ [fp], localCipher := l\<rparr>"
  have "s6\<lparr>localCipher := l\<rparr> = ?s6" and "key s6 = l"
    using 6 \<open>s5 = s4\<close> f4 l by (auto simp: set_fingerprint_def modify_def frame_def key_def)
  with 7 have 7: "get_info e l ?s6 = (Inr i, s7)" by simp
  have r6: "ready a priv ?s6" using r4 by (simp add: ready_def)
  have si: "stored_info e a priv ?s6 l = stored_info e a priv s l"
    using f4 by (simp add: stored_info_def name_of_key_def frame_def cong: option.case_cong)
  have c7: "stored_info e a priv s l = Some i \<and> loadedCiphers s7 = [l \<mapsto> i] \<and> ready a priv s7 \<and> localCipher s7 = l \<and>
      settings s7 = settings s \<and> keyFiles s7 = keyFiles s \<and> storedKeys s7 = storedKeys s"
    using get_info_cases [OF r6 7] r6 si empty f4 by (auto simp: frame_def)
  have "keeps (\<lambda>t. loadedCiphers t = loadedCiphers s7 \<and> ready a priv t \<and> localCipher t = l \<and>
      settings t = settings s \<and> keyFiles t = keyFiles s \<and> storedKeys t = storedKeys s) (close_store e)"
    by (rule keeps_close_store) (simp_all)
  from keepsD [OF this, of s7] 8 c7 show "ready a priv t" and "localCipher t = l" and "settings t = settings s"
    and "keyFiles t = keyFiles s" and "storedKeys t = storedKeys s"
    and "\<exists>i. stored_info e a priv s l = Some i \<and> loadedCiphers t = [l \<mapsto> i]"
    by auto
qed

lemma restart_secured:
  assumes s: "secured e dev a priv l k i s" and run: "restart_keys e dev s = (Inr x, t)" and "names_differ e"
  shows "secured e dev a priv l k i t"
proof -
  from s obtain p d where set: "setKeystore (settings s) = Some p" "setCryptScheme (settings s) = Some (crypt_name e a)"
    "setLocalKey (settings s) = Some l" and d: "storedKeys s p (EncryptionKey dev) = Some d" "loadPrivate e (CryptAlg a) d = Some priv"
    by (auto simp: secured_def restartable_def split: option.splits)
  define Q where "Q t \<longleftrightarrow> settings t = settings s \<and> keyFiles t = keyFiles s \<and> storedKeys t = storedKeys s \<and>
      loadedCiphers t = (\<lambda>_. None)" for t :: crypto
  have close: "keeps Q (close_store e)" by (rule keeps_close_store) (simp_all add: Q_def)
  obtain s1 s2 where 1: "clear_key_material e s = (Inr (), s1)" and 2: "acquire_store e True s1 = (Inr (), s2)"
    and 3: "load_key_material e dev s2 = (Inr x, t)"
    using run by (auto simp: restart_keys_def elim!: seq_InrE)
  obtain s1' where c: "close_store e (s\<lparr>fingerprint := [], asymCrypto := \<lparr>acSignature = None, acEncryption = None,
      ccSignKey = None, ccCryptKey = None\<rparr>, loadedCiphers := \<lambda>_. None, localCipher := 0\<rparr>) = (Inr (), s1')"
    and s1: "set_fingerprint [] s1' = (Inr (), s1)"
    using 1 by (auto simp: clear_key_material_def reset_crypto_def upd_asym_def elim!: seq_InrE)
  have "Q s1'" using keepsD [OF close, of "s\<lparr>fingerprint := [], asymCrypto := \<lparr>acSignature = None, acEncryption = None,
      ccSignKey = None, ccCryptKey = None\<rparr>, loadedCiphers := \<lambda>_. None, localCipher := 0\<rparr>"] c by (simp add: Q_def)
  then have "Q s1" using s1 by (auto simp: set_fingerprint_def act_Inr Q_def)
  from 2 obtain s2' where c2: "close_store e s1 = (Inr (), s2')" and 2:
    "(if (case keyStore s2' of None \<Rightarrow> False | Some k \<Rightarrow> providerName k = p) then ret ()
     else seq (modify (\<lambda>s. s\<lparr>keyStore := None\<rparr>)) (\<lambda>_.
          seq (guard_call (pluginAvailable e p) (LibException ''Keystore not available'')) (\<lambda>_.
          modify (\<lambda>s. s\<lparr>keyStore := Some \<lparr>providerName = p, storeOpen = False\<rparr>\<rparr>)))) s2' = (Inr (), s2)"
  proof -
    from 2 obtain u s2' where c2: "close_store e s1 = (Inr u, s2')" and rest: "seq (gets settings) (\<lambda>c. seq (gets keyStore) (\<lambda>ks.
     let provider = (if True then (case setKeystore c of None \<Rightarrow> [] | Some p \<Rightarrow> p)
                     else (case keyStoreProvider (kDefaults e) of None \<Rightarrow> defaultKeyStore (kDefaults e) | Some p \<Rightarrow> p)) in
     if (case ks of None \<Rightarrow> False | Some k \<Rightarrow> providerName k = provider) then ret ()
     else seq (modify (\<lambda>s. s\<lparr>keyStore := None\<rparr>)) (\<lambda>_.
          seq (guard_call (pluginAvailable e provider) (LibException ''Keystore not available'')) (\<lambda>_.
          modify (\<lambda>s. s\<lparr>keyStore := Some \<lparr>providerName = provider, storeOpen = False\<rparr>\<rparr>))))) s2' = (Inr (), s2)"
      unfolding acquire_store_def by (rule seq_InrE)
    have "settings s2' = settings s" using keepsD [OF close \<open>Q s1\<close>] c2 by (simp add: Q_def)
    with set(1) have prov: "(case setKeystore (settings s2') of None \<Rightarrow> [] | Some p \<Rightarrow> p) = p" by simp
    show ?thesis using that [of s2'] c2 rest [unfolded seq_gets Let_def if_True prov] by simp
  qed
  have "Q s2'" using keepsD [OF close \<open>Q s1\<close>] c2 by simp
  with 2 obtain ks where "Q s2" and ks: "keyStore s2 = Some ks" "providerName ks = p"
    by (auto simp: act_Inr Q_def split: if_splits option.splits)
  have "storedKeys s2 (providerName ks) (EncryptionKey dev) = Some d" "setCryptScheme (settings s2) = Some (crypt_name e a)"
    "setLocalKey (settings s2) = Some l" "loadedCiphers s2 = (\<lambda>_. None)"
    using \<open>Q s2\<close> ks d set by (simp_all add: Q_def)
  note loaded = load_key_material_ready [OF 3 assms(3) ks(1) this(1) d(2) this(2-4)]
  have disk: "stored_info e a priv s' j = stored_info e a priv s j"
    if "settings s' = settings s" "keyFiles s' = keyFiles s" for s' j
    using that by (simp add: stored_info_def name_of_key_def cong: option.case_cong)
  obtain i' where "stored_info e a priv s2 l = Some i'" "loadedCiphers t = [l \<mapsto> i']" using loaded(6) by blast
  then have "stored_info e a priv s l = Some i'" using disk [of s2] \<open>Q s2\<close> by (simp add: Q_def)
  with s loaded \<open>Q s2\<close> \<open>loadedCiphers t = _\<close> disk [of t] show ?thesis
    by (auto simp: secured_def Q_def restartable_def cong: option.case_cong)
qed

end
