(* ===== verification/SecretKeyClaims.thy ===== *)
theory SecretKeyClaims
  imports SecretKeyProps
begin

text \<open>
  Properties of the secret keys: data stays readable through key changes and restarts, a
  registered device has a safe key, keys reach other devices, a key change takes effect once,
  and what leaves the device in an export can be imported again.
\<close>

section \<open>The life of a device\<close>

datatype key_op = EncryptOp bytes | DecryptOp u32 bytes bytes | CreateCmacOp u32 bytes | VerifyCmacOp u32 bytes bytes
  | SendKeyOp crypto_info bytes | GenerateOp | ActivateOp u32 | ImportOp u32 bytes bytes | RestartOp

fun perform :: "kenv \<Rightarrow> uuid \<Rightarrow> key_op \<Rightarrow> unit kop" where
  "perform e dev (EncryptOp d) = seq (encrypt_data e d) (\<lambda>_. ret ())"
| "perform e dev (DecryptOp k salt c) = seq (decrypt_data e k salt c) (\<lambda>_. ret ())"
| "perform e dev (CreateCmacOp k d) = seq (create_cmac e k d) (\<lambda>_. ret ())"
| "perform e dev (VerifyCmacOp k d m) = verify_cmac e k d m"
| "perform e dev (SendKeyOp c pub) = seq (encrypt_secret_key e c pub) (\<lambda>_. ret ())"
| "perform e dev GenerateOp = seq (generate_next_key e) (\<lambda>_. ret ())"
| "perform e dev (ActivateOp k) = activate_next_key e k"
| "perform e dev (ImportOp k sn d) = decrypt_secret_key e k sn d False"
| "perform e dev RestartOp = restart_keys e dev"

text \<open>
  The states a device goes through. Operations may throw and the device goes on, except that it
  stops when a restart throws.
\<close>

fun visited :: "kenv \<Rightarrow> uuid \<Rightarrow> key_op list \<Rightarrow> crypto \<Rightarrow> crypto list" where
  "visited e dev [] s = [s]"
| "visited e dev (op # ops) s = s # (case perform e dev op s of
     (r, t) \<Rightarrow> if op = RestartOp \<and> isl r then [] else visited e dev ops t)"

text \<open>No key is imported under the index \<open>k\<close>, and the index of a new key does not wrap to 0.\<close>

fun leaves_key :: "u32 \<Rightarrow> key_op \<Rightarrow> bool" where
  "leaves_key k (ImportOp j sn d) = (j \<noteq> k)"
| "leaves_key k (ActivateOp j) = (j \<noteq> 0)"
| "leaves_key k _ = True"

definition sym_decrypts :: "kenv \<Rightarrow> bool" where
  "sym_decrypts e \<longleftrightarrow> (\<forall>sch key salt m c. symEncrypt e sch key salt m = Some c \<longrightarrow> symDecrypt e sch key salt c = Some m)"

lemma sym_decryptsD:
  "sym_decrypts e \<Longrightarrow> symEncrypt e sch key salt m = Some c \<Longrightarrow> symDecrypt e sch key salt c = Some m"
  unfolding sym_decrypts_def by blast

lemma perform_secured:
  assumes s: "secured e dev a priv l k i s" and "leaves_key k op" and "names_differ e"
    and "perform e dev op s = (r, t)" and "op = RestartOp \<longrightarrow> \<not> isl r"
    and "k \<le> l" and "unat (localCipher t) \<le> unat k + 5" and "unat l \<le> unat k + 5" and "unat k + 5 < 2 ^ 32"
  shows "secured e dev a priv (localCipher t) k i t" and "l \<le> localCipher t"
proof -
  have same: "secured e dev a priv (localCipher t) k i t \<and> l \<le> localCipher t" if "secured e dev a priv l k i t"
    using that by (simp add: secured_def)
  have st: "t = snd (perform e dev op s)" using assms(4) by simp
  have "secured e dev a priv (localCipher t) k i t \<and> l \<le> localCipher t"
  proof (cases op)
    case (ActivateOp j)
    with assms(2,7,9) s st activate_keeps_secured [OF s, of j t] show ?thesis by simp
  next
    case (ImportOp j sn d)
    with assms(2,7,9) s st import_keeps_secured [OF s, of j sn d t] show ?thesis by simp
  next
    case RestartOp
    with assms(4,5) obtain x where "restart_keys e dev s = (Inr x, t)" by (cases r) auto
    from restart_secured [OF s this assms(3)] show ?thesis by (rule same)
  next
    case GenerateOp
    with st generate_keeps_secured [OF s assms(6,8)] have "secured e dev a priv l k i t"
      by (simp add: seq_state ret_def split: prod.splits sum.splits) 
    then show ?thesis by (rule same)
  next
    case (EncryptOp d)
    with st keepsD [OF keeps_seq [OF keeps_encrypt_data keeps_ret] s] show ?thesis by (intro same) simp
  next
    case (DecryptOp j salt c)
    with st keepsD [OF keeps_seq [OF keeps_decrypt_data keeps_ret] s] show ?thesis by (intro same) simp
  next
    case (CreateCmacOp j d)
    with st keepsD [OF keeps_seq [OF keeps_create_cmac keeps_ret] s] show ?thesis by (intro same) simp
  next
    case (VerifyCmacOp j d m)
    with st keepsD [OF keeps_verify_cmac s] show ?thesis by (intro same) simp
  next
    case (SendKeyOp c pub)
    with st keepsD [OF keeps_seq [OF keeps_encrypt_secret_key keeps_ret] s] show ?thesis by (intro same) simp
  qed
  then show "secured e dev a priv (localCipher t) k i t" and "l \<le> localCipher t" by simp_all
qed

lemma visited_secured:
  assumes "secured e dev a priv (localCipher s) k i s" and "k \<le> localCipher s" and "\<forall>op \<in> set ops. leaves_key k op"
    and "names_differ e" and "\<forall>v \<in> set (visited e dev ops s). unat (localCipher v) \<le> unat k + 5"
    and "unat k + 5 < 2 ^ 32" and "v \<in> set (visited e dev ops s)"
  shows "secured e dev a priv (localCipher v) k i v"
  using assms
proof (induction ops arbitrary: s)
  case (Cons op ops)
  show ?case
  proof (cases "v = s")
    case False
    obtain r t where p: "perform e dev op s = (r, t)" by fastforce
    with False Cons.prems(7) have go: "\<not> (op = RestartOp \<and> isl r)" and v: "v \<in> set (visited e dev ops t)"
      by (auto split: if_splits)
    have "t \<in> set (visited e dev ops t)" by (cases ops) auto
    with Cons.prems(5) p go have young: "unat (localCipher s) \<le> unat k + 5" "unat (localCipher t) \<le> unat k + 5"
      "\<forall>v \<in> set (visited e dev ops t). unat (localCipher v) \<le> unat k + 5" by auto
    have "leaves_key k op" "op = RestartOp \<longrightarrow> \<not> isl r" using Cons.prems(3) go by auto
    note step = perform_secured [OF Cons.prems(1) this(1) Cons.prems(4) p this(2) Cons.prems(2) young(2,1) Cons.prems(6)]
    show ?thesis
      by (rule Cons.IH [OF step(1) order_trans [OF Cons.prems(2) step(2)] _ Cons.prems(4) young(3) Cons.prems(6) v])
        (use Cons.prems(3) in simp)
  qed (use Cons.prems(1) in simp)
qed simp

lemma secured_readable:
  assumes "secured e dev a priv l k i v" and "\<forall>n \<ge> clock v. kSucceeds e n" and "sym_decrypts e"
    and "symEncrypt e (infoScheme i) (infoKey i) salt plain = Some c"
  shows "fst (decrypt_data e k salt c v) = Inr plain"
proof -
  obtain t where "get_info e k v = (Inr i, t)"
    using get_info_calm [of a priv v k i e] assms(1,2) by (auto simp: secured_def)
  then have "seq (get_info e k) (\<lambda>i. decrypt_impl e i salt c) v = (Inr plain, t)"
    using sym_decryptsD [OF assms(3,4)] by (auto simp: seq_def decrypt_impl_def ret_def)
  then show ?thesis by (simp add: decrypt_data_def wrap_Inr [THEN iffD2])
qed

lemma encrypt_data_Inr:
  assumes "encrypt_data e plain s = (Inr (k, salt, c), t)"
  obtains i u where "k = localCipher s" and "get_info e k s = (Inr i, u)"
    and "symEncrypt e (infoScheme i) (infoKey i) salt plain = Some c" and "t = tick u"
  using assms by (auto simp: encrypt_data_def wrap_Inr act_Inr generate_block_def seq_assoc encrypt_impl_def
      cpp_result_Inr fresh_Inr elim!: seq_InrE)

text \<open>C22: What a device encrypts under its local key can be decrypted on that device later: in every
state it goes through, whatever operations it performs and whichever of them fail (further
encryption, macs, key changes, imported keys, restarts), as long as no other key is imported
under the same index and the local key is at most five generations ahead.\<close>

theorem data_stays_readable:
  assumes "encrypt_data e plain s = (Inr (k, salt, c), t)" and "secured e dev a priv k k i s"
    and "names_differ e" and "sym_decrypts e" and "unat k + 5 < 2 ^ 32"
    and "\<forall>op \<in> set ops. leaves_key k op"
    and "\<forall>v \<in> set (visited e dev ops t). unat (localCipher v) \<le> unat k + 5"
    and "v \<in> set (visited e dev ops t)" and "\<forall>n \<ge> clock v. kSucceeds e n"
  shows "fst (decrypt_data e k salt c v) = Inr plain"
proof -
  from encrypt_data_Inr [OF assms(1)] obtain j u where g: "get_info e k s = (Inr j, u)"
    and c: "symEncrypt e (infoScheme j) (infoKey j) salt plain = Some c" .
  have "j = i" using get_info_cases [OF _ g, of a priv] assms(2) by (auto simp: secured_def)
  have t: "secured e dev a priv k k i t" using keepsD [OF keeps_encrypt_data assms(2), of plain] assms(1) by simp
  then have "localCipher t = k" by (simp add: secured_def)
  with visited_secured [OF _ _ assms(6,3,7,5,8)] t have "secured e dev a priv (localCipher v) k i v" by simp
  from secured_readable [OF this assms(9,4)] c \<open>j = i\<close> show ?thesis by blast
qed

section \<open>A library for examples\<close>

definition sample_defaults :: kdefaults where
  "sample_defaults = \<lparr>signChoice = ED25519, signKeyParam = OtherParam, cryptChoice = RSA_OAEP_SHA3_512,
     cryptKeyParam = IntParam 2048, symChoice = AES_EAX, symKeyParam = 0, keyStoreProvider = None, defaultKeyStore = ''plain''\<rparr>"

fun sample_mode :: "cipher_mode \<Rightarrow> bytes" where
  "sample_mode EAX = ''EAX''" | "sample_mode GCM = ''GCM''"

fun sample_cipher :: "block_cipher \<Rightarrow> bytes" where
  "sample_cipher AES = ''AES/''" | "sample_cipher Twofish = ''Twofish/''"
| "sample_cipher Serpent = ''Serpent/''" | "sample_cipher IDEA = ''IDEA/''"

fun sample_sign_name :: "sign_alg \<Rightarrow> bytes" where
  "sample_sign_name Rsass = ''RSA''" | "sample_sign_name Ecdsa = ''ECDSA''" | "sample_sign_name Ecnr = ''ECNR''"
| "sample_sign_name Ed25519 = []"

fun sample_crypt_name :: "crypt_alg \<Rightarrow> bytes" where
  "sample_crypt_name Rsaes = ''OAEP''" | "sample_crypt_name Ecies = ''ECIES''"

text \<open>Keys, ciphers and macs without secrecy, but with the laws of the real ones.\<close>

definition sample_env :: kenv where
  "sample_env = \<lparr>signAlgName = sample_sign_name, cryptAlgName = sample_crypt_name,
     loadPublic = (\<lambda>_ d. Some d), publicValid = (\<lambda>_. True), sha3 = (\<lambda>d. d), signatureLength = (\<lambda>_ _. 1),
     pkSign = (\<lambda>_ _ _ _. ''s''), pkVerify = (\<lambda>_ _ _ g. g = ''s''),
     pkEncrypt = (\<lambda>_ _ _ m. Some m), pkDecrypt = (\<lambda>_ _ c. Some c), kDefaults = sample_defaults,
     kSucceeds = (\<lambda>_. True), kDraw = (\<lambda>_ _. CHR ''r''), canIncorporateEntropy = True, keptFiles = (\<lambda>_ _. False),
     writtenBytes = (\<lambda>_. 0), pluginAvailable = (\<lambda>_. True), symName = (\<lambda>(m, b). sample_cipher b @ sample_mode m),
     maxKeyLength = (\<lambda>_. 1), blockSize = (\<lambda>_. 1), validKeyLength = (\<lambda>_ _. 1),
     symEncrypt = (\<lambda>_ _ _ m. Some m), symDecrypt = (\<lambda>_ _ _ c. Some c), cmacOf = (\<lambda>_ _ _. Some ''m''),
     cmacSize = (\<lambda>_. 1), pbkdf2 = (\<lambda>_ _ pw _ _. pw), genRsa = (\<lambda>_ _ _. Some ''k''), genEcc = (\<lambda>_ _ _. Some ''k''),
     genEd25519 = (\<lambda>_. ''k''), loadPrivate = (\<lambda>_ d. Some d), privateValid = (\<lambda>_. True), publicOf = (\<lambda>_ k. k)\<rparr>"

text \<open>A registered device.\<close>

definition sample_device :: crypto where
  "sample_device = \<lparr>asymCrypto = \<lparr>acSignature = Some Ed25519, acEncryption = Some Rsaes,
       ccSignKey = Some (Ed25519, Some ''k''), ccCryptKey = Some (Rsaes, Some ''k'')\<rparr>,
     loadedCiphers = Map.empty, localCipher = 0, fingerprint = [],
     keyStore = Some \<lparr>providerName = ''plain'', storeOpen = False\<rparr>,
     settings = \<lparr>setKeystore = Some ''plain'', setSignScheme = Some ''ed25519'', setCryptScheme = Some ''OAEP'',
       setLocalKey = Some 0, setNextKey = None, setSymKeys = [(0, ''AES/EAX'')]\<rparr>,
     keyFiles = [0 \<mapsto> ''r''], storedKeys = (\<lambda>_. [SigningKey 7 \<mapsto> ''k'', EncryptionKey 7 \<mapsto> ''k'']), fpSignals = [], clock = 0\<rparr>"

lemma sample_laws [simp]: "names_differ sample_env" "sym_decrypts sample_env" "decrypts sample_env a k p"
  by (simp_all add: names_differ_def sym_decrypts_def decrypts_def sample_env_def ed25519_scheme_name_def)

lemma sample_secured: "secured sample_env 7 Rsaes ''k'' 0 0 \<lparr>infoScheme = (EAX, AES), infoKey = ''r''\<rparr> sample_device"
  by (simp add: secured_def ready_def restartable_def stored_info_def name_of_key_def scheme_of_name_def
      all_schemes_def to_key_length_def crypt_name_def sample_device_def sample_env_def)

named_theorems eval_defs \<open>definitions that examples evaluate\<close>

lemmas [eval_defs] = sample_env_def sample_device_def sample_defaults_def encrypt_data_def wrap_def wrap_with_def
  get_info_def keys_dir_def require_def external_def create_scheme_def all_schemes_def read_key_file_def own_decrypt_def
  private_crypt_key_def asym_decrypt_def put_cipher_def generate_block_def fresh_def iv_length_def encrypt_impl_def
  to_key_length_def tick_def generate_next_key_def create_info_def choose_scheme_def default_key_length_def
  store_cipher_key_def crypt_key_def own_encrypt_def asym_encrypt_def write_key_file_def upd_settings_def
  activate_next_key_def clean_ciphers_def clean_cipher_def

definition sample_info :: cipher_info where
  "sample_info = \<lparr>infoScheme = (EAX, AES), infoKey = ''r''\<rparr>"

definition sample_used :: crypto where
  "sample_used = sample_device\<lparr>loadedCiphers := [0 \<mapsto> sample_info], clock := 3\<rparr>"

definition sample_changing :: crypto where
  "sample_changing = sample_used\<lparr>loadedCiphers := [0 \<mapsto> sample_info, 1 \<mapsto> sample_info],
     keyFiles := [0 \<mapsto> ''r'', 1 \<mapsto> ''r''], settings := (settings sample_used)
       \<lparr>setNextKey := Some 1, setSymKeys := [(0, ''AES/EAX''), (1, ''AES/EAX'')]\<rparr>, clock := 8\<rparr>"

definition sample_changed :: crypto where
  "sample_changed = sample_changing\<lparr>localCipher := 1,
     settings := (settings sample_changing)\<lparr>setLocalKey := Some 1, setNextKey := None\<rparr>, clock := 9\<rparr>"

lemma sample_encrypted: "encrypt_data sample_env ''x'' sample_device = (Inr (0, ''r'', ''x''), sample_used)"
  by (simp add: eval_defs sample_info_def sample_used_def Let_def act_simps cong: seq_weak_cong)

lemma sample_generated: "generate_next_key sample_env sample_used = (Inr (1, ''AES/EAX''), sample_changing)"
  by (simp add: eval_defs sample_info_def sample_used_def sample_changing_def Let_def act_simps cong: seq_weak_cong)

lemma sample_activated: "activate_next_key sample_env 1 sample_changing = (Inr (), sample_changed)"
  by (simp add: eval_defs sample_info_def sample_used_def sample_changing_def sample_changed_def Let_def act_simps
      cong: seq_weak_cong)

lemma sample_simps [simp]: "kSucceeds sample_env n" "localCipher sample_device = 0" "localCipher sample_used = 0"
  "localCipher sample_changing = 0" "localCipher sample_changed = 1"
  by (simp_all add: sample_env_def sample_device_def sample_used_def sample_changing_def sample_changed_def)

theorem data_stays_readable_witness:
  "fst (decrypt_data sample_env 0 ''r'' ''x'' sample_changed) = Inr ''x''"
proof -
  have v: "visited sample_env 7 [GenerateOp, ActivateOp 1] sample_used = [sample_used, sample_changing, sample_changed]"
    by (simp add: sample_generated sample_activated seq_def ret_def)
  show ?thesis
    by (rule data_stays_readable [OF sample_encrypted sample_secured, of "[GenerateOp, ActivateOp 1]"])
      (simp_all add: v del: visited.simps)
qed

section \<open>Registration\<close>

text \<open>
  What the documentation of Crypto++ promises: schemes are told apart by their names, a valid key
  length stays as it is, an encoded private key is read back, and a valid private key decrypts
  what was encrypted for its public key.
\<close>

definition key_laws :: "kenv \<Rightarrow> bool" where
  "key_laws e \<longleftrightarrow> names_differ e \<and> distinct (map (symName e) all_schemes) \<and>
     (\<forall>b. validKeyLength e b (maxKeyLength e b) = maxKeyLength e b) \<and>
     (\<forall>b n. validKeyLength e b (validKeyLength e b n) = validKeyLength e b n) \<and>
     (\<forall>a i n k. genRsa e a i n = Some k \<longrightarrow> loadPrivate e a k = Some k) \<and>
     (\<forall>a d k. loadPrivate e a d = Some k \<longrightarrow> loadPrivate e a k = Some k) \<and>
     (\<forall>a k. privateValid e k \<longrightarrow> decrypts e a k (publicOf e (CryptAlg a) k))"

text \<open>A private key for secret keys that is ready, valid, and can be stored and read.\<close>

definition good_private_key :: "kenv \<Rightarrow> crypt_alg \<Rightarrow> bytes \<Rightarrow> crypto \<Rightarrow> bool" where
  "good_private_key e a priv s \<longleftrightarrow> ready a priv s \<and> privateValid e priv \<and> loadPrivate e (CryptAlg a) priv = Some priv"

definition good_info :: "kenv \<Rightarrow> cipher_info \<Rightarrow> bool" where
  "good_info e i \<longleftrightarrow> infoScheme i \<in> set all_schemes \<and>
     length (infoKey i) = to_key_length e (infoScheme i) (length (infoKey i))"

lemma create_private_key_loads:
  assumes "key_laws e" and "create_private_key e a p s = (Inr k, t)"
  shows "loadPrivate e a k = Some k \<and> (\<exists>n. t = s\<lparr>clock := n\<rparr>)"
  using assms
  by (auto simp: create_private_key_def rsa_create_key_def ecc_create_key_def ed25519_create_key_def key_laws_def
      cpp_result_Inr fresh_Inr act_Inr deref_Inr curve_id_def tick_def
      split: key_alg.splits sign_alg.splits crypt_alg.splits key_param.splits elim!: seq_InrE)

lemma chosen_key:
  "names_differ e \<Longrightarrow> choose_encryption_key e c =
     upd_asym (\<lambda>x. x\<lparr>ccCryptKey := Some (case c of ECIES_ECP_SHA3_512 \<Rightarrow> Ecies | RSA_OAEP_SHA3_512 \<Rightarrow> Rsaes, None)\<rparr>)"
  by (cases c) (auto simp: set_encryption_key_def names_differ_def)

lemma place_keys_good:
  assumes "place_keys e (sa, ca) m n s = (Inr x, t)" and "acEncryption (asymCrypto s) = Some ca"
    and "\<And>s k t. m s = (Inr k, t) \<Longrightarrow> asymCrypto t = asymCrypto s"
    and "\<And>s k t. n s = (Inr k, t) \<Longrightarrow> asymCrypto t = asymCrypto s \<and> loadPrivate e (CryptAlg ca) k = Some k"
  shows "\<exists>priv. good_private_key e ca priv t"
  using assms(1,2)
  by (auto simp: place_keys_def put_sign_key_def put_crypt_key_def upd_asym_def act_Inr good_private_key_def ready_def
      dest!: assms(3,4) elim!: seq_InrE)

lemma check_schemes_Inr:
  "check_schemes e s = (Inr (sa, ca), t) \<Longrightarrow> t = s \<and> map_option fst (ccCryptKey (asymCrypto s)) = Some ca"
  by (auto simp: check_schemes_def act_Inr deref_Inr signature_scheme_def encryption_scheme_def elim!: seq_InrE
        split: prod.splits)

lemma crypto_generate_good:
  assumes "key_laws e" and "crypto_generate e sc sp cc cp s = (Inr x, t)"
  shows "\<exists>a priv. good_private_key e a priv t"
proof -
  have nd: "names_differ e" using assms(1) by (simp add: key_laws_def)
  have by_name: "set_encryption_scheme e (crypt_name e a) = upd_asym (\<lambda>c. c\<lparr>acEncryption := Some a\<rparr>)" for a
    using nd by (simp add: set_encryption_scheme_def)
  from assms(2)[unfolded crypto_generate_def chosen_key [OF nd]]
  obtain sa ca u v where check: "check_schemes e u = (Inr (sa, ca), v)"
    and u: "acEncryption (asymCrypto u) = map_option fst (ccCryptKey (asymCrypto u))"
    and place: "place_keys e (sa, ca) (create_private_key e (SignAlg sa) sp) (create_private_key e (CryptAlg ca) cp) v = (Inr x, t)"
    by (auto simp: act_Inr deref_Inr upd_asym_def by_name elim!: seq_InrE)
  from check_schemes_Inr [OF check] u place show ?thesis
    by (elim place_keys_good [THEN exE]) (auto dest!: create_private_key_loads [OF assms(1)])
qed

lemma create_scheme_of_good:
  assumes "distinct (map (symName e) all_schemes)" and "sch \<in> set all_schemes"
  shows "scheme_of_name e (symName e sch) = Some sch"
proof -
  have inj: "inj_on (symName e) (set all_schemes)" using assms(1) by (simp add: distinct_map)
  have "scheme_of_name e (symName e sch) \<noteq> None"
    using assms(2) unfolding scheme_of_name_def find_None_iff by blast
  then obtain y where y: "scheme_of_name e (symName e sch) = Some y" by blast
  then have "y \<in> set all_schemes" "symName e y = symName e sch"
    unfolding scheme_of_name_def find_Some_iff by (auto dest: nth_mem)
  with inj assms(2) have "y = sch" by (auto dest: inj_onD)
  with y show ?thesis by simp
qed

lemma create_scheme_Inr:
  "create_scheme e n s = (Inr sch, t) \<Longrightarrow> sch \<in> set all_schemes \<and> symName e sch = n \<and> t = s"
  unfolding create_scheme_def cpp_result_Inr find_Some_iff by (auto dest: nth_mem)

lemma create_info_good:
  assumes "key_laws e" and "create_info e s = (Inr i, t)"
  shows "good_info e i \<and> (\<exists>n. t = s\<lparr>clock := n\<rparr>)"
  using assms
  by (auto simp: create_info_def choose_scheme_def Let_def generate_block_def seq_assoc act_Inr good_info_def key_laws_def
      default_key_length_def to_key_length_def tick_def fresh_Inr dest!: create_scheme_Inr elim!: seq_InrE)

text \<open>Storing a loaded key, when the write succeeds.\<close>

lemma store_cipher_key_stores:
  assumes "key_laws e" and "good_private_key e a priv s" and "loadedCiphers s k = Some i" and "good_info e i"
    and "\<forall>n. kSucceeds e n" and "store_cipher_key e k s = (Inr x, t)"
  shows "stored_info e a priv t k = Some i" and "good_private_key e a priv t" and "loadedCiphers t = loadedCiphers s"
    and "localCipher t = localCipher s" and "storedKeys t = storedKeys s" and "keyStore t = keyStore s"
    and "settings t = (settings s)\<lparr>setSymKeys := setSymKeys (settings t)\<rparr>"
proof -
  have r: "ready a priv s" "privateValid e priv" using assms(2) by (auto simp: good_private_key_def)
  then have cipher: "pkDecrypt e a priv d = Some (infoKey i)" if "pkEncrypt e a n (publicOf e (CryptAlg a) priv) (infoKey i) = Some d" for d n
    using assms(1) that unfolding key_laws_def decrypts_def by blast
  obtain n m d where d: "pkEncrypt e a n (publicOf e (CryptAlg a) priv) (infoKey i) = Some d"
    and t: "t = s\<lparr>clock := m, keyFiles := (keyFiles s)(k \<mapsto> d),
        settings := (settings s)\<lparr>setSymKeys := AList.update k (symName e (infoScheme i)) (setSymKeys (settings s))\<rparr>\<rparr>"
    using assms(3,5,6) r(1)
    by (auto simp: store_cipher_key_def keys_dir_def require_def seq_assoc get_info_loaded crypt_key_def private_crypt_key_def
        ready_def own_encrypt_def asym_encrypt_def write_key_file_def upd_settings_def act_Inr deref_Inr cpp_result_Inr
        fresh_Inr external_Inr tick_def elim!: seq_InrE)
  from cipher [OF d] create_scheme_of_good [of e "infoScheme i"] t assms(1,4)
  show "stored_info e a priv t k = Some i"
    by (auto simp: stored_info_def name_of_key_def good_info_def key_laws_def update_conv')
  from t assms(2) show "good_private_key e a priv t" "loadedCiphers t = loadedCiphers s" "localCipher t = localCipher s"
    "storedKeys t = storedKeys s" "keyStore t = keyStore s" "settings t = (settings s)\<lparr>setSymKeys := setSymKeys (settings t)\<rparr>"
    by (auto simp: good_private_key_def ready_def)
qed

text \<open>After \<open>createPrivateKeys\<close>: a good private key, and a good secret key under the index 0.\<close>

lemma create_private_keys_good:
  assumes "key_laws e" and "create_private_keys e nonce s = (Inr x, t)"
  shows "\<exists>a priv i. good_private_key e a priv t \<and> good_info e i \<and> localCipher t = 0 \<and> loadedCiphers t 0 = Some i"
proof -
  from assms(2) obtain u1 u2 u3 u4 fp i where g: "crypto_generate e (signChoice (kDefaults e)) (signKeyParam (kDefaults e))
      (cryptChoice (kDefaults e)) (cryptKeyParam (kDefaults e)) u1 = (Inr (), u2)"
    and f: "own_fingerprint e u2 = (Inr fp, u3)" and i: "create_info e (u3\<lparr>fingerprint := fp, fpSignals := fpSignals u3 @ [fp]\<rparr>) = (Inr i, u4)"
    and t: "t = u4\<lparr>localCipher := 0, loadedCiphers := (loadedCiphers u4)(0 \<mapsto> i)\<rparr>"
    by (auto simp: create_private_keys_def wrap_Inr act_Inr set_fingerprint_def put_cipher_def elim!: seq_InrE)
  from crypto_generate_good [OF assms(1) g] own_fingerprint_state [OF f] create_info_good [OF assms(1) i] t
  show ?thesis by (auto simp: good_private_key_def ready_def)
qed

lemma close_store_frame:
  "close_store e s = (r, t) \<Longrightarrow> settings t = settings s \<and> storedKeys t = storedKeys s \<and> keyFiles t = keyFiles s \<and>
     loadedCiphers t = loadedCiphers s \<and> asymCrypto t = asymCrypto s \<and> localCipher t = localCipher s \<and>
     map_option providerName (keyStore t) = map_option providerName (keyStore s)"
  by (auto simp: close_store_def set_store_open_def act_defs tick_def split: option.splits if_splits)

lemma ensure_store_open_Inr:
  "ensure_store_open e s = (Inr x, t) \<Longrightarrow> settings t = settings s \<and> storedKeys t = storedKeys s \<and> keyFiles t = keyFiles s \<and>
     loadedCiphers t = loadedCiphers s \<and> asymCrypto t = asymCrypto s \<and> localCipher t = localCipher s \<and>
     (\<exists>ks. keyStore t = Some ks)"
  by (auto simp: ensure_store_open_def require_def set_store_open_def seq_assoc act_Inr external_Inr tick_def
      elim!: seq_InrE split: option.splits if_splits)

lemma private_key_state: "private_sign_key s = (r, t) \<Longrightarrow> t = s" "private_crypt_key s = (r', t) \<Longrightarrow> t = s"
  by (auto simp: private_sign_key_def private_crypt_key_def deref_def act_defs split: option.splits prod.splits)

lemma scheme_Inr: "signature_scheme l c s = (Inr n, t) \<Longrightarrow> t = s"
  "encryption_scheme l c s = (Inr n, t) \<longleftrightarrow> t = s \<and> map_option (crypt_name l) (acEncryption c) = Some n"
  by (auto simp: signature_scheme_def encryption_scheme_def act_Inr deref_Inr elim!: seq_InrE)

lemma store_put_Inr:
  "store_put e op k d s = (Inr x, t) \<Longrightarrow> keyStore s = Some ks \<Longrightarrow>
     t = s\<lparr>clock := Suc (clock s), storedKeys := (storedKeys s)(providerName ks := (storedKeys s (providerName ks))(k := d))\<rparr>"
  by (auto simp: store_put_def require_def seq_assoc act_Inr deref_Inr external_Inr tick_def elim!: seq_InrE
      split: if_splits)

lemma store_private_keys_secures:
  assumes laws: "key_laws e" and good: "good_private_key e a priv s" "loadedCiphers s (localCipher s) = Some i" "good_info e i"
    and "\<forall>n. kSucceeds e n" and run: "store_private_keys e dev s = (Inr x, t)"
  shows "secured e dev a priv (localCipher s) (localCipher s) i t"
proof -
  obtain ks s1 s2 s3 s4 s5 sk sn ks' where 1: "ensure_store_open e s = (Inr (), s1)" and ks: "keyStore s1 = Some ks"
    and 2: "store_put e ''save'' (SigningKey dev) (Some sk) (s1\<lparr>settings := (settings s1)\<lparr>setSignScheme := Some sn\<rparr>\<rparr>) = (Inr (), s2)"
    and 3: "store_put e ''save'' (EncryptionKey dev) (Some priv)
        (s2\<lparr>settings := (settings s2)\<lparr>setCryptScheme := Some (crypt_name e a)\<rparr>\<rparr>) = (Inr (), s3)"
    and 4: "store_cipher_key e (localCipher s3) s3 = (Inr (), s4)"
    and 5: "close_store e (s4\<lparr>settings := (settings s4)\<lparr>setLocalKey := Some (localCipher s3)\<rparr>\<rparr>) = (Inr (), s5)"
    and ks': "keyStore s5 = Some ks'" and t: "t = s5\<lparr>settings := (settings s5)\<lparr>setKeystore := Some (providerName ks')\<rparr>\<rparr>"
  proof -
    from run obtain c s1 sn sk a1 s2 cn a2 ck s3 s4 s5 ks' where 1: "ensure_store_open e s = (Inr (), s1)"
      and 2: "store_put e ''save'' (SigningKey dev) (Some sk) (s1\<lparr>settings := (settings s1)\<lparr>setSignScheme := Some sn\<rparr>\<rparr>) = (Inr (), s2)"
      and cn: "encryption_scheme e (asymCrypto s1) s2 = (Inr cn, s2)"
      and ck: "private_crypt_key (s2\<lparr>settings := (settings s2)\<lparr>setCryptScheme := Some cn\<rparr>\<rparr>) =
          (Inr (a2, ck), s2\<lparr>settings := (settings s2)\<lparr>setCryptScheme := Some cn\<rparr>\<rparr>)"
      and 3: "store_put e ''save'' (EncryptionKey dev) (Some ck)
          (s2\<lparr>settings := (settings s2)\<lparr>setCryptScheme := Some cn\<rparr>\<rparr>) = (Inr (), s3)"
      and 4: "store_cipher_key e (localCipher s3) s3 = (Inr (), s4)"
      and 5: "close_store e (s4\<lparr>settings := (settings s4)\<lparr>setLocalKey := Some (localCipher s3)\<rparr>\<rparr>) = (Inr (), s5)"
      and ks': "keyStore s5 = Some ks'" and t: "t = s5\<lparr>settings := (settings s5)\<lparr>setKeystore := Some (providerName ks')\<rparr>\<rparr>"
      by (auto simp: store_private_keys_def wrap_with_Inr act_Inr upd_settings_def deref_Inr scheme_Inr(2)
          dest: scheme_Inr(1) private_key_state elim!: seq_InrE) (metis private_key_state scheme_Inr(1))
    from ensure_store_open_Inr [OF 1] obtain ks where s1: "asymCrypto s1 = asymCrypto s" "keyStore s1 = Some ks" by auto
    then have "asymCrypto s2 = asymCrypto s" using store_put_Inr [OF 2] by simp
    with s1 cn ck good(1) have "cn = crypt_name e a" "ck = priv"
      by (auto simp: good_private_key_def ready_def scheme_Inr(2) private_crypt_key_def act_Inr deref_Inr elim!: seq_InrE)
    with that [OF 1 s1(2) 2 _ 4 5 ks' t] 3 show ?thesis by simp
  qed
  note f1 = ensure_store_open_Inr [OF 1]
  have s2: "s2 = s1\<lparr>settings := (settings s1)\<lparr>setSignScheme := Some sn\<rparr>, clock := Suc (clock s1),
      storedKeys := (storedKeys s1)(providerName ks := (storedKeys s1 (providerName ks))(SigningKey dev \<mapsto> sk))\<rparr>"
    using store_put_Inr [OF 2, of ks] ks by simp
  have s3: "s3 = s2\<lparr>settings := (settings s2)\<lparr>setCryptScheme := Some (crypt_name e a)\<rparr>, clock := Suc (clock s2),
      storedKeys := (storedKeys s2)(providerName ks := (storedKeys s2 (providerName ks))(EncryptionKey dev \<mapsto> priv))\<rparr>"
    using store_put_Inr [OF 3, of ks] ks s2 by simp
  have "good_private_key e a priv s3" "loadedCiphers s3 (localCipher s) = Some i" "localCipher s3 = localCipher s"
    using good f1 s2 s3 by (auto simp: good_private_key_def ready_def)
  note stored = store_cipher_key_stores [OF laws this(1,2) good(3) assms(5) 4[unfolded this(3)]] this
  note f5 = close_store_frame [OF 5]
  have "map_option providerName (keyStore s5) = Some (providerName ks)"
    using f5 stored(6) s3 s2 ks by simp
  then have p: "providerName ks' = providerName ks" using ks' by simp
  have set5: "settings s5 = (settings s3)\<lparr>setSymKeys := setSymKeys (settings s4), setLocalKey := Some (localCipher s)\<rparr>"
    using f5 stored(7,10) by simp
  have "stored_info e a priv t (localCipher s) = stored_info e a priv s4 (localCipher s)"
    using t f5 by (simp add: stored_info_def name_of_key_def cong: option.case_cong)
  moreover have "storedKeys t (providerName ks) (EncryptionKey dev) = Some priv"
    using t f5 stored(5) s3 by simp
  moreover have scheme: "setCryptScheme (settings s4) = Some (crypt_name e a)"
    using arg_cong [OF stored(7), of setCryptScheme] s3 by simp
  ultimately show ?thesis
    using stored(1-6,8-10) good(1) t f5 p set5 s3 scheme
    by (simp add: secured_def good_private_key_def ready_def restartable_def)
qed

text \<open>When a device registers, its first secret key is safe: after \<open>createPrivateKeys\<close> and
\<open>storePrivateKeys\<close> have succeeded (with whatever happened to the random generator between
them), the key with the index 0 is on disk, in memory, and can be read again after a restart.\<close>

theorem registration_secures_key:
  assumes "key_laws e" and "create_private_keys e nonce s = (Inr x, t)"
    and "store_private_keys e dev (t\<lparr>clock := n\<rparr>) = (Inr y, u)" and "\<forall>n. kSucceeds e n"
  shows "\<exists>a priv i. secured e dev a priv 0 0 i u \<and> good_info e i"
proof -
  from create_private_keys_good [OF assms(1,2)] obtain a priv i where good: "good_private_key e a priv t" "good_info e i"
    "localCipher t = 0" "loadedCiphers t 0 = Some i" by blast
  then have "good_private_key e a priv (t\<lparr>clock := n\<rparr>)" "loadedCiphers (t\<lparr>clock := n\<rparr>) (localCipher (t\<lparr>clock := n\<rparr>)) = Some i"
    by (simp_all add: good_private_key_def ready_def)
  from store_private_keys_secures [OF assms(1) this good(2) assms(4,3)] good show ?thesis by auto
qed

definition sample_fresh :: crypto where
  "sample_fresh = \<lparr>asymCrypto = \<lparr>acSignature = None, acEncryption = None, ccSignKey = None, ccCryptKey = None\<rparr>,
     loadedCiphers = Map.empty, localCipher = 0, fingerprint = [],
     keyStore = Some \<lparr>providerName = ''plain'', storeOpen = False\<rparr>,
     settings = \<lparr>setKeystore = None, setSignScheme = None, setCryptScheme = None, setLocalKey = None, setNextKey = None, setSymKeys = []\<rparr>,
     keyFiles = Map.empty, storedKeys = (\<lambda>_. Map.empty), fpSignals = [], clock = 0\<rparr>"

lemma sample_key_laws: "key_laws sample_env"
  by (simp add: key_laws_def) (simp add: sample_env_def all_schemes_def)

lemmas [eval_defs] = sample_fresh_def create_private_keys_def crypto_generate_def reset_crypto_def upd_asym_def
  set_signature_key_def set_signature_scheme_def set_encryption_key_def set_encryption_scheme_def sign_alg_by_name_def
  crypt_alg_by_name_def check_schemes_def place_keys_def put_sign_key_def put_crypt_key_def create_private_key_def
  rsa_create_key_def ed25519_create_key_def signature_scheme_def encryption_scheme_def own_fingerprint_def sign_key_def
  private_sign_key_def crypto_fingerprint_def set_fingerprint_def ed25519_scheme_name_def crypt_name_def write_key_def

definition sample_created :: crypto where
  "sample_created = snd (create_private_keys sample_env ''n'' sample_fresh)"

lemma sample_creates: "create_private_keys sample_env ''n'' sample_fresh = (Inr (), sample_created)"
  by (simp add: eval_defs sample_created_def Let_def act_simps cong: seq_weak_cong)

lemmas [eval_defs] = store_private_keys_def ensure_store_open_def set_store_open_def store_put_def close_store_def

definition sample_registered :: crypto where
  "sample_registered = snd (store_private_keys sample_env 7 (sample_created\<lparr>clock := 9\<rparr>))"

lemma sample_stores: "store_private_keys sample_env 7 (sample_created\<lparr>clock := 9\<rparr>) = (Inr (), sample_registered)"
  by (simp add: eval_defs sample_created_def sample_registered_def Let_def act_simps cong: seq_weak_cong)

theorem registration_secures_key_witness:
  "\<exists>a priv i. secured sample_env 7 a priv 0 0 i sample_registered \<and> good_info sample_env i"
  by (rule registration_secures_key [OF sample_key_laws sample_creates sample_stores]) simp

section \<open>Keys for other devices\<close>

text \<open>Two devices use the same library; their random numbers, files and settings differ.\<close>

definition same_library :: "kenv \<Rightarrow> kenv \<Rightarrow> bool" where
  "same_library e e' \<longleftrightarrow> symName e' = symName e \<and> symEncrypt e' = symEncrypt e \<and> symDecrypt e' = symDecrypt e \<and>
     pkEncrypt e' = pkEncrypt e \<and> pkDecrypt e' = pkDecrypt e \<and> signAlgName e' = signAlgName e \<and>
     cryptAlgName e' = cryptAlgName e \<and> cmacOf e' = cmacOf e \<and> cmacSize e' = cmacSize e"

text \<open>Schemes of loaded keys are ones that can be created by name.\<close>

definition wf_loaded :: "crypto \<Rightarrow> bool" where
  "wf_loaded s \<longleftrightarrow> (\<forall>i \<in> ran (loadedCiphers s). infoScheme i \<in> set all_schemes)"

lemma get_info_wf: "ready a priv s \<Longrightarrow> wf_loaded s \<Longrightarrow> get_info e k s = (Inr i, t) \<Longrightarrow> infoScheme i \<in> set all_schemes"
proof -
  assume r: "ready a priv s" and "wf_loaded s" and g: "get_info e k s = (Inr i, t)"
  have "infoScheme i \<in> set all_schemes" if "stored_info e a priv s k = Some i"
    using that by (auto simp: stored_info_def scheme_of_name_def find_Some_iff split: option.splits if_splits)
  with get_info_cases [OF r g] \<open>wf_loaded s\<close> show ?thesis by (auto simp: wf_loaded_def ran_def)
qed

lemma encrypt_secret_key_Inr:
  assumes "encrypt_secret_key e c pub s = (Inr (k, sn, d), t)" and "ready a priv s" and "wf_loaded s"
    and "acEncryption c = Some b"
  obtains i n where "k = localCipher s" and "sn = symName e (infoScheme i)" and "infoScheme i \<in> set all_schemes"
    and "pkEncrypt e b n pub (infoKey i) = Some d" and "localCipher t = k" and "loadedCiphers t k = Some i"
proof -
  from assms(1) obtain i u where k: "k = localCipher s" "sn = symName e (infoScheme i)" and g: "get_info e k s = (Inr i, u)"
    and enc: "encrypt_secret_key_at e k c pub u = (Inr d, t)"
    by (auto simp: encrypt_secret_key_def wrap_Inr act_Inr elim!: seq_InrE)
  have u: "loadedCiphers u k = Some i" "localCipher u = localCipher s"
    using get_info_cases [OF assms(2) g] by auto
  with enc that [OF k get_info_wf [OF assms(2,3) g]] assms(4) show ?thesis
    by (auto simp: encrypt_secret_key_at_def wrap_Inr seq_Inr [OF get_info_loaded] asym_encrypt_def deref_Inr cpp_result_Inr
        fresh_Inr act_Inr k elim!: seq_InrE)
qed

lemma info_eta [simp]: "\<lparr>infoScheme = infoScheme i, infoKey = infoKey i\<rparr> = i"
  by (cases i) simp

lemma create_scheme_by_name:
  "distinct (map (symName e) all_schemes) \<Longrightarrow> sch \<in> set all_schemes \<Longrightarrow> create_scheme e (symName e sch) = ret sch"
  using create_scheme_of_good [of e sch] by (simp add: create_scheme_def scheme_of_name_def)

lemma own_decrypt_ready:
  "ready a priv s \<Longrightarrow> pkDecrypt e a priv c = Some m \<Longrightarrow> own_decrypt e c s = (Inr m, s)"
  by (simp add: own_decrypt_def private_crypt_key_def ready_def asym_decrypt_def seq_assoc) (simp add: ret_def)

text \<open>C23: A key reaches another device intact. What the holder of the account answers to a new
device (\<open>encryptSecretKey\<close> for the public key of the new device) makes the new device accept the
same key under the same index as its initial key, and everything the first device encrypts under
that key is readable on the new one.\<close>

theorem new_device_reads_data:
  assumes "encrypt_secret_key e c pub s = (Inr (k, sn, d), s')" and "ready a priv s" and "wf_loaded s"
    and "encrypt_data e plain s' = (Inr (j, salt, cipher), s'')"
    and "ready b priv' u" and "acEncryption c = Some b" and "decrypts e b priv' pub"
    and "same_library e e'" and "distinct (map (symName e) all_schemes)" and "sym_decrypts e"
  shows "j = k \<and> (\<exists>u'. decrypt_secret_key e' k sn d True u = (Inr (), u') \<and> localCipher u' = k \<and>
    decrypt_data e' j salt cipher u' = (Inr plain, u'))"
proof -
  from encrypt_secret_key_Inr [OF assms(1,2,3,6)] obtain i n where sn: "sn = symName e (infoScheme i)"
    and sch: "infoScheme i \<in> set all_schemes" and d: "pkEncrypt e b n pub (infoKey i) = Some d"
    and s': "localCipher s' = k" "loadedCiphers s' k = Some i" .
  from encrypt_data_Inr [OF assms(4)] obtain i2 v where j: "j = localCipher s'" and g: "get_info e j s' = (Inr i2, v)"
    and c: "symEncrypt e (infoScheme i2) (infoKey i2) salt plain = Some cipher" .
  with s' have "i2 = i" by (simp add: get_info_loaded)
  with c assms(8,10) have dec: "symDecrypt e' (infoScheme i) (infoKey i) salt cipher = Some plain"
    by (simp add: same_library_def sym_decryptsD)
  have key: "own_decrypt e' d u = (Inr (infoKey i), u)"
    using own_decrypt_ready [OF assms(5)] assms(7,8) d unfolding decrypts_def same_library_def by metis
  have scheme: "create_scheme e' sn = ret (infoScheme i)"
    using create_scheme_by_name [of e' "infoScheme i"] assms(8,9) sch sn by (simp add: same_library_def)
  let ?u = "u\<lparr>loadedCiphers := (loadedCiphers u)(k \<mapsto> i), localCipher := k\<rparr>"
  have "decrypt_secret_key e' k sn d True u = (Inr (), ?u)"
    unfolding decrypt_secret_key_def wrap_Inr by (simp add: seq_Inr key scheme put_cipher_def) (simp add: modify_def)
  moreover have "decrypt_data e' j salt cipher ?u = (Inr plain, ?u)"
    unfolding decrypt_data_def wrap_Inr using j s' dec
    by (simp add: seq_Inr [OF get_info_loaded] decrypt_impl_def) (simp add: ret_def)
  ultimately show ?thesis using j s' by auto
qed

lemmas [eval_defs] = encrypt_secret_key_def encrypt_secret_key_at_def

definition sample_partner :: asym_crypto where
  "sample_partner = \<lparr>acSignature = None, acEncryption = Some Rsaes\<rparr>"

definition sample_granting :: crypto where
  "sample_granting = snd (encrypt_secret_key sample_env sample_partner ''k'' sample_device)"

lemma sample_grants:
  "encrypt_secret_key sample_env sample_partner ''k'' sample_device = (Inr (0, ''AES/EAX'', ''r''), sample_granting)"
  by (simp add: eval_defs sample_granting_def sample_partner_def Let_def act_simps cong: seq_weak_cong)

lemma sample_uploads:
  "encrypt_data sample_env ''x'' sample_granting = (Inr (0, ''r'', ''x''), snd (encrypt_data sample_env ''x'' sample_granting))"
  by (simp add: eval_defs sample_granting_def sample_partner_def Let_def act_simps cong: seq_weak_cong)

theorem new_device_reads_data_witness:
  "(0 :: u32) = 0 \<and> (\<exists>u'. decrypt_secret_key sample_env 0 ''AES/EAX'' ''r'' True sample_device = (Inr (), u') \<and>
     localCipher u' = 0 \<and> decrypt_data sample_env 0 ''r'' ''x'' u' = (Inr ''x'', u'))"
proof (rule new_device_reads_data [OF sample_grants _ _ sample_uploads, where a = Rsaes and b = Rsaes and priv = "''k''" and priv' = "''k''"])
  show "ready Rsaes ''k'' sample_device" by (simp add: ready_def sample_device_def)
  then show "ready Rsaes ''k'' sample_device" .
  show "wf_loaded sample_device" by (simp add: wf_loaded_def sample_device_def)
  show "distinct (map (symName sample_env) all_schemes)" using sample_key_laws by (simp add: key_laws_def)
qed (simp_all add: sample_partner_def same_library_def)

section \<open>Changing the key\<close>

definition key_at :: "u32 \<Rightarrow> u32 \<Rightarrow> cipher_info \<Rightarrow> u32 option \<Rightarrow> u32 option \<Rightarrow> crypto \<Rightarrow> bool" where
  "key_at l k i loc nx t \<longleftrightarrow> localCipher t = l \<and> loadedCiphers t k = Some i \<and> setLocalKey (settings t) = loc \<and>
     setNextKey (settings t) = nx"

lemma key_at_get_info: "keeps (key_at l k i loc nx) (get_info e k)"
  by (rule keepsI) (simp add: key_at_def get_info_loaded)

lemma key_at_external: "keeps (key_at l k i loc nx) (external e)" "keeps (key_at l k i loc nx) fresh"
  by (rule keeps_external keeps_fresh, simp add: key_at_def)+

lemma key_at_store: "keeps (key_at l k i loc nx) (store_cipher_key e k)"
  unfolding store_cipher_key_def keys_dir_def require_def own_encrypt_def write_key_file_def upd_settings_def
  by (intro keeps_rules key_at_get_info key_at_external keeps_crypt_key keeps_asym) (simp_all add: key_at_def)

lemma key_at_clean:
  assumes "\<not> k + 5 < l" shows "keeps (key_at l k i loc nx) (clean_ciphers e)"
proof -
  have "keeps (key_at l k i loc nx) (clean_cipher e j)" for j
  proof (cases "j = k")
    case True
    with assms show ?thesis by (auto simp: keeps_def clean_cipher_def key_at_def) (simp_all add: act_defs)
  next
    case False
    then show ?thesis
      unfolding clean_cipher_def upd_settings_def by (intro keeps_rules key_at_external) (simp_all add: key_at_def)
  qed
  then have "keeps (key_at l k i loc nx) (clean_each e ks)" for ks
    by (induction ks) (simp_all add: keeps_ret keeps_seq)
  then show ?thesis
    unfolding clean_ciphers_def keys_dir_def require_def by (intro keeps_rules key_at_external)
qed

lemma clean_ciphers_calm: "\<forall>n. kSucceeds e n \<Longrightarrow> fst (clean_ciphers e s) = Inr ()"
proof -
  assume ok: "\<forall>n. kSucceeds e n"
  have one: "fst (clean_cipher e k s) = Inr ()" for k s
    by (simp add: clean_cipher_def upd_settings_def act_defs)
  have "fst (clean_each e ks s) = Inr ()" for ks s
  proof (induction ks arbitrary: s)
    case (Cons k ks)
    with one [of k s] show ?case by (cases "clean_cipher e k s") (simp add: seq_Inr)
  qed (simp add: act_defs)
  with ok show ?thesis by (simp add: clean_ciphers_def keys_dir_def require_def seq_assoc)
qed

text \<open>C24: A key change takes effect once and only when it is confirmed. \<open>generateNextKey\<close> proposes the
next index and a key for it without touching the current one; asking again gives the same
proposal; activating any other index changes nothing; and activating the proposal makes exactly
this key the local one, in memory and in the settings, and ends the proposal.\<close>

theorem key_change_takes_effect_once:
  assumes "generate_next_key e s = (Inr (k, sn), t)"
    and "setNextKey (settings s) \<noteq> Some (localCipher s + 1)" and "unat (localCipher s) + 6 < 2 ^ 32" and "\<forall>n. kSucceeds e n"
  shows "k = localCipher s + 1 \<and> localCipher t = localCipher s \<and> generate_next_key e t = (Inr (k, sn), t) \<and>
    (\<forall>j. j \<noteq> k \<longrightarrow> activate_next_key e j t = (Inr (), t)) \<and>
    (\<exists>u i. activate_next_key e k t = (Inr (), u) \<and> localCipher u = k \<and> setLocalKey (settings u) = Some k \<and>
       setNextKey (settings u) = None \<and> loadedCiphers t k = Some i \<and> loadedCiphers u k = Some i \<and> sn = symName e (infoScheme i))"
proof -
  let ?l = "localCipher s"
  have "unat (?l + 1) = unat ?l + 1" using assms(3) by (simp add: unat_word_ariths)
  with assms(3) have young: "\<not> ?l + 1 + 5 < ?l + 1" by (intro young_not_cleaned) simp_all
  from assms(1,2) obtain i u v where k: "k = ?l + 1" "sn = symName e (infoScheme i)" and c: "create_info e s = (Inr i, u)"
    and st: "store_cipher_key e k (u\<lparr>loadedCiphers := (loadedCiphers u)(k \<mapsto> i)\<rparr>) = (Inr (), v)"
    and t: "t = v\<lparr>settings := (settings v)\<lparr>setNextKey := Some k\<rparr>\<rparr>"
    by (auto simp: generate_next_key_def wrap_Inr act_Inr Let_def put_cipher_def upd_settings_def elim!: seq_InrE)
  have "keeps (\<lambda>t. localCipher t = ?l) (create_info e)"
    unfolding create_info_def choose_scheme_def Let_def generate_block_def
    by (intro keeps_rules keeps_create_scheme keeps_fresh) simp
  from keepsD [OF this, of s] c have "localCipher u = ?l" by simp
  then have "key_at ?l k i (setLocalKey (settings u)) (setNextKey (settings u)) (u\<lparr>loadedCiphers := (loadedCiphers u)(k \<mapsto> i)\<rparr>)"
    by (simp add: key_at_def)
  from keepsD [OF key_at_store this, of e] st t have tk: "localCipher t = ?l" "loadedCiphers t k = Some i" "setNextKey (settings t) = Some k"
    by (simp_all add: key_at_def)
  have again: "generate_next_key e t = (Inr (k, sn), t)"
    unfolding generate_next_key_def wrap_Inr
    using tk k by (simp add: Let_def get_info_loaded seq_Inr) (simp add: ret_def)
  have others: "activate_next_key e j t = (Inr (), t)" if "j \<noteq> k" for j
    unfolding activate_next_key_def wrap_Inr using tk k that by (simp add: ret_def)
  let ?a = "t\<lparr>localCipher := k, settings := (settings t)\<lparr>setLocalKey := Some k, setNextKey := None\<rparr>\<rparr>"
  obtain w where w: "clean_ciphers e ?a = (Inr (), w)"
    using clean_ciphers_calm [OF assms(4), of ?a] by (metis prod.collapse)
  then have "activate_next_key e k t = (Inr (), w)"
    unfolding activate_next_key_def wrap_Inr using tk k by (simp add: get_info_loaded seq_Inr upd_settings_def)
  moreover have "key_at k k i (Some k) None ?a" using tk by (simp add: key_at_def)
  with keepsD [OF key_at_clean this, of e] young k w have "key_at k k i (Some k) None w" by simp
  ultimately show ?thesis using k tk again others by (auto simp: key_at_def)
qed

theorem key_change_takes_effect_once_witness:
  "generate_next_key sample_env sample_changing = (Inr (1, ''AES/EAX''), sample_changing) \<and>
   activate_next_key sample_env 5 sample_changing = (Inr (), sample_changing) \<and>
   (\<exists>u. activate_next_key sample_env 1 sample_changing = (Inr (), u) \<and> localCipher u = 1 \<and> setLocalKey (settings u) = Some 1)"
proof -
  have "setNextKey (settings sample_used) \<noteq> Some (localCipher sample_used + 1)" "unat (localCipher sample_used) + 6 < 2 ^ 32"
    by (simp_all add: sample_used_def sample_device_def)
  from key_change_takes_effect_once [OF sample_generated this] show ?thesis by auto
qed

section \<open>Export and import\<close>

definition cmac_laws :: "kenv \<Rightarrow> bool" where
  "cmac_laws e \<longleftrightarrow> (\<forall>b key d m. cmacOf e b key d = Some m \<longrightarrow> length m = cmacSize e b)"

lemma verify_created_cmac:
  assumes "cmac_laws e" and "create_cmac_impl e i d s = (Inr m, t)"
  shows "verify_cmac_impl e i d m s' = (Inr (), s')"
  using assms by (auto simp: verify_cmac_impl_def create_cmac_impl_def cpp_result_Inr cmac_laws_def Let_def) (simp add: act_defs)

text \<open>C25: What a device exports with a password another device can import with the same password:
the key is recovered from scheme, salt and password; the mac over the account data verifies; and
the encrypted data decrypts. An altered mac of the same length does not verify.\<close>

theorem export_can_be_imported:
  assumes "generate_export_key e (Some pw) s = (Inr (sn, salt, key), s1)"
    and "create_export_cmac e sn key d s1 = (Inr mac, s2)" and "export_encrypt e sn salt key d s2 = (Inr cipher, s3)"
    and "cmac_laws e" and "sym_decrypts e" and "distinct (map (symName e) all_schemes)"
  shows "recover_export_key e sn salt pw u = (Inr key, u) \<and> import_decrypt e sn salt key cipher u = (Inr d, u) \<and>
    (\<forall>m. length m = length mac \<longrightarrow> (fst (verify_import_cmac e sn key d m u) = Inr ()) = (m = mac))"
proof -
  from assms(1) obtain sch s0 where "create_scheme e (symName e (chosen_scheme (symChoice (kDefaults e)))) s = (Inr sch, s0)"
    and sn: "sn = symName e sch" and key: "key = pbkdf2 e (default_key_length e sch) pw_purpose pw salt pw_rounds"
    by (auto simp: generate_export_key_def wrap_Inr choose_scheme_def Let_def act_Inr elim!: seq_InrE)
  with create_scheme_Inr create_scheme_by_name [OF assms(6)] have scheme: "create_scheme e sn = ret sch" by metis
  let ?i = "\<lparr>infoScheme = sch, infoKey = key\<rparr>"
  have mac: "cmacOf e (snd sch) key d = Some mac" and cipher: "symEncrypt e sch key salt d = Some cipher"
    using assms(2,3) by (simp_all add: create_export_cmac_def export_encrypt_def wrap_Inr with_scheme_def scheme
        create_cmac_impl_def encrypt_impl_def cpp_result_Inr)
  have "recover_export_key e sn salt pw u = (Inr key, u)"
    unfolding recover_export_key_def wrap_Inr by (simp add: scheme key) (simp add: ret_def)
  moreover have "import_decrypt e sn salt key cipher u = (Inr d, u)"
    unfolding import_decrypt_def wrap_Inr using sym_decryptsD [OF assms(5) cipher]
    by (simp add: with_scheme_def scheme decrypt_impl_def) (simp add: ret_def)
  moreover have "(fst (verify_import_cmac e sn key d m u) = Inr ()) = (m = mac)" if m: "length m = length mac" for m
  proof -
    have "length mac = cmacSize e (snd sch)" using assms(4) mac unfolding cmac_laws_def by blast
    then have "fst (verify_cmac_impl e ?i d m u) = Inr () \<longleftrightarrow> m = mac"
      using m mac by (auto simp: verify_cmac_impl_def Let_def create_cmac_impl_def guard_call_def)
    then show ?thesis
      by (auto simp: verify_import_cmac_def with_scheme_def scheme wrap_def wrap_with_def throw_def
          split: prod.splits sum.splits crypto_error.splits)
  qed
  ultimately show ?thesis by blast
qed

lemmas [eval_defs] = generate_export_key_def create_export_cmac_def export_encrypt_def with_scheme_def create_cmac_impl_def

theorem export_can_be_imported_witness:
  "recover_export_key sample_env ''AES/EAX'' ''r'' ''pw'' sample_device = (Inr ''pw'', sample_device) \<and>
   import_decrypt sample_env ''AES/EAX'' ''r'' ''pw'' ''d'' sample_device = (Inr ''d'', sample_device) \<and>
   fst (verify_import_cmac sample_env ''AES/EAX'' ''pw'' ''d'' ''m'' sample_device) = Inr () \<and>
   fst (verify_import_cmac sample_env ''AES/EAX'' ''pw'' ''d'' ''x'' sample_device) \<noteq> Inr ()"
proof -
  have 1: "generate_export_key sample_env (Some ''pw'') sample_device = (Inr (''AES/EAX'', ''r'', ''pw''), tick sample_device)"
    by (simp add: eval_defs Let_def act_simps cong: seq_weak_cong)
  have 2: "create_export_cmac sample_env ''AES/EAX'' ''pw'' ''d'' (tick sample_device) = (Inr ''m'', tick sample_device)"
    and 3: "export_encrypt sample_env ''AES/EAX'' ''r'' ''pw'' ''d'' (tick sample_device) = (Inr ''d'', tick sample_device)"
    by (simp_all add: eval_defs Let_def act_simps cong: seq_weak_cong)
  have 4: "cmac_laws sample_env" by (simp add: cmac_laws_def sample_env_def)
  have 5: "distinct (map (symName sample_env) all_schemes)" using sample_key_laws by (simp add: key_laws_def)
  from export_can_be_imported [OF 1 2 3 4 sample_laws(2) 5, of sample_device] show ?thesis by simp
qed

section \<open>Two oversights\<close>

text \<open>Deleting the account leaves the proposal of a new key in the settings, but not its file.\<close>

lemma delete_keeps_proposal:
  assumes "\<forall>n. kSucceeds e n"
  shows "setNextKey (settings (snd (delete_key_material e dev s))) = setNextKey (settings s)"
    and "keyFiles (snd (delete_key_material e dev s)) k = None"
proof -
  define P where "P t \<longleftrightarrow> setNextKey (settings t) = setNextKey (settings s) \<and> keyFiles t = (\<lambda>_. None)" for t :: crypto
  have ignore: "keeps P m \<Longrightarrow> keeps P (ignore_cpp m)" for m
    unfolding keeps_def ignore_cpp_def by (auto split: prod.splits sum.splits crypto_error.splits)
  have ext: "keeps P (external e)" "keeps P (close_store e)" "keeps P (set_fingerprint x)" for x
    unfolding close_store_def set_store_open_def set_fingerprint_def
    by (intro keeps_rules keeps_external; simp add: P_def)+
  have opened: "keeps P (ensure_store_open e)" "keeps P (store_put e op j d)" for op j d
    unfolding ensure_store_open_def store_put_def require_def set_store_open_def
    by (intro keeps_rules keeps_deref ext; simp add: P_def)+
  let ?u = "(tick (tick s))\<lparr>keyFiles := \<lambda>_. None\<rparr>"
  have run: "delete_key_material e dev s = seq (upd_settings (\<lambda>c. c\<lparr>setSignScheme := None, setCryptScheme := None,
      setLocalKey := None, setKeystore := None\<rparr>)) (\<lambda>_.
     seq (ignore_cpp (seq (ensure_store_open e) (\<lambda>_. seq (store_put e ''remove'' (SigningKey dev) None) (\<lambda>_.
       store_put e ''remove'' (EncryptionKey dev) None)))) (\<lambda>_.
     seq (close_store e) (\<lambda>_. clear_key_material e))) ?u"
    using assms by (simp add: delete_key_material_def keys_dir_def require_def seq_assoc remove_key_files_def)
  have "keeps P (clear_key_material e)"
    unfolding clear_key_material_def reset_crypto_def upd_asym_def by (intro keeps_rules ext; simp add: P_def)
  then have "keeps P (seq (upd_settings (\<lambda>c. c\<lparr>setSignScheme := None, setCryptScheme := None,
      setLocalKey := None, setKeystore := None\<rparr>)) (\<lambda>_.
     seq (ignore_cpp (seq (ensure_store_open e) (\<lambda>_. seq (store_put e ''remove'' (SigningKey dev) None) (\<lambda>_.
       store_put e ''remove'' (EncryptionKey dev) None)))) (\<lambda>_.
     seq (close_store e) (\<lambda>_. clear_key_material e))))"
    unfolding upd_settings_def by (intro keeps_rules ignore ext opened) (simp_all add: P_def)
  from keepsD [OF this, of ?u] have "P (snd (delete_key_material e dev s))" by (simp add: run P_def)
  then show "setNextKey (settings (snd (delete_key_material e dev s))) = setNextKey (settings s)"
    and "keyFiles (snd (delete_key_material e dev s)) k = None" by (simp_all add: P_def)
qed

text \<open>A new account on this device then cannot change its first key, however often it tries.\<close>

lemma stale_proposal_blocks_key_change:
  assumes "ready a priv s" and "setNextKey (settings s) = Some (localCipher s + 1)"
    and "loadedCiphers s (localCipher s + 1) = None" and "keyFiles s (localCipher s + 1) = None"
  shows "\<exists>x n. generate_next_key e s = (Inl (CryptoException ''Failed to generate new exchange key'' x), s\<lparr>clock := n\<rparr>)"
proof -
  have "\<exists>x. get_info e (localCipher s + 1) s = (Inl (CppException x), tick s)"
    using assms by (auto simp: get_info_absent split: option.splits)
  with assms(2) show ?thesis
    by (auto simp: generate_next_key_def Let_def wrap_def wrap_with_def seq_def tick_def act_defs)
qed

text \<open>Two of the choices of GCM give the EAX scheme.\<close>

lemma gcm_choice_is_eax:
  "choose_scheme e TWOFISH_GCM = choose_scheme e TWOFISH_EAX" "choose_scheme e SERPENT_GCM = choose_scheme e SERPENT_EAX"
  by (simp_all add: choose_scheme_def)

end
