(* ===== verification/Connector.thy ===== *)
theory Connector
  imports SecretKeys MessageStream
begin

text \<open>
  The connection of a device to the server (\<open>src/datasync/remoteconnector.cpp\<close>) and its state
  machine (\<open>connectorstatemachine.scxml\<close>). This theory has the state, the operation timers of
  \<open>controller.cpp\<close>, the configuration, and what the state machine runs on entering and leaving
  its states. The web socket, the settings and the event queue of the state machine are part of
  the state; what is sent, signalled and scheduled is recorded in order. A handler that is connected
  to a state runs when the state is left or entered, one that is connected to an event when the
  event is sent.
\<close>

section \<open>The state machine\<close>

text \<open>The atomic states; the first six are the children of \<open>Active\<close>.\<close>

datatype conn_state = Connecting | Connected | Registering | LoggingIn | Granting | IdleState
  | Disconnected | Reconnecting | Retry | BasicError | FatalError | Closing | Final | Final2

datatype sm_event = EvConnected | EvNoConnect | EvReconnect | EvDisconnected | EvBasicError | EvFatalError
  | EvAccount | EvAwaitRegister | EvAwaitLogin | EvAwaitGranted | EvClose

definition active :: "conn_state \<Rightarrow> bool" where
  "active s \<longleftrightarrow> s \<in> {Connecting, Connected, Registering, LoggingIn, Granting, IdleState}"

definition is_final :: "conn_state \<Rightarrow> bool" where
  "is_final s \<longleftrightarrow> s = Final \<or> s = Final2"

text \<open>The transitions of \<open>Active\<close> and, before them, those of its children.\<close>

fun active_target :: "sm_event \<Rightarrow> conn_state option" where
  "active_target EvReconnect = Some Reconnecting"
| "active_target EvDisconnected = Some Retry"
| "active_target EvBasicError = Some BasicError"
| "active_target EvFatalError = Some FatalError"
| "active_target _ = None"

definition transition_table :: "((conn_state \<times> sm_event) \<times> conn_state) list" where
  "transition_table =
     [((Connecting, EvConnected), Connected), ((Connecting, EvNoConnect), Disconnected),
      ((Registering, EvAccount), IdleState), ((LoggingIn, EvAccount), IdleState), ((Granting, EvAccount), IdleState),
      ((Connected, EvAwaitRegister), Registering), ((Connected, EvAwaitLogin), LoggingIn), ((Connected, EvAwaitGranted), Granting),
      ((Disconnected, EvReconnect), Connecting), ((Reconnecting, EvDisconnected), Connecting), ((Retry, EvReconnect), Connecting),
      ((BasicError, EvDisconnected), Retry), ((BasicError, EvReconnect), Reconnecting),
      ((FatalError, EvDisconnected), Disconnected), ((FatalError, EvReconnect), Reconnecting), ((Closing, EvDisconnected), Final)]"

definition event_target :: "conn_state \<Rightarrow> sm_event \<Rightarrow> conn_state option" where
  "event_target s ev = (case map_of transition_table (s, ev) of
       Some t \<Rightarrow> Some t
     | None \<Rightarrow> if active s then active_target ev else None)"

text \<open>The transitions without an event, with the condition \<open>isClosing\<close>.\<close>

definition closing_target :: "conn_state \<Rightarrow> conn_state option" where
  "closing_target s = (if active s then Some Closing else if s = Disconnected then Some Final2
     else if s = Retry then Some Final else None)"

text \<open>Where the machine comes to rest after an event.\<close>

definition stable_target :: "bool \<Rightarrow> conn_state \<Rightarrow> sm_event \<Rightarrow> conn_state" where
  "stable_target closing s ev =
     (let t = (case event_target s ev of None \<Rightarrow> s | Some t \<Rightarrow> t) in
      if closing then (case closing_target t of None \<Rightarrow> t | Some u \<Rightarrow> u) else t)"

section \<open>Configuration\<close>

record remote_config =
  rcUrl :: string
  rcAccessKey :: string
  rcHeaders :: "(bytes \<times> bytes) list"
  rcKeepalive :: int

text \<open>The settings of the connector, by key.\<close>

record csettings =
  setEnabled :: "bool option"
  setUrl :: "string option"
  setAccessKey :: "string option"
  setHeaders :: "(bytes \<times> bytes) list"
  setKeepalive :: "int option"
  setDeviceId :: "uuid option"
  setDeviceName :: "string option"
  setImportKey :: "bytes option"
  setImportNonce :: "bytes option"
  setImportPartner :: "uuid option"
  setImportScheme :: "bytes option"
  setImportCmac :: "bytes option"
  setSendCmac :: "bool option"

record conn_env =
  keyEnv :: kenv
  msgLib :: mlib
  defaultConfig :: remote_config
  hostName :: string
  urlValid :: "string \<Rightarrow> bool"
  verifiesPeer :: bool \<comment> \<open>\<open>peerVerifyMode() >= VerifyPeer\<close>\<close>

section \<open>State\<close>

text \<open>\<open>QAbstractSocket::SocketState\<close>, as far as a client gets into it.\<close>

datatype socket_state = Unconnected | HostLookup | SocketConnecting | SocketConnected | SocketClosing

datatype remote_event = RemoteDisconnected | RemoteConnecting | RemoteReady | RemoteReadyWithChanges

datatype conn_effect =
    Sent message
  | SentSigned message bytes
  | SentPing
  | CloseSocket
  | OpenSocket string string "(bytes \<times> bytes) list"
  | RetryIn nat \<comment> \<open>seconds\<close>
  | RemoteEvent remote_event
  | UpdateUploadLimit u32
  | UploadDone bytes
  | DeviceUploadDone bytes uuid
  | DownloadData u64 bytes
  | SyncEnabledChanged bool
  | DeviceNameChanged string
  | DevicesListed "device_info list"
  | LoginRequested uuid string bytes
  | ImportCompleted
  | AccountAccessGranted uuid
  | ProgressAdded u32
  | ProgressIncrement
  | ControllerError string
  | OperationTimeout
  | Finalized
  | TryClose \<comment> \<open>queued call of \<open>tryClose\<close>\<close>
  | ProofTimer uuid \<comment> \<open>the timer of ten minutes that drops a proof\<close>
  | CloseTimer \<comment> \<open>the timer that ends a closing that takes too long\<close>

record connector =
  keys :: crypto
  csettings :: csettings
  socket :: "socket_state option"
  smState :: conn_state
  smRunning :: bool
  smQueue :: "sm_event list"
  readyCalls :: nat \<comment> \<open>queued calls of \<open>machineReady\<close>\<close>
  isClosing :: bool
  blocked :: bool
  buffer :: "bytes list"
  pinging :: bool \<comment> \<open>the ping timer is connected to the socket\<close>
  pingRunning :: bool
  awaitingPing :: bool
  retryIndex :: nat
  expectChanges :: bool
  deviceId :: uuid
  deviceCache :: "device_info list"
  exportsCache :: "bytes \<Rightarrow> bytes option"
  activeProofs :: "uuid \<Rightarrow> crypto_info option"
  opTimer :: "nat option" \<comment> \<open>remaining milliseconds\<close>
  specialOp :: "nat option" \<comment> \<open>remaining milliseconds, \<open>None\<close> is forever\<close>
  effects :: "conn_effect list"

datatype conn_error = KeyError crypto_error | MessageError message_error

type_synonym 'a cact = "(connector, conn_error, 'a) act"

definition signal :: "conn_effect \<Rightarrow> unit cact" where
  "signal x = modify (\<lambda>w. w\<lparr>effects := effects w @ [x]\<rparr>)"

definition with_keys :: "'a kop \<Rightarrow> 'a cact" where
  "with_keys m w = (case m (keys w) of
       (Inl e, k) \<Rightarrow> (Inl (KeyError e), w\<lparr>keys := k\<rparr>)
     | (Inr a, k) \<Rightarrow> (Inr a, w\<lparr>keys := k\<rparr>))"

definition upd_cset :: "(csettings \<Rightarrow> csettings) \<Rightarrow> unit cact" where
  "upd_cset f = modify (\<lambda>w. w\<lparr>csettings := f (csettings w)\<rparr>)"

section \<open>Operation timers of a controller\<close>

definition minutes :: "nat \<Rightarrow> nat" where
  "minutes m = 60 * 1000 * m"

text \<open>An inactive \<open>QTimer\<close> has a remaining time of -1.\<close>

definition begin_op :: "nat \<Rightarrow> bool \<Rightarrow> unit cact" where
  "begin_op m start = modify (\<lambda>w.
     if \<not> start \<and> opTimer w = None then w
     else if (case opTimer w of None \<Rightarrow> True | Some r \<Rightarrow> r < m) then w\<lparr>opTimer := Some m\<rparr> else w)"

definition begin_special_op :: "nat \<Rightarrow> unit cact" where
  "begin_special_op m = seq (modify (\<lambda>w.
     if (case specialOp w of None \<Rightarrow> True | Some r \<Rightarrow> m < r) then w\<lparr>specialOp := Some m\<rparr> else w)) (\<lambda>_. begin_op m True)"

definition end_op :: "unit cact" where
  "end_op = modify (\<lambda>w. w\<lparr>opTimer := None, specialOp := None\<rparr>)"

section \<open>Settings with their defaults\<close>

text \<open>\<open>childGroups()\<close> of the settings: the groups one level below, not those below them.\<close>

definition child_groups :: "csettings \<Rightarrow> string list" where
  "child_groups c =
     (if setUrl c \<noteq> None \<or> setAccessKey c \<noteq> None \<or> setHeaders c \<noteq> [] \<or> setKeepalive c \<noteq> None then [''remote''] else []) @
     (if setImportKey c \<noteq> None \<or> setImportNonce c \<noteq> None \<or> setImportPartner c \<noteq> None \<or> setImportScheme c \<noteq> None \<or>
         setImportCmac c \<noteq> None then [''import''] else [])"

definition or_default :: "'a option \<Rightarrow> 'a \<Rightarrow> 'a" where
  "or_default x d = (case x of None \<Rightarrow> d | Some a \<Rightarrow> a)"

definition s_url :: "conn_env \<Rightarrow> csettings \<Rightarrow> string" where
  "s_url e c = or_default (setUrl c) (rcUrl (defaultConfig e))"

definition s_access_key :: "conn_env \<Rightarrow> csettings \<Rightarrow> string" where
  "s_access_key e c = or_default (setAccessKey c) (rcAccessKey (defaultConfig e))"

definition s_headers :: "conn_env \<Rightarrow> csettings \<Rightarrow> (bytes \<times> bytes) list" where
  "s_headers e c = (if ''remote/headers'' \<in> set (child_groups c) then setHeaders c else rcHeaders (defaultConfig e))"

definition s_keepalive :: "conn_env \<Rightarrow> csettings \<Rightarrow> int" where
  "s_keepalive e c = or_default (setKeepalive c) (rcKeepalive (defaultConfig e))"

definition s_enabled :: "csettings \<Rightarrow> bool" where
  "s_enabled c = or_default (setEnabled c) True"

definition s_device_name :: "conn_env \<Rightarrow> csettings \<Rightarrow> string" where
  "s_device_name e c = or_default (setDeviceName c) (hostName e)"

definition s_send_cmac :: "csettings \<Rightarrow> bool" where
  "s_send_cmac c = or_default (setSendCmac c) False"

definition s_device_id :: "csettings \<Rightarrow> uuid" where
  "s_device_id c = or_default (setDeviceId c) 0"

definition load_config :: "conn_env \<Rightarrow> csettings \<Rightarrow> remote_config" where
  "load_config e c = \<lparr>rcUrl = s_url e c, rcAccessKey = s_access_key e c, rcHeaders = s_headers e c, rcKeepalive = s_keepalive e c\<rparr>"

definition clear_config :: "csettings \<Rightarrow> csettings" where
  "clear_config c = c\<lparr>setUrl := None, setAccessKey := None, setHeaders := [], setKeepalive := None\<rparr>"

definition store_config :: "remote_config \<Rightarrow> csettings \<Rightarrow> csettings" where
  "store_config r c = (clear_config c)\<lparr>setUrl := Some (rcUrl r), setAccessKey := Some (rcAccessKey r),
     setHeaders := rcHeaders r, setKeepalive := Some (rcKeepalive r)\<rparr>"

definition clear_import :: "csettings \<Rightarrow> csettings" where
  "clear_import c = c\<lparr>setImportKey := None, setImportNonce := None, setImportPartner := None, setImportScheme := None, setImportCmac := None\<rparr>"

section \<open>Sending and submitting\<close>

text \<open>Sending through a null socket is undefined.\<close>

definition need_socket :: "unit cact" where
  "need_socket = seq (gets socket) (\<lambda>s. guard_call (s \<noteq> None) (KeyError NullPointer))"

definition send_message :: "message \<Rightarrow> unit cact" where
  "send_message m = seq need_socket (\<lambda>_. signal (Sent m))"

text \<open>\<open>serializeSignedMessage\<close>: the signature covers the serialized message.\<close>

definition serialize_signed_message :: "conn_env \<Rightarrow> message \<Rightarrow> bytes cact" where
  "serialize_signed_message e m = with_keys (wrap ''Failed to sign message'' (own_sign (keyEnv e) (serialize (msgLib e) m)))"

definition send_signed_message :: "conn_env \<Rightarrow> message \<Rightarrow> unit cact" where
  "send_signed_message e m = seq (serialize_signed_message e m) (\<lambda>sig. seq need_socket (\<lambda>_. signal (SentSigned m sig)))"

definition submit_event :: "sm_event \<Rightarrow> unit cact" where
  "submit_event ev = modify (\<lambda>w. w\<lparr>blocked := True, smQueue := smQueue w @ [ev]\<rparr>)"

definition trigger_error :: "bool \<Rightarrow> unit cact" where
  "trigger_error recover = submit_event (if recover then EvBasicError else EvFatalError)"

definition is_idle :: "connector \<Rightarrow> bool" where
  "is_idle w \<longleftrightarrow> smRunning w \<and> smState w = IdleState"

text \<open>Runs the action when the connector is idle, else it is an unexpected message.\<close>

definition when_idle :: "unit cact \<Rightarrow> unit cact" where
  "when_idle m = seq (gets is_idle) (\<lambda>b. if b then m else trigger_error True)"

fun error_text :: "error_type \<Rightarrow> string" where
  "error_text IncompatibleVersionError = ''Server is not compatibel with your application version.''"
| "error_text AuthenticationError = ''Authentication failed. Try to remove and add your device again, or reset your account!''"
| "error_text AccessError = ''Account access (import) failed. The partner device was not available or did not accept your request!''"
| "error_text KeyIndexError = ''Cannot update key! This client is not using the latest existing keys.''"
| "error_text KeyPendingError = ''Cannot update key! At least one client did not receive the previous key update.''"
| "error_text ClientError = ''Internal application error. Check the logs for details.''"
| "error_text ServerError = ''Internal application error. Check the logs for details.''"
| "error_text UnexpectedMessageError = ''Internal application error. Check the logs for details.''"
| "error_text QuotaHitError = ''Data quota hit. You need to synchronize changes to other devices before you can upload more changes.''"
| "error_text UnknownError = ''Unknown error occured.''"

definition on_error :: "error_type \<Rightarrow> bool \<Rightarrow> unit cact" where
  "on_error t recover = seq (trigger_error recover) (\<lambda>_. if recover then ret () else signal (ControllerError (error_text t)))"

text \<open>
  \<open>try { m } catch(Exception &e) { handler }\<close>: exceptions of the library are caught; a bare
  exception of Crypto++ and undefined behaviour are not.
\<close>

definition library_error :: "conn_error \<Rightarrow> bool" where
  "library_error x = (case x of
       KeyError (CppException _) \<Rightarrow> False | KeyError NullPointer \<Rightarrow> False | KeyError _ \<Rightarrow> True | MessageError _ \<Rightarrow> False)"

definition catch_library :: "'a cact \<Rightarrow> 'a cact \<Rightarrow> 'a cact" where
  "catch_library m h w = (case m w of (Inl x, v) \<Rightarrow> if library_error x then h v else (Inl x, v) | r \<Rightarrow> r)"

definition client_error_on_failure :: "unit cact \<Rightarrow> unit cact" where
  "client_error_on_failure m = catch_library m (on_error ClientError False)"

end
