(* ===== verification/ConnectorOps.thy ===== *)
theory ConnectorOps
  imports Connector
begin

text \<open>
  The operations of the connector (\<open>src/datasync/remoteconnector.cpp\<close>): connecting and
  disconnecting, what the signals of the web socket and the timers run, and the public slots.
\<close>

section \<open>Identity\<close>

definition clear_caches :: "bool \<Rightarrow> unit cact" where
  "clear_caches includeExport = modify (\<lambda>w. w\<lparr>deviceCache := [], activeProofs := (\<lambda>_. None),
     exportsCache := (if includeExport then (\<lambda>_. None) else exportsCache w)\<rparr>)"

definition set_device :: "uuid \<Rightarrow> unit cact" where
  "set_device d = modify (\<lambda>w. w\<lparr>deviceId := d\<rparr>)"

definition load_identity :: "conn_env \<Rightarrow> bool cact" where
  "load_identity e = catch_library
     (seq (gets csettings) (\<lambda>c. seq (gets deviceId) (\<lambda>d. let n = s_device_id c in
      if n \<noteq> d \<or> n = 0 then
        seq (set_device n) (\<lambda>_. seq (with_keys (clear_key_material (keyEnv e))) (\<lambda>_.
        seq (with_keys (acquire_store (keyEnv e) (n \<noteq> 0))) (\<lambda>_.
        if n = 0 then ret True
        else seq (with_keys (load_key_material (keyEnv e) n)) (\<lambda>_. ret True))))
      else ret True)))
     (seq (signal (ControllerError ''Failed to load user identity! Make shure your keystore is available.'')) (\<lambda>_. ret False))"

text \<open>The url, when a connection may be made.\<close>

definition check_can_sync :: "conn_env \<Rightarrow> string option cact" where
  "check_can_sync e = seq (gets isClosing) (\<lambda>closing.
     if closing then ret None
     else seq (load_identity e) (\<lambda>loaded.
       if \<not> loaded then ret None
       else seq (gets csettings) (\<lambda>c.
         if \<not> s_enabled c then ret None
         else if \<not> urlValid e (s_url e c) then ret None
         else ret (Some (s_url e c)))))"

section \<open>Connecting and disconnecting\<close>

definition upd_socket :: "socket_state option \<Rightarrow> unit cact" where
  "upd_socket s = modify (\<lambda>w. w\<lparr>socket := s\<rparr>)"

definition close_socket :: "unit cact" where
  "close_socket = seq (signal CloseSocket) (\<lambda>_. upd_socket (Some SocketClosing))"

text \<open>A new socket replaces the old one; the keepalive timer is connected to it if there is an interval.\<close>

definition do_connect :: "conn_env \<Rightarrow> unit cact" where
  "do_connect e =
     seq (signal (RemoteEvent RemoteConnecting)) (\<lambda>_. seq (check_can_sync e) (\<lambda>url. case url of
       None \<Rightarrow> submit_event EvNoConnect
     | Some u \<Rightarrow>
         seq (upd_socket (Some Unconnected)) (\<lambda>_. seq (gets csettings) (\<lambda>c.
         seq (if 0 < s_keepalive e c then modify (\<lambda>w. w\<lparr>pinging := True, awaitingPing := False\<rparr>)
              else modify (\<lambda>w. w\<lparr>pinging := False\<rparr>)) (\<lambda>_.
         seq (begin_special_op (minutes 1)) (\<lambda>_.
         seq (signal (OpenSocket u (s_access_key e c) (s_headers e c))) (\<lambda>_. upd_socket (Some SocketConnecting))))))))"

definition do_disconnect :: "unit cact" where
  "do_disconnect = seq (gets socket) (\<lambda>s. case s of
       None \<Rightarrow> submit_event EvDisconnected
     | Some SocketClosing \<Rightarrow> ret ()
     | Some SocketConnected \<Rightarrow> seq (begin_special_op (minutes 1)) (\<lambda>_. close_socket)
     | Some _ \<Rightarrow> seq (upd_socket None) (\<lambda>_. submit_event EvDisconnected))"

text \<open>The slots \<open>connected\<close> and \<open>disconnected\<close>; the latter asks a lost socket for the reason.\<close>

definition connected :: "unit cact" where
  "connected = seq end_op (\<lambda>_. submit_event EvConnected)"

definition disconnected :: "unit cact" where
  "disconnected = seq end_op (\<lambda>_.
     seq (gets (\<lambda>w. smRunning w \<and> active (smState w) \<and> smState w \<noteq> Connecting)) (\<lambda>unexpected.
     seq (if unexpected then need_socket else ret ()) (\<lambda>_.
     seq (upd_socket None) (\<lambda>_. submit_event EvDisconnected))))"

definition socket_error :: "unit cact" where
  "socket_error = seq need_socket (\<lambda>_. signal TryClose)"

datatype ssl_error = SelfSignedCertificate | SelfSignedCertificateInChain | OtherSslError

fun should_close :: "conn_env \<Rightarrow> ssl_error list \<Rightarrow> bool \<Rightarrow> bool" where
  "should_close e [] b = b"
| "should_close e (x # xs) b = should_close e xs (if x = OtherSslError then b else b \<and> verifiesPeer e)"

definition ssl_errors :: "conn_env \<Rightarrow> ssl_error list \<Rightarrow> unit cact" where
  "ssl_errors e xs = (if should_close e xs True then signal TryClose else ret ())"

definition try_close :: "unit cact" where
  "try_close = seq (gets socket) (\<lambda>s. if s = Some SocketConnected then close_socket else ret ())"

section \<open>Retries and timers\<close>

definition retry_timeouts :: "nat list" where
  "retry_timeouts = [5, 10, 30, 60, 5 * 60]"

definition retry :: "unit cact" where
  "retry = seq (gets retryIndex) (\<lambda>i.
     if length retry_timeouts \<le> i then signal (RetryIn (last retry_timeouts))
     else seq (modify (\<lambda>w. w\<lparr>retryIndex := i + 1\<rparr>)) (\<lambda>_. signal (RetryIn (retry_timeouts ! i))))"

definition reconnect :: "unit cact" where
  "reconnect = submit_event EvReconnect"

definition retry_timer :: "unit cact" where
  "retry_timer = seq (gets retryIndex) (\<lambda>i. if i \<noteq> 0 then reconnect else ret ())"

definition ping :: "unit cact" where
  "ping = seq (gets awaitingPing) (\<lambda>b.
     if b then seq (modify (\<lambda>w. w\<lparr>awaitingPing := False\<rparr>)) (\<lambda>_. reconnect)
     else seq (modify (\<lambda>w. w\<lparr>awaitingPing := True\<rparr>)) (\<lambda>_. seq need_socket (\<lambda>_. signal SentPing)))"

definition elapse :: "nat \<Rightarrow> unit cact" where
  "elapse ms = modify (\<lambda>w. w\<lparr>opTimer := map_option (\<lambda>r. r - ms) (opTimer w), specialOp := map_option (\<lambda>r. r - ms) (specialOp w)\<rparr>)"

text \<open>\<open>Controller::onTimeout\<close> of the single-shot timer, and the connector's \<open>specialOperationTimeout\<close>.\<close>

definition on_timeout :: "unit cact" where
  "on_timeout = seq (modify (\<lambda>w. w\<lparr>opTimer := None\<rparr>)) (\<lambda>_. seq (gets specialOp) (\<lambda>s.
     if s = Some 0 then seq (modify (\<lambda>w. w\<lparr>specialOp := None\<rparr>)) (\<lambda>_. trigger_error True)
     else signal OperationTimeout))"

section \<open>Public operations\<close>

definition disconnect_remote :: "unit cact" where
  "disconnect_remote = trigger_error False"

definition if_idle :: "unit cact \<Rightarrow> unit cact" where
  "if_idle m = seq (gets is_idle) (\<lambda>b. if b then m else ret ())"

definition resync :: "unit cact" where
  "resync = if_idle (seq (signal (RemoteEvent RemoteReadyWithChanges)) (\<lambda>_. send_message SyncMessage))"

definition list_devices :: "unit cact" where
  "list_devices = if_idle (send_message ListDevicesMessage)"

definition remove_device :: "uuid \<Rightarrow> unit cact" where
  "remove_device d = if_idle (seq (gets deviceId) (\<lambda>own. if d = own then ret () else send_message (RemoveMessage d)))"

definition reset_account :: "conn_env \<Rightarrow> bool \<Rightarrow> unit cact" where
  "reset_account e clearConfig =
     seq (if clearConfig then upd_cset (\<lambda>c. clear_import (clear_config c)) else ret ()) (\<lambda>_.
     seq (gets (\<lambda>w. if deviceId w = 0 then s_device_id (csettings w) else deviceId w)) (\<lambda>d.
     if d \<noteq> 0 then
       seq (clear_caches True) (\<lambda>_. seq (upd_cset (\<lambda>c. c\<lparr>setDeviceId := None\<rparr>)) (\<lambda>_.
       seq (with_keys (delete_key_material (keyEnv e) d)) (\<lambda>_.
       seq (gets smRunning) (\<lambda>running.
       if \<not> running then ret ()
       else seq (gets is_idle) (\<lambda>idle.
         if idle then send_message (RemoveMessage d)
         else seq (set_device 0) (\<lambda>_. reconnect))))))
     else seq (gets smRunning) (\<lambda>running. if running then reconnect else ret ())))"

definition change_remote :: "remote_config \<Rightarrow> unit cact" where
  "change_remote r = upd_cset (store_config r)"

record export_data =
  exTrusted :: bool
  exNonce :: bytes
  exPartner :: uuid
  exScheme :: bytes
  exCmac :: bytes
  exConfig :: "remote_config option"

definition to_rfc4122 :: "uuid \<Rightarrow> bytes" where
  "to_rfc4122 u = be_put 16 (unat u)"

definition export_sign_data :: "bytes \<Rightarrow> uuid \<Rightarrow> bytes \<Rightarrow> bytes" where
  "export_sign_data nonce partner sch = nonce @ to_rfc4122 partner @ sch"

definition export_account :: "conn_env \<Rightarrow> bool \<Rightarrow> string option \<Rightarrow> (export_data \<times> bytes \<times> bytes) cact" where
  "export_account e includeServer password = seq (gets deviceId) (\<lambda>d.
     seq (guard_call (d \<noteq> 0) (KeyError (LibException ''Cannot export data without beeing registered on a server.''))) (\<lambda>_.
     seq (with_keys (generate_block (keyEnv e) nonce_size)) (\<lambda>n.
     seq (with_keys (generate_export_key (keyEnv e) password)) (\<lambda>(sch, salt, key).
     seq (with_keys (create_export_cmac (keyEnv e) sch key (export_sign_data n d sch))) (\<lambda>mac.
     seq (gets csettings) (\<lambda>c.
     seq (modify (\<lambda>w. w\<lparr>exportsCache := (exportsCache w)(n \<mapsto> key)\<rparr>)) (\<lambda>_.
     ret (\<lparr>exTrusted = (password \<noteq> None), exNonce = n, exPartner = d, exScheme = sch, exCmac = mac,
       exConfig = (if includeServer then Some (load_config e c) else None)\<rparr>, salt, key))))))))"

definition prepare_import :: "export_data \<Rightarrow> bytes \<Rightarrow> unit cact" where
  "prepare_import d key = upd_cset (\<lambda>c.
     (case exConfig d of Some r \<Rightarrow> store_config r c | None \<Rightarrow> clear_config c)
       \<lparr>setImportNonce := Some (exNonce d), setImportPartner := Some (exPartner d), setImportScheme := Some (exScheme d),
        setImportCmac := Some (exCmac d), setImportKey := (if exTrusted d then Some key else None)\<rparr>)"

text \<open>The answer to a request for access: a failed encryption turns into a denial.\<close>

definition login_reply :: "conn_env \<Rightarrow> uuid \<Rightarrow> bool \<Rightarrow> unit cact" where
  "login_reply e d accept = if_idle (catch_library
     (seq (gets activeProofs) (\<lambda>ps. seq (modify (\<lambda>w. w\<lparr>activeProofs := (activeProofs w)(d := None)\<rparr>)) (\<lambda>_.
      case ps d of
        None \<Rightarrow> ret ()
      | Some ci \<Rightarrow>
          if accept then
            seq (with_keys (deref (ciCryptKey ci))) (\<lambda>pub.
            seq (with_keys (encrypt_secret_key (keyEnv e) ci pub)) (\<lambda>(k, sch, s).
            send_signed_message e (AcceptMessage d k sch s)))
          else send_message (DenyMessage d))))
     (send_message (DenyMessage d)))"

definition init_key_update :: "unit cact" where
  "init_key_update = if_idle (client_error_on_failure
     (seq (gets (localCipher \<circ> keys)) (\<lambda>k. send_message (KeyChangeMessage (k + 1)))))"

definition upload_data :: "conn_env \<Rightarrow> bytes \<Rightarrow> bytes \<Rightarrow> unit cact" where
  "upload_data e key d = if_idle (client_error_on_failure
     (seq (with_keys (encrypt_data (keyEnv e) d)) (\<lambda>(k, salt, c). send_message (ChangeMessage key k salt c))))"

definition upload_device_data :: "conn_env \<Rightarrow> bytes \<Rightarrow> uuid \<Rightarrow> bytes \<Rightarrow> unit cact" where
  "upload_device_data e key dev d = if_idle (client_error_on_failure
     (seq (with_keys (encrypt_data (keyEnv e) d)) (\<lambda>(k, salt, c). send_message (DeviceChangeMessage key k salt c dev))))"

definition download_done :: "u64 \<Rightarrow> unit cact" where
  "download_done key = if_idle (client_error_on_failure
     (seq (send_message (ChangedAckMessage key)) (\<lambda>_. seq (signal ProgressIncrement) (\<lambda>_. begin_op (minutes 5) False))))"

definition set_sync_enabled :: "bool \<Rightarrow> unit cact" where
  "set_sync_enabled b = seq (gets csettings) (\<lambda>c.
     if s_enabled c = b then ret ()
     else seq (upd_cset (\<lambda>c. c\<lparr>setEnabled := Some b\<rparr>)) (\<lambda>_.
       seq (if b then reconnect else disconnect_remote) (\<lambda>_. signal (SyncEnabledChanged b))))"

definition set_device_name :: "conn_env \<Rightarrow> string \<Rightarrow> unit cact" where
  "set_device_name e n = seq (gets csettings) (\<lambda>c.
     if s_device_name e c = n then ret ()
     else seq (upd_cset (\<lambda>c. c\<lparr>setDeviceName := Some n\<rparr>)) (\<lambda>_. seq (signal (DeviceNameChanged n)) (\<lambda>_. reconnect)))"

definition reset_device_name :: "conn_env \<Rightarrow> unit cact" where
  "reset_device_name e = seq (gets csettings) (\<lambda>c.
     if setDeviceName c = None then ret ()
     else seq (upd_cset (\<lambda>c. c\<lparr>setDeviceName := None\<rparr>)) (\<lambda>_. seq (gets csettings) (\<lambda>c.
       seq (signal (DeviceNameChanged (s_device_name e c))) (\<lambda>_. reconnect))))"

end
