(* ===== verification/ConnectorMessages.thy ===== *)
theory ConnectorMessages
  imports ConnectorOps
begin

text \<open>
  What the connector does with the messages of the server (\<open>binaryMessageReceived\<close> and the \<open>on\<close>
  functions of \<open>src/datasync/remoteconnector.cpp\<close>), the execution of the state machine, and one step
  of the connector: a call from outside, from the socket, from a timer or from the event loop.
\<close>

section \<open>Login, registration and access\<close>

definition in_state :: "conn_state \<Rightarrow> connector \<Rightarrow> bool" where
  "in_state s w \<longleftrightarrow> smRunning w \<and> smState w = s"

text \<open>Every class of exceptions the crypto code throws, but not the undefined behaviour.\<close>

definition catch_std :: "'a cact \<Rightarrow> 'a cact \<Rightarrow> 'a cact" where
  "catch_std m h w = (case m w of (Inl x, v) \<Rightarrow> if x = KeyError NullPointer then (Inl x, v) else h v | r \<Rightarrow> r)"

definition send_key_update :: "conn_env \<Rightarrow> unit cact" where
  "send_key_update e = seq (upd_cset (\<lambda>c. c\<lparr>setSendCmac := Some True\<rparr>)) (\<lambda>_.
     seq (gets (localCipher \<circ> keys)) (\<lambda>k. seq (with_keys (generate_encryption_key_cmac (keyEnv e) k)) (\<lambda>mac.
     send_message (MacUpdateMessage k mac))))"

text \<open>The public keys of the message and their schemes.\<close>

definition own_public_keys :: "conn_env \<Rightarrow> (bytes \<times> bytes \<times> bytes \<times> bytes) cact" where
  "own_public_keys e = with_keys (seq (sign_key (keyEnv e)) (\<lambda>sk. seq (crypt_key (keyEnv e)) (\<lambda>ck.
     seq (gets asymCrypto) (\<lambda>c. seq (signature_scheme (keyEnv e) c) (\<lambda>sn. seq (encryption_scheme (keyEnv e) c) (\<lambda>cn.
     ret (sn, write_key sk, cn, write_key ck)))))))"

definition send_register :: "conn_env \<Rightarrow> bytes \<Rightarrow> unit cact" where
  "send_register e nonce = seq (gets csettings) (\<lambda>c. seq (gets (localCipher \<circ> keys)) (\<lambda>k.
     seq (with_keys (generate_encryption_key_cmac (keyEnv e) k)) (\<lambda>mac.
     seq (own_public_keys e) (\<lambda>(sn, sk, cn, ck).
     seq (send_signed_message e (RegisterMessage current_version nonce sn sk cn ck (s_device_name e c) mac)) (\<lambda>_.
     submit_event EvAwaitRegister)))))"

definition send_access :: "conn_env \<Rightarrow> bytes \<Rightarrow> bytes \<Rightarrow> unit cact" where
  "send_access e nonce pNonce = seq (gets csettings) (\<lambda>c.
     let sch = or_default (setImportScheme c) []; key = or_default (setImportKey c) [] in
     seq (if key \<noteq> [] then seq (with_keys (create_export_cmac_for_crypto (keyEnv e) sch key)) (\<lambda>m. ret (Some m)) else ret None) (\<lambda>tm.
     seq (own_public_keys e) (\<lambda>(sn, sk, cn, ck).
     seq (send_signed_message e (AccessMessage current_version nonce sn sk cn ck (s_device_name e c) pNonce
       (or_default (setImportPartner c) 0) sch (or_default (setImportCmac c) []) tm)) (\<lambda>_.
     submit_event EvAwaitGranted))))"

text \<open>The identify message may be read before the event \<open>connected\<close> has been dispatched.\<close>

definition on_identify :: "conn_env \<Rightarrow> bytes \<Rightarrow> u32 \<Rightarrow> unit cact" where
  "on_identify e nonce limit = seq (gets (\<lambda>w. in_state Connected w \<or> in_state Connecting w)) (\<lambda>expected.
     if \<not> expected then trigger_error True
     else seq (signal (UpdateUploadLimit limit)) (\<lambda>_. seq (gets deviceId) (\<lambda>d. seq (gets csettings) (\<lambda>c.
       if d \<noteq> 0 then
         seq (send_signed_message e (LoginMessage current_version nonce d (s_device_name e c))) (\<lambda>_. submit_event EvAwaitLogin)
       else
         seq (with_keys (create_private_keys (keyEnv e) nonce)) (\<lambda>_.
         let pNonce = or_default (setImportNonce c) [] in
         if pNonce = [] then send_register e nonce else send_access e nonce pNonce)))))"

definition on_account :: "conn_env \<Rightarrow> uuid \<Rightarrow> bool \<Rightarrow> unit cact" where
  "on_account e d checkState = seq (gets (in_state Registering)) (\<lambda>registering.
     if checkState \<and> \<not> registering then trigger_error True
     else
       seq (set_device d) (\<lambda>_. seq (upd_cset (\<lambda>c. c\<lparr>setDeviceId := Some d\<rparr>)) (\<lambda>_.
       seq (upd_cset (\<lambda>c. store_config (load_config e c) c)) (\<lambda>_.
       seq (with_keys (store_private_keys (keyEnv e) d)) (\<lambda>_.
       seq (modify (\<lambda>w. w\<lparr>expectChanges := False\<rparr>)) (\<lambda>_. submit_event EvAccount))))))"

text \<open>\<open>signatureData\<close> of \<open>WelcomeMessage\<close> and of \<open>NewKeyMessage\<close>\<close>

definition welcome_signature_data :: "u32 \<Rightarrow> bytes \<Rightarrow> bytes \<Rightarrow> uuid \<Rightarrow> bytes" where
  "welcome_signature_data keyIndex sch key d = decimal (unat keyIndex) @ sch @ to_rfc4122 d @ key"

definition new_key_signature_data :: "u32 \<Rightarrow> bytes \<Rightarrow> key_update \<Rightarrow> bytes" where
  "new_key_signature_data keyIndex sch u = decimal (unat keyIndex) @ sch @ to_rfc4122 (fst u) @ fst (snd u)"

definition on_welcome :: "conn_env \<Rightarrow> bool \<Rightarrow> u32 \<Rightarrow> bytes \<Rightarrow> bytes \<Rightarrow> bytes \<Rightarrow> unit cact" where
  "on_welcome e hasChanges keyIndex sch key mac = seq (gets (in_state LoggingIn)) (\<lambda>expected.
     if \<not> expected then trigger_error True
     else
       seq (modify (\<lambda>w. w\<lparr>expectChanges := hasChanges\<rparr>)) (\<lambda>_. seq (submit_event EvAccount) (\<lambda>_.
       seq (if key \<noteq> [] then
              seq (gets (localCipher \<circ> keys)) (\<lambda>k. seq (gets deviceId) (\<lambda>d.
              seq (with_keys (verify_cmac (keyEnv e) k (welcome_signature_data keyIndex sch key d) mac)) (\<lambda>_.
              seq (with_keys (decrypt_secret_key (keyEnv e) keyIndex sch key False)) (\<lambda>_. ret True))))
            else ret False) (\<lambda>keyUpdated.
       seq (gets csettings) (\<lambda>c. if keyUpdated \<or> s_send_cmac c then send_key_update e else ret ())))))"

definition on_grant :: "conn_env \<Rightarrow> uuid \<Rightarrow> u32 \<Rightarrow> bytes \<Rightarrow> bytes \<Rightarrow> unit cact" where
  "on_grant e d index sch secret = seq (gets (in_state Granting)) (\<lambda>expected.
     if \<not> expected then trigger_error True
     else
       seq (with_keys (decrypt_secret_key (keyEnv e) index sch secret True)) (\<lambda>_.
       seq (on_account e d False) (\<lambda>_. seq (upd_cset clear_import) (\<lambda>_.
       seq (send_key_update e) (\<lambda>_. signal ImportCompleted)))))"

section \<open>Changes\<close>

definition on_change_ack :: "bytes \<Rightarrow> unit cact" where
  "on_change_ack dataId = when_idle (signal (UploadDone dataId))"

definition on_device_change_ack :: "bytes \<Rightarrow> uuid \<Rightarrow> unit cact" where
  "on_device_change_ack dataId d = when_idle (signal (DeviceUploadDone dataId d))"

definition on_changed :: "conn_env \<Rightarrow> u64 \<Rightarrow> u32 \<Rightarrow> bytes \<Rightarrow> bytes \<Rightarrow> unit cact" where
  "on_changed e index k salt c = when_idle
     (seq (with_keys (decrypt_data (keyEnv e) k salt c)) (\<lambda>d.
      seq (begin_op (minutes 5) True) (\<lambda>_. signal (DownloadData index d))))"

definition on_changed_info :: "conn_env \<Rightarrow> u64 \<Rightarrow> u32 \<Rightarrow> bytes \<Rightarrow> bytes \<Rightarrow> u32 \<Rightarrow> unit cact" where
  "on_changed_info e index k salt c estimate = when_idle
     (seq (signal (RemoteEvent RemoteReadyWithChanges)) (\<lambda>_. seq (signal (ProgressAdded estimate)) (\<lambda>_.
      on_changed e index k salt c)))"

definition on_last_changed :: "unit cact" where
  "on_last_changed = when_idle (seq end_op (\<lambda>_. signal (RemoteEvent RemoteReady)))"

section \<open>Devices and access requests\<close>

definition on_devices :: "device_info list \<Rightarrow> unit cact" where
  "on_devices ds = when_idle (seq (modify (\<lambda>w. w\<lparr>deviceCache := ds\<rparr>)) (\<lambda>_. signal (DevicesListed ds)))"

fun erase_device :: "uuid \<Rightarrow> device_info list \<Rightarrow> device_info list option" where
  "erase_device d [] = None"
| "erase_device d (x # xs) = (if fst x = d then Some xs else map_option (Cons x) (erase_device d xs))"

definition on_remove_ack :: "uuid \<Rightarrow> unit cact" where
  "on_remove_ack d = when_idle (seq (gets deviceId) (\<lambda>own.
     if own = d then seq (set_device 0) (\<lambda>_. reconnect)
     else seq (gets deviceCache) (\<lambda>ds. case erase_device d ds of
         None \<Rightarrow> ret ()
       | Some ds' \<Rightarrow> seq (modify (\<lambda>w. w\<lparr>deviceCache := ds'\<rparr>)) (\<lambda>_. signal (DevicesListed ds')))))"

text \<open>The proof of an export this device has made, which it accepts once.\<close>

definition check_proof :: "conn_env \<Rightarrow> bytes \<Rightarrow> bytes \<Rightarrow> bytes \<Rightarrow> bytes \<Rightarrow> bytes \<Rightarrow> bytes \<Rightarrow> bytes \<Rightarrow> bytes option \<Rightarrow> crypto_info cact" where
  "check_proof e pn sa sk ca ck ms mac tm =
     seq (gets exportsCache) (\<lambda>xs. seq (modify (\<lambda>w. w\<lparr>exportsCache := (exportsCache w)(pn := None)\<rparr>)) (\<lambda>_.
     let key = or_default (xs pn) [] in
     seq (guard_call (key \<noteq> []) (KeyError (LibException ''ProofMessage for non existing export''))) (\<lambda>_.
     seq (gets deviceId) (\<lambda>own.
     seq (with_keys (verify_import_cmac (keyEnv e) ms key (pn @ to_rfc4122 own @ ms) mac)) (\<lambda>_.
     seq (with_keys (new_crypto_info (keyEnv e) sa sk ca ck)) (\<lambda>ci.
     seq (case tm of None \<Rightarrow> ret () | Some m \<Rightarrow> with_keys (verify_import_cmac_for_crypto (keyEnv e) ms key ci m)) (\<lambda>_.
     ret ci)))))))"

definition on_proof :: "conn_env \<Rightarrow> bytes \<Rightarrow> uuid \<Rightarrow> string \<Rightarrow> bytes \<Rightarrow> bytes \<Rightarrow> bytes \<Rightarrow> bytes \<Rightarrow> bytes \<Rightarrow> bytes \<Rightarrow> bytes option \<Rightarrow> unit cact" where
  "on_proof e pn d nm sa sk ca ck ms mac tm = when_idle (catch_std
     (seq (check_proof e pn sa sk ca ck ms mac tm) (\<lambda>ci.
      seq (modify (\<lambda>w. w\<lparr>activeProofs := (activeProofs w)(d \<mapsto> ci)\<rparr>)) (\<lambda>_.
      seq (if tm \<noteq> None then login_reply e d True
           else seq (with_keys (info_fingerprint (keyEnv e) ci)) (\<lambda>fp. signal (LoginRequested d nm fp))) (\<lambda>_.
      signal (ProofTimer d)))))
     (send_message (DenyMessage d)))"

definition proof_timeout :: "uuid \<Rightarrow> unit cact" where
  "proof_timeout d = seq (gets activeProofs) (\<lambda>ps.
     if ps d = None then ret ()
     else seq (modify (\<lambda>w. w\<lparr>activeProofs := (activeProofs w)(d := None)\<rparr>)) (\<lambda>_. send_message (DenyMessage d)))"

definition on_accept_ack :: "uuid \<Rightarrow> unit cact" where
  "on_accept_ack d = when_idle (signal (AccountAccessGranted d))"

section \<open>Exchange of the secret key\<close>

definition on_mac_update_ack :: "unit cact" where
  "on_mac_update_ack = when_idle (upd_cset (\<lambda>c. c\<lparr>setSendCmac := None\<rparr>))"

text \<open>The new key for one device; a device whose data does not check is left out.\<close>

definition update_device :: "conn_env \<Rightarrow> u32 \<Rightarrow> bytes \<Rightarrow> device_key \<Rightarrow> key_update option cact" where
  "update_device e k sch info = (case info of (d, cn, pub, mac) \<Rightarrow> catch_std
     (seq (with_keys (new_encryption_info (keyEnv e) cn pub)) (\<lambda>ci. seq (with_keys (deref (ciCryptKey ci))) (\<lambda>key.
      seq (with_keys (verify_encryption_key_cmac (keyEnv e) ci key mac)) (\<lambda>_.
      seq (with_keys (encrypt_secret_key_at (keyEnv e) k ci key)) (\<lambda>s.
      seq (gets (localCipher \<circ> keys)) (\<lambda>l.
      seq (with_keys (create_cmac (keyEnv e) l (new_key_signature_data k sch (d, s, [])))) (\<lambda>m.
      ret (Some (d, s, m)))))))))
     (ret None))"

fun update_devices :: "conn_env \<Rightarrow> u32 \<Rightarrow> bytes \<Rightarrow> device_key list \<Rightarrow> key_update list cact" where
  "update_devices e k sch [] = ret []"
| "update_devices e k sch (x # xs) = seq (update_device e k sch x) (\<lambda>u. seq (update_devices e k sch xs) (\<lambda>us.
     ret (case u of None \<Rightarrow> us | Some u \<Rightarrow> u # us)))"

definition on_device_keys :: "conn_env \<Rightarrow> u32 \<Rightarrow> bool \<Rightarrow> device_key list \<Rightarrow> unit cact" where
  "on_device_keys e keyIndex duplicated devices = when_idle
     (if duplicated then with_keys (activate_next_key (keyEnv e) keyIndex)
      else seq (with_keys (generate_next_key (keyEnv e))) (\<lambda>(k, sch).
        seq (with_keys (generate_encryption_key_cmac (keyEnv e) k)) (\<lambda>mac.
        seq (update_devices e k sch devices) (\<lambda>us. send_signed_message e (NewKeyMessage k mac sch us)))))"

definition on_new_key_ack :: "conn_env \<Rightarrow> u32 \<Rightarrow> unit cact" where
  "on_new_key_ack e keyIndex = when_idle (with_keys (activate_next_key (keyEnv e) keyIndex))"

section \<open>Receiving\<close>

definition handle_message :: "conn_env \<Rightarrow> message \<Rightarrow> unit cact" where
  "handle_message e m = (case m of
       ErrorMessage t _ recover \<Rightarrow> on_error t recover
     | IdentifyMessage _ nonce limit \<Rightarrow> on_identify e nonce limit
     | AccountMessage d \<Rightarrow> on_account e d True
     | WelcomeMessage c k sch key mac \<Rightarrow> on_welcome e c k sch key mac
     | GrantMessage d k sch s \<Rightarrow> on_grant e d k sch s
     | ChangeAckMessage i \<Rightarrow> on_change_ack i
     | DeviceChangeAckMessage i d \<Rightarrow> on_device_change_ack i d
     | ChangedMessage i k salt c \<Rightarrow> on_changed e i k salt c
     | ChangedInfoMessage i k salt c n \<Rightarrow> on_changed_info e i k salt c n
     | LastChangedMessage \<Rightarrow> on_last_changed
     | DevicesMessage ds \<Rightarrow> on_devices ds
     | RemoveAckMessage d \<Rightarrow> on_remove_ack d
     | ProofMessage pn d nm sa sk ca ck ms mac tm \<Rightarrow> on_proof e pn d nm sa sk ca ck ms mac tm
     | AcceptAckMessage d \<Rightarrow> on_accept_ack d
     | MacUpdateAckMessage \<Rightarrow> on_mac_update_ack
     | DeviceKeysMessage k dup ds \<Rightarrow> on_device_keys e k dup ds
     | NewKeyAckMessage k \<Rightarrow> on_new_key_ack e k
     | _ \<Rightarrow> trigger_error True)"

text \<open>The classes the connector asks the name for, in its order.\<close>

definition device_kinds :: "mkind list" where
  "device_kinds = [KError, KIdentify, KAccount, KWelcome, KGrant, KChangeAck, KDeviceChangeAck, KChanged, KChangedInfo,
     KLastChanged, KDevices, KRemoveAck, KProof, KAcceptAck, KMacUpdateAck, KDeviceKeys, KNewKeyAck]"

definition read_result :: "message_error + 'a \<Rightarrow> 'a cact" where
  "read_result r = (case r of Inl x \<Rightarrow> throw (MessageError x) | Inr a \<Rightarrow> ret a)"

definition read_and_handle :: "conn_env \<Rightarrow> bytes \<Rightarrow> unit cact" where
  "read_and_handle e b = seq (read_result (read_name (msgLib e) b)) (\<lambda>(name, rest).
     case List.find (\<lambda>k. message_name k = name) device_kinds of
       None \<Rightarrow> trigger_error True
     | Some k \<Rightarrow> seq (read_result (deserialize_message (msgLib e) k rest)) (\<lambda>(m, _). handle_message e m))"

definition error_of :: "conn_error \<Rightarrow> error_type" where
  "error_of x = (case x of MessageError _ \<Rightarrow> IncompatibleVersionError | KeyError _ \<Rightarrow> ClientError)"

definition process_message :: "conn_env \<Rightarrow> bytes \<Rightarrow> unit cact" where
  "process_message e b w = (case read_and_handle e b w of
       (Inl x, v) \<Rightarrow> if x = KeyError NullPointer then (Inl x, v) else on_error (error_of x) False v
     | r \<Rightarrow> r)"

definition binary_message_received :: "conn_env \<Rightarrow> bytes \<Rightarrow> unit cact" where
  "binary_message_received e b =
     (if b = ping_message then modify (\<lambda>w. w\<lparr>awaitingPing := False, pingRunning := True\<rparr>)
      else seq (gets blocked) (\<lambda>waiting.
        if waiting then modify (\<lambda>w. w\<lparr>buffer := buffer w @ [b]\<rparr>) else process_message e b))"

text \<open>The loop of \<open>machineReady\<close>; a message that is taken out is not put back.\<close>

fun drain :: "conn_env \<Rightarrow> nat \<Rightarrow> unit cact" where
  "drain e 0 = ret ()"
| "drain e (Suc n) = seq (gets (\<lambda>w. (blocked w, buffer w))) (\<lambda>(waiting, bs).
     if waiting then ret ()
     else (case bs of
         [] \<Rightarrow> ret ()
       | b # rest \<Rightarrow> seq (modify (\<lambda>w. w\<lparr>buffer := rest\<rparr>)) (\<lambda>_. seq (binary_message_received e b) (\<lambda>_. drain e n))))"

definition machine_ready :: "conn_env \<Rightarrow> unit cact" where
  "machine_ready e = seq (modify (\<lambda>w. w\<lparr>blocked := False\<rparr>)) (\<lambda>_. seq (gets (length \<circ> buffer)) (\<lambda>n. drain e n))"

section \<open>Execution of the state machine\<close>

definition on_entry_idle :: "unit cact" where
  "on_entry_idle = seq (modify (\<lambda>w. w\<lparr>retryIndex := 0\<rparr>)) (\<lambda>_.
     seq (gets (has_key_update \<circ> keys)) (\<lambda>upd. seq (if upd then init_key_update else ret ()) (\<lambda>_.
     seq (gets expectChanges) (\<lambda>changes.
     if changes then seq (modify (\<lambda>w. w\<lparr>expectChanges := False\<rparr>)) (\<lambda>_. signal (RemoteEvent RemoteReadyWithChanges))
     else signal (RemoteEvent RemoteReady)))))"

definition on_exit_active :: "unit cact" where
  "on_exit_active = seq (clear_caches False) (\<lambda>_. seq end_op (\<lambda>_. signal (RemoteEvent RemoteDisconnected)))"

text \<open>A final state ends the machine; \<open>finalize\<close> waits for that.\<close>

definition on_finished :: "unit cact" where
  "on_finished = seq (modify (\<lambda>w. w\<lparr>smRunning := False\<rparr>)) (\<lambda>_. seq (gets isClosing) (\<lambda>closing.
     if closing then signal Finalized else ret ()))"

definition entry :: "conn_env \<Rightarrow> conn_state \<Rightarrow> unit cact" where
  "entry e t = (case t of
       Connecting \<Rightarrow> do_connect e
     | IdleState \<Rightarrow> on_entry_idle
     | Retry \<Rightarrow> retry
     | BasicError \<Rightarrow> do_disconnect
     | FatalError \<Rightarrow> do_disconnect
     | Closing \<Rightarrow> do_disconnect
     | Final \<Rightarrow> on_finished
     | Final2 \<Rightarrow> on_finished
     | _ \<Rightarrow> ret ())"

text \<open>A transition: leaving \<open>Active\<close>, what the transition sends, and the entry of the target.\<close>

definition move :: "conn_env \<Rightarrow> sm_event option \<Rightarrow> conn_state \<Rightarrow> unit cact" where
  "move e ev t = seq (gets smState) (\<lambda>s.
     seq (if active s \<and> \<not> active t then on_exit_active else ret ()) (\<lambda>_.
     seq (if active s \<and> ev = Some EvReconnect then do_disconnect else ret ()) (\<lambda>_.
     seq (modify (\<lambda>w. w\<lparr>smState := t\<rparr>)) (\<lambda>_. entry e t))))"

definition settle :: "conn_env \<Rightarrow> unit cact" where
  "settle e = seq (gets (\<lambda>w. if isClosing w then closing_target (smState w) else None)) (\<lambda>t. case t of
       None \<Rightarrow> ret () | Some t \<Rightarrow> move e None t)"

text \<open>With an empty queue the machine is stable, and \<open>machineReady\<close> is called later.\<close>

definition stable :: "unit cact" where
  "stable = modify (\<lambda>w. if smQueue w = [] then w\<lparr>readyCalls := Suc (readyCalls w)\<rparr> else w)"

definition dispatch :: "conn_env \<Rightarrow> unit cact" where
  "dispatch e = seq (gets smQueue) (\<lambda>q. case q of
       [] \<Rightarrow> ret ()
     | ev # rest \<Rightarrow>
         seq (modify (\<lambda>w. w\<lparr>smQueue := rest\<rparr>)) (\<lambda>_. seq (gets smState) (\<lambda>s.
         seq (case event_target s ev of None \<Rightarrow> ret () | Some t \<Rightarrow> move e (Some ev) t) (\<lambda>_.
         seq (settle e) (\<lambda>_. stable)))))"

definition start :: "conn_env \<Rightarrow> unit cact" where
  "start e = seq (gets smRunning) (\<lambda>running. if running then ret ()
     else seq (modify (\<lambda>w. w\<lparr>smRunning := True, smState := Connecting\<rparr>)) (\<lambda>_. seq (entry e Connecting) (\<lambda>_.
       seq (settle e) (\<lambda>_. stable))))"

definition finalize :: "conn_env \<Rightarrow> unit cact" where
  "finalize e = seq (modify (\<lambda>w. w\<lparr>pingRunning := False\<rparr>)) (\<lambda>_. seq (with_keys (clear_key_material (keyEnv e))) (\<lambda>_.
     seq (gets smRunning) (\<lambda>running.
     if running then seq (modify (\<lambda>w. w\<lparr>isClosing := True\<rparr>)) (\<lambda>_. seq (submit_event EvClose) (\<lambda>_. signal CloseTimer))
     else signal Finalized)))"

definition close_timeout :: "unit cact" where
  "close_timeout = seq (modify (\<lambda>w. w\<lparr>smRunning := False\<rparr>)) (\<lambda>_. seq (gets socket) (\<lambda>s.
     seq (if s \<noteq> None then close_socket else ret ()) (\<lambda>_. signal Finalized)))"

section \<open>A step of the connector\<close>

datatype conn_call =
    Start | Finalize | CloseTimeout
  | Dispatch | MachineReady
  | Reconnect | DisconnectRemote | Resync | ListDevices | RemoveDevice uuid | ResetAccount bool | ChangeRemote remote_config
  | ExportAccount bool "string option" | PrepareImport export_data bytes | LoginReply uuid bool | InitKeyUpdate
  | UploadData bytes bytes | UploadDeviceData bytes uuid bytes | DownloadDone u64
  | SetSyncEnabled bool | SetDeviceName string | ResetDeviceName
  | SocketChanges socket_state | SocketOpened | SocketLost | HandleDisconnected | Receive bytes | SocketFailed | SslFailed "ssl_error list"
  | CallTryClose | PingTimer | RetryTimer | Elapse nat | OpTimer | ProofTimeout uuid

text \<open>The signals of the socket: one that opens starts a connected ping timer, one that is lost stops it.
  The slot of \<open>disconnected\<close> is called later (\<open>HandleDisconnected\<close>).\<close>

definition socket_opened :: "unit cact" where
  "socket_opened = seq (gets socket) (\<lambda>s. if s = None then ret () else
     seq (upd_socket (Some SocketConnected)) (\<lambda>_. seq connected (\<lambda>_.
     modify (\<lambda>w. if pinging w then w\<lparr>pingRunning := True\<rparr> else w))))"

definition socket_changes :: "socket_state \<Rightarrow> unit cact" where
  "socket_changes st = modify (\<lambda>w. w\<lparr>socket := map_option (\<lambda>_. st) (socket w)\<rparr>)"

definition socket_lost :: "unit cact" where
  "socket_lost = seq (socket_changes Unconnected) (\<lambda>_. modify (\<lambda>w. if pinging w then w\<lparr>pingRunning := False\<rparr> else w))"

text \<open>The connector is not started again once it has been told to finish.\<close>

definition perform_call :: "conn_env \<Rightarrow> conn_call \<Rightarrow> unit cact" where
  "perform_call e c = (case c of
       Start \<Rightarrow> seq (gets isClosing) (\<lambda>closing. if closing then ret () else start e)
     | Finalize \<Rightarrow> finalize e
     | CloseTimeout \<Rightarrow> seq (gets isClosing) (\<lambda>closing. if closing then close_timeout else ret ())
     | Dispatch \<Rightarrow> seq (gets smRunning) (\<lambda>running. if running then dispatch e else ret ())
     | MachineReady \<Rightarrow> seq (gets readyCalls) (\<lambda>n. if n = 0 then ret ()
         else seq (modify (\<lambda>w. w\<lparr>readyCalls := n - 1\<rparr>)) (\<lambda>_. machine_ready e))
     | Reconnect \<Rightarrow> reconnect
     | DisconnectRemote \<Rightarrow> disconnect_remote
     | Resync \<Rightarrow> resync
     | ListDevices \<Rightarrow> list_devices
     | RemoveDevice d \<Rightarrow> remove_device d
     | ResetAccount b \<Rightarrow> reset_account e b
     | ChangeRemote r \<Rightarrow> change_remote r
     | ExportAccount b p \<Rightarrow> seq (export_account e b p) (\<lambda>_. ret ())
     | PrepareImport d key \<Rightarrow> prepare_import d key
     | LoginReply d b \<Rightarrow> login_reply e d b
     | InitKeyUpdate \<Rightarrow> init_key_update
     | UploadData k d \<Rightarrow> upload_data e k d
     | UploadDeviceData k dev d \<Rightarrow> upload_device_data e k dev d
     | DownloadDone k \<Rightarrow> download_done k
     | SetSyncEnabled b \<Rightarrow> set_sync_enabled b
     | SetDeviceName n \<Rightarrow> set_device_name e n
     | ResetDeviceName \<Rightarrow> reset_device_name e
     | SocketChanges st \<Rightarrow> socket_changes st
     | SocketOpened \<Rightarrow> socket_opened
     | SocketLost \<Rightarrow> socket_lost
     | HandleDisconnected \<Rightarrow> disconnected
     | Receive b \<Rightarrow> binary_message_received e b
     | SocketFailed \<Rightarrow> socket_error
     | SslFailed xs \<Rightarrow> ssl_errors e xs
     | CallTryClose \<Rightarrow> try_close
     | PingTimer \<Rightarrow> seq (gets pingRunning) (\<lambda>b. if b then ping else ret ())
     | RetryTimer \<Rightarrow> retry_timer
     | Elapse ms \<Rightarrow> elapse ms
     | OpTimer \<Rightarrow> seq (gets opTimer) (\<lambda>t. if t = Some 0 then on_timeout else ret ())
     | ProofTimeout d \<Rightarrow> proof_timeout d)"

end
