(* ===== verification/ConnectorProps.thy ===== *)
theory ConnectorProps
  imports ConnectorMessages
begin

text \<open>
  What every call of the connector keeps: only the state machine itself changes its state, the
  proofs waiting for an answer belong to the idle state, and each message is sent in a state in
  which the server expects it.
\<close>

section \<open>Which message belongs to which state\<close>

definition allowed_message :: "conn_state \<Rightarrow> message \<Rightarrow> bool" where
  "allowed_message s m \<longleftrightarrow> (case kind_of m of
       KRegister \<Rightarrow> s = Connecting \<or> s = Connected
     | KLogin \<Rightarrow> s = Connecting \<or> s = Connected
     | KAccess \<Rightarrow> s = Connecting \<or> s = Connected
     | KMacUpdate \<Rightarrow> s = LoggingIn \<or> s = Granting
     | k \<Rightarrow> s = IdleState \<and> k \<in> {KSync, KChange, KDeviceChange, KChangedAck, KListDevices, KRemove, KAccept, KDeny,
         KKeyChange, KNewKey})"

text \<open>The connector also says it is ready only when it is idle.\<close>

definition allowed :: "conn_state \<Rightarrow> conn_effect \<Rightarrow> bool" where
  "allowed s x \<longleftrightarrow> (case x of Sent m \<Rightarrow> allowed_message s m | SentSigned m _ \<Rightarrow> allowed_message s m
     | RemoteEvent ev \<Rightarrow> (ev = RemoteReady \<or> ev = RemoteReadyWithChanges \<longrightarrow> s = IdleState)
     | _ \<Rightarrow> True)"

lemmas allowed_simps = allowed_def allowed_message_def is_idle_def

section \<open>The frame of a call\<close>

text \<open>Where proofs may wait for an answer; the second case is a machine that was stopped while idle.\<close>

definition proofs_at :: "connector \<Rightarrow> bool" where
  "proofs_at w \<longleftrightarrow> smState w = IdleState \<and> (smRunning w \<or> isClosing w)"

definition frame :: "connector \<Rightarrow> connector \<Rightarrow> bool" where
  "frame v w \<longleftrightarrow> smState w = smState v \<and> smRunning w = smRunning v \<and> isClosing w = isClosing v \<and>
     (activeProofs w \<noteq> (\<lambda>_. None) \<longrightarrow> proofs_at v) \<and>
     (\<exists>xs. effects w = effects v @ xs \<and> (\<forall>x \<in> set xs. allowed (smState v) x))"

definition proofs_when_idle :: "connector \<Rightarrow> bool" where
  "proofs_when_idle w \<longleftrightarrow> (activeProofs w \<noteq> (\<lambda>_. None) \<longrightarrow> proofs_at w)"

lemma frame_refl: "proofs_when_idle w \<Longrightarrow> frame w w"
  by (simp add: frame_def proofs_when_idle_def)

lemma frame_state: "frame v w \<Longrightarrow> smState w = smState v"
  by (simp add: frame_def)

lemma frame_idle: "frame v w \<Longrightarrow> is_idle w \<longleftrightarrow> is_idle v"
  by (simp add: frame_def is_idle_def)

lemma frame_upd:
  "frame v w \<Longrightarrow> smState u = smState w \<Longrightarrow> smRunning u = smRunning w \<Longrightarrow> isClosing u = isClosing w \<Longrightarrow> effects u = effects w \<Longrightarrow>
   (activeProofs u \<noteq> (\<lambda>_. None) \<Longrightarrow> activeProofs w \<noteq> (\<lambda>_. None) \<or> proofs_at v) \<Longrightarrow> frame v u"
  unfolding frame_def by metis

lemma frame_modify:
  "(\<And>w. smState (f w) = smState w \<and> smRunning (f w) = smRunning w \<and> isClosing (f w) = isClosing w \<and> effects (f w) = effects w \<and> activeProofs (f w) = activeProofs w) \<Longrightarrow>
   keeps (frame v) (modify f)"
  by (rule keeps_modify) (simp add: frame_def)

lemma frame_signal: "allowed (smState v) x \<Longrightarrow> keeps (frame v) (signal x)"
  unfolding signal_def by (rule keeps_modify) (auto simp: frame_def)

lemma keeps_gets_seq: "(\<And>w. P w \<Longrightarrow> keeps P (f (g w))) \<Longrightarrow> keeps P (seq (gets g) f)"
  by (simp add: keeps_def)

lemma frame_with_keys: "keeps (frame v) (with_keys m)"
  by (rule keepsI) (auto simp: with_keys_def frame_def split: prod.splits sum.splits)

lemma keeps_catch_library: "keeps P m \<Longrightarrow> keeps P h \<Longrightarrow> keeps P (catch_library m h)"
  unfolding keeps_def catch_library_def by (auto split: prod.splits sum.splits)

lemma keeps_catch_std: "keeps P m \<Longrightarrow> keeps P h \<Longrightarrow> keeps P (catch_std m h)"
  unfolding keeps_def catch_std_def by (auto split: prod.splits sum.splits)

lemma frame_submit: "keeps (frame v) (submit_event ev)"
  unfolding submit_event_def by (rule frame_modify) simp

lemma frame_cset: "keeps (frame v) (upd_cset f)"
  unfolding upd_cset_def by (rule frame_modify) simp

lemma frame_socket: "keeps (frame v) (upd_socket s)"
  unfolding upd_socket_def by (rule frame_modify) simp

lemma frame_device: "keeps (frame v) (set_device d)"
  unfolding set_device_def by (rule frame_modify) simp

lemma frame_begin_op: "keeps (frame v) (begin_op m b)"
  unfolding begin_op_def by (rule frame_modify) simp

lemma frame_end_op: "keeps (frame v) end_op"
  unfolding end_op_def by (rule frame_modify) simp

lemma frame_need_socket: "keeps (frame v) need_socket"
  unfolding need_socket_def by (intro keeps_rules)

lemma frame_send: "allowed_message (smState v) m \<Longrightarrow> keeps (frame v) (send_message m)"
  unfolding send_message_def by (intro keeps_rules frame_need_socket frame_signal) (simp add: allowed_def)

lemma frame_send_signed: "allowed_message (smState v) m \<Longrightarrow> keeps (frame v) (send_signed_message e m)"
  unfolding send_signed_message_def serialize_signed_message_def
  by (intro keeps_rules frame_with_keys frame_need_socket frame_signal) (simp add: allowed_def)

lemma frame_begin_special: "keeps (frame v) (begin_special_op m)"
  unfolding begin_special_op_def by (rule keeps_seq, rule frame_modify, simp, rule frame_begin_op)

lemma frame_clear_caches: "keeps (frame v) (clear_caches b)"
  unfolding clear_caches_def by (rule keeps_modify) (erule frame_upd; simp)

lemmas frame_basic = frame_submit frame_cset frame_socket frame_device frame_begin_op frame_end_op frame_need_socket
  frame_with_keys frame_begin_special frame_clear_caches

text \<open>The rules for one operation: plain ones first, so that the frame facts are tried before
  an action is taken apart.\<close>

lemmas frame_rules = frame_basic keeps_catch_library keeps_catch_std keeps_ret keeps_throw keeps_guard keeps_if keeps_option keeps_pair
  frame_signal frame_send frame_send_signed

lemma frame_error: "keeps (frame v) (on_error t b)"
  unfolding on_error_def trigger_error_def by (intro frame_rules keeps_seq) (simp add: allowed_def)

lemma frame_trigger: "keeps (frame v) (trigger_error b)"
  unfolding trigger_error_def by (rule frame_submit)

lemma frame_client_error: "keeps (frame v) m \<Longrightarrow> keeps (frame v) (client_error_on_failure m)"
  unfolding client_error_on_failure_def by (intro keeps_catch_library frame_error)

lemma frame_if_idle: "(is_idle v \<Longrightarrow> keeps (frame v) m) \<Longrightarrow> keeps (frame v) (if_idle m)"
  unfolding if_idle_def by (rule keeps_gets_seq) (auto simp: frame_idle intro!: keeps_ret)

lemma frame_when_idle: "(is_idle v \<Longrightarrow> keeps (frame v) m) \<Longrightarrow> keeps (frame v) (when_idle m)"
  unfolding when_idle_def by (rule keeps_gets_seq) (auto simp: frame_idle intro!: frame_trigger)

section \<open>Operations\<close>

lemmas frame_intro = frame_rules frame_trigger frame_error frame_client_error frame_if_idle frame_when_idle frame_modify

lemma frame_load_identity: "keeps (frame v) (load_identity e)"
  unfolding load_identity_def Let_def by (intro frame_intro keeps_gets_seq keeps_seq) (simp_all add: allowed_def)

lemma frame_check_can_sync: "keeps (frame v) (check_can_sync e)"
  unfolding check_can_sync_def by (intro frame_load_identity frame_intro keeps_gets_seq keeps_seq)

lemma frame_close_socket: "keeps (frame v) close_socket"
  unfolding close_socket_def by (intro frame_intro keeps_seq) (simp add: allowed_def)

lemma frame_do_connect: "keeps (frame v) (do_connect e)"
  unfolding do_connect_def
  by (intro frame_check_can_sync frame_intro keeps_gets_seq keeps_seq) (simp_all add: allowed_def)

lemma frame_do_disconnect: "keeps (frame v) do_disconnect"
  unfolding do_disconnect_def
  by (rule keeps_gets_seq) (auto split: option.split socket_state.split intro!: frame_close_socket frame_intro keeps_seq)

lemma frame_reconnect: "keeps (frame v) reconnect"
  unfolding reconnect_def by (rule frame_submit)

lemma frame_retry: "keeps (frame v) retry"
  unfolding retry_def by (intro frame_intro keeps_gets_seq keeps_seq) (simp_all add: allowed_def)

lemma frame_ping: "keeps (frame v) ping"
  unfolding ping_def by (intro frame_reconnect frame_intro keeps_gets_seq keeps_seq) (simp_all add: allowed_def)

lemma frame_take_proof: "keeps (frame v) (modify (\<lambda>w. w\<lparr>activeProofs := (activeProofs w)(d := None)\<rparr>))"
  by (rule keeps_modify) (erule frame_upd; auto)

lemma frame_put_proof: "is_idle v \<Longrightarrow> keeps (frame v) (modify (\<lambda>w. w\<lparr>activeProofs := (activeProofs w)(d \<mapsto> p)\<rparr>))"
  by (rule keeps_modify) (erule frame_upd; simp add: proofs_at_def is_idle_def)

lemma frame_login_reply: "keeps (frame v) (login_reply e d b)"
  unfolding login_reply_def
  by (intro frame_take_proof frame_intro keeps_gets_seq keeps_seq) (simp_all add: allowed_simps)

lemma frame_proof_timeout: "keeps (frame v) (proof_timeout d)"
  unfolding proof_timeout_def
proof (rule keeps_gets_seq)
  fix w assume "frame v w"
  then have "activeProofs w d = None \<or> smState v = IdleState"
    unfolding frame_def proofs_at_def by metis
  then show "keeps (frame v) (if activeProofs w d = None then ret ()
      else seq (modify (\<lambda>w. w\<lparr>activeProofs := (activeProofs w)(d := None)\<rparr>)) (\<lambda>_. send_message (DenyMessage d)))"
    by (auto simp: allowed_message_def intro!: keeps_ret keeps_seq frame_take_proof frame_send)
qed

section \<open>Handlers\<close>

lemma in_state_of: "frame v w \<Longrightarrow> in_state s w \<Longrightarrow> smState v = s"
  by (auto simp: in_state_def frame_def)

lemma frame_send_key_update: "smState v = LoggingIn \<or> smState v = Granting \<Longrightarrow> keeps (frame v) (send_key_update e)"
  unfolding send_key_update_def by (intro frame_intro keeps_gets_seq keeps_seq) (auto simp: allowed_message_def)

lemma frame_own_keys: "keeps (frame v) (own_public_keys e)"
  unfolding own_public_keys_def by (rule frame_with_keys)

lemma frame_register: "smState v = Connecting \<or> smState v = Connected \<Longrightarrow> keeps (frame v) (send_register e n)"
  unfolding send_register_def
  by (intro frame_own_keys frame_intro keeps_gets_seq keeps_seq) (auto simp: allowed_message_def)

lemma frame_access: "smState v = Connecting \<or> smState v = Connected \<Longrightarrow> keeps (frame v) (send_access e n p)"
  unfolding send_access_def Let_def
  by (intro frame_own_keys frame_intro keeps_gets_seq keeps_seq) (auto simp: allowed_message_def)

lemma frame_identify: "keeps (frame v) (on_identify e n l)"
  unfolding on_identify_def
proof (rule keeps_gets_seq)
  fix w assume w: "frame v w"
  have "keeps (frame v) (seq (signal (UpdateUploadLimit l)) (\<lambda>_. seq (gets deviceId) (\<lambda>d. seq (gets csettings) (\<lambda>c.
      if d \<noteq> 0 then
        seq (send_signed_message e (LoginMessage current_version n d (s_device_name e c))) (\<lambda>_. submit_event EvAwaitLogin)
      else
        seq (with_keys (create_private_keys (keyEnv e) n)) (\<lambda>_.
        let pNonce = or_default (setImportNonce c) [] in
        if pNonce = [] then send_register e n else send_access e n pNonce)))))"
    if "smState v = Connected \<or> smState v = Connecting"
    unfolding Let_def using that
    by (intro frame_register frame_access frame_intro keeps_gets_seq keeps_seq) (auto simp: allowed_simps)
  with w show "keeps (frame v) (if \<not> (in_state Connected w \<or> in_state Connecting w) then trigger_error True
      else seq (signal (UpdateUploadLimit l)) (\<lambda>_. seq (gets deviceId) (\<lambda>d. seq (gets csettings) (\<lambda>c.
      if d \<noteq> 0 then
        seq (send_signed_message e (LoginMessage current_version n d (s_device_name e c))) (\<lambda>_. submit_event EvAwaitLogin)
      else
        seq (with_keys (create_private_keys (keyEnv e) n)) (\<lambda>_.
        let pNonce = or_default (setImportNonce c) [] in
        if pNonce = [] then send_register e n else send_access e n pNonce)))))"
    by (auto simp: frame_trigger dest: in_state_of)
qed

lemma frame_account: "keeps (frame v) (on_account e d b)"
  unfolding on_account_def by (intro frame_intro keeps_gets_seq keeps_seq) simp

lemma keeps_in_state:
  "(smState v = s \<Longrightarrow> keeps (frame v) m) \<Longrightarrow>
   keeps (frame v) (seq (gets (in_state s)) (\<lambda>b. if \<not> b then trigger_error r else m))"
  by (rule keeps_gets_seq) (auto simp: frame_trigger dest: in_state_of)

lemma frame_welcome: "keeps (frame v) (on_welcome e h k sch key mac)"
  unfolding on_welcome_def
  by (intro keeps_in_state frame_send_key_update frame_intro keeps_gets_seq keeps_seq) simp_all

lemma frame_grant: "keeps (frame v) (on_grant e d k sch s)"
  unfolding on_grant_def
  by (intro keeps_in_state frame_send_key_update frame_account frame_intro keeps_gets_seq keeps_seq) (simp_all add: allowed_def)

lemma frame_changed: "keeps (frame v) (on_changed e i k salt c)"
  unfolding on_changed_def by (intro frame_intro keeps_seq) (simp add: allowed_def)

lemma frame_changed_info: "keeps (frame v) (on_changed_info e i k salt c n)"
  unfolding on_changed_info_def by (intro frame_changed frame_intro keeps_seq) (simp_all add: allowed_simps)

lemma frame_acks:
  "keeps (frame v) (on_change_ack i)" "keeps (frame v) (on_device_change_ack i d)" "keeps (frame v) on_last_changed"
  "keeps (frame v) (on_devices ds)" "keeps (frame v) (on_accept_ack d)" "keeps (frame v) on_mac_update_ack"
  "keeps (frame v) (on_new_key_ack e k)"
  unfolding on_change_ack_def on_device_change_ack_def on_last_changed_def on_devices_def on_accept_ack_def
    on_mac_update_ack_def on_new_key_ack_def
  by (intro frame_intro keeps_seq; simp add: allowed_simps)+

lemma frame_remove_ack: "keeps (frame v) (on_remove_ack d)"
  unfolding on_remove_ack_def
  by (intro frame_reconnect frame_intro keeps_gets_seq keeps_seq) (simp_all add: allowed_def)

lemma frame_check_proof: "keeps (frame v) (check_proof e pn sa sk ca ck ms mac tm)"
  unfolding check_proof_def Let_def by (intro frame_intro keeps_gets_seq keeps_seq) simp_all

lemma frame_proof: "keeps (frame v) (on_proof e pn d nm sa sk ca ck ms mac tm)"
  unfolding on_proof_def
  by (intro frame_check_proof frame_put_proof frame_login_reply frame_intro keeps_gets_seq keeps_seq)
    (simp_all add: allowed_simps)

lemma frame_update_device: "keeps (frame v) (update_device e k sch x)"
  unfolding update_device_def by (intro frame_intro keeps_gets_seq keeps_seq)

lemma frame_update_devices: "keeps (frame v) (update_devices e k sch xs)"
  by (induction xs) (auto intro!: keeps_ret keeps_seq frame_update_device)

lemma frame_device_keys: "keeps (frame v) (on_device_keys e k dup ds)"
  unfolding on_device_keys_def
  by (intro frame_update_devices frame_intro keeps_seq) (simp add: allowed_simps)

lemma frame_handle: "keeps (frame v) (handle_message e m)"
  by (cases m) (simp_all add: handle_message_def frame_error frame_identify frame_account frame_welcome frame_grant frame_changed
    frame_changed_info frame_acks frame_remove_ack frame_proof frame_device_keys frame_trigger)

lemma frame_read_result: "keeps (frame v) (read_result r)"
  by (cases r) (simp_all add: read_result_def keeps_ret keeps_throw)

lemma frame_read_and_handle: "keeps (frame v) (read_and_handle e b)"
  unfolding read_and_handle_def
  by (intro frame_read_result frame_handle frame_intro keeps_seq)

lemma frame_process: "keeps (frame v) (process_message e b)"
proof (rule keepsI)
  fix w assume w: "frame v w"
  obtain r u where ru: "read_and_handle e b w = (r, u)" by fastforce
  with keepsD [OF frame_read_and_handle w, of e b] have "frame v u" by simp
  with ru keepsD [OF frame_error] show "frame v (snd (process_message e b w))"
    by (auto simp: process_message_def split: sum.splits)
qed

lemma frame_receive: "keeps (frame v) (binary_message_received e b)"
  unfolding binary_message_received_def
  by (intro frame_process frame_intro keeps_gets_seq keeps_seq) simp_all

lemma frame_drain: "keeps (frame v) (drain e n)"
proof (induction n)
  case (Suc n)
  show ?case
    unfolding drain.simps
    by (intro keeps_gets_seq keeps_pair keeps_if keeps_ret)
      (auto split: list.split intro!: Suc keeps_ret keeps_seq frame_receive frame_modify)
qed (simp add: keeps_ret)

lemma frame_ready: "keeps (frame v) (machine_ready e)"
  unfolding machine_ready_def by (intro frame_drain frame_intro keeps_gets_seq keeps_seq) simp

section \<open>All calls but those that run the state machine\<close>

definition moves :: "conn_call \<Rightarrow> bool" where
  "moves c \<longleftrightarrow> c \<in> {Start, Dispatch, Finalize, CloseTimeout}"

lemma frame_slots:
  "keeps (frame v) resync" "keeps (frame v) list_devices" "keeps (frame v) (remove_device d)" "keeps (frame v) init_key_update"
  "keeps (frame v) (upload_data e k x)" "keeps (frame v) (upload_device_data e k d x)" "keeps (frame v) (download_done i)"
  unfolding resync_def list_devices_def remove_device_def init_key_update_def upload_data_def upload_device_data_def download_done_def
  by (intro frame_intro keeps_gets_seq keeps_seq; simp add: allowed_simps)+

lemma frame_reset_account: "keeps (frame v) (reset_account e b)"
proof -
  have send: "keeps (frame v) (seq (gets is_idle) (\<lambda>idle. if idle then send_message (RemoveMessage d) else seq (set_device 0) (\<lambda>_. reconnect)))"
    for d
    by (rule keeps_gets_seq)
      (auto simp: is_idle_def allowed_message_def frame_state intro!: frame_send keeps_seq frame_device frame_reconnect)
  show ?thesis
    unfolding reset_account_def
    by (intro send frame_reconnect frame_intro keeps_gets_seq keeps_seq)
qed

lemma frame_settings:
  "keeps (frame v) (change_remote r)" "keeps (frame v) (prepare_import x key)" "keeps (frame v) (set_device_name e n)"
  "keeps (frame v) (reset_device_name e)" "keeps (frame v) (set_sync_enabled b)" "keeps (frame v) disconnect_remote"
  "keeps (frame v) (export_account e b p)"
  unfolding change_remote_def prepare_import_def set_device_name_def reset_device_name_def set_sync_enabled_def disconnect_remote_def
    export_account_def
  by (intro frame_reconnect frame_intro keeps_gets_seq keeps_seq; simp add: allowed_def)+

lemma frame_socket_calls:
  "keeps (frame v) (socket_changes st)" "keeps (frame v) socket_opened" "keeps (frame v) socket_lost" "keeps (frame v) disconnected"
  "keeps (frame v) socket_error" "keeps (frame v) (ssl_errors e xs)" "keeps (frame v) try_close"
  unfolding socket_changes_def socket_opened_def socket_lost_def disconnected_def socket_error_def ssl_errors_def try_close_def
    connected_def
  by (intro frame_close_socket frame_intro keeps_gets_seq keeps_seq; simp add: allowed_def socket_changes_def)+

lemma frame_timers:
  "keeps (frame v) retry_timer" "keeps (frame v) (elapse ms)" "keeps (frame v) on_timeout"
  unfolding retry_timer_def elapse_def on_timeout_def
  by (intro frame_reconnect frame_intro keeps_gets_seq keeps_seq; simp add: allowed_def)+

lemma frame_perform: "\<not> moves c \<Longrightarrow> keeps (frame v) (perform_call e c)"
  unfolding perform_call_def moves_def
  by (cases c)
    (auto intro!: keeps_gets_seq keeps_seq keeps_if keeps_ret frame_slots frame_reset_account frame_settings frame_socket_calls
      frame_timers frame_ready frame_receive frame_reconnect frame_ping frame_login_reply frame_proof_timeout
      frame_modify)

section \<open>Transitions\<close>

text \<open>The frame without what the end of the machine and of the program changes.\<close>

definition sends :: "connector \<Rightarrow> connector \<Rightarrow> bool" where
  "sends v w \<longleftrightarrow> smState w = smState v \<and> proofs_when_idle w \<and>
     (\<exists>xs. effects w = effects v @ xs \<and> (\<forall>x \<in> set xs. allowed (smState v) x))"

lemma frame_sends: "frame v w \<Longrightarrow> sends v w"
  by (simp add: frame_def sends_def proofs_when_idle_def proofs_at_def)

lemma keeps_frame_sends: "keeps (frame w) m \<Longrightarrow> proofs_when_idle w \<Longrightarrow> sends w (snd (m w))"
  by (blast intro: frame_sends keepsD frame_refl)

lemma sends_proofs: "sends v w \<Longrightarrow> proofs_when_idle w"
  by (simp add: sends_def)

lemma frame_on_entry_idle: "smState v = IdleState \<Longrightarrow> keeps (frame v) on_entry_idle"
  unfolding on_entry_idle_def
  by (intro frame_slots frame_intro keeps_gets_seq keeps_seq) (simp_all add: allowed_def)

lemma on_finished_sends: "proofs_when_idle w \<Longrightarrow> is_final (smState w) \<Longrightarrow> sends w (snd (on_finished w)) \<and> isClosing (snd (on_finished w)) = isClosing w"
  by (auto simp: on_finished_def sends_def proofs_when_idle_def proofs_at_def is_final_def signal_def act_simps allowed_def)

lemma frame_entry: "\<not> is_final t \<Longrightarrow> smState v = t \<Longrightarrow> keeps (frame v) (entry e t)"
  by (cases t) (simp_all add: entry_def is_final_def frame_do_connect frame_on_entry_idle frame_retry frame_do_disconnect keeps_ret)

lemma entry_sends: "proofs_when_idle w \<Longrightarrow> smState w = t \<Longrightarrow> sends w (snd (entry e t w)) \<and> isClosing (snd (entry e t w)) = isClosing w"
proof (cases "is_final t")
  case True
  assume "proofs_when_idle w" "smState w = t"
  with True on_finished_sends show ?thesis by (auto simp: entry_def is_final_def)
next
  case False
  assume "proofs_when_idle w" "smState w = t"
  with keepsD [OF frame_entry [OF False] frame_refl, of w e] \<open>smState w = t\<close> show ?thesis
    by (blast intro: frame_sends dest: frame_def [THEN iffD1])
qed

lemma on_exit_active_eq:
  "on_exit_active w = (Inr (), w\<lparr>deviceCache := [], activeProofs := (\<lambda>_. None), opTimer := None, specialOp := None,
     effects := effects w @ [RemoteEvent RemoteDisconnected]\<rparr>)"
  by (simp add: on_exit_active_def clear_caches_def end_op_def signal_def modify_def)

lemma do_disconnect_Inr: "\<exists>u. do_disconnect w = (Inr (), u) \<and> activeProofs u = activeProofs w"
  by (auto simp: do_disconnect_def submit_event_def begin_special_op_def begin_op_def close_socket_def upd_socket_def signal_def
      act_simps split: option.split socket_state.split)

text \<open>What leaving the old state does, and that nothing can fail in it.\<close>

definition leave :: "conn_state \<Rightarrow> sm_event option \<Rightarrow> conn_state \<Rightarrow> unit cact" where
  "leave s ev t = seq (if active s \<and> \<not> active t then on_exit_active else ret ()) (\<lambda>_.
     if active s \<and> ev = Some EvReconnect then do_disconnect else ret ())"

lemma move_leave: "move e ev t w = seq (leave (smState w) ev t) (\<lambda>_. seq (modify (\<lambda>w. w\<lparr>smState := t\<rparr>)) (\<lambda>_. entry e t)) w"
  by (simp add: move_def leave_def seq_assoc)

lemma frame_leave: "keeps (frame v) (leave s ev t)"
  unfolding leave_def on_exit_active_def
  by (intro frame_do_disconnect frame_intro keeps_seq) (simp add: allowed_def)

lemma leave_Inr:
  "\<exists>u. leave s ev t w = (Inr (), u) \<and> (active s \<and> \<not> active t \<longrightarrow> activeProofs u = (\<lambda>_. None)) \<and>
    (\<not> (active s \<and> \<not> active t) \<longrightarrow> activeProofs u = activeProofs w)"
  using do_disconnect_Inr by (fastforce simp: leave_def on_exit_active_eq seq_def ret_def)

text \<open>A transition does not keep the idle state.\<close>

definition may_move :: "conn_state \<Rightarrow> conn_state \<Rightarrow> bool" where
  "may_move s t \<longleftrightarrow> (s = IdleState \<longrightarrow> \<not> active t)"

lemma event_target_may_move: "event_target s ev = Some t \<Longrightarrow> may_move s t"
  by (cases s; cases ev) (auto simp: event_target_def transition_table_def may_move_def active_def)

lemma closing_target_may_move: "closing_target s = Some t \<Longrightarrow> may_move s t"
  by (auto simp: closing_target_def may_move_def active_def split: if_splits)

lemma move_sends:
  assumes "proofs_when_idle w" "may_move (smState w) t"
  shows "smState (snd (move e ev t w)) = t \<and> isClosing (snd (move e ev t w)) = isClosing w \<and>
    proofs_when_idle (snd (move e ev t w)) \<and>
    (\<exists>xs. effects (snd (move e ev t w)) = effects w @ xs \<and> (\<forall>x \<in> set xs. allowed (smState w) x \<or> allowed t x))"
proof -
  obtain u where u: "leave (smState w) ev t w = (Inr (), u)"
    "active (smState w) \<Longrightarrow> \<not> active t \<Longrightarrow> activeProofs u = (\<lambda>_. None)"
    "\<not> (active (smState w) \<and> \<not> active t) \<Longrightarrow> activeProofs u = activeProofs w"
    using leave_Inr by metis
  from keepsD [OF frame_leave frame_refl, of w "smState w" ev t] assms(1) u(1) have fr: "frame w u" by simp
  let ?u = "u\<lparr>smState := t\<rparr>"
  have "activeProofs u = (\<lambda>_. None)"
    using u(2,3) assms by (cases "smState w = IdleState") (auto simp: proofs_when_idle_def proofs_at_def may_move_def active_def)
  then have pu: "proofs_when_idle ?u" by (auto simp: proofs_when_idle_def)
  have eq: "move e ev t w = entry e t ?u" by (simp add: move_leave seq_def [of "leave (smState w) ev t"] u(1))
  from entry_sends [OF pu, of t e] obtain ys where en: "smState (snd (entry e t ?u)) = t"
    "isClosing (snd (entry e t ?u)) = isClosing u" "effects (snd (entry e t ?u)) = effects u @ ys" "\<forall>x \<in> set ys. allowed t x"
    by (auto simp: sends_def)
  from fr obtain xs where "effects u = effects w @ xs" "\<forall>x \<in> set xs. allowed (smState w) x" "isClosing u = isClosing w"
    by (auto simp: frame_def)
  with en eq sends_proofs entry_sends [OF pu, of t e] show ?thesis by (auto intro!: exI [of _ "xs @ ys"])
qed

section \<open>Dispatching an event\<close>

lemma closing_target_final: "closing_target s = Some t \<Longrightarrow> closing_target t = None"
  by (auto simp: closing_target_def active_def split: if_splits)

text \<open>The first half of a dispatch: taking the event and its transition.\<close>

definition take_event :: "conn_env \<Rightarrow> sm_event \<Rightarrow> sm_event list \<Rightarrow> unit cact" where
  "take_event e ev rest = seq (modify (\<lambda>w. w\<lparr>smQueue := rest\<rparr>)) (\<lambda>_. seq (gets smState) (\<lambda>s.
     case event_target s ev of None \<Rightarrow> ret () | Some t \<Rightarrow> move e (Some ev) t))"

lemma dispatch_eq:
  "smQueue w = ev # rest \<Longrightarrow> dispatch e w = seq (take_event e ev rest) (\<lambda>_. seq (settle e) (\<lambda>_. stable)) w"
  by (simp add: dispatch_def take_event_def seq_assoc)

lemma take_event_sends:
  fixes ev :: sm_event and rest :: "sm_event list" and e :: conn_env
  assumes "proofs_when_idle w"
  defines "s \<equiv> smState w" and "t \<equiv> (case event_target (smState w) ev of None \<Rightarrow> smState w | Some t \<Rightarrow> t)"
    and "v \<equiv> snd (take_event e ev rest w)"
  shows "smState v = t \<and> isClosing v = isClosing w \<and> proofs_when_idle v \<and>
    (\<exists>xs. effects v = effects w @ xs \<and> (\<forall>x \<in> set xs. allowed s x \<or> allowed t x))"
proof (cases "event_target s ev")
  case None
  then show ?thesis using assms by (simp add: take_event_def ret_def proofs_when_idle_def proofs_at_def)
next
  case (Some t')
  let ?w = "w\<lparr>smQueue := rest\<rparr>"
  have "proofs_when_idle ?w" "may_move (smState ?w) t'"
    using assms(1) event_target_may_move [OF Some] by (simp_all add: proofs_when_idle_def proofs_at_def s_def)
  from move_sends [OF this, of e "Some ev"] Some show ?thesis
    by (simp add: take_event_def v_def t_def s_def)
qed

lemma settle_sends:
  fixes e :: conn_env
  assumes "proofs_when_idle w"
  defines "t \<equiv> (if isClosing w then (case closing_target (smState w) of None \<Rightarrow> smState w | Some t \<Rightarrow> t) else smState w)"
    and "v \<equiv> snd (settle e w)"
  shows "smState v = t \<and> isClosing v = isClosing w \<and> proofs_when_idle v \<and>
    (\<exists>xs. effects v = effects w @ xs \<and> (\<forall>x \<in> set xs. allowed (smState w) x \<or> allowed t x))"
proof (cases "if isClosing w then closing_target (smState w) else None")
  case None
  then show ?thesis using assms by (auto simp: settle_def ret_def split: if_splits)
next
  case (Some t')
  then have "may_move (smState w) t'" "isClosing w" "closing_target (smState w) = Some t'"
    using closing_target_may_move by (auto split: if_splits)
  with move_sends [OF assms(1) this(1), of e None] show ?thesis
    by (simp add: settle_def v_def t_def)
qed

lemma stable_eq: "stable w = (Inr (), if smQueue w = [] then w\<lparr>readyCalls := Suc (readyCalls w)\<rparr> else w)"
  by (simp add: stable_def modify_def)

lemma stable_frame: "smState (snd (stable w)) = smState w" "isClosing (snd (stable w)) = isClosing w"
  "effects (snd (stable w)) = effects w" "proofs_when_idle (snd (stable w)) = proofs_when_idle w"
  by (simp_all add: stable_eq proofs_when_idle_def proofs_at_def)

lemma dispatch_sends:
  assumes "proofs_when_idle w" "smQueue w = ev # rest" "dispatch e w = (r, v)"
  defines "t \<equiv> (case event_target (smState w) ev of None \<Rightarrow> smState w | Some t \<Rightarrow> t)"
  shows "proofs_when_idle v \<and> isClosing v = isClosing w \<and> (r = Inr () \<longrightarrow> smState v = stable_target (isClosing w) (smState w) ev) \<and>
    (\<exists>xs. effects v = effects w @ xs \<and> (\<forall>x \<in> set xs. allowed (smState w) x \<or> allowed t x \<or> allowed (smState v) x))"
proof -
  obtain r1 v1 where 1: "take_event e ev rest w = (r1, v1)" by fastforce
  note take = take_event_sends [OF assms(1), where ev = ev and e = e and rest = rest, folded t_def, unfolded 1 snd_conv]
  then obtain xs where xs: "effects v1 = effects w @ xs" "\<forall>x \<in> set xs. allowed (smState w) x \<or> allowed t x" by blast
  show ?thesis
  proof (cases r1)
    case (Inl x)
    with 1 assms(2,3) have "r = Inl x" "v = v1" by (auto simp: dispatch_eq seq_def)
    with take xs show ?thesis by auto
  next
    case (Inr u)
    obtain r2 v2 where 2: "settle e v1 = (r2, v2)" by fastforce
    from take have "proofs_when_idle v1" by simp
    note set = settle_sends [OF this, where e = e, unfolded 2 snd_conv]
    have v: "smState v = smState v2" "isClosing v = isClosing v2" "effects v = effects v2" "proofs_when_idle v = proofs_when_idle v2"
      using 1 2 Inr assms(2,3) stable_frame [of v2]
      by (auto simp: dispatch_eq seq_def split: sum.splits prod.splits)
    from set obtain ys where "effects v2 = effects v1 @ ys" "\<forall>x \<in> set ys. allowed t x \<or> allowed (smState v2) x"
      using take by auto
    moreover have "smState v = stable_target (isClosing w) (smState w) ev"
    proof -
      from take have "smState v1 = t" "isClosing v1 = isClosing w" by simp_all
      with set v show ?thesis by (simp add: stable_target_def Let_def flip: t_def split: option.split)
    qed
    ultimately show ?thesis using xs set take v by (intro conjI exI [of _ "xs @ ys"]) auto
  qed
qed

section \<open>Runs\<close>

fun run_calls :: "conn_env \<Rightarrow> conn_call list \<Rightarrow> unit cact" where
  "run_calls e [] = ret ()"
| "run_calls e (c # cs) = seq (perform_call e c) (\<lambda>_. run_calls e cs)"

definition new_connector :: "crypto \<Rightarrow> csettings \<Rightarrow> connector" where
  "new_connector k c = \<lparr>keys = k, csettings = c, socket = None, smState = Connecting, smRunning = False, smQueue = [],
     readyCalls = 0, isClosing = False, blocked = False, buffer = [], pinging = False, pingRunning = False,
     awaitingPing = False, retryIndex = 0, expectChanges = False, deviceId = 0, deviceCache = [],
     exportsCache = (\<lambda>_. None), activeProofs = (\<lambda>_. None), opTimer = None, specialOp = Some 0, effects = []\<rparr>"

text \<open>The states a call enters on its way, besides the one it ends in.\<close>

definition entered :: "conn_call \<Rightarrow> connector \<Rightarrow> conn_state list" where
  "entered c w = (case c of
       Start \<Rightarrow> [Connecting]
     | Dispatch \<Rightarrow> (case smQueue w of [] \<Rightarrow> []
         | ev # _ \<Rightarrow> (case event_target (smState w) ev of None \<Rightarrow> [] | Some t \<Rightarrow> [t]))
     | _ \<Rightarrow> [])"

text \<open>The state after a call by the flat tables; \<open>ConnectorClaims\<close> compares it with the chart itself.\<close>

definition state_after :: "conn_call \<Rightarrow> connector \<Rightarrow> conn_state" where
  "state_after c w = (case c of
       Start \<Rightarrow> if smRunning w \<or> isClosing w then smState w else Connecting
     | Dispatch \<Rightarrow> (case smQueue w of [] \<Rightarrow> smState w
         | ev # _ \<Rightarrow> if smRunning w then stable_target (isClosing w) (smState w) ev else smState w)
     | _ \<Rightarrow> smState w)"

definition conforms :: "conn_call \<Rightarrow> connector \<Rightarrow> (conn_error + unit) \<times> connector \<Rightarrow> bool" where
  "conforms c w rv \<longleftrightarrow> proofs_when_idle (snd rv) \<and> (fst rv = Inr () \<longrightarrow> smState (snd rv) = state_after c w) \<and>
     (\<exists>xs. effects (snd rv) = effects w @ xs \<and>
       (\<forall>x \<in> set xs. \<exists>s \<in> {smState w, smState (snd rv)} \<union> set (entered c w). allowed s x))"

lemma conforms_frame: "\<not> moves c \<Longrightarrow> proofs_when_idle w \<Longrightarrow> conforms c w (perform_call e c w)"
  using keepsD [OF frame_perform frame_refl, of c w e]
  by (cases c) (auto simp: conforms_def frame_def proofs_when_idle_def proofs_at_def state_after_def entered_def moves_def)

lemma conforms_dispatch: "proofs_when_idle w \<Longrightarrow> conforms Dispatch w (perform_call e Dispatch w)"
proof (cases "smRunning w")
  case True
  assume p: "proofs_when_idle w"
  show ?thesis
  proof (cases "smQueue w")
    case Nil
    then show ?thesis using p by (simp add: perform_call_def dispatch_def ret_def conforms_def state_after_def)
  next
    case (Cons ev rest)
    obtain r v where rv: "dispatch e w = (r, v)" by fastforce
    from dispatch_sends [OF p Cons rv] True Cons rv show ?thesis
      by (cases "event_target (smState w) ev") (auto simp: perform_call_def conforms_def state_after_def entered_def)
  qed
next
  case False
  assume "proofs_when_idle w"
  with False show ?thesis
    by (simp add: perform_call_def ret_def conforms_def state_after_def split: list.split)
qed

lemma conforms_start: "proofs_when_idle w \<Longrightarrow> conforms Start w (perform_call e Start w)"
proof (cases "smRunning w \<or> isClosing w")
  case True
  assume "proofs_when_idle w"
  with True show ?thesis by (auto simp: perform_call_def start_def ret_def conforms_def state_after_def)
next
  case False
  assume p: "proofs_when_idle w"
  let ?u = "w\<lparr>smRunning := True, smState := Connecting\<rparr>"
  have pu: "proofs_when_idle ?u"
    using p False by (simp add: proofs_when_idle_def proofs_at_def)
  obtain r v where rv: "entry e Connecting ?u = (r, v)" by fastforce
  from entry_sends [OF pu, of Connecting e] rv False obtain xs where v: "smState v = Connecting" "proofs_when_idle v"
    "\<not> isClosing v" "effects v = effects w @ xs" "\<forall>x \<in> set xs. allowed Connecting x"
    by (auto simp: sends_def)
  have st: "settle e v = (Inr (), v)" using v(3) by (simp add: settle_def ret_def)
  have "perform_call e Start w = (case r of Inl x \<Rightarrow> (Inl x, v) | Inr _ \<Rightarrow> stable v)"
    using False rv st by (simp add: perform_call_def start_def seq_def [of "entry e Connecting"] seq_def [of "settle e"] split: sum.split)
  with v stable_frame [of v] False show ?thesis
    by (auto simp: conforms_def state_after_def entered_def split: sum.splits)
qed

lemma conforms_finalize: "proofs_when_idle w \<Longrightarrow> conforms Finalize w (perform_call e Finalize w)"
  by (auto simp: perform_call_def finalize_def with_keys_def submit_event_def signal_def act_defs seq_def conforms_def state_after_def
      proofs_when_idle_def proofs_at_def allowed_def split: prod.splits sum.splits)

lemma conforms_close_timeout: "proofs_when_idle w \<Longrightarrow> conforms CloseTimeout w (perform_call e CloseTimeout w)"
  by (auto simp: perform_call_def close_timeout_def close_socket_def upd_socket_def signal_def act_defs seq_def conforms_def state_after_def
      proofs_when_idle_def proofs_at_def allowed_def)

lemma perform_conforms: "proofs_when_idle w \<Longrightarrow> conforms c w (perform_call e c w)"
  using conforms_frame conforms_dispatch conforms_start conforms_finalize conforms_close_timeout
  by (cases "moves c") (auto simp: moves_def)

lemma run_proofs: "run_calls e cs w = (r, v) \<Longrightarrow> proofs_when_idle w \<Longrightarrow> proofs_when_idle v"
proof (induction cs arbitrary: w)
  case (Cons c cs)
  from perform_conforms [OF Cons.prems(2), of c e] Cons show ?case
    by (auto simp: seq_def conforms_def split: prod.splits sum.splits)
qed (simp add: ret_def)

lemma new_connector_proofs: "proofs_when_idle (new_connector k c)"
  by (simp add: new_connector_def proofs_when_idle_def)

end
