(* ===== verification/StateChart.thy ===== *)
theory StateChart
  imports Connector
begin

text \<open>
  The state chart of the connection by itself: the elements of \<open>src/datasync/connectorstatemachine.scxml\<close> in document order, and how
  an SCXML processor runs them. A transition of the innermost state goes first and, within a state, the first one in the
  document; entering a compound state enters its first child; after an event the transitions without an event are taken until
  there is none. The flat tables of \<open>Connector\<close> are shown to do the same.
\<close>

section \<open>The document\<close>

text \<open>A state is \<open>Active\<close>, which has children, or one of the others.\<close>

datatype chart_node = Active | Node conn_state

record chart_transition =
  trSource :: chart_node
  trEvent :: "sm_event option"
  trClosing :: bool \<comment> \<open>\<open>cond="isClosing"\<close>\<close>
  trTarget :: chart_node

definition on_event :: "chart_node \<Rightarrow> sm_event \<Rightarrow> chart_node \<Rightarrow> chart_transition" where
  "on_event s ev t = \<lparr>trSource = s, trEvent = Some ev, trClosing = False, trTarget = t\<rparr>"

definition when_closing :: "chart_node \<Rightarrow> chart_node \<Rightarrow> chart_transition" where
  "when_closing s t = \<lparr>trSource = s, trEvent = None, trClosing = True, trTarget = t\<rparr>"

text \<open>The states at the top, each with its children.\<close>

definition chart_states :: "(chart_node \<times> chart_node list) list" where
  "chart_states = [(Active, [Node Connecting, Node Registering, Node LoggingIn, Node IdleState, Node Connected, Node Granting]),
     (Node Disconnected, []), (Node Reconnecting, []), (Node Retry, []), (Node BasicError, []), (Node FatalError, []), (Node Closing, []),
     (Node Final, []), (Node Final2, [])]"

definition chart_transitions :: "chart_transition list" where
  "chart_transitions =
    [on_event (Node Connecting) EvConnected (Node Connected),
     on_event (Node Connecting) EvNoConnect (Node Disconnected),
     on_event Active EvReconnect (Node Reconnecting),
     on_event Active EvDisconnected (Node Retry),
     on_event Active EvBasicError (Node BasicError),
     on_event Active EvFatalError (Node FatalError),
     on_event (Node Registering) EvAccount (Node IdleState),
     on_event (Node LoggingIn) EvAccount (Node IdleState),
     on_event (Node Connected) EvAwaitRegister (Node Registering),
     on_event (Node Connected) EvAwaitLogin (Node LoggingIn),
     on_event (Node Connected) EvAwaitGranted (Node Granting),
     when_closing Active (Node Closing),
     on_event (Node Granting) EvAccount (Node IdleState),
     on_event (Node Disconnected) EvReconnect Active,
     when_closing (Node Disconnected) (Node Final2),
     on_event (Node Reconnecting) EvDisconnected Active,
     on_event (Node Retry) EvReconnect Active,
     when_closing (Node Retry) (Node Final),
     on_event (Node BasicError) EvDisconnected (Node Retry),
     on_event (Node BasicError) EvReconnect (Node Reconnecting),
     on_event (Node FatalError) EvDisconnected (Node Disconnected),
     on_event (Node FatalError) EvReconnect (Node Reconnecting),
     on_event (Node Closing) EvDisconnected (Node Final)]"

section \<open>The processor\<close>

definition with_ancestors :: "chart_node \<Rightarrow> chart_node list" where
  "with_ancestors s = s # map fst (filter (\<lambda>(p, cs). s \<in> set cs) chart_states)"

definition enter_state :: "chart_node \<Rightarrow> chart_node" where
  "enter_state s = (case map_of chart_states s of Some (c # _) \<Rightarrow> c | _ \<Rightarrow> s)"

definition chart_enabled :: "bool \<Rightarrow> sm_event option \<Rightarrow> chart_transition \<Rightarrow> bool" where
  "chart_enabled closing ev t \<longleftrightarrow> trEvent t = ev \<and> (trClosing t \<longrightarrow> closing)"

definition microstep :: "bool \<Rightarrow> sm_event option \<Rightarrow> chart_node \<Rightarrow> chart_node option" where
  "microstep closing ev s = map_option (enter_state \<circ> trTarget) (List.find (chart_enabled closing ev)
     (concat (map (\<lambda>x. filter (\<lambda>t. trSource t = x) chart_transitions) (with_ancestors s))))"

text \<open>\<open>n\<close> bounds the number of transitions without an event; two are enough (\<open>chart_at_rest\<close>).\<close>

fun run_eventless :: "nat \<Rightarrow> bool \<Rightarrow> chart_node \<Rightarrow> chart_node" where
  "run_eventless 0 closing s = s"
| "run_eventless (Suc n) closing s = (case microstep closing None s of None \<Rightarrow> s | Some t \<Rightarrow> run_eventless n closing t)"

definition macrostep :: "bool \<Rightarrow> chart_node \<Rightarrow> sm_event \<Rightarrow> chart_node" where
  "macrostep closing s ev = run_eventless 2 closing (case microstep closing (Some ev) s of None \<Rightarrow> s | Some t \<Rightarrow> t)"

text \<open>The machine starts in the first state of the document.\<close>

definition chart_start :: chart_node where
  "chart_start = run_eventless 2 False (enter_state (fst (hd chart_states)))"

section \<open>The tables are the chart\<close>

definition conn_states :: "conn_state list" where
  "conn_states = [Connecting, Connected, Registering, LoggingIn, Granting, IdleState, Disconnected, Reconnecting, Retry,
     BasicError, FatalError, Closing, Final, Final2]"

definition sm_events :: "sm_event list" where
  "sm_events = [EvConnected, EvNoConnect, EvReconnect, EvDisconnected, EvBasicError, EvFatalError, EvAccount,
     EvAwaitRegister, EvAwaitLogin, EvAwaitGranted, EvClose]"

lemma all_states: "s \<in> set conn_states"
  by (cases s) (simp_all add: conn_states_def)

lemma all_events: "ev \<in> set sm_events"
  by (cases ev) (simp_all add: sm_events_def)

text \<open>Every state, with every event, closing or not.\<close>

definition tables_follow :: "bool \<Rightarrow> bool" where
  "tables_follow closing = list_all (\<lambda>s. list_all (\<lambda>ev.
     Node (stable_target closing s ev) = macrostep closing (Node s) ev \<and>
     microstep closing None (macrostep closing (Node s) ev) = None) sm_events) conn_states"

lemma tables_follow_chart: "tables_follow closing"
proof -
  have "tables_follow False" "tables_follow True" by code_simp+
  then show ?thesis by (cases closing) simp_all
qed

lemma stable_target_chart: "Node (stable_target closing s ev) = macrostep closing (Node s) ev"
  using tables_follow_chart all_states [of s] all_events [of ev] by (simp add: tables_follow_def list_all_iff)

lemma chart_at_rest: "microstep closing None (macrostep closing (Node s) ev) = None"
  using tables_follow_chart all_states [of s] all_events [of ev] by (simp add: tables_follow_def list_all_iff)

lemma chart_start_state: "chart_start = Node Connecting"
  by code_simp

end
