(* ===== verification/ConnectorClaims.thy ===== *)
theory ConnectorClaims
  imports ConnectorProps StateChart SecretKeyClaims MessageClaims
begin

text \<open>
  The properties of the connection: its state machine and what is sent in which state, how it
  closes and retries, and that messages held back are handled as if they had arrived later.
\<close>

section \<open>Reading a message\<close>

lemma find_kind: "k \<in> set device_kinds \<Longrightarrow> List.find (\<lambda>j. message_name j = message_name k) device_kinds = Some k"
  by (cases k) (simp_all add: device_kinds_def)

lemma read_serialized:
  assumes "message_stream (msgLib e)" "\<forall>x \<in> set (property_values m). fits_value (msgLib e) x" "validate m = Inr True"
    "kind_of m \<in> set device_kinds"
  shows "read_and_handle e (serialize (msgLib e) m) w = handle_message e m w"
proof -
  from message_roundtrip_rest [OF assms(1-3), of "[]"] obtain r where
    "read_name (msgLib e) (serialize (msgLib e) m) = Inr (message_name (kind_of m), r)"
    "deserialize_message (msgLib e) (kind_of m) r = Inr (m, [])"
    by auto
  with find_kind [OF assms(4)] show ?thesis
    by (simp add: read_and_handle_def read_result_def)
qed

section \<open>A device for examples\<close>

definition sample_conn :: conn_env where
  "sample_conn = \<lparr>keyEnv = sample_env, msgLib = qt_lib,
     defaultConfig = \<lparr>rcUrl = ''wss://host'', rcAccessKey = ''secret'', rcHeaders = [], rcKeepalive = 1\<rparr>,
     hostName = ''device'', urlValid = (\<lambda>u. u \<noteq> []), verifiesPeer = True\<rparr>"

definition sample_csettings :: csettings where
  "sample_csettings = \<lparr>setEnabled = None, setUrl = None, setAccessKey = None, setHeaders = [], setKeepalive = None,
     setDeviceId = Some 7, setDeviceName = None, setImportKey = None, setImportNonce = None, setImportPartner = None,
     setImportScheme = None, setImportCmac = None, setSendCmac = None\<rparr>"

lemmas [eval_defs] = load_key_material_def clear_key_material_def acquire_store_def load_private_key_def store_load_def
  crypto_load_def load_key_def own_sign_def asym_sign_def

definition sample_cleared :: crypto where
  "sample_cleared = snd (clear_key_material sample_env sample_device)"

definition sample_loaded :: crypto where
  "sample_loaded = snd (load_key_material sample_env 7 sample_cleared)"

lemma sample_loads:
  "clear_key_material sample_env sample_device = (Inr (), sample_cleared)"
  "acquire_store sample_env True sample_cleared = (Inr (), sample_cleared)"
  "load_key_material sample_env 7 sample_cleared = (Inr (), sample_loaded)"
  by (simp_all add: eval_defs sample_cleared_def sample_loaded_def Let_def act_simps cong: seq_weak_cong)

text \<open>The connector while its socket connects, and once the identify message can be answered.\<close>

definition sample_connecting :: connector where
  "sample_connecting = (new_connector sample_loaded sample_csettings)\<lparr>socket := Some SocketConnecting, smRunning := True, readyCalls := 1,
     pinging := True, deviceId := 7, opTimer := Some 60000, effects := [RemoteEvent RemoteConnecting,
       OpenSocket ''wss://host'' ''secret'' []]\<rparr>"

lemma sample_identity:
  "keys w = sample_device \<Longrightarrow> csettings w = sample_csettings \<Longrightarrow> deviceId w = 0 \<Longrightarrow>
   load_identity sample_conn w = (Inr True, w\<lparr>keys := sample_loaded, deviceId := 7\<rparr>)"
  by (simp add: load_identity_def catch_library_def set_device_def with_keys_def s_device_id_def or_default_def sample_conn_def
      sample_csettings_def sample_loads Let_def act_simps cong: seq_weak_cong)

lemma sample_values: "s_enabled sample_csettings" "s_url sample_conn sample_csettings = ''wss://host''"
  "s_access_key sample_conn sample_csettings = ''secret''" "s_headers sample_conn sample_csettings = []"
  "s_keepalive sample_conn sample_csettings = 1" "urlValid sample_conn ''wss://host''"
  "s_device_name sample_conn sample_csettings = ''device''"
  by (simp_all add: s_enabled_def s_url_def s_access_key_def s_headers_def s_keepalive_def s_device_name_def or_default_def
      child_groups_def sample_csettings_def sample_conn_def)

lemma sample_libs: "keyEnv sample_conn = sample_env" "msgLib sample_conn = qt_lib"
  by (simp_all add: sample_conn_def)

lemma sample_start: "perform_call sample_conn Start (new_connector sample_device sample_csettings) = (Inr (), sample_connecting)"
  by (simp add: perform_call_def start_def entry_def do_connect_def check_can_sync_def sample_identity sample_values signal_def
      new_connector_def sample_connecting_def upd_socket_def begin_special_op_def begin_op_def minutes_def settle_def stable_def
      seq_assoc act_simps cong: seq_weak_cong)

definition sample_connected :: connector where
  "sample_connected = sample_connecting\<lparr>socket := Some SocketConnected, opTimer := None, specialOp := None,
     smState := Connected, blocked := False, pingRunning := True, readyCalls := 1\<rparr>"

lemma sample_connects: "run_calls sample_conn [Start, SocketOpened, Dispatch, MachineReady] (new_connector sample_device sample_csettings) =
    (Inr (), sample_connected)"
  by (simp add: sample_start seq_def [of "perform_call sample_conn Start"])
    (simp add: perform_call_def socket_opened_def connected_def submit_event_def upd_socket_def sample_connecting_def new_connector_def
      end_op_def dispatch_def event_target_def transition_table_def move_def entry_def active_def settle_def stable_def
      machine_ready_def sample_connected_def seq_assoc act_simps cong: seq_weak_cong)

section \<open>The state machine\<close>

text \<open>C10: In every run, also one that ends in an exception, each message is sent in a state in which the
  server expects it: registration, login and access requests while connecting, the key mac right after
  login or grant, everything else when idle, and only an idle connector signals that it is ready. The
  state is the one before the call, one the machine enters in it, or the one after it.\<close>

theorem messages_sent_when_expected:
  assumes "run_calls e cs (new_connector k c0) = (Inr (), w)" "perform_call e c w = (r, v)"
  shows "\<exists>xs. effects v = effects w @ xs \<and>
    (\<forall>x \<in> set xs. \<exists>s \<in> {smState w, smState v} \<union> set (entered c w). allowed s x)"
  using perform_conforms [OF run_proofs [OF assms(1) new_connector_proofs], of c e] assms(2)
  by (simp add: conforms_def)

definition sample_identify :: message where
  "sample_identify = IdentifyMessage [1] (replicate 16 CHR ''n'') 5"

definition sample_login :: message where
  "sample_login = LoginMessage [1] (replicate 16 CHR ''n'') 7 ''device''"

lemma sample_signs: "own_sign sample_env msg sample_loaded = (Inr ''s'', tick sample_loaded)"
  by (simp add: eval_defs sample_cleared_def sample_loaded_def Let_def act_simps cong: seq_weak_cong)

definition sample_logging :: connector where
  "sample_logging = sample_connected\<lparr>keys := tick sample_loaded,
     effects := effects sample_connected @ [UpdateUploadLimit 5, SentSigned sample_login ''s''],
     blocked := True, smQueue := [EvAwaitLogin]\<rparr>"

lemma sample_reads: "read_and_handle sample_conn (serialize qt_lib sample_identify) w = handle_message sample_conn sample_identify w"
proof -
  note l = sample_libs(2)
  show ?thesis
    unfolding l [symmetric]
    by (rule read_serialized)
      (simp_all add: l qt_msg.message_stream_axioms sample_identify_def device_kinds_def validate_init_def current_version_def
        nonce_size_def fits_def)
qed

lemma sample_receives: "perform_call sample_conn (Receive (serialize qt_lib sample_identify)) sample_connected = (Inr (), sample_logging)"
proof -
  have np: "serialize qt_lib sample_identify \<noteq> ping_message"
    by (simp add: serialize_def ping_message_def sample_identify_def qt_lib_def qt_5_11_def qt_put_bytes_def)
  have w: "blocked sample_connected = False" "smRunning sample_connected" "smState sample_connected = Connected"
    "deviceId sample_connected = 7" "csettings sample_connected = sample_csettings" "keys sample_connected = sample_loaded"
    "smQueue sample_connected = []" "socket sample_connected = Some SocketConnected"
    by (simp_all add: sample_connected_def sample_connecting_def new_connector_def)
  have "process_message sample_conn (serialize qt_lib sample_identify) sample_connected = (Inr (), sample_logging)"
    by (simp add: process_message_def sample_reads)
      (simp add: handle_message_def sample_identify_def on_identify_def in_state_def w signal_def
        send_signed_message_def serialize_signed_message_def with_keys_def wrap_def wrap_with_def need_socket_def submit_event_def
        sample_logging_def sample_login_def current_version_def sample_values sample_signs sample_libs seq_assoc act_simps cong: seq_weak_cong)
  with np w show ?thesis
    by (simp add: perform_call_def binary_message_received_def)
qed

theorem messages_sent_when_expected_witness:
  "effects sample_logging = effects sample_connected @ [UpdateUploadLimit 5, SentSigned sample_login ''s''] \<and>
   allowed Connected (SentSigned sample_login ''s'')"
proof -
  have new: "effects sample_logging = effects sample_connected @ [UpdateUploadLimit 5, SentSigned sample_login ''s'']"
    by (simp add: sample_logging_def)
  have "smState sample_connected = Connected" "smState sample_logging = Connected"
    by (simp_all add: sample_logging_def sample_connected_def)
  with messages_sent_when_expected [OF sample_connects sample_receives] new show ?thesis
    by (auto simp: entered_def)
qed

text \<open>What the chart (\<open>StateChart\<close>) says of a call: an event that a running machine takes from its queue is a macrostep.\<close>

definition chart_after :: "conn_call \<Rightarrow> connector \<Rightarrow> chart_node" where
  "chart_after c w = (case c of
       Start \<Rightarrow> if smRunning w \<or> isClosing w then Node (smState w) else chart_start
     | Dispatch \<Rightarrow> if smRunning w \<and> smQueue w \<noteq> [] then macrostep (isClosing w) (Node (smState w)) (hd (smQueue w)) else Node (smState w)
     | _ \<Rightarrow> Node (smState w))"

lemma state_after_chart: "Node (state_after c w) = chart_after c w"
  by (simp add: state_after_def chart_after_def stable_target_chart chart_start_state split: conn_call.split list.split)

text \<open>C11: However the calls of the application, the socket, the timers and the event loop follow each
  other, the connector is in the state that the state chart prescribes, run from its document by the rules of SCXML: a dispatched
  event moves it by one macrostep, with its condition on closing, starting enters the first state, and no other call changes the
  state. This is about the states; what runs on entering and leaving them is not.\<close>

theorem connector_follows_chart:
  assumes "run_calls e cs (new_connector k c0) = (Inr (), w)" "perform_call e c w = (Inr (), v)"
  shows "Node (smState v) = chart_after c w"
  using perform_conforms [OF run_proofs [OF assms(1) new_connector_proofs], of c e] assms(2)
  by (simp add: conforms_def state_after_chart)

theorem connector_follows_chart_witness:
  "smState (snd (perform_call sample_conn Dispatch sample_logging)) = LoggingIn"
proof -
  have run: "run_calls sample_conn [Start, SocketOpened, Dispatch, MachineReady, Receive (serialize qt_lib sample_identify)]
    (new_connector sample_device sample_csettings) = (Inr (), sample_logging)"
  proof -
    have app: "run_calls e (xs @ ys) = seq (run_calls e xs) (\<lambda>_. run_calls e ys)" for e xs ys
      by (induction xs) (simp_all add: seq_assoc)
    show ?thesis
      using app [of sample_conn "[Start, SocketOpened, Dispatch, MachineReady]" "[Receive (serialize qt_lib sample_identify)]"]
      by (simp add: seq_def sample_connects sample_receives ret_def del: run_calls.simps) (simp add: seq_def sample_receives ret_def)
  qed
  have st: "smState sample_logging = Connected" "smRunning sample_logging" "smQueue sample_logging = [EvAwaitLogin]" "\<not> isClosing sample_logging"
    by (simp_all add: sample_logging_def sample_connected_def sample_connecting_def new_connector_def)
  then have "perform_call sample_conn Dispatch sample_logging = (Inr (), snd (perform_call sample_conn Dispatch sample_logging))"
    by (simp add: perform_call_def dispatch_def event_target_def transition_table_def move_def entry_def active_def settle_def stable_def
      seq_assoc act_simps cong: seq_weak_cong)
  moreover have "macrostep False (Node Connected) EvAwaitLogin = Node LoggingIn" by code_simp
  ultimately show ?thesis
    using connector_follows_chart [OF run, of Dispatch] st by (simp add: chart_after_def)
qed

end
