(* ===== verification/ConnectorWaiting.thy ===== *)
theory ConnectorWaiting
  imports ConnectorClaims
begin

text \<open>
  The connector waits for its socket only when something is going to end the waiting: in the states that are left by the event
  \<open>disconnected\<close>, that event is in the queue, or the socket has been told to close and is going to say so.
\<close>

section \<open>Calls that leave the socket alone\<close>

text \<open>All calls but those of the state machine and of the socket keep the socket and only add events.\<close>

definition same_run :: "connector \<Rightarrow> connector \<Rightarrow> bool" where
  "same_run v w \<longleftrightarrow> smState w = smState v \<and> smRunning w = smRunning v \<and> isClosing w = isClosing v"

definition lets :: "connector \<Rightarrow> connector \<Rightarrow> bool" where
  "lets v w \<longleftrightarrow> same_run v w \<and> socket w = socket v \<and> (\<exists>es. smQueue w = smQueue v @ es)"

lemma lets_refl: "lets w w"
  by (simp add: lets_def same_run_def)

lemma lets_modify: "(\<And>w. same_run w (f w) \<and> socket (f w) = socket w \<and> smQueue (f w) = smQueue w) \<Longrightarrow> keeps (lets v) (modify f)"
  by (rule keeps_modify) (auto simp: lets_def same_run_def)

lemma same_modify: "(\<And>w. same_run w (f w)) \<Longrightarrow> keeps (same_run v) (modify f)"
  by (rule keeps_modify) (simp add: same_run_def)

lemma lets_same: "(\<And>v. keeps (lets v) m) \<Longrightarrow> keeps (same_run v) m"
  using lets_refl unfolding keeps_def lets_def same_run_def by metis

lemma lets_signal: "keeps (lets v) (signal x)"
  unfolding signal_def by (rule lets_modify) (simp add: same_run_def)

lemma lets_with_keys: "keeps (lets v) (with_keys m)"
  by (rule keepsI) (auto simp: with_keys_def lets_def same_run_def split: prod.splits sum.splits)

lemma lets_submit: "keeps (lets v) (submit_event ev)"
  unfolding submit_event_def by (rule keeps_modify) (auto simp: lets_def same_run_def)

lemma lets_cset: "keeps (lets v) (upd_cset f)"
  unfolding upd_cset_def by (rule lets_modify) (simp add: same_run_def)

lemma lets_device: "keeps (lets v) (set_device d)"
  unfolding set_device_def by (rule lets_modify) (simp add: same_run_def)

lemma lets_ops: "keeps (lets v) (begin_op m b)" "keeps (lets v) end_op" "keeps (lets v) (begin_special_op m)"
  unfolding begin_special_op_def begin_op_def end_op_def by (intro keeps_seq lets_modify; simp add: same_run_def)+

lemma lets_need_socket: "keeps (lets v) need_socket"
  unfolding need_socket_def by (intro keeps_rules)

lemma lets_clear_caches: "keeps (lets v) (clear_caches b)"
  unfolding clear_caches_def by (rule lets_modify) (simp add: same_run_def)

lemmas lets_basic = lets_submit lets_cset lets_device lets_ops lets_need_socket lets_with_keys lets_clear_caches lets_signal

lemmas lets_rules = lets_basic keeps_catch_library keeps_catch_std keeps_ret keeps_throw keeps_guard keeps_if keeps_option keeps_pair

lemma lets_sends: "keeps (lets v) (send_message m)" "keeps (lets v) (send_signed_message e m)" "keeps (lets v) (trigger_error b)"
  "keeps (lets v) (on_error t b)"
  unfolding send_message_def send_signed_message_def serialize_signed_message_def trigger_error_def on_error_def
  by (intro lets_rules keeps_seq)+

lemma lets_client_error: "keeps (lets v) m \<Longrightarrow> keeps (lets v) (client_error_on_failure m)"
  unfolding client_error_on_failure_def by (intro keeps_catch_library lets_sends)

lemma lets_idle: "keeps (lets v) m \<Longrightarrow> keeps (lets v) (if_idle m)" "keeps (lets v) m \<Longrightarrow> keeps (lets v) (when_idle m)"
  unfolding if_idle_def when_idle_def by (intro keeps_gets_seq lets_rules lets_sends; simp)+

lemmas lets_intro = lets_rules lets_sends lets_client_error lets_idle

lemma lets_identity: "keeps (lets v) (load_identity e)" "keeps (lets v) (check_can_sync e)"
proof -
  show "keeps (lets v) (load_identity e)" for v e
    unfolding load_identity_def Let_def by (intro lets_intro keeps_gets_seq keeps_seq)
  then show "keeps (lets v) (check_can_sync e)"
    unfolding check_can_sync_def by (intro lets_intro keeps_gets_seq keeps_seq)
qed

lemma lets_timers: "keeps (lets v) retry" "keeps (lets v) reconnect" "keeps (lets v) retry_timer" "keeps (lets v) (elapse ms)"
  "keeps (lets v) on_timeout" "keeps (lets v) ping"
  unfolding retry_def reconnect_def retry_timer_def elapse_def on_timeout_def ping_def
  by (intro lets_intro keeps_gets_seq keeps_seq lets_modify; simp add: same_run_def)+

lemma lets_login_reply: "keeps (lets v) (login_reply e d b)" "keeps (lets v) (proof_timeout d)"
  unfolding login_reply_def proof_timeout_def by (intro lets_intro keeps_gets_seq keeps_seq lets_modify; simp add: same_run_def)+

section \<open>Handlers\<close>

lemma lets_register: "keeps (lets v) (send_register e n)" "keeps (lets v) (send_access e n p)" "keeps (lets v) (send_key_update e)"
  unfolding send_register_def send_access_def send_key_update_def own_public_keys_def Let_def
  by (intro lets_intro keeps_gets_seq keeps_seq)+

lemma lets_identify: "keeps (lets v) (on_identify e n l)"
  unfolding on_identify_def Let_def by (intro lets_register lets_intro keeps_gets_seq keeps_seq)

lemma lets_account: "keeps (lets v) (on_account e d b)"
  unfolding on_account_def by (intro lets_intro keeps_gets_seq keeps_seq lets_modify) (simp add: same_run_def)

lemma lets_welcome: "keeps (lets v) (on_welcome e h k sch key mac)" "keeps (lets v) (on_grant e d k sch s)"
  unfolding on_welcome_def on_grant_def
  by (intro lets_account lets_register lets_intro keeps_gets_seq keeps_seq lets_modify; simp add: same_run_def)+

lemma lets_acks:
  "keeps (lets v) (on_change_ack i)" "keeps (lets v) (on_device_change_ack i d)" "keeps (lets v) on_last_changed"
  "keeps (lets v) (on_devices ds)" "keeps (lets v) (on_accept_ack d)" "keeps (lets v) on_mac_update_ack"
  "keeps (lets v) (on_new_key_ack e k)" "keeps (lets v) (on_remove_ack d)" "keeps (lets v) (on_changed e j k' salt c)"
  "keeps (lets v) (on_changed_info e j k' salt c n)"
  unfolding on_change_ack_def on_device_change_ack_def on_last_changed_def on_devices_def on_accept_ack_def
    on_mac_update_ack_def on_new_key_ack_def on_remove_ack_def on_changed_info_def on_changed_def
  by (intro lets_timers lets_intro keeps_gets_seq keeps_seq lets_modify; simp add: same_run_def)+

lemma lets_proof: "keeps (lets v) (on_proof e pn d nm sa sk ca ck ms mac tm)"
  unfolding on_proof_def check_proof_def Let_def
  by (intro lets_login_reply lets_intro keeps_gets_seq keeps_seq lets_modify; simp add: same_run_def)

lemma lets_update_devices: "keeps (lets v) (update_devices e k sch xs)"
proof -
  have "keeps (lets v) (update_device e k sch x)" for x
    unfolding update_device_def by (intro lets_intro keeps_gets_seq keeps_seq)
  then show ?thesis by (induction xs) (auto intro!: keeps_ret keeps_seq)
qed

lemma lets_device_keys: "keeps (lets v) (on_device_keys e k dup ds)"
  unfolding on_device_keys_def by (intro lets_update_devices lets_intro keeps_seq)

lemma lets_handle: "keeps (lets v) (handle_message e m)"
  by (cases m) (simp_all add: handle_message_def lets_sends lets_identify lets_account lets_welcome lets_acks lets_proof lets_device_keys)

lemma lets_read_result: "keeps (lets v) (read_result r)"
  by (cases r) (simp_all add: read_result_def keeps_ret keeps_throw)

lemma lets_process: "keeps (lets v) (process_message e b)"
proof (rule keepsI)
  fix w assume w: "lets v w"
  have k: "keeps (lets v) (read_and_handle e b)"
    unfolding read_and_handle_def by (intro lets_read_result lets_handle lets_intro keeps_seq)
  obtain r u where ru: "read_and_handle e b w = (r, u)" by fastforce
  with keepsD [OF k w] have "lets v u" by simp
  with ru keepsD [OF lets_sends(4)] show "lets v (snd (process_message e b w))"
    by (auto simp: process_message_def split: sum.splits)
qed

lemma lets_receive: "keeps (lets v) (binary_message_received e b)"
  unfolding binary_message_received_def
  by (intro lets_process lets_intro keeps_gets_seq keeps_seq lets_modify) (simp_all add: same_run_def)

lemma lets_drain: "keeps (lets v) (drain e n)"
proof (induction n)
  case (Suc n)
  show ?case
    unfolding drain.simps
    by (intro keeps_gets_seq keeps_pair keeps_if keeps_ret)
      (auto simp: same_run_def split: list.split intro!: Suc keeps_ret keeps_seq lets_receive lets_modify)
qed (simp add: keeps_ret)

lemma lets_ready: "keeps (lets v) (machine_ready e)"
  unfolding machine_ready_def by (intro lets_drain lets_intro keeps_gets_seq keeps_seq lets_modify) (simp add: same_run_def)

lemma lets_slots:
  "keeps (lets v) resync" "keeps (lets v) list_devices" "keeps (lets v) (remove_device d)" "keeps (lets v) init_key_update"
  "keeps (lets v) (upload_data e k x)" "keeps (lets v) (upload_device_data e k d x)" "keeps (lets v) (download_done i)"
  "keeps (lets v) (reset_account e b)" "keeps (lets v) (change_remote r)" "keeps (lets v) (prepare_import z key)"
  "keeps (lets v) (set_device_name e n)" "keeps (lets v) (reset_device_name e)" "keeps (lets v) (set_sync_enabled b)"
  "keeps (lets v) disconnect_remote" "keeps (lets v) (export_account e b p)" "keeps (lets v) socket_error" "keeps (lets v) (ssl_errors e xs)"
  unfolding resync_def list_devices_def remove_device_def init_key_update_def upload_data_def upload_device_data_def download_done_def
    reset_account_def change_remote_def prepare_import_def set_device_name_def reset_device_name_def set_sync_enabled_def
    disconnect_remote_def export_account_def socket_error_def ssl_errors_def
  by (intro lets_timers lets_intro keeps_gets_seq keeps_seq lets_modify; simp add: same_run_def)+

definition at_socket :: "conn_call \<Rightarrow> bool" where
  "at_socket c \<longleftrightarrow> (case c of SocketChanges _ \<Rightarrow> True | _ \<Rightarrow> c \<in> {SocketOpened, SocketLost, HandleDisconnected, CallTryClose})"

lemma lets_perform: "\<not> moves c \<Longrightarrow> \<not> at_socket c \<Longrightarrow> keeps (lets v) (perform_call e c)"
  unfolding perform_call_def moves_def at_socket_def
  by (cases c)
    (auto simp: same_run_def intro!: keeps_gets_seq keeps_seq keeps_if keeps_ret lets_slots lets_timers lets_ready lets_receive lets_login_reply lets_modify)

section \<open>What the machine waits for\<close>

text \<open>The calls that may happen: a socket opens, or changes its state, as web sockets do. Everything else is free.\<close>

definition socket_ok :: "conn_call \<Rightarrow> connector \<Rightarrow> bool" where
  "socket_ok c w \<longleftrightarrow> (case c of
       SocketOpened \<Rightarrow> socket w \<in> {Some HostLookup, Some SocketConnecting}
     | SocketChanges st \<Rightarrow> st \<in> {HostLookup, SocketConnecting} \<and> socket w \<in> {Some HostLookup, Some SocketConnecting} \<or>
         st = SocketClosing \<and> socket w = Some SocketConnected
     | _ \<Rightarrow> True)"

inductive conn_reachable :: "conn_env \<Rightarrow> connector \<Rightarrow> bool" for e where
  conn_new: "conn_reachable e (new_connector k c)"
| conn_step: "conn_reachable e w \<Longrightarrow> socket_ok c w \<Longrightarrow> perform_call e c w = (Inr (), v) \<Longrightarrow> conn_reachable e v"

definition end_expected :: "connector \<Rightarrow> bool" where
  "end_expected w \<longleftrightarrow> EvDisconnected \<in> set (smQueue w) \<or> socket w = Some SocketClosing \<or> socket w = Some Unconnected"

definition awaits_end :: "conn_state \<Rightarrow> bool" where
  "awaits_end s \<longleftrightarrow> s \<in> {BasicError, FatalError, Reconnecting, Closing}"

definition waits_well :: "connector \<Rightarrow> bool" where
  "waits_well w \<longleftrightarrow> (smRunning w \<longrightarrow> \<not> is_final (smState w) \<and> (awaits_end (smState w) \<longrightarrow> end_expected w))"

lemma lets_expected: "lets v w \<Longrightarrow> end_expected v \<Longrightarrow> end_expected w"
  by (auto simp: lets_def end_expected_def)

text \<open>Entering a state that is not final; leaving one.\<close>

lemma do_disconnect_result:
  obtains u where "do_disconnect w = (Inr (), u)" "same_run w u" "end_expected u" "length (smQueue u) \<le> Suc (length (smQueue w))"
    "\<exists>es. smQueue u = smQueue w @ es"
proof -
  have "\<exists>u. do_disconnect w = (Inr (), u) \<and> same_run w u \<and> end_expected u \<and> length (smQueue u) \<le> Suc (length (smQueue w)) \<and>
      (\<exists>es. smQueue u = smQueue w @ es)"
    by (auto simp: do_disconnect_def submit_event_def begin_special_op_def begin_op_def close_socket_def upd_socket_def signal_def
        end_expected_def same_run_def act_simps split: option.split socket_state.split)
  with that show thesis by blast
qed

lemma same_do_disconnect: "keeps (same_run v) do_disconnect"
proof (rule keepsI)
  fix w assume "same_run v w"
  moreover obtain u where "do_disconnect w = (Inr (), u)" "same_run w u" using do_disconnect_result .
  ultimately show "same_run v (snd (do_disconnect w))" by (simp add: same_run_def)
qed

lemma same_upd_socket: "keeps (same_run v) (upd_socket s)"
  unfolding upd_socket_def by (rule same_modify) (simp add: same_run_def)

lemma same_do_connect: "keeps (same_run v) (do_connect e)"
  unfolding do_connect_def
  by (intro keeps_gets_seq keeps_seq keeps_option keeps_if same_upd_socket lets_same lets_identity lets_basic lets_modify)
    (simp_all add: same_run_def)

lemma same_entry: "\<not> is_final t \<Longrightarrow> keeps (same_run v) (entry e t)"
proof -
  have "keeps (lets w) on_entry_idle" for w
    unfolding on_entry_idle_def by (intro lets_slots lets_intro keeps_gets_seq keeps_seq lets_modify) (simp_all add: same_run_def)
  then show "\<not> is_final t \<Longrightarrow> keeps (same_run v) (entry e t)"
    by (cases t) (simp_all add: entry_def is_final_def same_do_connect same_do_disconnect lets_same lets_timers keeps_ret)
qed

lemma leave_result:
  obtains u where "leave s ev t w = (Inr (), u)" "same_run w u" "end_expected w \<Longrightarrow> end_expected u"
    "active s \<Longrightarrow> ev = Some EvReconnect \<Longrightarrow> end_expected u" "length (smQueue u) \<le> Suc (length (smQueue w))"
    "\<not> active s \<Longrightarrow> u = w"
proof -
  let ?v = "if active s \<and> \<not> active t then snd (on_exit_active w) else w"
  have v: "same_run w ?v" "smQueue ?v = smQueue w" "socket ?v = socket w"
    by (simp_all add: on_exit_active_eq same_run_def)
  have eq: "leave s ev t w = (if active s \<and> ev = Some EvReconnect then do_disconnect else ret ()) ?v"
    by (simp add: leave_def seq_def ret_def on_exit_active_eq)
  show thesis
  proof (cases "active s \<and> ev = Some EvReconnect")
    case True
    obtain u where "do_disconnect ?v = (Inr (), u)" "same_run ?v u" "end_expected u" "length (smQueue u) \<le> Suc (length (smQueue ?v))"
      using do_disconnect_result by metis
    with v eq True show thesis by (intro that [of u]) (auto simp: same_run_def)
  next
    case False
    with v eq show thesis by (intro that [of ?v]) (auto simp: ret_def end_expected_def)
  qed
qed

text \<open>A transition into a waiting state has just asked for the end, or takes over what another waiting state waits for.\<close>

lemma move_waits:
  assumes "move e ev t w = (Inr (), v)" "smRunning w"
    and "t = Reconnecting \<Longrightarrow> active (smState w) \<and> ev = Some EvReconnect \<or> end_expected w"
  shows "waits_well v \<and> smState v = t \<and> isClosing v = isClosing w \<and> (smRunning v \<longleftrightarrow> \<not> is_final t)"
proof -
  obtain u where u: "leave (smState w) ev t w = (Inr (), u)" "same_run w u" "end_expected w \<Longrightarrow> end_expected u"
    "active (smState w) \<Longrightarrow> ev = Some EvReconnect \<Longrightarrow> end_expected u"
    using leave_result by metis
  let ?u = "u\<lparr>smState := t\<rparr>"
  have v: "entry e t ?u = (Inr (), v)"
    using assms(1) u(1) by (simp add: move_leave seq_def [of "leave (smState w) ev t"])
  show ?thesis
  proof (cases "is_final t")
    case True
    then show ?thesis using u(2) v
      by (auto simp: entry_def is_final_def on_finished_def signal_def act_simps waits_well_def same_run_def split: if_splits)
  next
    case False
    have "same_run ?u v" using keepsD [OF same_entry [OF False], of ?u ?u e] v by (simp add: same_run_def)
    then have st: "smState v = t" "smRunning v" "isClosing v = isClosing w" using u(2) assms(2) by (simp_all add: same_run_def)
    have "end_expected v" if a: "awaits_end t"
    proof (cases "t = Reconnecting")
      case True
      then have "v = ?u" using v by (simp add: entry_def ret_def)
      with assms(3) [OF True] u(3,4) show ?thesis by (auto simp: end_expected_def)
    next
      case False
      then have "entry e t = do_disconnect" using a by (auto simp: awaits_end_def entry_def)
      with v show ?thesis using do_disconnect_result [of ?u] by (metis Pair_inject)
    qed
    with False st show ?thesis by (simp add: waits_well_def)
  qed
qed

lemma reconnecting_target:
  "event_target s ev = Some Reconnecting \<Longrightarrow> ev = EvReconnect \<and> (active s \<or> awaits_end s)"
  by (cases s; cases ev) (simp_all add: event_target_def transition_table_def active_def awaits_end_def)

lemma awaited_target: "awaits_end s \<Longrightarrow> event_target s EvDisconnected \<noteq> None"
  by (auto simp: event_target_def transition_table_def awaits_end_def)

lemma closing_targets: "closing_target s = Some t \<Longrightarrow> t \<in> {Closing, Final, Final2} \<and> \<not> is_final s"
  by (cases s) (simp_all add: closing_target_def active_def is_final_def)

lemma take_waits:
  assumes "take_event e ev rest w = (Inr (), v)" "smQueue w = ev # rest" "smRunning w" "waits_well w"
  shows "waits_well v \<and> isClosing v = isClosing w \<and> (smRunning v \<longleftrightarrow> \<not> is_final (smState v)) \<and>
    smState v = (case event_target (smState w) ev of None \<Rightarrow> smState w | Some t \<Rightarrow> t)"
proof -
  let ?w = "w\<lparr>smQueue := rest\<rparr>"
  have keep: "end_expected ?w" if "awaits_end (smState w)" "ev \<noteq> EvDisconnected"
    using assms(2-4) that by (auto simp: waits_well_def end_expected_def)
  show ?thesis
  proof (cases "event_target (smState w) ev")
    case None
    then have "v = ?w" using assms(1) by (simp add: take_event_def ret_def)
    moreover have "awaits_end (smState w) \<Longrightarrow> ev \<noteq> EvDisconnected" using None awaited_target by metis
    ultimately show ?thesis using assms(3,4) keep None by (auto simp: waits_well_def)
  next
    case (Some t)
    then have "move e (Some ev) t ?w = (Inr (), v)" using assms(1) by (simp add: take_event_def)
    from move_waits [OF this] assms(3) Some keep reconnecting_target [of "smState w" ev] show ?thesis by auto
  qed
qed

lemma settle_waits:
  assumes "settle e w = (Inr (), v)" "smRunning w \<longleftrightarrow> \<not> is_final (smState w)" "waits_well w"
  shows "waits_well v \<and> (smRunning v \<longleftrightarrow> \<not> is_final (smState v))"
proof (cases "if isClosing w then closing_target (smState w) else None")
  case None
  with assms show ?thesis by (auto simp: settle_def ret_def split: if_splits)
next
  case (Some t)
  then have "closing_target (smState w) = Some t" "isClosing w" by (auto split: if_splits)
  with assms(1,2) move_waits [of e None t w v] closing_targets show ?thesis by (auto simp: settle_def)
qed

lemma stable_waits: "waits_well (snd (stable w)) = waits_well w"
  by (simp add: stable_eq waits_well_def end_expected_def)

lemma dispatch_waits:
  assumes "dispatch e w = (Inr (), v)" "smRunning w" "waits_well w"
  shows "waits_well v"
proof (cases "smQueue w")
  case Nil
  with assms show ?thesis by (simp add: dispatch_def ret_def)
next
  case (Cons ev rest)
  with assms(1) obtain x y where "take_event e ev rest w = (Inr (), x)" "settle e x = (Inr (), y)" "stable y = (Inr (), v)"
    by (auto simp: dispatch_eq elim!: seq_InrE)
  with take_waits [OF _ Cons assms(2,3)] settle_waits [of e x y] stable_waits [of y] show ?thesis by auto
qed

lemma start_waits:
  assumes "start e w = (Inr (), v)" "waits_well w" shows "waits_well v"
proof (cases "smRunning w")
  case True
  with assms show ?thesis by (simp add: start_def ret_def)
next
  case False
  let ?w = "w\<lparr>smRunning := True, smState := Connecting\<rparr>"
  obtain x y where x: "entry e Connecting ?w = (Inr (), x)" "settle e x = (Inr (), y)" "stable y = (Inr (), v)"
    using assms(1) False by (auto simp: start_def act_simps elim!: seq_InrE)
  have "same_run ?w x" using keepsD [OF same_entry, of Connecting ?w ?w e] x(1) by (simp add: same_run_def is_final_def)
  then have "waits_well x" "smRunning x \<longleftrightarrow> \<not> is_final (smState x)"
    by (simp_all add: same_run_def waits_well_def awaits_end_def is_final_def)
  with settle_waits [OF x(2)] stable_waits [of y] x(3) show ?thesis by simp
qed

text \<open>What the calls of the socket do.\<close>

lemma disconnected_result: "disconnected w = (Inr (), v) \<Longrightarrow> same_run w v \<and> end_expected v"
  by (auto simp: disconnected_def end_op_def upd_socket_def submit_event_def need_socket_def same_run_def end_expected_def act_defs
      guard_call_def split: if_splits elim!: seq_InrE)

lemma try_close_result: "try_close w = (Inr (), v) \<Longrightarrow> same_run w v \<and> (end_expected w \<longrightarrow> end_expected v)"
  by (auto simp: try_close_def close_socket_def upd_socket_def signal_def same_run_def end_expected_def act_simps split: if_splits)

lemma opened_result:
  assumes "socket_opened w = (Inr (), v)" "socket w \<in> {Some HostLookup, Some SocketConnecting}"
  shows "same_run w v \<and> (end_expected w \<longrightarrow> end_expected v)"
  using assms by (auto simp: socket_opened_def connected_def end_op_def upd_socket_def submit_event_def same_run_def end_expected_def
      act_simps split: if_splits)

lemma socket_call:
  assumes "perform_call e c w = (Inr (), v)" "socket_ok c w" "at_socket c"
  shows "same_run w v \<and> (end_expected w \<longrightarrow> end_expected v)"
proof -
  from assms(3) consider st where "c = SocketChanges st" | "c = SocketOpened" | "c = SocketLost" | "c = HandleDisconnected" | "c = CallTryClose"
    by (auto simp: at_socket_def split: conn_call.splits)
  then show ?thesis
  proof cases
    case 1
    with assms(1,2) show ?thesis
      by (auto simp: perform_call_def socket_changes_def modify_def same_run_def end_expected_def socket_ok_def)
  next
    case 2
    with assms(1,2) opened_result show ?thesis by (simp add: perform_call_def socket_ok_def)
  next
    case 3
    with assms(1) show ?thesis
      by (auto simp: perform_call_def socket_lost_def socket_changes_def same_run_def end_expected_def act_simps split: if_splits)
  next
    case 4
    with assms(1) disconnected_result show ?thesis by (simp add: perform_call_def)
  next
    case 5
    with assms(1) try_close_result show ?thesis by (simp add: perform_call_def)
  qed
qed

lemma perform_waits:
  assumes "perform_call e c w = (Inr (), v)" "socket_ok c w" "waits_well w"
  shows "waits_well v"
proof (cases "moves c \<or> at_socket c")
  case False
  then have "lets w v" using keepsD [OF lets_perform lets_refl, of c w e] assms(1) by simp
  with assms(3) lets_expected show ?thesis by (auto simp: waits_well_def lets_def same_run_def)
next
  case True
  then consider "c = Dispatch" | "c = Start" | "c = Finalize" | "c = CloseTimeout" | "at_socket c" by (auto simp: moves_def)
  then show ?thesis
  proof cases
    case 1
    then show ?thesis using assms dispatch_waits by (auto simp: perform_call_def act_simps split: if_splits)
  next
    case 2
    then show ?thesis using assms start_waits by (auto simp: perform_call_def act_simps split: if_splits)
  next
    case 3
    then show ?thesis using assms
      by (auto simp: perform_call_def finalize_def with_keys_def submit_event_def signal_def act_defs seq_def waits_well_def end_expected_def
          split: prod.splits sum.splits if_splits)
  next
    case 4
    then show ?thesis using assms
      by (auto simp: perform_call_def close_timeout_def close_socket_def upd_socket_def signal_def act_simps waits_well_def split: if_splits)
  next
    case 5
    from socket_call [OF assms(1,2) this] assms(3) show ?thesis by (auto simp: waits_well_def same_run_def)
  qed
qed

lemma reachable_waits: "conn_reachable e w \<Longrightarrow> waits_well w"
  by (induction rule: conn_reachable.induct) (auto simp: new_connector_def waits_well_def dest: perform_waits)

end
