(* ===== verification/ConnectorClosing.thy ===== *)
theory ConnectorClosing
  imports ConnectorWaiting
begin

text \<open>
  How the connection ends: a connector that has been told to finish reaches a final state, from every state it can be in and with
  whatever is in its queue, and it never waits for an answer of the socket that it has not asked for.
\<close>

section \<open>What is going to happen by itself\<close>

text \<open>A running machine takes the next event from its queue. A socket reports that it is lost only when it has been told to close
  (or the server has closed it), and the slot of that report runs once.\<close>

definition pending_calls :: "connector \<Rightarrow> conn_call list" where
  "pending_calls w = (if smRunning w \<and> smQueue w \<noteq> [] then [Dispatch] else []) @
     (case socket w of Some SocketClosing \<Rightarrow> [SocketLost] | Some Unconnected \<Rightarrow> [HandleDisconnected] | _ \<Rightarrow> [])"

inductive pending_run :: "conn_env \<Rightarrow> conn_call list \<Rightarrow> connector \<Rightarrow> connector \<Rightarrow> bool" for e where
  pending_end: "pending_run e [] w w"
| pending_next: "c \<in> set (pending_calls w) \<Longrightarrow> perform_call e c w = (Inr (), u) \<Longrightarrow> pending_run e cs u v \<Longrightarrow> pending_run e (c # cs) w v"

definition finished :: "connector \<Rightarrow> bool" where
  "finished w \<longleftrightarrow> is_final (smState w) \<and> \<not> smRunning w \<and> Finalized \<in> set (effects w)"

lemma pending_calls_iff:
  "c \<in> set (pending_calls w) \<longleftrightarrow> c = Dispatch \<and> smRunning w \<and> smQueue w \<noteq> [] \<or> c = SocketLost \<and> socket w = Some SocketClosing \<or>
     c = HandleDisconnected \<and> socket w = Some Unconnected"
  by (cases "socket w"; cases "the (socket w)") (auto simp: pending_calls_def)

lemma pending_ok: "c \<in> set (pending_calls w) \<Longrightarrow> socket_ok c w"
  by (auto simp: pending_calls_iff socket_ok_def)

section \<open>Leaving the states\<close>

lemma clear_key_material_returns: "\<exists>k. clear_key_material e s = (Inr (), k)"
proof -
  have "\<exists>t. close_store e u = (Inr (), t)" for u
    by (auto simp: close_store_def set_store_open_def seq_def external_def act_defs split: option.split)
  then show ?thesis
    by (simp add: clear_key_material_def reset_crypto_def upd_asym_def set_fingerprint_def modify_def seq_def split: prod.split sum.split)
      (metis Inl_Inr_False Pair_inject)
qed

text \<open>While closing, entering a state adds at most one event, and only the idle state can fail: it may have to send a message.\<close>

lemma idle_entry_queue: "on_entry_idle w = (Inr (), u) \<Longrightarrow> smQueue u = smQueue w"
  by (auto simp: on_entry_idle_def init_key_update_def if_idle_def client_error_on_failure_def catch_library_def send_message_def need_socket_def
      signal_def guard_call_def library_error_def act_defs seq_def split: if_splits sum.splits prod.splits)

lemma connect_closing: "isClosing w \<Longrightarrow> \<exists>u. do_connect e w = (Inr (), u) \<and> smQueue u = smQueue w @ [EvNoConnect]"
  by (simp add: do_connect_def check_can_sync_def signal_def submit_event_def act_simps cong: seq_weak_cong)

lemma entry_closing:
  assumes "isClosing w" "smState w = t"
  shows "t \<noteq> IdleState \<Longrightarrow> \<exists>u. entry e t w = (Inr (), u)"
    and "entry e t w = (Inr (), u) \<Longrightarrow> length (smQueue u) \<le> Suc (length (smQueue w)) \<and> (is_final t \<longrightarrow> finished u)"
proof -
  obtain x where x: "do_disconnect w = (Inr (), x)" "length (smQueue x) \<le> Suc (length (smQueue w))" using do_disconnect_result .
  obtain y where y: "do_connect e w = (Inr (), y)" "length (smQueue y) = Suc (length (smQueue w))" using connect_closing [OF assms(1), of e] by auto
  have z: "on_finished w = (Inr (), w\<lparr>smRunning := False, effects := effects w @ [Finalized]\<rparr>)"
    using assms(1) by (simp add: on_finished_def signal_def act_simps)
  have r: "\<exists>v. retry w = (Inr (), v) \<and> smQueue v = smQueue w" by (simp add: retry_def signal_def act_simps)
  show "t \<noteq> IdleState \<Longrightarrow> \<exists>u. entry e t w = (Inr (), u)"
    using x y z r by (cases t) (auto simp: entry_def ret_def)
  show "entry e t w = (Inr (), u) \<Longrightarrow> length (smQueue u) \<le> Suc (length (smQueue w)) \<and> (is_final t \<longrightarrow> finished u)"
    using x y z r assms(2) idle_entry_queue [of w u] by (cases t) (auto simp: entry_def ret_def is_final_def finished_def)
qed

lemma move_closing:
  assumes "isClosing w"
  shows "t \<noteq> IdleState \<Longrightarrow> \<exists>u. move e ev t w = (Inr (), u)"
    and "move e ev t w = (Inr (), u) \<Longrightarrow> length (smQueue u) \<le> length (smQueue w) + 2 \<and> (is_final t \<longrightarrow> finished u)"
proof -
  obtain x where x: "leave (smState w) ev t w = (Inr (), x)" "same_run w x" "length (smQueue x) \<le> Suc (length (smQueue w))"
    using leave_result by metis
  let ?x = "x\<lparr>smState := t\<rparr>"
  have eq: "move e ev t w = entry e t ?x"
    by (simp add: move_leave seq_def [of "leave (smState w) ev t"] x(1))
  have "isClosing ?x" "smState ?x = t" using x(2) assms by (simp_all add: same_run_def)
  from entry_closing [OF this] x(3) eq
  show "t \<noteq> IdleState \<Longrightarrow> \<exists>u. move e ev t w = (Inr (), u)"
    and "move e ev t w = (Inr (), u) \<Longrightarrow> length (smQueue u) \<le> length (smQueue w) + 2 \<and> (is_final t \<longrightarrow> finished u)"
    by fastforce+
qed

section \<open>Progress\<close>

text \<open>How far a closing machine is from its end. A transition brings it closer, whatever it adds to the queue.\<close>

definition rank :: "conn_state \<Rightarrow> nat" where
  "rank s = (case s of BasicError \<Rightarrow> 2 | FatalError \<Rightarrow> 2 | Reconnecting \<Rightarrow> 1 | Closing \<Rightarrow> 0 | _ \<Rightarrow> 3)"

definition pot :: "socket_state option \<Rightarrow> nat" where
  "pot s = (case s of Some SocketClosing \<Rightarrow> 3 | Some Unconnected \<Rightarrow> 2 | _ \<Rightarrow> 0)"

definition distance :: "connector \<Rightarrow> nat" where
  "distance w = (if smRunning w then 8 * rank (smState w) + length (smQueue w) + 4 else 0) + pot (socket w)"

lemma pot_le: "pot s \<le> 3"
  by (simp add: pot_def split: option.split socket_state.split)

lemma rank_le: "rank s \<le> 3"
  by (simp add: rank_def split: conn_state.split)

lemma rank_decreases:
  assumes "\<not> is_final s" "event_target s ev \<noteq> None \<or> closing_target s \<noteq> None" "\<not> is_final (stable_target True s ev)"
  shows "rank (stable_target True s ev) < rank s"
  using assms
  by (cases s; cases ev) (simp_all add: stable_target_def event_target_def transition_table_def active_def closing_target_def rank_def is_final_def)

lemma settled: "closing_target (stable_target True s ev) = None"
  by (auto simp: stable_target_def Let_def closing_target_final split: option.split)

text \<open>A dispatch while closing.\<close>

lemma dispatch_closing:
  assumes "isClosing w" "smRunning w" "waits_well w" "smQueue w = ev # rest"
  shows "event_target (smState w) ev \<noteq> Some IdleState \<Longrightarrow> \<exists>v. dispatch e w = (Inr (), v)"
    and "dispatch e w = (Inr (), v) \<Longrightarrow> isClosing v \<and> distance v < distance w \<and> smState v = stable_target True (smState w) ev \<and>
      (smRunning v \<longleftrightarrow> \<not> is_final (smState v)) \<and> (is_final (smState v) \<longrightarrow> finished v)"
proof -
  let ?w = "w\<lparr>smQueue := rest\<rparr>" and ?s = "smState w"
  let ?t = "case event_target ?s ev of None \<Rightarrow> ?s | Some t \<Rightarrow> t"
  have nf: "\<not> is_final ?s" using assms(2,3) by (simp add: waits_well_def)
  have w: "isClosing ?w" using assms(1) by simp
  have take: "isClosing x \<and> (smRunning x \<longleftrightarrow> \<not> is_final ?t) \<and> smState x = ?t \<and> waits_well x \<and> length (smQueue x) \<le> length rest + 2 \<and>
      (is_final ?t \<longrightarrow> finished x) \<and> (event_target ?s ev = None \<longrightarrow> x = ?w)"
    if "take_event e ev rest w = (Inr (), x)" for x
  proof (cases "event_target ?s ev")
    case None
    moreover from this have "x = ?w" using that by (simp add: take_event_def ret_def)
    ultimately show ?thesis using take_waits [OF that assms(4,2,3)] nf assms(1) by simp
  next
    case (Some t)
    then have "move e (Some ev) t ?w = (Inr (), x)" using that by (simp add: take_event_def)
    from move_closing(2) [OF w this] take_waits [OF that assms(4,2,3)] Some assms(1) show ?thesis by simp
  qed
  have settle: "\<exists>y. settle e x = (Inr (), y)" if "isClosing x" for x
  proof (cases "closing_target (smState x)")
    case (Some t)
    with closing_targets have "t \<noteq> IdleState" by fastforce
    with move_closing(1) [OF that this, of e None] that Some show ?thesis by (simp add: settle_def)
  qed (use that in \<open>simp add: settle_def ret_def\<close>)
  show "\<exists>v. dispatch e w = (Inr (), v)" if ni: "event_target ?s ev \<noteq> Some IdleState"
  proof -
    have "\<exists>x. take_event e ev rest w = (Inr (), x)"
      using ni move_closing(1) [OF w] by (cases "event_target ?s ev") (auto simp: take_event_def ret_def)
    then obtain x where x: "take_event e ev rest w = (Inr (), x)" ..
    moreover obtain y where "settle e x = (Inr (), y)" using settle take [OF x] by blast
    ultimately show ?thesis
      by (simp add: dispatch_eq [OF assms(4)] seq_def [of "take_event e ev rest"] seq_def [of "settle e"] stable_eq)
  qed
  assume "dispatch e w = (Inr (), v)"
  then obtain x y where xy: "take_event e ev rest w = (Inr (), x)" "settle e x = (Inr (), y)" "stable y = (Inr (), v)"
    using assms(4) by (auto simp: dispatch_eq elim!: seq_InrE)
  note x = take [OF xy(1)]
  have v: "smState v = smState y" "smRunning v = smRunning y" "isClosing v = isClosing y" "smQueue v = smQueue y" "socket v = socket y"
    "finished v = finished y"
    using xy(3) by (auto simp: stable_eq finished_def split: if_splits)
  have y: "isClosing y \<and> smState y = stable_target True ?s ev \<and> (smRunning y \<longleftrightarrow> \<not> is_final (smState y)) \<and>
      (is_final (smState y) \<longrightarrow> finished y) \<and> length (smQueue y) \<le> length rest + 4 \<and>
      (event_target ?s ev = None \<and> closing_target ?s = None \<longrightarrow> y = ?w)"
  proof (cases "closing_target ?t")
    case None
    then have "y = x" using xy(2) x by (simp add: settle_def ret_def)
    with None x show ?thesis by (auto simp: stable_target_def Let_def)
  next
    case (Some t)
    then have m: "move e None t x = (Inr (), y)" using xy(2) x by (simp add: settle_def)
    have "smRunning x" "t \<noteq> Reconnecting" using closing_targets [OF Some] x by auto
    from move_waits [OF m this(1)] this(2) move_closing(2) [OF _ m] x Some show ?thesis
      by (auto simp: stable_target_def Let_def split: option.splits)
  qed
  have "distance v < distance w"
  proof (cases "is_final (smState y) \<or> event_target ?s ev = None \<and> closing_target ?s = None")
    case True
    then show ?thesis
    proof
      assume "is_final (smState y)"
      then have "distance v \<le> 3" using v y pot_le by (simp add: distance_def)
      then show ?thesis using assms(2) by (simp add: distance_def)
    next
      assume n: "event_target ?s ev = None \<and> closing_target ?s = None"
      with y have "y = ?w" by simp
      with v n assms(2,4) show ?thesis by (simp add: distance_def)
    qed
  next
    case False
    with rank_decreases [OF nf, of ev] y have "rank (smState y) < rank ?s" by auto
    moreover have "pot (socket y) \<le> 3" by (rule pot_le)
    ultimately show ?thesis using False y v assms(2,4) by (simp add: distance_def)
  qed
  with y v show "isClosing v \<and> distance v < distance w \<and> smState v = stable_target True (smState w) ev \<and>
      (smRunning v \<longleftrightarrow> \<not> is_final (smState v)) \<and> (is_final (smState v) \<longrightarrow> finished v)" by simp
qed

section \<open>Runs\<close>

text \<open>What holds while the connector closes: the event that told it to is still there, or it has left the states that need it.\<close>

definition closes_well :: "conn_env \<Rightarrow> connector \<Rightarrow> bool" where
  "closes_well e w \<longleftrightarrow> conn_reachable e w \<and> isClosing w \<and>
     (if smRunning w then closing_target (smState w) \<noteq> None \<longrightarrow> smQueue w \<noteq> [] else finished w)"

lemma lost_result: "perform_call e SocketLost w = (Inr (), v) \<Longrightarrow> same_run w v \<and> effects v = effects w \<and> smQueue v = smQueue w \<and>
    socket v = map_option (\<lambda>_. Unconnected) (socket w)"
  by (auto simp: perform_call_def socket_lost_def socket_changes_def same_run_def act_simps split: if_splits)

lemma handle_result:
  assumes "socket w = Some Unconnected"
  obtains v where "perform_call e HandleDisconnected w = (Inr (), v)" "same_run w v" "effects v = effects w"
    "smQueue v = smQueue w @ [EvDisconnected]" "socket v = None"
proof -
  have "\<exists>v. perform_call e HandleDisconnected w = (Inr (), v) \<and> same_run w v \<and> effects v = effects w \<and>
      smQueue v = smQueue w @ [EvDisconnected] \<and> socket v = None"
    using assms by (auto simp: perform_call_def disconnected_def end_op_def need_socket_def upd_socket_def submit_event_def same_run_def
        act_simps cong: seq_weak_cong)
  with that show thesis by blast
qed

lemma pending_step:
  assumes "closes_well e w" "c \<in> set (pending_calls w)" "perform_call e c w = (Inr (), v)"
  shows "closes_well e v \<and> distance v < distance w"
proof -
  have reach: "conn_reachable e v"
    using assms pending_ok conn_step by (metis closes_well_def)
  note w = assms(1) [unfolded closes_well_def]
  have waits: "waits_well w" using w reachable_waits by blast
  from assms(2) consider "c = Dispatch" "smRunning w" "smQueue w \<noteq> []" | "c = SocketLost" "socket w = Some SocketClosing"
    | "c = HandleDisconnected" "socket w = Some Unconnected"
    by (auto simp: pending_calls_iff)
  then show ?thesis
  proof cases
    case 1
    then obtain ev rest where q: "smQueue w = ev # rest" by (cases "smQueue w") auto
    have "dispatch e w = (Inr (), v)" using assms(3) 1 by (simp add: perform_call_def)
    from dispatch_closing(2) [OF _ 1(2) waits q this] w reach settled show ?thesis by (auto simp: closes_well_def)
  next
    case 2
    with lost_result [of e w v] assms(3) w reach show ?thesis
      by (auto simp: closes_well_def same_run_def finished_def distance_def pot_def)
  next
    case 3
    obtain u where "perform_call e HandleDisconnected w = (Inr (), u)" "same_run w u" "effects u = effects w"
      "smQueue u = smQueue w @ [EvDisconnected]" "socket u = None"
      using handle_result [OF 3(2)] .
    with 3 assms(3) w reach show ?thesis
      by (auto simp: closes_well_def same_run_def finished_def distance_def pot_def)
  qed
qed

lemma pending_run_closes:
  "pending_run e cs w v \<Longrightarrow> closes_well e w \<Longrightarrow> closes_well e v \<and> length cs + distance v \<le> distance w"
proof (induction rule: pending_run.induct)
  case (pending_next c w u cs v)
  from pending_step [OF pending_next.prems pending_next.hyps(1,2)] pending_next.IH show ?case by auto
qed simp

text \<open>Only the end is quiet.\<close>

lemma quiet_finished: "closes_well e w \<Longrightarrow> pending_calls w = [] \<Longrightarrow> finished w"
proof (rule ccontr)
  assume w: "closes_well e w" "pending_calls w = []" "\<not> finished w"
  then have r: "smRunning w" "smQueue w = []" "closing_target (smState w) = None" "waits_well w"
    by (auto simp: closes_well_def pending_calls_def reachable_waits split: if_splits)
  then have "awaits_end (smState w)" "\<not> is_final (smState w)"
    by (cases "smState w"; simp add: closing_target_def active_def awaits_end_def is_final_def waits_well_def)+
  with r w(2) show False by (auto simp: waits_well_def end_expected_def pending_calls_def)
qed

lemma pending_succeeds:
  assumes "closes_well e w" "c \<in> set (pending_calls w)"
  shows "fst (perform_call e c w) = Inr () \<or> c = Dispatch \<and> event_target (smState w) (hd (smQueue w)) = Some IdleState"
proof -
  from assms(2) consider "c = Dispatch" "smRunning w" "smQueue w \<noteq> []" | "c = SocketLost" | "c = HandleDisconnected" "socket w = Some Unconnected"
    by (auto simp: pending_calls_iff)
  then show ?thesis
  proof cases
    case 1
    then obtain ev rest where q: "smQueue w = ev # rest" by (cases "smQueue w") auto
    have "isClosing w" "waits_well w" using assms(1) reachable_waits by (auto simp: closes_well_def)
    from dispatch_closing(1) [OF this(1) 1(2) this(2) q, of e] 1 q show ?thesis by (force simp: perform_call_def)
  next
    case 2
    then show ?thesis by (simp add: perform_call_def socket_lost_def socket_changes_def act_simps)
  next
    case 3
    then show ?thesis using handle_result [OF 3(2), of e] by (metis fst_conv)
  qed
qed

lemma finalize_closes:
  assumes "conn_reachable e w" "smRunning w"
  obtains u where "perform_call e Finalize w = (Inr (), u)" "closes_well e u" "smQueue u = smQueue w @ [EvClose]" "same_run (w\<lparr>isClosing := True\<rparr>) u"
proof -
  obtain k where k: "clear_key_material (keyEnv e) (keys w) = (Inr (), k)"
    using clear_key_material_returns by blast
  obtain u where u: "perform_call e Finalize w = (Inr (), u)" "smQueue u = smQueue w @ [EvClose]" "same_run (w\<lparr>isClosing := True\<rparr>) u"
    using assms(2) k by (simp add: perform_call_def finalize_def with_keys_def submit_event_def signal_def same_run_def
        act_simps cong: seq_weak_cong)
  moreover have "conn_reachable e u" using conn_step [OF assms(1) _ u(1)] by (simp add: socket_ok_def)
  ultimately show thesis using assms(2) by (intro that) (auto simp: closes_well_def same_run_def)
qed

text \<open>C32: A running connector, in whatever state its calls so far have brought it, that is told to finish ends by itself. From
  then on the machine takes the events in its queue, and the socket reports the end of a connection that the code has told to close or the
  server has closed, in any order. Such a run ends after at most as many steps as there were events plus 32; it only ends
  with the machine stopped in a final state and the end signalled; and no step fails, save that an event still in
  the queue may take the machine into the idle state, where a message is sent, before it is left again.\<close>

theorem closing_completes:
  assumes "conn_reachable e w" "smRunning w"
  shows "\<exists>u. perform_call e Finalize w = (Inr (), u) \<and>
    (\<forall>cs v. pending_run e cs u v \<longrightarrow> length cs \<le> length (smQueue w) + 32 \<and> (pending_calls v = [] \<longrightarrow> finished v) \<and>
      (\<forall>c \<in> set (pending_calls v). fst (perform_call e c v) = Inr () \<or>
         c = Dispatch \<and> event_target (smState v) (hd (smQueue v)) = Some IdleState))"
proof -
  obtain u where u: "perform_call e Finalize w = (Inr (), u)" "closes_well e u" "smQueue u = smQueue w @ [EvClose]"
    using finalize_closes [OF assms] .
  have "distance u \<le> length (smQueue w) + 32"
    using u(3) rank_le [of "smState u"] pot_le [of "socket u"] by (simp add: distance_def)
  with u pending_run_closes [OF _ u(2)] quiet_finished pending_succeeds show ?thesis by (fastforce intro!: exI [of _ u])
qed

text \<open>The connected device of the examples closes its socket and then waits for it.\<close>

lemma sample_connected_reachable: "conn_reachable sample_conn sample_connected"
proof -
  let ?w = "new_connector sample_device sample_csettings"
  obtain x y where x: "perform_call sample_conn SocketOpened sample_connecting = (Inr (), x)" "perform_call sample_conn Dispatch x = (Inr (), y)"
    "perform_call sample_conn MachineReady y = (Inr (), sample_connected)"
    using sample_connects by (auto simp: sample_start ret_def elim!: seq_InrE)
  have "conn_reachable sample_conn sample_connecting"
    by (rule conn_step [OF conn_new _ sample_start]) (simp add: socket_ok_def)
  then have "conn_reachable sample_conn x"
    by (rule conn_step [OF _ _ x(1)]) (simp add: socket_ok_def sample_connecting_def)
  then have "conn_reachable sample_conn y"
    by (rule conn_step [OF _ _ x(2)]) (simp add: socket_ok_def)
  then show ?thesis
    by (rule conn_step [OF _ _ x(3)]) (simp add: socket_ok_def)
qed

theorem closing_completes_witness:
  "\<exists>u v. perform_call sample_conn Finalize sample_connected = (Inr (), u) \<and>
    pending_run sample_conn [Dispatch, SocketLost, HandleDisconnected, Dispatch] u v \<and> finished v"
proof -
  have w: "smRunning sample_connected" "socket sample_connected = Some SocketConnected" "smState sample_connected = Connected"
    "smQueue sample_connected = []" "specialOp sample_connected = None" "opTimer sample_connected = None"
    by (simp_all add: sample_connected_def sample_connecting_def new_connector_def)
  obtain k where k: "clear_key_material (keyEnv sample_conn) (keys sample_connected) = (Inr (), k)"
    using clear_key_material_returns by blast
  define u where "u = sample_connected\<lparr>pingRunning := False, keys := k, isClosing := True, blocked := True, smQueue := [EvClose],
    effects := effects sample_connected @ [CloseTimer]\<rparr>"
  have u: "perform_call sample_conn Finalize sample_connected = (Inr (), u)"
    using w k by (simp add: perform_call_def finalize_def with_keys_def submit_event_def signal_def u_def act_simps cong: seq_weak_cong)
  obtain a where a: "perform_call sample_conn Dispatch u = (Inr (), a)" "smState a = Closing" "smRunning a" "isClosing a" "smQueue a = []"
    "socket a = Some SocketClosing"
    using w by (simp add: u_def perform_call_def dispatch_def event_target_def transition_table_def active_def settle_def closing_target_def
        move_def on_exit_active_eq entry_def do_disconnect_def begin_special_op_def begin_op_def close_socket_def upd_socket_def signal_def
        stable_def minutes_def act_simps cong: seq_weak_cong)
  obtain b where b: "perform_call sample_conn SocketLost a = (Inr (), b)" by (simp add: perform_call_def socket_lost_def socket_changes_def act_simps)
  with a lost_result [OF b] have b': "same_run a b" "smQueue b = []" "socket b = Some Unconnected" by simp_all
  obtain c where c: "perform_call sample_conn HandleDisconnected b = (Inr (), c)" "same_run b c" "effects c = effects b"
    "smQueue c = smQueue b @ [EvDisconnected]" "socket c = None"
    by (rule handle_result [OF b'(3), of sample_conn])
  have c': "smState c = Closing" "smRunning c" "isClosing c" using a b' c(2) by (simp_all add: same_run_def)
  obtain d where d: "perform_call sample_conn Dispatch c = (Inr (), d)" "smQueue d = []" "socket d = None" "\<not> smRunning d"
    using c(4,5) b'(2) c' by (simp add: perform_call_def dispatch_def event_target_def transition_table_def active_def settle_def closing_target_def
        move_def entry_def on_finished_def signal_def stable_def act_simps cong: seq_weak_cong)
  have "pending_run sample_conn [Dispatch] c d"
    by (rule pending_next [OF _ d(1) pending_end]) (use b'(2) c(4) c' in \<open>simp add: pending_calls_iff\<close>)
  from pending_next [OF _ c(1) this] b' have "pending_run sample_conn [HandleDisconnected, Dispatch] b d" by (simp add: pending_calls_iff)
  from pending_next [OF _ b this] a have "pending_run sample_conn [SocketLost, HandleDisconnected, Dispatch] a d" by (simp add: pending_calls_iff)
  from pending_next [OF _ a(1) this] w have "pending_run sample_conn [Dispatch, SocketLost, HandleDisconnected, Dispatch] u d"
    by (simp add: pending_calls_iff u_def)
  moreover have "pending_calls d = []" using d by (simp add: pending_calls_def)
  ultimately show ?thesis
    using closing_completes [OF sample_connected_reachable w(1)] u by fastforce
qed

end
