(* ===== verification/DeferredMessages.thy ===== *)
theory DeferredMessages
  imports ConnectorClaims
begin

text \<open>
  Messages of the server that arrive while the connector waits for its state machine. Handling a
  message does not look at the buffer of those that wait, so that handling them later is the same
  as receiving them later.
\<close>

section \<open>Actions that do not look at the buffer\<close>

definition oblivious :: "'a cact \<Rightarrow> bool" where
  "oblivious m \<longleftrightarrow> (\<forall>w b. m (w\<lparr>buffer := b\<rparr>) = apsnd (\<lambda>v. v\<lparr>buffer := b\<rparr>) (m w))"

lemma obliviousI: "(\<And>w b. m (w\<lparr>buffer := b\<rparr>) = apsnd (\<lambda>v. v\<lparr>buffer := b\<rparr>) (m w)) \<Longrightarrow> oblivious m"
  by (simp add: oblivious_def)

lemma obliviousD: "oblivious m \<Longrightarrow> m (w\<lparr>buffer := b\<rparr>) = apsnd (\<lambda>v. v\<lparr>buffer := b\<rparr>) (m w)"
  by (simp add: oblivious_def)

lemma oblivious_ret: "oblivious (ret a)" by (rule obliviousI) (simp add: ret_def)
lemma oblivious_throw: "oblivious (throw a)" by (rule obliviousI) (simp add: throw_def)
lemma oblivious_guard: "oblivious (guard_call a x)" by (rule obliviousI) (simp add: guard_call_def)

lemma oblivious_gets: "(\<And>w b. g (w\<lparr>buffer := b\<rparr>) = g w) \<Longrightarrow> oblivious (gets g)"
  by (rule obliviousI) (simp add: gets_def)

lemma oblivious_modify: "(\<And>w b. f (w\<lparr>buffer := b\<rparr>) = (f w)\<lparr>buffer := b\<rparr>) \<Longrightarrow> oblivious (modify f)"
  by (rule obliviousI) (simp add: modify_def)

lemma oblivious_seq: "oblivious m \<Longrightarrow> (\<And>a. oblivious (f a)) \<Longrightarrow> oblivious (seq m f)"
  by (rule obliviousI) (simp add: seq_def obliviousD split: prod.split sum.split)

lemma oblivious_if: "(c \<Longrightarrow> oblivious m) \<Longrightarrow> (\<not> c \<Longrightarrow> oblivious n) \<Longrightarrow> oblivious (if c then m else n)"
  by simp

lemma oblivious_option:
  "(x = None \<Longrightarrow> oblivious m) \<Longrightarrow> (\<And>a. x = Some a \<Longrightarrow> oblivious (f a)) \<Longrightarrow> oblivious (case x of None \<Rightarrow> m | Some a \<Rightarrow> f a)"
  by (cases x) auto

lemma oblivious_pair: "(\<And>a b. x = (a, b) \<Longrightarrow> oblivious (f a b)) \<Longrightarrow> oblivious (case x of (a, b) \<Rightarrow> f a b)"
  by (cases x) auto

lemma oblivious_with_keys: "oblivious (with_keys m)"
  by (rule obliviousI) (simp add: with_keys_def split: prod.split sum.split)

lemma oblivious_catch_library: "oblivious m \<Longrightarrow> oblivious h \<Longrightarrow> oblivious (catch_library m h)"
  by (rule obliviousI) (simp add: catch_library_def obliviousD split: prod.split sum.split)

lemma oblivious_catch_std: "oblivious m \<Longrightarrow> oblivious h \<Longrightarrow> oblivious (catch_std m h)"
  by (rule obliviousI) (simp add: catch_std_def obliviousD split: prod.split sum.split)

lemma is_idle_buffer: "is_idle (w\<lparr>buffer := b\<rparr>) = is_idle w" "in_state s (w\<lparr>buffer := b\<rparr>) = in_state s w"
  by (simp_all add: is_idle_def in_state_def)

lemmas oblivious_intro = oblivious_with_keys oblivious_catch_library oblivious_catch_std oblivious_seq oblivious_ret oblivious_throw
  oblivious_guard oblivious_gets oblivious_if oblivious_option oblivious_pair oblivious_modify

lemma oblivious_basic:
  "oblivious (signal x)" "oblivious (submit_event ev)" "oblivious (upd_cset f)" "oblivious (set_device d)" "oblivious (upd_socket s)"
  "oblivious (begin_op m c)" "oblivious end_op" "oblivious need_socket"
  unfolding signal_def submit_event_def upd_cset_def set_device_def upd_socket_def begin_op_def end_op_def need_socket_def
  by (intro oblivious_intro; simp)+

lemma oblivious_send: "oblivious (send_message m)" "oblivious (send_signed_message e m)"
  unfolding send_message_def send_signed_message_def serialize_signed_message_def by (intro oblivious_intro oblivious_basic)+

lemma oblivious_errors: "oblivious (trigger_error r)" "oblivious (on_error t r)" "oblivious reconnect"
  unfolding trigger_error_def on_error_def reconnect_def by (intro oblivious_intro oblivious_basic)+

lemma oblivious_idle: "oblivious m \<Longrightarrow> oblivious (when_idle m)" "oblivious m \<Longrightarrow> oblivious (if_idle m)"
  unfolding when_idle_def if_idle_def
  by (intro oblivious_intro oblivious_errors; simp add: is_idle_buffer trigger_error_def oblivious_basic)+

lemma oblivious_login_reply: "oblivious (login_reply e d b)"
  unfolding login_reply_def by (intro oblivious_idle oblivious_send oblivious_intro) simp_all

lemma oblivious_key_update: "oblivious (send_key_update e)"
  unfolding send_key_update_def by (intro oblivious_send oblivious_basic oblivious_intro) simp

lemma oblivious_identify: "oblivious (on_identify e n l)"
  unfolding on_identify_def send_register_def send_access_def own_public_keys_def Let_def
  by (intro oblivious_send oblivious_errors oblivious_basic oblivious_intro) (simp_all add: is_idle_buffer)

lemma oblivious_account: "oblivious (on_account e d b)"
  unfolding on_account_def by (intro oblivious_errors oblivious_basic oblivious_intro) (simp_all add: is_idle_buffer)

lemma oblivious_welcome: "oblivious (on_welcome e h k sch key mac)"
  unfolding on_welcome_def
  by (intro oblivious_key_update oblivious_errors oblivious_basic oblivious_intro) (simp_all add: is_idle_buffer)

lemma oblivious_grant: "oblivious (on_grant e d k sch s)"
  unfolding on_grant_def
  by (intro oblivious_key_update oblivious_account oblivious_errors oblivious_basic oblivious_intro) (simp_all add: is_idle_buffer)

lemma oblivious_changed: "oblivious (on_changed e i k salt c)" "oblivious (on_changed_info e i k salt c n)"
  unfolding on_changed_info_def on_changed_def by (intro oblivious_idle oblivious_basic oblivious_intro)+

lemma oblivious_acks:
  "oblivious (on_change_ack i)" "oblivious (on_device_change_ack i d)" "oblivious on_last_changed"
  "oblivious (on_devices ds)" "oblivious (on_accept_ack d)" "oblivious on_mac_update_ack" "oblivious (on_new_key_ack e k)"
  unfolding on_change_ack_def on_device_change_ack_def on_last_changed_def on_devices_def on_accept_ack_def
    on_mac_update_ack_def on_new_key_ack_def
  by (intro oblivious_idle oblivious_basic oblivious_intro; simp)+

lemma oblivious_remove_ack: "oblivious (on_remove_ack d)"
  unfolding on_remove_ack_def by (intro oblivious_idle oblivious_errors oblivious_basic oblivious_intro) simp_all

lemma oblivious_proof: "oblivious (on_proof e pn d nm sa sk ca ck ms mac tm)"
  unfolding on_proof_def check_proof_def Let_def
  by (intro oblivious_idle oblivious_login_reply oblivious_send oblivious_basic oblivious_intro) simp_all

lemma oblivious_update_devices: "oblivious (update_devices e k sch xs)"
proof (induction xs)
  case (Cons x xs)
  show ?case
    unfolding update_devices.simps update_device_def
    by (intro Cons oblivious_intro) simp
qed (simp add: oblivious_ret)

lemma oblivious_device_keys: "oblivious (on_device_keys e k dup ds)"
  unfolding on_device_keys_def by (intro oblivious_update_devices oblivious_idle oblivious_send oblivious_intro)

lemma oblivious_handle: "oblivious (handle_message e m)"
  by (cases m) (simp_all add: handle_message_def oblivious_errors oblivious_identify oblivious_account oblivious_welcome oblivious_grant
    oblivious_changed oblivious_acks oblivious_remove_ack oblivious_proof oblivious_device_keys)

lemma oblivious_read_result: "oblivious (read_result r)"
  by (cases r) (simp_all add: read_result_def oblivious_ret oblivious_throw)

lemma oblivious_read: "oblivious (read_and_handle e b)"
  unfolding read_and_handle_def by (intro oblivious_read_result oblivious_handle oblivious_errors oblivious_intro)

lemma oblivious_process: "oblivious (process_message e b)"
  by (rule obliviousI)
    (simp add: process_message_def obliviousD [OF oblivious_read] obliviousD [OF oblivious_errors(2)] split: prod.split sum.split)

section \<open>Messages that wait\<close>

lemma process_keeps_buffer: "process_message e b w = (r, v) \<Longrightarrow> buffer v = buffer w"
proof -
  assume p: "process_message e b w = (r, v)"
  from obliviousD [OF oblivious_process, where e1 = e and b1 = b and w = w and b = "buffer w"] p have "v = v\<lparr>buffer := buffer w\<rparr>" by simp
  then have "buffer v = buffer (v\<lparr>buffer := buffer w\<rparr>)" by (rule arg_cong)
  then show ?thesis by simp
qed

lemma receive_blocked:
  "blocked w \<Longrightarrow> ping_message \<notin> set ms \<Longrightarrow> run_calls e (map Receive ms) w = (Inr (), w\<lparr>buffer := buffer w @ ms\<rparr>)"
proof (induction ms arbitrary: w)
  case (Cons b ms)
  let ?u = "w\<lparr>buffer := buffer w @ [b]\<rparr>"
  have "perform_call e (Receive b) w = (Inr (), ?u)"
    using Cons.prems by (auto simp: perform_call_def binary_message_received_def modify_def)
  moreover have "run_calls e (map Receive ms) ?u = (Inr (), w\<lparr>buffer := buffer w @ b # ms\<rparr>)"
    using Cons.IH [of ?u] Cons.prems by simp
  ultimately show ?case by (simp add: seq_def)
qed (simp add: ret_def)

lemma drain_as_received:
  assumes "run_calls e (map Receive ms) u = (Inr (), v)" "buffer u = []" "ping_message \<notin> set ms" "length ms \<le> n"
  shows "drain e n (u\<lparr>buffer := ms\<rparr>) = (Inr (), v)"
  using assms
proof (induction ms arbitrary: u n)
  case Nil
  then have "v = u\<lparr>buffer := []\<rparr>" by (simp add: ret_def)
  then show ?case by (cases n) (simp_all add: ret_def)
next
  case (Cons b ms)
  then obtain n' where n: "n = Suc n'" "length ms \<le> n'" by (cases n) auto
  show ?case
  proof (cases "blocked u")
    case True
    with receive_blocked [OF this Cons.prems(3), of e] Cons.prems(1,2) have "v = u\<lparr>buffer := b # ms\<rparr>" by simp
    with True n show ?thesis by (simp add: ret_def)
  next
    case False
    then have rec: "perform_call e (Receive b) u = process_message e b u"
      using Cons.prems(3) by (auto simp: perform_call_def binary_message_received_def)
    from Cons.prems(1) obtain u1 where u1: "process_message e b u = (Inr (), u1)" "run_calls e (map Receive ms) u1 = (Inr (), v)"
      by (auto simp: rec elim!: seq_InrE)
    have "binary_message_received e b (u\<lparr>buffer := ms\<rparr>) = (Inr (), u1\<lparr>buffer := ms\<rparr>)"
      using False Cons.prems(3) u1(1) by (auto simp: binary_message_received_def obliviousD [OF oblivious_process])
    moreover from Cons.IH [OF u1(2) _ _ n(2)] process_keeps_buffer [OF u1(1)] Cons.prems(2,3)
    have "drain e n' (u1\<lparr>buffer := ms\<rparr>) = (Inr (), v)" by simp
    ultimately show ?thesis
      using False n(1) by (simp add: seq_def [of "binary_message_received e b"])
  qed
qed

text \<open>C33: Messages that arrive while the connector waits for its state machine are handled, once it is ready,
  exactly as if they had arrived then, one by one and in their order: the connector ends in the same
  state and has sent and signalled the same. None is lost, also when one of them makes it wait again.\<close>

theorem deferred_messages_equal:
  assumes "blocked w" "buffer w = []" "ping_message \<notin> set ms"
    "run_calls e (map Receive ms) (w\<lparr>blocked := False\<rparr>) = (Inr (), v)"
  shows "seq (run_calls e (map Receive ms)) (\<lambda>_. machine_ready e) w = (Inr (), v)"
proof -
  let ?u = "w\<lparr>blocked := False\<rparr>"
  from drain_as_received [OF assms(4) _ assms(3) order_refl] assms(2)
  have "drain e (length ms) (?u\<lparr>buffer := ms\<rparr>) = (Inr (), v)" by simp
  moreover have "?u\<lparr>buffer := ms\<rparr> = w\<lparr>buffer := ms, blocked := False\<rparr>" by simp
  ultimately have "drain e (length ms) (w\<lparr>buffer := ms, blocked := False\<rparr>) = (Inr (), v)" by (simp only:)
  then show ?thesis
    using receive_blocked [OF assms(1,3), of e] assms(2)
    by (simp add: seq_def [of "run_calls e (map Receive ms)"] machine_ready_def)
qed

lemma drain_stops:
  assumes "drain e n w = (Inr (), v)" "length (buffer w) \<le> n"
  shows "blocked v \<or> buffer v = []"
  using assms
proof (induction n arbitrary: w)
  case (Suc n)
  show ?case
  proof (cases "blocked w \<or> buffer w = []")
    case True
    with Suc.prems(1) show ?thesis by (auto simp: ret_def split: list.splits)
  next
    case False
    then obtain b rest where b: "buffer w = b # rest" by (cases "buffer w") auto
    let ?w = "w\<lparr>buffer := rest\<rparr>"
    from Suc.prems(1) False b obtain u where u: "binary_message_received e b ?w = (Inr (), u)" "drain e n u = (Inr (), v)"
      by (auto elim!: seq_InrE)
    have "buffer u = rest"
      using u(1) False process_keeps_buffer [of e b ?w] by (auto simp: binary_message_received_def modify_def split: if_splits)
    with Suc.IH [OF u(2)] Suc.prems(2) b show ?thesis by simp
  qed
qed (simp add: ret_def)

definition sample_bytes :: bytes where
  "sample_bytes = serialize qt_lib sample_identify"

lemma sample_bytes_no_ping: "sample_bytes \<noteq> ping_message"
  by (simp add: sample_bytes_def serialize_def ping_message_def sample_identify_def qt_lib_def qt_5_11_def qt_put_bytes_def)

text \<open>The second message has to wait for the transition that the first one asks for.\<close>

theorem deferred_messages_equal_witness:
  "seq (run_calls sample_conn [Receive sample_bytes, Receive sample_bytes]) (\<lambda>_. machine_ready sample_conn)
     (sample_connected\<lparr>blocked := True\<rparr>) = (Inr (), sample_logging\<lparr>buffer := [sample_bytes]\<rparr>)"
proof -
  have w: "sample_connected\<lparr>blocked := False\<rparr> = sample_connected" "buffer sample_connected = []"
    "blocked sample_logging" "buffer sample_logging = []"
    by (simp_all add: sample_logging_def sample_connected_def sample_connecting_def new_connector_def)
  have "perform_call sample_conn (Receive sample_bytes) sample_connected = (Inr (), sample_logging)"
    using sample_receives by (simp add: sample_bytes_def)
  moreover have "run_calls sample_conn (map Receive [sample_bytes]) sample_logging = (Inr (), sample_logging\<lparr>buffer := [sample_bytes]\<rparr>)"
    using receive_blocked [OF w(3), of "[sample_bytes]" sample_conn] sample_bytes_no_ping w(4) by simp
  ultimately have "run_calls sample_conn (map Receive [sample_bytes, sample_bytes]) sample_connected =
      (Inr (), sample_logging\<lparr>buffer := [sample_bytes]\<rparr>)"
    by (simp add: seq_def)
  then show ?thesis
    using deferred_messages_equal [of "sample_connected\<lparr>blocked := True\<rparr>" "[sample_bytes, sample_bytes]" sample_conn] sample_bytes_no_ping w
    by simp
qed

end
