(* ===== verification/Engine.thy ===== *)
theory Engine
  imports Complex_Main ChangeController SyncController ConnectorMessages
begin

text \<open>
  The exchange engine (\<open>src/datasync/exchangeengine.cpp\<close>): it owns the controllers, connects their
  signals and keeps the state the application sees. Its part of the state holds the upload controller,
  the sync controller and the local store, whose slots it runs itself. The connector works on its own
  (\<open>ConnectorMessages\<close>): what it signals is an input (\<open>relay\<close>), what the engine asks of it is recorded
  as a \<open>conn_call\<close>. The signals of a controller are handled in order when its slot is done. That is
  what the direct connections do, as no handler of the engine reads what the slot still changes, and the one
  that changes the controller itself (\<open>controllerError\<close>) is always the last. If the connector fails to
  encrypt an upload, its error is handled after the scan that started the upload, not within.
\<close>

section \<open>State\<close>

datatype sync_state = Initializing | Downloading | Uploading | Synchronized | ErrorState | DisconnectedState

datatype control = ChangeControl | SyncControl | RemoteControl

datatype engine_effect =
    StateChanged sync_state
  | ProgressChanged rat
  | LastErrorChanged "string option" \<comment> \<open>\<open>None\<close> is the null string\<close>
  | Ask conn_call \<comment> \<open>a slot of the connector\<close>

record engine =
  syncState :: sync_state
  progressCurrent :: u32
  progressMax :: u32
  progressAllowed :: "control option"
  lastError :: "string option"
  uploads :: upload_ctl
  merger :: sync_ctl
  localStore :: store
  engineOut :: "engine_effect list"

record engine_env =
  storeEnv :: env
  syncCfg :: sync_cfg

definition progress :: "engine \<Rightarrow> rat" where
  "progress en = (if progressMax en = 0 then -1
     else of_nat (unat (progressCurrent en)) / of_nat (unat (progressMax en)))"

definition tell :: "engine_effect \<Rightarrow> engine \<Rightarrow> engine" where
  "tell x en = en\<lparr>engineOut := engineOut en @ [x]\<rparr>"

section \<open>Helpers of the engine\<close>

text \<open>\<open>upstate\<close> also answers whether the state has changed.\<close>

definition upstate :: "sync_state \<Rightarrow> engine \<Rightarrow> bool \<times> engine" where
  "upstate s en = (if syncState en \<noteq> s then (True, tell (StateChanged s) (en\<lparr>syncState := s\<rparr>)) else (False, en))"

definition clear_error :: "engine \<Rightarrow> engine" where
  "clear_error en = (if lastError en \<noteq> None then tell (LastErrorChanged None) (en\<lparr>lastError := None\<rparr>) else en)"

definition reset_progress :: "control option \<Rightarrow> engine \<Rightarrow> engine" where
  "reset_progress c en =
     (let had = (progressMax en \<noteq> 0); en1 = en\<lparr>progressCurrent := 0, progressMax := 0\<rparr>;
          en2 = (if had then tell (ProgressChanged (progress en1)) en1 else en1)
      in en2\<lparr>progressAllowed := c\<rparr>)"

definition add_progress :: "control \<Rightarrow> u32 \<Rightarrow> engine \<Rightarrow> engine" where
  "add_progress c estimate en = (if progressAllowed en = Some c then
       (let en1 = en\<lparr>progressMax := progressMax en + estimate\<rparr> in tell (ProgressChanged (progress en1)) en1)
     else en)"

definition increment_progress :: "control \<Rightarrow> engine \<Rightarrow> engine" where
  "increment_progress c en = (if progressAllowed en = Some c then
       (let en1 = en\<lparr>progressCurrent := progressCurrent en + 1\<rparr> in tell (ProgressChanged (progress en1)) en1)
     else en)"

section \<open>Slots for the signals of the controllers\<close>

definition uploading_changed :: "bool \<Rightarrow> engine \<Rightarrow> engine" where
  "uploading_changed uploading en =
     (if syncState en = ErrorState then en
      else if uploading then
        (case upstate Uploading en of (entered_now, en1) \<Rightarrow> if entered_now then reset_progress (Some ChangeControl) en1 else en1)
      else if syncState en = Uploading then reset_progress None (snd (upstate Synchronized en))
      else en)"

text \<open>A signal of the upload controller other than an error.\<close>

fun upload_signal :: "change_signal \<Rightarrow> engine \<Rightarrow> engine" where
  "upload_signal (UploadingChanged b) en = uploading_changed b en"
| "upload_signal (ChangeController.ProgressAdded n) en = add_progress ChangeControl n en"
| "upload_signal ChangeController.ProgressIncrement en = increment_progress ChangeControl en"
| "upload_signal (UploadChange k d) en = tell (Ask (UploadData k d)) en"
| "upload_signal (UploadDeviceChange k dev d) en = tell (Ask (UploadDeviceData k dev d)) en"
| "upload_signal ChangeError en = en"

text \<open>A slot of the upload controller, with its signals handled by \<open>h\<close>.\<close>

definition run_slot :: "(change_signal \<Rightarrow> engine \<Rightarrow> engine) \<Rightarrow> (upload_ctl \<times> store \<Rightarrow> upload_ctl \<times> store) \<Rightarrow> engine \<Rightarrow> engine" where
  "run_slot h f en = (case f ((uploads en)\<lparr>uploadOut := []\<rparr>, localStore en) of
     (c, s) \<Rightarrow> fold h (uploadOut c) (en\<lparr>uploads := c\<lparr>uploadOut := []\<rparr>, localStore := s\<rparr>))"

definition engine_clear_uploads :: "engine_env \<Rightarrow> engine \<Rightarrow> engine" where
  "engine_clear_uploads ee = run_slot upload_signal (clear_uploads (storeEnv ee) (sync_cfg.prims (syncCfg ee)))"

definition controller_error :: "engine_env \<Rightarrow> string \<Rightarrow> engine \<Rightarrow> engine" where
  "controller_error ee msg en =
     engine_clear_uploads ee (tell (Ask DisconnectRemote) (snd (upstate ErrorState
       (tell (LastErrorChanged (Some msg)) (en\<lparr>lastError := Some msg\<rparr>)))))"

definition handle_signal :: "engine_env \<Rightarrow> change_signal \<Rightarrow> engine \<Rightarrow> engine" where
  "handle_signal ee x en = (if x = ChangeError then controller_error ee ''Failed to upload changes to server.'' en
     else upload_signal x en)"

definition upload_slot :: "engine_env \<Rightarrow> (upload_ctl \<times> store \<Rightarrow> upload_ctl \<times> store) \<Rightarrow> engine \<Rightarrow> engine" where
  "upload_slot ee = run_slot (handle_signal ee)"

definition engine_uploading :: "engine_env \<Rightarrow> bool \<Rightarrow> engine \<Rightarrow> engine" where
  "engine_uploading ee b = upload_slot ee (set_uploading_enabled (storeEnv ee) (sync_cfg.prims (syncCfg ee)) b)"

definition engine_syncing :: "bool \<Rightarrow> engine \<Rightarrow> engine" where
  "engine_syncing b en = en\<lparr>merger := SyncController.set_sync_enabled b (merger en)\<rparr>"

definition controller_timeout :: "engine \<Rightarrow> engine" where
  "controller_timeout = tell (Ask Reconnect)"

text \<open>Only a new connection gets the engine out of the error state.\<close>

definition engine_remote_event :: "engine_env \<Rightarrow> remote_event \<Rightarrow> engine \<Rightarrow> engine" where
  "engine_remote_event ee ev en =
     (if syncState en = ErrorState \<and> ev \<noteq> RemoteConnecting then en
      else case ev of
        RemoteDisconnected \<Rightarrow>
          engine_clear_uploads ee (engine_syncing False (reset_progress None (snd (upstate DisconnectedState en))))
      | RemoteConnecting \<Rightarrow>
          engine_clear_uploads ee (engine_syncing False (clear_error (reset_progress None (snd (upstate Initializing en)))))
      | RemoteReady \<Rightarrow>
          engine_uploading ee True (engine_syncing True (reset_progress (Some ChangeControl) (snd (upstate Uploading en))))
      | RemoteReadyWithChanges \<Rightarrow>
          (case upstate Downloading en of (entered_now, en1) \<Rightarrow>
             engine_uploading ee False (engine_syncing True
               (if entered_now then reset_progress (Some RemoteControl) en1 else en1))))"

text \<open>\<open>SyncController::syncChange\<close> with its signals; \<open>syncDone\<close> goes to the connector.\<close>

fun on_sync_signal :: "engine_env \<Rightarrow> SyncController.sync_signal \<Rightarrow> engine \<Rightarrow> engine" where
  "on_sync_signal ee (SyncDone key) en = tell (Ask (DownloadDone key)) en"
| "on_sync_signal ee SyncError en = controller_error ee ''Data downloaded from server is invalid.'' en"

definition download_data :: "engine_env \<Rightarrow> u64 \<Rightarrow> bytes \<Rightarrow> engine \<Rightarrow> engine" where
  "download_data ee key d en =
     (case sync_change (storeEnv ee) (syncCfg ee) key d ((merger en)\<lparr>sync_out := []\<rparr>, localStore en) of
        (c, s) \<Rightarrow> fold (on_sync_signal ee) (sync_out c) (en\<lparr>merger := c\<lparr>sync_out := []\<rparr>, localStore := s\<rparr>))"

section \<open>The signals of the connector\<close>

definition relay :: "engine_env \<Rightarrow> conn_effect \<Rightarrow> engine \<Rightarrow> engine" where
  "relay ee x en = (case x of
       RemoteEvent ev \<Rightarrow> engine_remote_event ee ev en
     | UpdateUploadLimit n \<Rightarrow> en\<lparr>uploads := update_upload_limit n (uploads en)\<rparr>
     | UploadDone k \<Rightarrow> upload_slot ee (upload_done (storeEnv ee) k) en
     | DeviceUploadDone k d \<Rightarrow> upload_slot ee (device_upload_done (storeEnv ee) k d) en
     | DownloadData k d \<Rightarrow> download_data ee k d en
     | AccountAccessGranted d \<Rightarrow> en\<lparr>localStore := prepare_account_added (storeEnv ee) d (localStore en)\<rparr>
     | Connector.ProgressAdded n \<Rightarrow> add_progress RemoteControl n en
     | Connector.ProgressIncrement \<Rightarrow> increment_progress RemoteControl en
     | ControllerError msg \<Rightarrow> controller_error ee msg en
     | OperationTimeout \<Rightarrow> controller_timeout en
     | _ \<Rightarrow> en)"

section \<open>Slots of the engine\<close>

text \<open>\<open>resetAccount\<close>; a store that cannot be cleared throws, and the connector is not reset.\<close>

definition engine_reset :: "engine_env \<Rightarrow> bool \<Rightarrow> bool \<Rightarrow> engine \<Rightarrow> (store_error + unit) \<times> engine" where
  "engine_reset ee keepData clearConfig en =
     (let en1 = engine_clear_uploads ee (engine_syncing False en) in
      case reset_store (storeEnv ee) keepData (localStore en1) of
        (Inl x, s) \<Rightarrow> (Inl x, en1\<lparr>localStore := s\<rparr>)
      | (Inr _, s) \<Rightarrow> (Inr (), tell (Ask (ResetAccount clearConfig)) (en1\<lparr>localStore := s\<rparr>)))"

text \<open>The sync and the upload controller have nothing to finalize.\<close>

definition engine_finalize :: "engine \<Rightarrow> engine" where
  "engine_finalize = tell (Ask Finalize)"

datatype engine_call =
    Relay conn_effect
  | UploadNeeded \<comment> \<open>from the change emitter\<close>
  | RunQueued \<comment> \<open>a call the upload controller has queued\<close>
  | UploadTimeout \<comment> \<open>the operation timer of the upload controller\<close>
  | StoreChanges store \<comment> \<open>the application uses the store\<close>
  | EngineReset bool bool
  | EngineFinalize

definition engine_step :: "engine_env \<Rightarrow> engine_call \<Rightarrow> engine \<Rightarrow> engine" where
  "engine_step ee c en = (case c of
       Relay x \<Rightarrow> relay ee x en
     | UploadNeeded \<Rightarrow> upload_slot ee (change_triggered (storeEnv ee) (sync_cfg.prims (syncCfg ee))) en
     | RunQueued \<Rightarrow> upload_slot ee (run_queued (storeEnv ee) (sync_cfg.prims (syncCfg ee))) en
     | UploadTimeout \<Rightarrow> if upload_ctl.opTimer (uploads en)
         then controller_timeout (en\<lparr>uploads := (uploads en)\<lparr>upload_ctl.opTimer := False\<rparr>\<rparr>) else en
     | StoreChanges s \<Rightarrow> en\<lparr>localStore := s\<rparr>
     | EngineReset keepData clearConfig \<Rightarrow> snd (engine_reset ee keepData clearConfig en)
     | EngineFinalize \<Rightarrow> engine_finalize en)"

text \<open>An engine whose controllers have been created and connected.\<close>

definition new_engine :: "store \<Rightarrow> engine" where
  "new_engine s = \<lparr>syncState = Initializing, progressCurrent = 0, progressMax = 0, progressAllowed = None, lastError = None,
     uploads = \<lparr>uploadingEnabled = False, uploadLimit = 10, activeUploads = [], changeEstimate = 0, opTimer = False,
       callQueue = [], uploadOut = []\<rparr>,
     merger = \<lparr>sync_enabled = False, sync_out = []\<rparr>, localStore = s, engineOut = []\<rparr>"

end
