(* ===== verification/UploadSignals.thy ===== *)
theory UploadSignals
  imports UploadClaims
begin

text \<open>
  What the slots of the upload controller signal: the start of uploads only where they are enabled,
  and an error only as the last signal of a slot.
\<close>

section \<open>Runs of the upload controller\<close>

text \<open>What a slot of the upload controller may signal: the start of uploads only if \<open>b\<close>, and an error
  only as its last signal.\<close>

definition quiet_run :: "bool \<Rightarrow> upload_ctl \<Rightarrow> upload_ctl \<Rightarrow> bool" where
  "quiet_run b c c' \<longleftrightarrow> uploadingEnabled c' = uploadingEnabled c \<and>
     (\<exists>out. uploadOut c' = uploadOut c @ out \<and> (UploadingChanged True \<in> set out \<longrightarrow> b) \<and> ChangeError \<notin> set (butlast out))"

definition calm_run :: "bool \<Rightarrow> upload_ctl \<Rightarrow> upload_ctl \<Rightarrow> bool" where
  "calm_run b c c' \<longleftrightarrow> uploadingEnabled c' = uploadingEnabled c \<and>
     (\<exists>out. uploadOut c' = uploadOut c @ out \<and> (UploadingChanged True \<in> set out \<longrightarrow> b) \<and> ChangeError \<notin> set out)"

lemma calm_run_refl: "calm_run b c c"
  by (simp add: calm_run_def)

lemma calm_run_send: "calm_run b c d \<Longrightarrow> x \<noteq> ChangeError \<Longrightarrow> (x = UploadingChanged True \<Longrightarrow> b) \<Longrightarrow> calm_run b c (send x d)"
  by (fastforce simp: calm_run_def)

lemma calm_run_upd: "calm_run b c d \<Longrightarrow> uploadingEnabled d' = uploadingEnabled d \<Longrightarrow> uploadOut d' = uploadOut d \<Longrightarrow> calm_run b c d'"
  by (simp add: calm_run_def)

lemma calm_run_enqueue: "calm_run b c d \<Longrightarrow> calm_run b c (enqueue q d)"
  by (simp add: calm_run_def)

lemma calm_quiet: "calm_run b c d \<Longrightarrow> quiet_run b c d"
  by (auto simp: calm_run_def quiet_run_def dest: in_set_butlastD)

lemma quiet_run_send: "calm_run b c d \<Longrightarrow> (x = UploadingChanged True \<Longrightarrow> b) \<Longrightarrow> quiet_run b c (send x d)"
  by (fastforce simp: calm_run_def quiet_run_def)

lemma upload_visit_calm:
  assumes "calm_run b c d" "st \<longrightarrow> b" "upload_visit e p s ep r (d, st) = (go, d', st')"
  shows "calm_run b c d' \<and> (st' \<longrightarrow> b)"
proof -
  obtain k v f dev where r: "r = (k, v, f, dev)" by (cases r)
  define d1 where "d1 = signal_started st ep d"
  have d1: "calm_run b c d1"
    using assms(1,2) by (auto simp: d1_def signal_started_def intro!: calm_run_send)
  have d2: "calm_run b c (d1\<lparr>activeUploads := t, opTimer := True\<rparr>)" for t
    using d1 by (rule calm_run_upd) simp_all
  then have d3: "calm_run b c (send (if dev = 0 then UploadChange h x else UploadDeviceChange h dev x) (d1\<lparr>activeUploads := t, opTimer := True\<rparr>))"
    "calm_run b c (enqueue q (d1\<lparr>activeUploads := t, opTimer := True\<rparr>))" for h x t q
    by (auto intro!: calm_run_send calm_run_enqueue)
  show ?thesis
    using assms d3 by (auto simp: r upload_visit_def Let_def simp flip: d1_def split: if_splits option.splits sum.splits)
qed

lemma load_changes_quiet:
  assumes "load_changes e n (upload_visit e p s ep) s (c2, st) = (res, c3, st3)" "calm_run b c c2" "st \<longrightarrow> b"
  shows "calm_run b c c3"
proof -
  let ?P = "\<lambda>v. calm_run b c (fst v) \<and> (snd v \<longrightarrow> b)"
  have step: "?P (snd (upload_visit e p s ep r v))" if "?P v" for r v
    using that upload_visit_calm [of b c "fst v" "snd v" e p s ep r] by (cases "upload_visit e p s ep r v") auto
  have "?P (snd (load_changes e n (upload_visit e p s ep) s (c2, st)))"
    by (rule load_changes_keeps [where P = ?P, OF step]) (use assms in auto)
  with assms(1) show ?thesis by simp
qed

lemma upload_next_quiet: "quiet_run b c (fst (upload_next e p b (c, s)))"
proof -
  define again where "again = (b \<and> activeUploads c \<noteq> [])"
  define st where "st = (b \<and> \<not> again)"
  define c1 where "c1 = (if again then send (UploadingChanged True) c else c)"
  define est where "est = (if changeEstimate c1 = 0 then
       (case fst (change_count e s) of
          Inl err \<Rightarrow> Inl err
        | Inr n \<Rightarrow>
            let c' = c1\<lparr>changeEstimate := n\<rparr> in
            if n > 0 then if st then Inr (True, c') else Inr (False, send (ProgressAdded n) c')
            else Inr (False, c'))
     else Inr (False, c1))"
  have eq: "upload_next e p b (c, s) = (if uploadLimit c1 \<le> active_count c1 then (c1, s) else case est of Inl _ \<Rightarrow> (send ChangeError c1, s)
       | Inr (emitProgress, c2) \<Rightarrow>
           (case load_changes e (uploadLimit c2) (upload_visit e p s emitProgress) s (c2, st) of
              (Inl _, c3, _) \<Rightarrow> (send ChangeError c3, s)
            | (Inr _, c3, _) \<Rightarrow>
                if activeUploads c3 = [] then (send (UploadingChanged False) (c3\<lparr>opTimer := False\<rparr>), s)
                else (c3, s)))"
    unfolding upload_next_def prod.case Let_def est_def c1_def st_def again_def by simp
  have st: "st \<longrightarrow> b" by (simp add: st_def)
  have c1: "calm_run b c c1" by (auto simp: c1_def again_def intro: calm_run_refl calm_run_send)
  have est: "calm_run b c c2" if "est = Inr (ep, c2)" for ep c2
  proof -
    have "calm_run b c (c1\<lparr>changeEstimate := n\<rparr>)" for n by (rule calm_run_upd [OF c1]) simp_all
    with that c1 show ?thesis by (auto simp: est_def Let_def intro: calm_run_send split: if_splits sum.splits)
  qed
  show ?thesis
  proof (cases "active_count c1 \<ge> uploadLimit c1")
    case True
    with c1 show ?thesis by (simp add: eq calm_quiet)
  next
    case False
    show ?thesis
    proof (cases est)
      case (Inl x)
      with False c1 show ?thesis by (auto simp: eq intro: quiet_run_send)
    next
      case (Inr y)
      obtain ep c2 where y: "y = (ep, c2)" by fastforce
      obtain res c3 st3 where l: "load_changes e (uploadLimit c2) (upload_visit e p s ep) s (c2, st) = (res, c3, st3)"
        by (cases "load_changes e (uploadLimit c2) (upload_visit e p s ep) s (c2, st)") auto
      have c3: "calm_run b c c3" by (rule load_changes_quiet [OF l est st]) (simp add: Inr y)
      then have "calm_run b c (c3\<lparr>opTimer := False\<rparr>)" by (rule calm_run_upd) simp_all
      with c3 False Inr y l show ?thesis
        by (auto simp: eq split: sum.split intro: quiet_run_send calm_quiet)
    qed
  qed
qed

lemma quiet_enabled: "quiet_run b c c' \<Longrightarrow> uploadingEnabled c' = uploadingEnabled c"
  by (simp add: quiet_run_def)

lemma quiet_out: "quiet_run b c c' \<Longrightarrow> uploadOut c = [] \<Longrightarrow>
   (UploadingChanged True \<in> set (uploadOut c') \<longrightarrow> b) \<and> ChangeError \<notin> set (butlast (uploadOut c'))"
  by (auto simp: quiet_run_def)

lemma enable_quiet: "quiet_run True (c\<lparr>uploadingEnabled := True\<rparr>) (fst (set_uploading_enabled e p True (c, s)))"
  using upload_next_quiet by (simp add: set_uploading_enabled_def Let_def)

lemma disable_eq: "set_uploading_enabled e p False (c, s) =
    (send (UploadingChanged False) (c\<lparr>uploadingEnabled := False, opTimer := False\<rparr>), s)"
  by (simp add: set_uploading_enabled_def Let_def)

lemma clear_eq: "clear_uploads e p (c, s) =
    ((send (UploadingChanged False) (c\<lparr>uploadingEnabled := False, opTimer := False\<rparr>))\<lparr>activeUploads := [], changeEstimate := 0\<rparr>, s)"
  by (simp add: clear_uploads_def disable_eq)

lemma finish_quiet: "quiet_run b c (finish_upload c res)"
proof -
  have "calm_run b c (send ProgressIncrement (c\<lparr>changeEstimate := changeEstimate c - 1\<rparr>))"
    by (intro calm_run_send calm_run_upd [OF calm_run_refl]) simp_all
  then show ?thesis
    by (auto simp: finish_upload_def Let_def split: sum.split
      intro: quiet_run_send [OF calm_run_refl] calm_quiet calm_run_enqueue)
qed

lemma quiet_from: "quiet_run b d c' \<Longrightarrow> uploadingEnabled d = uploadingEnabled c \<Longrightarrow> uploadOut d = uploadOut c \<Longrightarrow> quiet_run b c c'"
  by (simp add: quiet_run_def)

lemma done_quiet: "quiet_run b c (fst (upload_done e k (c, s)))" "quiet_run b c (fst (device_upload_done e k d (c, s)))"
  by (auto simp: upload_done_def device_upload_done_def calm_quiet calm_run_refl split: option.split prod.split
      intro!: quiet_from [OF finish_quiet])

lemma trigger_quiet: "quiet_run (uploadingEnabled c) c (fst (change_triggered e p (c, s)))"
proof (cases "uploadingEnabled c")
  case True
  with upload_next_quiet [of "activeUploads c = []" c e p s] show ?thesis
    by (auto simp: change_triggered_def quiet_run_def)
qed (simp add: change_triggered_def calm_quiet calm_run_refl)

lemma queued_quiet: "quiet_run False c (fst (run_queued e p (c, s)))"
  by (auto simp: run_queued_def calm_quiet calm_run_refl Let_def split: list.split queued_call.split
      intro!: quiet_from [OF upload_next_quiet] quiet_from [OF done_quiet(1)])

end
