(* ===== verification/EngineProps.thy ===== *)
theory EngineProps
  imports Engine UploadSignals ConnectorProps
begin

text \<open>
  What every step of the engine keeps: uploads and merging are enabled only in the states that stand for
  a connected device, and the error state has its message; the signals say all of the state. Composed
  with the connector, an engine that is connected belongs to a connector that is idle.
\<close>

section \<open>The invariant of the engine\<close>

definition live :: "engine \<Rightarrow> bool" where
  "live en \<longleftrightarrow> syncState en \<in> {Downloading, Uploading, Synchronized}"

definition engine_inv :: "engine \<Rightarrow> bool" where
  "engine_inv en \<longleftrightarrow> (uploadingEnabled (uploads en) \<longrightarrow> syncState en = Uploading \<or> syncState en = Synchronized) \<and>
     (sync_enabled (merger en) \<longrightarrow> live en \<or> syncState en = ErrorState) \<and>
     (lastError en = None \<longleftrightarrow> syncState en \<noteq> ErrorState)"

lemma tell_fields [simp]:
  "syncState (tell x en) = syncState en" "progressCurrent (tell x en) = progressCurrent en" "progressMax (tell x en) = progressMax en"
  "progressAllowed (tell x en) = progressAllowed en" "lastError (tell x en) = lastError en" "uploads (tell x en) = uploads en"
  "merger (tell x en) = merger en" "localStore (tell x en) = localStore en" "engineOut (tell x en) = engineOut en @ [x]"
  by (simp_all add: tell_def)

lemma upstate_fields [simp]:
  "syncState (snd (upstate s en)) = s" "lastError (snd (upstate s en)) = lastError en" "uploads (snd (upstate s en)) = uploads en"
  "merger (snd (upstate s en)) = merger en" "localStore (snd (upstate s en)) = localStore en"
  "progressAllowed (snd (upstate s en)) = progressAllowed en"
  by (simp_all add: upstate_def)

lemma progress_fields [simp]:
  "syncState (reset_progress c en) = syncState en" "lastError (reset_progress c en) = lastError en"
  "uploads (reset_progress c en) = uploads en" "merger (reset_progress c en) = merger en" "localStore (reset_progress c en) = localStore en"
  "syncState (add_progress d n en) = syncState en" "lastError (add_progress d n en) = lastError en"
  "uploads (add_progress d n en) = uploads en" "merger (add_progress d n en) = merger en" "localStore (add_progress d n en) = localStore en"
  "syncState (increment_progress d en) = syncState en" "lastError (increment_progress d en) = lastError en"
  "uploads (increment_progress d en) = uploads en" "merger (increment_progress d en) = merger en"
  "localStore (increment_progress d en) = localStore en"
  by (simp_all add: reset_progress_def add_progress_def increment_progress_def Let_def)

lemma syncing_fields [simp]:
  "syncState (engine_syncing b en) = syncState en" "lastError (engine_syncing b en) = lastError en"
  "uploads (engine_syncing b en) = uploads en" "sync_enabled (merger (engine_syncing b en)) = b"
  "localStore (engine_syncing b en) = localStore en" "engineOut (engine_syncing b en) = engineOut en"
  "progressMax (engine_syncing b en) = progressMax en" "progressCurrent (engine_syncing b en) = progressCurrent en"
  by (simp_all add: engine_syncing_def SyncController.set_sync_enabled_def)

lemma clear_error_fields [simp]:
  "syncState (clear_error en) = syncState en" "lastError (clear_error en) = None" "uploads (clear_error en) = uploads en"
  "merger (clear_error en) = merger en" "localStore (clear_error en) = localStore en"
  by (simp_all add: clear_error_def)

lemma uploading_changed_fields [simp]:
  "lastError (uploading_changed b en) = lastError en" "uploads (uploading_changed b en) = uploads en"
  "merger (uploading_changed b en) = merger en" "localStore (uploading_changed b en) = localStore en"
  by (simp_all add: uploading_changed_def upstate_def split: prod.split)

lemma uploading_changed_state:
  "syncState (uploading_changed b en) =
     (if syncState en = ErrorState then ErrorState else if b then Uploading
      else if syncState en = Uploading then Synchronized else syncState en)"
  by (simp add: uploading_changed_def upstate_def split: prod.split)

text \<open>Clearing the uploads only disables them: it signals once that nothing is uploaded.\<close>

lemma engine_clear_eq:
  "engine_clear_uploads ee en = uploading_changed False (en\<lparr>uploads := (uploads en)\<lparr>uploadingEnabled := False,
     upload_ctl.opTimer := False, activeUploads := [], changeEstimate := 0, uploadOut := []\<rparr>\<rparr>)"
  by (simp add: engine_clear_uploads_def run_slot_def clear_eq send_def)

lemma clear_state:
  "syncState (engine_clear_uploads ee en) = (if syncState en = Uploading then Synchronized else syncState en)"
  "lastError (engine_clear_uploads ee en) = lastError en" "\<not> uploadingEnabled (uploads (engine_clear_uploads ee en))"
  "merger (engine_clear_uploads ee en) = merger en" "localStore (engine_clear_uploads ee en) = localStore en"
  "activeUploads (uploads (engine_clear_uploads ee en)) = []"
  by (simp_all add: engine_clear_eq uploading_changed_state)

lemma disable_slot_eq: "engine_uploading ee False en = uploading_changed False (en\<lparr>uploads := (uploads en)\<lparr>uploadingEnabled := False,
    upload_ctl.opTimer := False, uploadOut := []\<rparr>\<rparr>)"
  by (simp add: engine_uploading_def upload_slot_def run_slot_def disable_eq handle_signal_def send_def)

lemma disable_state:
  "syncState (engine_uploading ee False en) = (if syncState en = Uploading then Synchronized else syncState en)"
  "lastError (engine_uploading ee False en) = lastError en" "\<not> uploadingEnabled (uploads (engine_uploading ee False en))"
  "merger (engine_uploading ee False en) = merger en"
  by (simp_all add: disable_slot_eq uploading_changed_state)

lemma error_inv: "engine_inv (controller_error ee msg en)" "syncState (controller_error ee msg en) = ErrorState"
  "lastError (controller_error ee msg en) = Some msg" "\<not> uploadingEnabled (uploads (controller_error ee msg en))"
  by (simp_all add: controller_error_def engine_inv_def clear_state)

text \<open>A signal of the upload controller: \<open>b\<close> says that it may start to upload.\<close>

definition ready_inv :: "bool \<Rightarrow> bool \<Rightarrow> engine \<Rightarrow> bool" where
  "ready_inv l b en \<longleftrightarrow> engine_inv en \<and> (live en \<longrightarrow> l) \<and> (b \<longrightarrow> syncState en \<in> {Uploading, Synchronized, ErrorState})"

lemma handle_signal_inv:
  assumes "ready_inv l b en" "x = UploadingChanged True \<longrightarrow> b \<and> l"
  shows "ready_inv l b (handle_signal ee x en)"
proof (cases x)
  case (UploadingChanged c)
  with assms show ?thesis
    by (auto simp: handle_signal_def ready_inv_def engine_inv_def live_def uploading_changed_state)
next
  case ChangeError
  then show ?thesis
    by (simp add: handle_signal_def ready_inv_def error_inv live_def)
qed (use assms in \<open>auto simp: handle_signal_def ready_inv_def engine_inv_def live_def\<close>)

lemma fold_inv: "(\<And>x s. x \<in> set xs \<Longrightarrow> P s \<Longrightarrow> P (h x s)) \<Longrightarrow> P s \<Longrightarrow> P (fold h xs s)"
  by (induction xs arbitrary: s) auto

lemma upload_slot_inv:
  assumes "engine_inv en"
    and "quiet_run b ((uploads en)\<lparr>uploadOut := [], uploadingEnabled := n\<rparr>) (fst (f ((uploads en)\<lparr>uploadOut := []\<rparr>, localStore en)))"
    and "b \<or> n \<longrightarrow> syncState en = Uploading \<or> syncState en = Synchronized"
  shows "engine_inv (upload_slot ee f en) \<and> (live (upload_slot ee f en) \<longrightarrow> live en)"
proof -
  obtain c s where cs: "f ((uploads en)\<lparr>uploadOut := []\<rparr>, localStore en) = (c, s)" by fastforce
  with assms(2) have q: "quiet_run b ((uploads en)\<lparr>uploadOut := [], uploadingEnabled := n\<rparr>) c" by simp
  let ?en = "en\<lparr>uploads := c\<lparr>uploadOut := []\<rparr>, localStore := s\<rparr>"
  have "ready_inv (live en) b ?en"
    using assms(1,3) quiet_enabled [OF q] by (auto simp: ready_inv_def engine_inv_def live_def)
  moreover have "ready_inv (live en) b (handle_signal ee x t)" if "x \<in> set (uploadOut c)" "ready_inv (live en) b t" for x t
  proof (rule handle_signal_inv [OF that(2)], rule impI)
    assume "x = UploadingChanged True"
    with that(1) quiet_out [OF q] have b by auto
    with assms(3) show "b \<and> live en" by (auto simp: live_def)
  qed
  ultimately have "ready_inv (live en) b (fold (handle_signal ee) (uploadOut c) ?en)"
    by (rule fold_inv [rotated])
  with cs show ?thesis by (simp add: upload_slot_def run_slot_def ready_inv_def)
qed

text \<open>One step of the engine.\<close>

definition goes_live :: "engine_call \<Rightarrow> bool" where
  "goes_live c \<longleftrightarrow> c = Relay (RemoteEvent RemoteReady) \<or> c = Relay (RemoteEvent RemoteReadyWithChanges)"

definition goes_down :: "engine_call \<Rightarrow> bool" where
  "goes_down c \<longleftrightarrow> c = Relay (RemoteEvent RemoteDisconnected) \<or> c = Relay (RemoteEvent RemoteConnecting)"

lemma same_enabled: "c\<lparr>uploadOut := [], uploadingEnabled := uploadingEnabled c\<rparr> = c\<lparr>uploadOut := []\<rparr>"
  by simp

lemma plain_slot_inv:
  assumes "engine_inv en" "\<And>c s. quiet_run (uploadingEnabled c) c (fst (f (c, s)))"
  shows "engine_inv (upload_slot ee f en) \<and> (live (upload_slot ee f en) \<longrightarrow> live en)"
  using assms(1)
proof (rule upload_slot_inv [where b = "uploadingEnabled (uploads en)" and n = "uploadingEnabled (uploads en)"])
  show "quiet_run (uploadingEnabled (uploads en)) ((uploads en)\<lparr>uploadOut := [], uploadingEnabled := uploadingEnabled (uploads en)\<rparr>)
     (fst (f ((uploads en)\<lparr>uploadOut := []\<rparr>, localStore en)))"
    using assms(2) [of "(uploads en)\<lparr>uploadOut := []\<rparr>" "localStore en"] by (simp add: same_enabled)
qed (use assms(1) in \<open>auto simp: engine_inv_def\<close>)

lemma remote_event_inv:
  assumes "engine_inv en"
  shows "engine_inv (engine_remote_event ee ev en) \<and>
    (ev = RemoteDisconnected \<or> ev = RemoteConnecting \<longrightarrow> \<not> live (engine_remote_event ee ev en))"
proof (cases "syncState en = ErrorState \<and> ev \<noteq> RemoteConnecting")
  case True
  with assms show ?thesis by (simp add: engine_remote_event_def live_def)
next
  case False
  show ?thesis
  proof (cases ev)
    case RemoteReady
    let ?en = "engine_syncing True (reset_progress (Some ChangeControl) (snd (upstate Uploading en)))"
    have i: "engine_inv ?en" using assms False RemoteReady by (auto simp: engine_inv_def live_def)
    have "quiet_run True ((uploads ?en)\<lparr>uploadOut := [], uploadingEnabled := True\<rparr>)
        (fst (set_uploading_enabled (storeEnv ee) (sync_cfg.prims (syncCfg ee)) True ((uploads ?en)\<lparr>uploadOut := []\<rparr>, localStore ?en)))"
      by (rule enable_quiet)
    from upload_slot_inv [where f = "set_uploading_enabled (storeEnv ee) (sync_cfg.prims (syncCfg ee)) True", OF i this] False RemoteReady show ?thesis
      by (simp add: engine_remote_event_def engine_uploading_def)
  next
    case RemoteReadyWithChanges
    obtain c en1 where u: "upstate Downloading en = (c, en1)" by fastforce
    with upstate_fields [of Downloading en] have "syncState en1 = Downloading" "lastError en1 = lastError en" by simp_all
    with u assms False RemoteReadyWithChanges show ?thesis
      by (simp add: engine_remote_event_def engine_inv_def live_def disable_state)
  qed (use assms False in \<open>auto simp: engine_remote_event_def engine_inv_def live_def clear_state\<close>)
qed

lemma fold_sync_inv: "engine_inv en \<Longrightarrow> engine_inv (fold (on_sync_signal ee) xs en) \<and> (live (fold (on_sync_signal ee) xs en) \<longrightarrow> live en)"
proof (induction xs arbitrary: en)
  case (Cons x xs)
  have "engine_inv (on_sync_signal ee x en) \<and> (live (on_sync_signal ee x en) \<longrightarrow> live en)"
    using Cons.prems by (cases x) (simp_all add: error_inv live_def engine_inv_def)
  with Cons.IH [of "on_sync_signal ee x en"] show ?case by simp
qed simp

lemma sync_change_enabled: "sync_enabled (fst (sync_change e cfg k d (c, s))) = sync_enabled c"
  by (simp add: sync_change_def split: sum.split prod.split)

lemma download_data_inv: "engine_inv en \<Longrightarrow> engine_inv (download_data ee k d en) \<and> (live (download_data ee k d en) \<longrightarrow> live en)"
proof -
  assume i: "engine_inv en"
  obtain c s where cs: "sync_change (storeEnv ee) (syncCfg ee) k d ((merger en)\<lparr>sync_out := []\<rparr>, localStore en) = (c, s)" by fastforce
  with sync_change_enabled [of "storeEnv ee" "syncCfg ee" k d "(merger en)\<lparr>sync_out := []\<rparr>" "localStore en"]
  have "sync_enabled c = sync_enabled (merger en)" by simp
  with i have "engine_inv (en\<lparr>merger := c\<lparr>sync_out := []\<rparr>, localStore := s\<rparr>)" by (simp add: engine_inv_def live_def)
  from fold_sync_inv [OF this, of ee "sync_out c"] cs show ?thesis by (simp add: download_data_def live_def)
qed

lemma relay_inv:
  assumes "engine_inv en"
  shows "engine_inv (relay ee x en) \<and> (live (relay ee x en) \<longrightarrow>
    (case x of RemoteEvent ev \<Rightarrow> ev = RemoteReady \<or> ev = RemoteReadyWithChanges | _ \<Rightarrow> live en))"
proof (cases x)
  case (RemoteEvent ev)
  with remote_event_inv [OF assms, of ee ev] show ?thesis by (cases ev) (simp_all add: relay_def)
next
  case (UploadDone k)
  with plain_slot_inv [OF assms, where f = "upload_done (storeEnv ee) k"] done_quiet show ?thesis by (simp add: relay_def)
next
  case (DeviceUploadDone k d)
  with plain_slot_inv [OF assms, where f = "device_upload_done (storeEnv ee) k d"] done_quiet show ?thesis by (simp add: relay_def)
next
  case (DownloadData k d)
  with download_data_inv [OF assms] show ?thesis by (simp add: relay_def)
qed (use assms error_inv in
  \<open>simp_all add: relay_def engine_inv_def live_def update_upload_limit_def controller_timeout_def\<close>)

lemma engine_reset_inv: "engine_inv en \<Longrightarrow> engine_inv (snd (engine_reset ee b1 b2 en)) \<and> (live (snd (engine_reset ee b1 b2 en)) \<longrightarrow> live en)"
  by (auto simp: engine_reset_def Let_def engine_inv_def live_def clear_state split: sum.split prod.split)

lemma engine_step_inv:
  assumes "engine_inv en"
  shows "engine_inv (engine_step ee c en) \<and> (live (engine_step ee c en) \<longrightarrow> live en \<or>
    c = Relay (RemoteEvent RemoteReady) \<or> c = Relay (RemoteEvent RemoteReadyWithChanges))"
proof (cases c)
  case (Relay x)
  with relay_inv [OF assms, of ee x] show ?thesis by (auto simp: engine_step_def split: conn_effect.splits)
next
  case UploadNeeded
  with plain_slot_inv [OF assms, where f = "change_triggered (storeEnv ee) (sync_cfg.prims (syncCfg ee))"] trigger_quiet
  show ?thesis by (simp add: engine_step_def)
next
  case RunQueued
  have "quiet_run (uploadingEnabled c) c (fst (run_queued e p (c, s)))" for c e p s
    using queued_quiet [of c e p s] by (auto simp: quiet_run_def)
  with RunQueued plain_slot_inv [OF assms, where f = "run_queued (storeEnv ee) (sync_cfg.prims (syncCfg ee))"]
  show ?thesis by (simp add: engine_step_def)
next
  case (EngineReset b1 b2)
  with engine_reset_inv [OF assms] show ?thesis by (simp add: engine_step_def)
qed (use assms in \<open>auto simp: engine_step_def engine_inv_def live_def controller_timeout_def engine_finalize_def\<close>)

section \<open>What the signals say\<close>

text \<open>An observer that knows the signals only.\<close>

fun observe :: "engine_effect \<Rightarrow> sync_state \<times> rat \<times> string option \<Rightarrow> sync_state \<times> rat \<times> string option" where
  "observe (StateChanged s) (_, p, x) = (s, p, x)"
| "observe (ProgressChanged p) (s, _, x) = (s, p, x)"
| "observe (LastErrorChanged x) (s, p, _) = (s, p, x)"
| "observe (Ask c) x = x"

definition observed :: "engine_effect list \<Rightarrow> sync_state \<times> rat \<times> string option" where
  "observed xs = fold observe xs (Initializing, -1, None)"

text \<open>Since the signals \<open>old\<close>, after which the observer knew \<open>b\<close>.\<close>

definition says_since :: "engine_effect list \<Rightarrow> sync_state \<times> rat \<times> string option \<Rightarrow> engine \<Rightarrow> bool" where
  "says_since old b en \<longleftrightarrow> length old \<le> length (engineOut en) \<and> take (length old) (engineOut en) = old \<and>
     fold observe (drop (length old) (engineOut en)) b = (syncState en, progress en, lastError en)"

abbreviation says_all :: "engine \<Rightarrow> bool" where
  "says_all \<equiv> says_since [] (Initializing, -1, None)"

lemma says_indifferent: "says_since old x0 en \<Longrightarrow> syncState en' = syncState en \<Longrightarrow> progressCurrent en' = progressCurrent en \<Longrightarrow>
    progressMax en' = progressMax en \<Longrightarrow> lastError en' = lastError en \<Longrightarrow> engineOut en' = engineOut en \<Longrightarrow> says_since old x0 en'"
  by (simp add: says_since_def progress_def)

lemma says_tell: "says_since old x0 en \<Longrightarrow> says_since old x0 (tell (Ask c) en)"
  by (simp add: says_since_def progress_def)

lemma says_upstate: "says_since old x0 en \<Longrightarrow> says_since old x0 (snd (upstate s en))"
  by (simp add: says_since_def progress_def upstate_def)

lemma says_clear_error: "says_since old x0 en \<Longrightarrow> says_since old x0 (clear_error en)"
  by (simp add: says_since_def progress_def clear_error_def)

lemma says_progress:
  "says_since old x0 en \<Longrightarrow> says_since old x0 (reset_progress c en)" "says_since old x0 en \<Longrightarrow> says_since old x0 (add_progress d n en)"
  "says_since old x0 en \<Longrightarrow> says_since old x0 (increment_progress d en)"
  by (simp_all add: says_since_def progress_def reset_progress_def add_progress_def increment_progress_def Let_def)

lemma says_syncing: "says_since old x0 en \<Longrightarrow> says_since old x0 (engine_syncing b en)"
  by (erule says_indifferent) (simp_all add: engine_syncing_def)

lemma says_uploading_changed: "says_since old x0 en \<Longrightarrow> says_since old x0 (uploading_changed b en)"
  using says_upstate [of old x0 en Uploading]
  by (auto simp: uploading_changed_def intro: says_progress says_upstate split: prod.split)

lemma says_clear: "says_since old x0 en \<Longrightarrow> says_since old x0 (engine_clear_uploads ee en)"
  unfolding engine_clear_eq by (rule says_uploading_changed, erule says_indifferent) simp_all

lemma says_error: "says_since old x0 en \<Longrightarrow> says_since old x0 (controller_error ee msg en)"
  unfolding controller_error_def
  by (intro says_clear says_tell says_upstate) (simp add: says_since_def progress_def)

lemma says_handle: "says_since old x0 en \<Longrightarrow> says_since old x0 (handle_signal ee x en)"
  by (cases x) (simp_all add: handle_signal_def says_error says_uploading_changed says_progress says_tell)

lemma says_slot: "says_since old x0 en \<Longrightarrow> says_since old x0 (upload_slot ee f en)"
proof -
  assume s: "says_since old x0 en"
  obtain c t where "f ((uploads en)\<lparr>uploadOut := []\<rparr>, localStore en) = (c, t)" by fastforce
  moreover have "says_since old x0 (fold (handle_signal ee) (uploadOut c) (en\<lparr>uploads := c\<lparr>uploadOut := []\<rparr>, localStore := t\<rparr>))"
    by (rule fold_inv) (use says_handle says_indifferent [OF s] in auto)
  ultimately show ?thesis by (simp add: upload_slot_def run_slot_def)
qed

lemma says_remote_event:
  assumes "says_since old x0 en"
  shows "says_since old x0 (engine_remote_event ee ev en)"
proof (cases "syncState en = ErrorState \<and> ev \<noteq> RemoteConnecting")
  case True
  with assms show ?thesis by (simp add: engine_remote_event_def)
next
  case False
  note up = says_upstate [OF assms]
  show ?thesis
  proof (cases ev)
    case RemoteDisconnected
    from up have "says_since old x0 (engine_clear_uploads ee (engine_syncing False (reset_progress None (snd (upstate DisconnectedState en)))))"
      by (intro says_clear says_syncing says_progress)
    with False RemoteDisconnected show ?thesis by (simp add: engine_remote_event_def)
  next
    case RemoteConnecting
    from up have "says_since old x0 (engine_clear_uploads ee (engine_syncing False (clear_error (reset_progress None (snd (upstate Initializing en))))))"
      by (intro says_clear says_syncing says_clear_error says_progress)
    with False RemoteConnecting show ?thesis by (simp add: engine_remote_event_def)
  next
    case RemoteReady
    from up have "says_since old x0 (engine_uploading ee True (engine_syncing True (reset_progress (Some ChangeControl) (snd (upstate Uploading en)))))"
      unfolding engine_uploading_def by (intro says_slot says_syncing says_progress)
    with False RemoteReady show ?thesis by (simp add: engine_remote_event_def)
  next
    case RemoteReadyWithChanges
    obtain b en1 where u: "upstate Downloading en = (b, en1)" by fastforce
    with up [of Downloading] have "says_since old x0 en1" by simp
    then have "says_since old x0 (engine_uploading ee False (engine_syncing True (if b then reset_progress (Some RemoteControl) en1 else en1)))"
      unfolding engine_uploading_def by (cases b) (auto intro!: says_slot says_syncing says_progress)
    with u False RemoteReadyWithChanges show ?thesis by (simp add: engine_remote_event_def)
  qed
qed

lemma says_download: "says_since old x0 en \<Longrightarrow> says_since old x0 (download_data ee k d en)"
proof -
  assume s: "says_since old x0 en"
  have "says_since old x0 (on_sync_signal ee x en)" if "says_since old x0 en" for x en
    using that by (cases x) (simp_all add: says_tell says_error)
  moreover obtain c t where "sync_change (storeEnv ee) (syncCfg ee) k d ((merger en)\<lparr>sync_out := []\<rparr>, localStore en) = (c, t)" by fastforce
  moreover have "says_since old x0 (en\<lparr>merger := c\<lparr>sync_out := []\<rparr>, localStore := t\<rparr>)" by (rule says_indifferent [OF s]) simp_all
  ultimately show ?thesis by (simp add: download_data_def fold_inv)
qed

lemma says_store: "says_since old x0 en \<Longrightarrow> says_since old x0 (en\<lparr>localStore := s\<rparr>)" "says_since old x0 en \<Longrightarrow> says_since old x0 (en\<lparr>uploads := c\<rparr>)"
  by (erule says_indifferent; simp)+

lemma says_relay: "says_since old x0 en \<Longrightarrow> says_since old x0 (relay ee x en)"
  by (cases x) (simp_all add: relay_def says_remote_event says_slot says_download says_progress says_error controller_timeout_def says_tell
      says_store)

lemma says_reset: "says_since old x0 en \<Longrightarrow> says_since old x0 (snd (engine_reset ee b1 b2 en))"
  using says_clear [OF says_syncing, of old x0 en ee False]
  by (auto simp: engine_reset_def Let_def says_store says_tell split: sum.split prod.split)

lemma says_step: "says_since old x0 en \<Longrightarrow> says_since old x0 (engine_step ee c en)"
  by (cases c) (simp_all add: engine_step_def says_relay says_slot says_reset engine_finalize_def controller_timeout_def says_tell
      says_store)

section \<open>Only an idle connector leaves the engine connected\<close>

fun ready_step :: "conn_effect \<Rightarrow> bool \<Rightarrow> bool" where
  "ready_step (RemoteEvent ev) b = (ev = RemoteReady \<or> ev = RemoteReadyWithChanges)"
| "ready_step _ b = b"

definition readiness :: "conn_effect list \<Rightarrow> bool" where
  "readiness xs = fold ready_step xs False"

text \<open>The last the connector has said of its connection is true.\<close>

definition honest :: "connector \<Rightarrow> bool" where
  "honest w \<longleftrightarrow> (readiness (effects w) \<longrightarrow> smState w = IdleState)"

lemma readiness_append: "readiness (xs @ ys) = fold ready_step ys (readiness xs)"
  by (simp add: readiness_def)

lemma fold_ready: "fold ready_step ys b \<Longrightarrow> b \<or> (\<exists>ev. RemoteEvent ev \<in> set ys \<and> (ev = RemoteReady \<or> ev = RemoteReadyWithChanges))"
proof (induction ys arbitrary: b)
  case (Cons y ys)
  from Cons.IH [of "ready_step y b"] Cons.prems show ?case by (cases y) auto
qed simp

lemma frame_ready_state: "frame v w \<Longrightarrow> readiness (effects w) \<Longrightarrow> readiness (effects v) \<or> smState v = IdleState"
proof -
  assume "frame v w" "readiness (effects w)"
  then obtain xs where xs: "effects w = effects v @ xs" "\<forall>x \<in> set xs. allowed (smState v) x"
    unfolding frame_def by blast
  with fold_ready [of xs "readiness (effects v)"] \<open>readiness (effects w)\<close> show ?thesis
    by (fastforce simp: readiness_append allowed_def)
qed

lemma honest_frame: "frame v w \<Longrightarrow> honest v \<Longrightarrow> honest w"
  using frame_ready_state [of v w] frame_state [of v w] by (auto simp: honest_def)

lemma disconnect_readiness: "readiness (effects (snd (do_disconnect w))) = readiness (effects w)"
  by (simp add: do_disconnect_def submit_event_def begin_special_op_def begin_op_def close_socket_def upd_socket_def signal_def
      act_simps readiness_append split: option.split socket_state.split)

text \<open>Leaving the idle state says that the connection is lost.\<close>

lemma leave_readiness:
  assumes "honest w" "proofs_when_idle w" "may_move (smState w) t" "leave (smState w) ev t w = (r, u)"
  shows "\<not> readiness (effects u)"
proof (cases "smState w = IdleState")
  case True
  let ?x = "snd (on_exit_active w)"
  from True assms(3) have "leave (smState w) ev t w = (if ev = Some EvReconnect then do_disconnect ?x else (Inr (), ?x))"
    by (simp add: leave_def on_exit_active_eq seq_def ret_def may_move_def active_def)
  with assms(4) have "u = snd (do_disconnect ?x) \<or> u = ?x" by (metis snd_conv)
  moreover have "\<not> readiness (effects ?x)" by (simp add: on_exit_active_eq readiness_append)
  ultimately show ?thesis using disconnect_readiness [of ?x] by auto
next
  case False
  with assms(1) have n: "\<not> readiness (effects w)" by (simp add: honest_def)
  from keepsD [OF frame_leave frame_refl [OF assms(2)], of "smState w" ev t] assms(4) have "frame w u" by simp
  from frame_ready_state [OF this] n False show ?thesis by blast
qed

lemma honest_entry:
  assumes "honest w" "proofs_when_idle w" "smState w = t"
  shows "honest (snd (entry e t w))"
proof (cases "is_final t")
  case True
  with assms show ?thesis
    by (cases "isClosing w") (auto simp: entry_def is_final_def on_finished_def honest_def readiness_append signal_def act_simps)
next
  case False
  from keepsD [OF frame_entry [OF False assms(3)] frame_refl [OF assms(2)]] have "frame w (snd (entry e t w))" .
  from honest_frame [OF this assms(1)] show ?thesis .
qed

lemma honest_move:
  assumes "honest w" "proofs_when_idle w" "may_move (smState w) t"
  shows "honest (snd (move e ev t w))"
proof -
  obtain u where u: "leave (smState w) ev t w = (Inr (), u)"
    "active (smState w) \<Longrightarrow> \<not> active t \<Longrightarrow> activeProofs u = (\<lambda>_. None)"
    "\<not> (active (smState w) \<and> \<not> active t) \<Longrightarrow> activeProofs u = activeProofs w"
    using leave_Inr by metis
  let ?u = "u\<lparr>smState := t\<rparr>"
  have "activeProofs u = (\<lambda>_. None)"
    using u(2,3) assms(2,3) by (cases "smState w = IdleState") (auto simp: proofs_when_idle_def proofs_at_def may_move_def active_def)
  then have "proofs_when_idle ?u" by (simp add: proofs_when_idle_def)
  moreover from leave_readiness [OF assms u(1)] have "honest ?u" by (simp add: honest_def)
  moreover have "move e ev t w = entry e t ?u" by (simp add: move_leave seq_def [of "leave (smState w) ev t"] u(1))
  ultimately show ?thesis using honest_entry [of ?u t e] by simp
qed

lemma honest_same: "honest w \<Longrightarrow> smState v = smState w \<Longrightarrow> effects v = effects w \<Longrightarrow> honest v"
  by (simp add: honest_def)

lemma honest_take:
  assumes "honest w" "proofs_when_idle w"
  shows "honest (snd (take_event e ev rest w))"
proof (cases "event_target (smState w) ev")
  case None
  with assms show ?thesis by (simp add: take_event_def ret_def honest_def)
next
  case (Some t)
  let ?w = "w\<lparr>smQueue := rest\<rparr>"
  have "honest ?w" "proofs_when_idle ?w" using assms by (simp_all add: honest_def proofs_when_idle_def proofs_at_def)
  moreover have "may_move (smState ?w) t" using event_target_may_move [OF Some] by simp
  ultimately show ?thesis using Some honest_move [of ?w t e "Some ev"] by (simp add: take_event_def)
qed

lemma honest_settle:
  assumes "honest w" "proofs_when_idle w"
  shows "honest (snd (settle e w))"
proof (cases "if isClosing w then closing_target (smState w) else None")
  case None
  with assms show ?thesis by (auto simp: settle_def ret_def split: if_splits)
next
  case (Some t)
  then have "may_move (smState w) t" using closing_target_may_move by (auto split: if_splits)
  from honest_move [OF assms this, of e None] Some show ?thesis by (simp add: settle_def)
qed

lemma honest_dispatch:
  assumes "honest w" "proofs_when_idle w"
  shows "honest (snd (dispatch e w))"
proof (cases "smQueue w")
  case Nil
  with assms show ?thesis by (simp add: dispatch_def ret_def)
next
  case (Cons ev rest)
  obtain r1 v1 where 1: "take_event e ev rest w = (r1, v1)" by fastforce
  with honest_take [OF assms, of e ev rest] take_event_sends [OF assms(2), of e ev rest]
  have v1: "honest v1" "proofs_when_idle v1" by simp_all
  obtain r2 v2 where 2: "settle e v1 = (r2, v2)" by fastforce
  with honest_settle [OF v1, of e] have "honest v2" by simp
  with honest_same [OF this stable_frame(1,3)] v1 1 2 Cons show ?thesis
    by (auto simp: dispatch_eq seq_def split: sum.split)
qed

lemma connecting_readiness: "honest (snd (do_connect e w))" if "smState w = Connecting" "proofs_when_idle w" for w
proof -
  let ?u = "w\<lparr>effects := effects w @ [RemoteEvent RemoteConnecting]\<rparr>"
  have eq: "do_connect e w = seq (check_can_sync e) (\<lambda>url. case url of
       None \<Rightarrow> submit_event EvNoConnect
     | Some u \<Rightarrow>
         seq (upd_socket (Some Unconnected)) (\<lambda>_. seq (gets csettings) (\<lambda>c.
         seq (if 0 < s_keepalive e c then modify (\<lambda>w. w\<lparr>pinging := True, awaitingPing := False\<rparr>)
              else modify (\<lambda>w. w\<lparr>pinging := False\<rparr>)) (\<lambda>_.
         seq (begin_special_op (minutes 1)) (\<lambda>_.
         seq (signal (OpenSocket u (s_access_key e c) (s_headers e c))) (\<lambda>_. upd_socket (Some SocketConnecting))))))) ?u"
    unfolding do_connect_def by (rule seq_Inr) (simp add: signal_def modify_def)
  have u: "honest ?u" "proofs_when_idle ?u" using that by (simp_all add: honest_def readiness_append proofs_when_idle_def proofs_at_def)
  have "frame ?u (snd (do_connect e w))"
    unfolding eq
    by (rule keepsD [where P = "frame ?u", OF _ frame_refl [OF u(2)]])
      (intro frame_check_can_sync frame_intro keeps_gets_seq keeps_seq; simp add: allowed_def)
  from honest_frame [OF this u(1)] show ?thesis .
qed

lemma honest_start:
  assumes "honest w" "proofs_when_idle w"
  shows "honest (snd (perform_call e Start w))"
proof (cases "smRunning w \<or> isClosing w")
  case True
  with assms show ?thesis by (auto simp: perform_call_def start_def ret_def)
next
  case False
  let ?u = "w\<lparr>smRunning := True, smState := Connecting\<rparr>"
  have pu: "proofs_when_idle ?u" using assms(2) False by (simp add: proofs_when_idle_def proofs_at_def)
  obtain r v where rv: "entry e Connecting ?u = (r, v)" by fastforce
  from connecting_readiness [OF _ pu, of e] rv have v: "honest v" by (simp add: entry_def)
  from entry_sends [OF pu, of Connecting e] rv False have "\<not> isClosing v" by simp
  then have st: "settle e v = (Inr (), v)" by (simp add: settle_def ret_def)
  have "perform_call e Start w = (case r of Inl x \<Rightarrow> (Inl x, v) | Inr _ \<Rightarrow> stable v)"
    using False rv st by (simp add: perform_call_def start_def seq_def [of "entry e Connecting"] seq_def [of "settle e"] split: sum.split)
  with v honest_same [OF v stable_frame(1,3)] show ?thesis by (auto split: sum.split)
qed

text \<open>Every call keeps it.\<close>

lemma honest_perform:
  assumes "honest w" "proofs_when_idle w"
  shows "honest (snd (perform_call e c w))"
proof (cases "moves c")
  case False
  from keepsD [OF frame_perform [OF False] frame_refl [OF assms(2)]] have "frame w (snd (perform_call e c w))" .
  from honest_frame [OF this assms(1)] show ?thesis .
next
  case True
  then consider "c = Start" | "c = Dispatch" | "c = Finalize" | "c = CloseTimeout" by (auto simp: moves_def)
  then show ?thesis
  proof cases
    case 3
    with assms show ?thesis
      by (auto simp: perform_call_def finalize_def with_keys_def submit_event_def signal_def act_defs seq_def honest_def readiness_append
          split: prod.splits sum.splits)
  next
    case 4
    with assms show ?thesis
      by (auto simp: perform_call_def close_timeout_def close_socket_def upd_socket_def signal_def act_defs seq_def honest_def readiness_append)
  next
    case 2
    with assms honest_dispatch [OF assms, of e] show ?thesis by (simp add: perform_call_def ret_def)
  qed (simp add: honest_start [OF assms])
qed

section \<open>A connector that is idle runs\<close>

definition idle_runs :: "connector \<Rightarrow> bool" where
  "idle_runs w \<longleftrightarrow> smState w = IdleState \<longrightarrow> smRunning w \<or> isClosing w"

lemma frame_runs: "frame v w \<Longrightarrow> idle_runs v \<Longrightarrow> idle_runs w"
  by (simp add: idle_runs_def frame_def)

lemma move_runs:
  assumes "proofs_when_idle w" "may_move (smState w) t" "smRunning w \<or> isClosing w"
  shows "idle_runs (snd (move e ev t w))"
proof -
  obtain u where u: "leave (smState w) ev t w = (Inr (), u)"
    "active (smState w) \<Longrightarrow> \<not> active t \<Longrightarrow> activeProofs u = (\<lambda>_. None)"
    "\<not> (active (smState w) \<and> \<not> active t) \<Longrightarrow> activeProofs u = activeProofs w"
    using leave_Inr by metis
  from keepsD [OF frame_leave frame_refl [OF assms(1)], of "smState w" ev t] u(1) have fr: "frame w u" by simp
  let ?u = "u\<lparr>smState := t\<rparr>"
  have "activeProofs u = (\<lambda>_. None)"
    using u(2,3) assms(1,2) by (cases "smState w = IdleState") (auto simp: proofs_when_idle_def proofs_at_def may_move_def active_def)
  then have pu: "proofs_when_idle ?u" by (simp add: proofs_when_idle_def)
  have eq: "move e ev t w = entry e t ?u" by (simp add: move_leave seq_def [of "leave (smState w) ev t"] u(1))
  show ?thesis
  proof (cases "is_final t")
    case True
    with entry_sends [OF pu, of t e] eq show ?thesis by (auto simp: idle_runs_def is_final_def sends_def)
  next
    case False
    from keepsD [OF frame_entry [OF False, of ?u] frame_refl [OF pu], of e] have "frame ?u (snd (entry e t ?u))" by simp
    moreover have "idle_runs ?u" using fr assms(3) by (simp add: idle_runs_def frame_def)
    ultimately show ?thesis using eq frame_runs by simp
  qed
qed

lemma take_runs:
  assumes "proofs_when_idle w" "smRunning w"
  shows "idle_runs (snd (take_event e ev rest w))"
proof (cases "event_target (smState w) ev")
  case None
  with assms show ?thesis by (simp add: take_event_def ret_def idle_runs_def)
next
  case (Some t)
  let ?w = "w\<lparr>smQueue := rest\<rparr>"
  have "proofs_when_idle ?w" using assms by (simp add: proofs_when_idle_def proofs_at_def)
  from move_runs [OF this, of t e "Some ev"] event_target_may_move [OF Some] assms(2) Some show ?thesis by (simp add: take_event_def)
qed

lemma settle_runs: "idle_runs w \<Longrightarrow> proofs_when_idle w \<Longrightarrow> idle_runs (snd (settle e w))"
proof (cases "if isClosing w then closing_target (smState w) else None")
  case (Some t)
  assume p: "proofs_when_idle w"
  from Some have "may_move (smState w) t" "isClosing w" using closing_target_may_move by (auto split: if_splits)
  with move_runs [OF p, of t e None] Some show ?thesis by (simp add: settle_def)
qed (auto simp: settle_def ret_def split: if_splits)

lemma stable_runs: "idle_runs (snd (stable w)) = idle_runs w"
  by (simp add: stable_eq idle_runs_def)

lemma dispatch_runs:
  assumes "proofs_when_idle w" "smRunning w"
  shows "idle_runs (snd (dispatch e w))"
proof (cases "smQueue w")
  case Nil
  with assms show ?thesis by (simp add: dispatch_def ret_def idle_runs_def)
next
  case (Cons ev rest)
  obtain r1 v1 where 1: "take_event e ev rest w = (r1, v1)" by fastforce
  with take_runs [OF assms, of e ev rest] take_event_sends [OF assms(1), of e ev rest]
  have v1: "idle_runs v1" "proofs_when_idle v1" by simp_all
  obtain r2 v2 where 2: "settle e v1 = (r2, v2)" by fastforce
  with settle_runs [OF v1, of e] have "idle_runs v2" by simp
  with v1 1 2 Cons stable_runs [of v2] show ?thesis
    by (auto simp: dispatch_eq seq_def split: sum.split)
qed

lemma start_runs:
  assumes "idle_runs w" "proofs_when_idle w"
  shows "idle_runs (snd (perform_call e Start w))"
proof -
  from perform_conforms [OF assms(2), of Start e] have c: "conforms Start w (perform_call e Start w)" .
  show ?thesis
  proof (cases "smRunning w \<or> isClosing w")
    case True
    with assms show ?thesis by (auto simp: perform_call_def start_def ret_def)
  next
    case False
    let ?u = "w\<lparr>smRunning := True, smState := Connecting\<rparr>"
    have pu: "proofs_when_idle ?u" using assms(2) False by (simp add: proofs_when_idle_def proofs_at_def)
    obtain r v where rv: "entry e Connecting ?u = (r, v)" by fastforce
    from keepsD [OF frame_entry [of Connecting ?u] frame_refl [OF pu], of e] rv have "frame ?u v" by (simp add: is_final_def)
    then have v: "idle_runs v" "\<not> isClosing v" using False by (simp_all add: frame_def idle_runs_def)
    then have st: "settle e v = (Inr (), v)" by (simp add: settle_def ret_def)
    have "perform_call e Start w = (case r of Inl x \<Rightarrow> (Inl x, v) | Inr _ \<Rightarrow> stable v)"
      using False rv st by (simp add: perform_call_def start_def seq_def [of "entry e Connecting"] seq_def [of "settle e"] split: sum.split)
    with v stable_runs [of v] show ?thesis by (auto split: sum.split)
  qed
qed

text \<open>And a connector that has been told to finish stays so.\<close>

lemma perform_runs:
  assumes "idle_runs w" "proofs_when_idle w"
  shows "idle_runs (snd (perform_call e c w))"
proof (cases "moves c")
  case False
  from keepsD [OF frame_perform [OF False] frame_refl [OF assms(2)]] have "frame w (snd (perform_call e c w))" .
  from frame_runs [OF this assms(1)] show ?thesis .
next
  case True
  then consider "c = Start" | "c = Dispatch" | "c = Finalize" | "c = CloseTimeout" by (auto simp: moves_def)
  then show ?thesis
  proof cases
    case 3
    with assms show ?thesis
      by (auto simp: perform_call_def finalize_def with_keys_def submit_event_def signal_def act_defs seq_def idle_runs_def
          split: prod.splits sum.splits)
  next
    case 4
    with assms show ?thesis
      by (auto simp: perform_call_def close_timeout_def close_socket_def upd_socket_def signal_def act_defs seq_def idle_runs_def)
  next
    case 2
    with assms dispatch_runs [OF assms(2), of e] show ?thesis by (auto simp: perform_call_def ret_def)
  qed (simp add: start_runs [OF assms])
qed

lemma closing_stays:
  assumes "isClosing w" "proofs_when_idle w"
  shows "isClosing (snd (perform_call e c w))"
proof (cases "moves c")
  case False
  from keepsD [OF frame_perform [OF False] frame_refl [OF assms(2)]] have "frame w (snd (perform_call e c w))" .
  with assms(1) show ?thesis by (simp add: frame_def)
next
  case True
  then consider "c = Start" | "c = Dispatch" | "c = Finalize" | "c = CloseTimeout" by (auto simp: moves_def)
  then show ?thesis
  proof cases
    case 1
    with assms show ?thesis by (simp add: perform_call_def ret_def)
  next
    case 2
    show ?thesis
    proof (cases "smQueue w")
      case Nil
      with assms 2 show ?thesis by (simp add: perform_call_def dispatch_def ret_def)
    next
      case (Cons ev rest)
      obtain r v where "dispatch e w = (r, v)" by fastforce
      with dispatch_sends [OF assms(2) Cons this] assms(1) 2 show ?thesis by (simp add: perform_call_def ret_def)
    qed
  qed (use assms(1) in \<open>auto simp: perform_call_def finalize_def close_timeout_def close_socket_def with_keys_def submit_event_def upd_socket_def signal_def
      act_defs seq_def split: prod.splits sum.splits\<close>)
qed

section \<open>A device\<close>

text \<open>The connector and the engine. Each call is one of the connector, whose signals reach the engine
  in their order, or one of the engine, whose calls of the connector are among the next calls.\<close>

datatype device_call = ConnCall conn_call | EngineCall engine_call

definition device_step :: "conn_env \<Rightarrow> engine_env \<Rightarrow> device_call \<Rightarrow> connector \<times> engine \<Rightarrow> connector \<times> engine" where
  "device_step ce ee c d = (case c of
       ConnCall c \<Rightarrow> (let w = snd (perform_call ce c (fst d)) in
         (w, fold (relay ee) (drop (length (effects (fst d))) (effects w)) (snd d)))
     | EngineCall c \<Rightarrow> (fst d, engine_step ee c (snd d)))"

inductive device_reachable :: "conn_env \<Rightarrow> engine_env \<Rightarrow> connector \<times> engine \<Rightarrow> bool" for ce ee where
  device_initial: "device_reachable ce ee (new_connector k c, new_engine s)"
| device_call: "device_reachable ce ee d \<Longrightarrow> (\<And>x. c \<noteq> EngineCall (Relay x)) \<Longrightarrow> device_reachable ce ee (device_step ce ee c d)"

definition device_inv :: "connector \<times> engine \<Rightarrow> bool" where
  "device_inv d \<longleftrightarrow> honest (fst d) \<and> idle_runs (fst d) \<and> proofs_when_idle (fst d) \<and> engine_inv (snd d) \<and> says_all (snd d) \<and>
     (live (snd d) \<longrightarrow> readiness (effects (fst d)))"

lemma relay_fold_inv:
  assumes "engine_inv en" "live en \<longrightarrow> b"
  shows "engine_inv (fold (relay ee) xs en) \<and> (live (fold (relay ee) xs en) \<longrightarrow> fold ready_step xs b)"
  using assms
proof (induction xs arbitrary: en b)
  case (Cons x xs)
  have "live (relay ee x en) \<longrightarrow> ready_step x b"
    using relay_inv [OF Cons.prems(1), of ee x] Cons.prems(2) by (cases x) auto
  with Cons.IH [of "relay ee x en" "ready_step x b"] relay_inv [OF Cons.prems(1), of ee x]
  show ?case by simp
qed simp

lemma says_device: "says_since old x0 (snd d) \<Longrightarrow> says_since old x0 (snd (device_step ce ee c d))"
  by (cases c) (simp_all add: device_step_def Let_def says_step fold_inv says_relay)

lemma device_step_inv:
  assumes "device_inv d" "\<And>x. c \<noteq> EngineCall (Relay x)"
  shows "device_inv (device_step ce ee c d)"
proof -
  have says: "says_all (snd (device_step ce ee c d))" using assms(1) says_device by (simp add: device_inv_def)
  show ?thesis
proof (cases c)
  case (ConnCall cc)
  let ?w = "snd (perform_call ce cc (fst d))"
  have p: "proofs_when_idle (fst d)" using assms(1) by (simp add: device_inv_def)
  from perform_conforms [OF p, of cc ce] obtain xs where xs: "effects ?w = effects (fst d) @ xs" "proofs_when_idle ?w"
    unfolding conforms_def by blast
  with relay_fold_inv [of "snd d" "readiness (effects (fst d))" ee xs] assms(1) honest_perform [OF _ p, of ce cc] perform_runs [OF _ p, of ce cc] ConnCall says
  show ?thesis by (simp add: device_inv_def device_step_def Let_def readiness_append)
next
  case (EngineCall ec)
  with assms(2) have "\<And>x. ec \<noteq> Relay x" by simp
  with EngineCall assms(1) engine_step_inv [of "snd d" ee ec] says show ?thesis
    by (auto simp: device_inv_def device_step_def)
qed
qed

lemma device_closing: "device_inv d \<Longrightarrow> isClosing (fst d) \<Longrightarrow> isClosing (fst (device_step ce ee c d))"
  using closing_stays by (cases c) (simp_all add: device_step_def device_inv_def Let_def)

lemma device_initial_inv: "device_inv (new_connector k c, new_engine s)"
  by (simp add: device_inv_def new_connector_proofs)
    (simp add: honest_def idle_runs_def new_connector_def readiness_def new_engine_def engine_inv_def live_def says_since_def progress_def)

lemma reachable_inv: "device_reachable ce ee d \<Longrightarrow> device_inv d"
  by (induction rule: device_reachable.induct) (simp_all add: device_initial_inv device_step_inv)

end
