(* ===== verification/EngineClaims.thy ===== *)
theory EngineClaims
  imports EngineProps ConnectorClaims
begin

text \<open>The properties of the engine and of a whole device: connector, engine and controllers.\<close>

section \<open>A device from its start to the idle state\<close>

text \<open>The calls of the connector in a device.\<close>

lemma reachable_calls:
  "run_calls ce cs w = (Inr (), v) \<Longrightarrow> device_reachable ce ee (w, en) \<Longrightarrow>
   \<exists>xs. effects v = effects w @ xs \<and> device_reachable ce ee (v, fold (relay ee) xs en)"
proof (induction cs arbitrary: w en)
  case Nil
  then show ?case by (intro exI [of _ "[]"]) (simp add: ret_def)
next
  case (Cons c cs)
  from Cons.prems(1) obtain u where u: "perform_call ce c w = (Inr (), u)" "run_calls ce cs u = (Inr (), v)"
    by (auto elim!: seq_InrE)
  have "proofs_when_idle w" using reachable_inv [OF Cons.prems(2)] by (simp add: device_inv_def)
  from perform_conforms [OF this, of c ce] u(1) obtain ys where ys: "effects u = effects w @ ys"
    unfolding conforms_def by auto
  have "device_reachable ce ee (device_step ce ee (ConnCall c) (w, en))"
    by (rule device_call [OF Cons.prems(2)]) simp
  then have "device_reachable ce ee (u, fold (relay ee) ys en)"
    by (simp add: device_step_def Let_def u(1) ys)
  from Cons.IH [OF u(2) this] ys obtain zs where "effects v = effects u @ zs"
    "device_reachable ce ee (v, fold (relay ee) zs (fold (relay ee) ys en))" by blast
  then show ?case using ys by (intro exI [of _ "ys @ zs"]) simp
qed

definition sample_welcome :: message where
  "sample_welcome = WelcomeMessage False 0 [] [] []"

definition sample_login_state :: connector where
  "sample_login_state = sample_logging\<lparr>smState := LoggingIn, smQueue := [], readyCalls := 1, blocked := False\<rparr>"

definition sample_idle :: connector where
  "sample_idle = sample_login_state\<lparr>smState := IdleState, readyCalls := 2, blocked := True,
     effects := effects sample_login_state @ [RemoteEvent RemoteReady]\<rparr>"

lemma sample_no_update: "has_key_update (tick sample_loaded) = False"
  by (simp add: eval_defs has_key_update_def sample_cleared_def sample_loaded_def Let_def act_simps cong: seq_weak_cong)

lemma sample_runs:
  "run_calls sample_conn [Dispatch, MachineReady] sample_logging = (Inr (), sample_login_state)"
  by (simp add: perform_call_def sample_logging_def sample_connected_def sample_connecting_def new_connector_def sample_login_state_def
      dispatch_def event_target_def transition_table_def move_def entry_def active_def settle_def stable_def machine_ready_def
      seq_assoc act_simps cong: seq_weak_cong)

lemma sample_reads_welcome: "read_and_handle sample_conn (serialize qt_lib sample_welcome) w = handle_message sample_conn sample_welcome w"
proof -
  note l = sample_libs(2)
  show ?thesis
    unfolding l [symmetric]
    by (rule read_serialized)
      (simp_all add: l qt_msg.message_stream_axioms sample_welcome_def device_kinds_def validate_init_def current_version_def
        nonce_size_def fits_def)
qed

lemma sample_fields: "smRunning sample_login_state" "smState sample_login_state = LoggingIn" "csettings sample_login_state = sample_csettings"
  "smQueue sample_login_state = []" "blocked sample_login_state = False" "\<not> isClosing sample_login_state"
  "keys sample_login_state = tick sample_loaded" "readyCalls sample_login_state = 1" "expectChanges sample_login_state = False"
  "retryIndex sample_login_state = 0"
  by (simp_all add: sample_login_state_def sample_logging_def sample_connected_def sample_connecting_def new_connector_def)

lemma sample_welcomed: "run_calls sample_conn [Receive (serialize qt_lib sample_welcome), Dispatch] sample_login_state = (Inr (), sample_idle)"
proof -
  let ?u = "sample_login_state\<lparr>expectChanges := False, blocked := True, smQueue := [EvAccount]\<rparr>"
  have np: "serialize qt_lib sample_welcome \<noteq> ping_message"
    by (simp add: serialize_def ping_message_def sample_welcome_def qt_lib_def qt_5_11_def qt_put_bytes_def)
  have cm: "s_send_cmac sample_csettings = False" by (simp add: s_send_cmac_def sample_csettings_def or_default_def)
  have "process_message sample_conn (serialize qt_lib sample_welcome) sample_login_state = (Inr (), ?u)"
    by (simp add: process_message_def sample_reads_welcome)
      (simp add: handle_message_def sample_welcome_def on_welcome_def in_state_def sample_fields submit_event_def cm seq_assoc act_simps
        cong: seq_weak_cong)
  then have 1: "perform_call sample_conn (Receive (serialize qt_lib sample_welcome)) sample_login_state = (Inr (), ?u)"
    using np sample_fields by (simp add: perform_call_def binary_message_received_def)
  have idle: "?u\<lparr>smQueue := [], smState := IdleState, retryIndex := 0, effects := effects sample_login_state @ [RemoteEvent RemoteReady],
      readyCalls := Suc (Suc 0)\<rparr> = sample_idle"
    by (simp add: numeral_2_eq_2 sample_idle_def sample_login_state_def sample_logging_def sample_connected_def sample_connecting_def new_connector_def)
  have 2: "perform_call sample_conn Dispatch ?u = (Inr (), sample_idle)"
    by (simp add: perform_call_def sample_fields dispatch_def event_target_def transition_table_def move_def active_def entry_def
      on_entry_idle_def sample_no_update signal_def settle_def stable_def seq_assoc act_simps cong: seq_weak_cong)
      (use idle in simp)
  show ?thesis using 1 2 by (simp add: seq_def ret_def)
qed

text \<open>The engine of that device, whose store is empty: there is nothing to upload.\<close>

definition sample_engine_env :: engine_env where
  "sample_engine_env = \<lparr>storeEnv = demo_env, syncCfg = demo_cfg\<rparr>"

definition sample_engine :: engine where
  "sample_engine = fold (relay sample_engine_env) (effects sample_idle) (new_engine empty_store)"

lemma sample_reachable: "device_reachable sample_conn sample_engine_env (sample_idle, sample_engine)"
proof -
  have app: "run_calls e (xs @ ys) = seq (run_calls e xs) (\<lambda>_. run_calls e ys)" for e xs ys
    by (induction xs) (simp_all add: seq_assoc)
  have "run_calls sample_conn (([Start, SocketOpened, Dispatch, MachineReady] @ [Receive (serialize qt_lib sample_identify)]) @
      [Dispatch, MachineReady] @ [Receive (serialize qt_lib sample_welcome), Dispatch]) (new_connector sample_device sample_csettings) =
      (Inr (), sample_idle)"
    unfolding app using sample_connects sample_receives sample_runs sample_welcomed by (simp add: seq_def ret_def del: run_calls.simps)
      (simp add: seq_def sample_receives ret_def)
  from reachable_calls [OF this device_initial] obtain xs where
    "effects sample_idle = xs" "device_reachable sample_conn sample_engine_env (sample_idle, fold (relay sample_engine_env) xs (new_engine empty_store))"
    by (auto simp: new_connector_def)
  then show ?thesis by (simp add: sample_engine_def)
qed

lemma sample_effects: "effects sample_idle = [RemoteEvent RemoteConnecting, OpenSocket ''wss://host'' ''secret'' [], UpdateUploadLimit 5,
    SentSigned sample_login ''s'', RemoteEvent RemoteReady]"
  by (simp add: sample_idle_def sample_login_state_def sample_logging_def sample_connected_def sample_connecting_def)

lemma sample_engine_state: "syncState sample_engine = Synchronized" "uploadingEnabled (uploads sample_engine)" "sync_enabled (merger sample_engine)"
proof -
  let ?c = "\<lparr>uploadingEnabled = True, uploadLimit = 5, activeUploads = [], changeEstimate = 0, opTimer = False, callQueue = [], uploadOut = []\<rparr>"
  have "fst (upload_next demo_env qt_5_11 True (?c, empty_store)) = ?c\<lparr>uploadOut := [UploadingChanged False]\<rparr>"
    by (simp add: upload_next_def Let_def change_count_def load_changes_def changed_rows_def device_rows_def sql_limit_def empty_store_def
      demo_env_ok(2) map_filter_simps send_def act_simps)
  moreover have "snd (upload_next e p b (c, s)) = s" for e p b c s
    using upload_next_cases [of e p b c s "fst (upload_next e p b (c, s))" "snd (upload_next e p b (c, s))"] by auto
  ultimately have nx: "upload_next demo_env qt_5_11 True (?c, empty_store) = (?c\<lparr>uploadOut := [UploadingChanged False]\<rparr>, empty_store)"
    by (metis prod.collapse)
  show "syncState sample_engine = Synchronized" "uploadingEnabled (uploads sample_engine)" "sync_enabled (merger sample_engine)"
    by (simp_all add: sample_engine_def sample_effects relay_def engine_remote_event_def new_engine_def upstate_def engine_clear_eq sample_engine_env_def
      engine_syncing_def SyncController.set_sync_enabled_def uploading_changed_def clear_error_def reset_progress_def update_upload_limit_def
      engine_uploading_def upload_slot_def run_slot_def set_uploading_enabled_def demo_cfg_def tell_def nx handle_signal_def)
qed

section \<open>The engine follows the connection\<close>

text \<open>An error does not stop the merging: the engine leaves it enabled, and a loss of the connection that follows is ignored in the
  error state, so that only the next connection turns it off.\<close>

lemma error_keeps_merging:
  "merger (engine_remote_event ee RemoteDisconnected (controller_error ee msg en)) = merger en"
  "syncState (engine_remote_event ee RemoteDisconnected (controller_error ee msg en)) = ErrorState"
proof -
  have "syncState (controller_error ee msg en) = ErrorState" "merger (controller_error ee msg en) = merger en"
    by (simp_all add: controller_error_def clear_state upstate_def tell_def)
  then show "merger (engine_remote_event ee RemoteDisconnected (controller_error ee msg en)) = merger en"
    "syncState (engine_remote_event ee RemoteDisconnected (controller_error ee msg en)) = ErrorState"
    by (simp_all add: engine_remote_event_def)
qed

text \<open>C12: Whatever the application, the server, the socket and the timers do: uploads are enabled only
  while the connector is idle, and then the state is uploading or synchronized; changes of the server are merged only while the
  connector is idle or the engine is in the error state, in which merging stays enabled until the next connection
  (\<open>error_keeps_merging\<close>); the application is told that a device is downloading, uploading or synchronized only while the connector
  is idle; and there is an error message in the error state and only then.\<close>

theorem engine_connected_only_when_idle:
  assumes "device_reachable ce ee (w, en)"
  shows "(uploadingEnabled (uploads en) \<longrightarrow> smState w = IdleState \<and> (syncState en = Uploading \<or> syncState en = Synchronized)) \<and>
    (sync_enabled (merger en) \<longrightarrow> smState w = IdleState \<or> syncState en = ErrorState) \<and>
    (syncState en = Downloading \<or> syncState en = Uploading \<or> syncState en = Synchronized \<longrightarrow> smState w = IdleState) \<and>
    (lastError en \<noteq> None \<longleftrightarrow> syncState en = ErrorState)"
  using reachable_inv [OF assms] by (auto simp: device_inv_def honest_def engine_inv_def live_def)

theorem engine_connected_only_when_idle_witness:
  "smState sample_idle = IdleState \<and> sync_enabled (merger sample_engine) \<and> lastError sample_engine = None"
  using engine_connected_only_when_idle [OF sample_reachable] sample_engine_state by auto

text \<open>C34: The signals of the engine say all there is to know: who has followed them from the start knows the
  state, the progress and the error message the engine answers when it is asked.\<close>

theorem signals_say_all:
  assumes "device_reachable ce ee (w, en)"
  shows "observed (engineOut en) = (syncState en, progress en, lastError en)"
  using reachable_inv [OF assms] by (simp add: device_inv_def says_since_def observed_def)

theorem signals_say_all_witness: "observed (engineOut sample_engine) = (Synchronized, progress sample_engine, lastError sample_engine)"
  using signals_say_all [OF sample_reachable] sample_engine_state by simp

text \<open>Resetting the account while changes are uploaded tells the application that everything is
  synchronized.\<close>

lemma reset_reports_synchronized:
  "syncState en = Uploading \<Longrightarrow> syncState (snd (engine_reset ee keepData clearConfig en)) = Synchronized"
  by (simp add: engine_reset_def Let_def clear_state split: sum.split prod.split)

text \<open>A call of \<open>uploadNext\<close> that a finished upload has queued does not look whether uploads have been disabled
  in the meantime: it starts the next ones.\<close>

lemma queued_upload_ignores_disabled:
  assumes "\<And>c. ok e c" "db_inv (db s)" "hash_ok e (db s)" "r \<in> set (pending (db s))" "\<not> uploadingEnabled c"
    "callQueue c = [QUploadNext]" "activeUploads c = []" "0 < uploadLimit c"
  shows "activeUploads (fst (run_queued e p (c, s))) \<noteq> []"
proof -
  let ?c = "c\<lparr>callQueue := []\<rparr>"
  obtain c' s' where n: "upload_next e p False (?c, s) = (c', s')" by fastforce
  have d: "distinct_keys (activeUploads ?c)" using assms(7) by simp
  from upload_next_full [OF assms(1) d assms(2,3) n] upload_next_grows [OF d n] assms(4,8)
  have "activeUploads c' \<noteq> []" by auto
  with n assms(6) show ?thesis by (simp add: run_queued_def)
qed

end
