(* ===== verification/SyncManager.thy ===== *)
theory SyncManager
  imports EngineClaims
begin

text \<open>
  The manager through which an application follows the synchronization
  (\<open>src/datasync/syncmanager_p.cpp\<close> beside the engine, \<open>src/datasync/syncmanager.cpp\<close> in the application), with
  the callbacks of \<open>runOnDownloaded\<close> and \<open>runOnSynchronized\<close>. The remote objects between the two deliver calls
  and signals in order, some time later; they are two queues here.
\<close>

section \<open>Beside the engine\<close>

text \<open>The receiver of the state changes for one request; one that is deleted later still gets them until the event
  loop deletes it.\<close>

record waiter =
  wId :: uuid
  wDownloadOnly :: bool
  wDeleted :: bool

record manager =
  waiting :: "waiter list"
  reached :: "(uuid \<times> sync_state) list" \<comment> \<open>signals \<open>stateReached\<close> on their way\<close>

definition stops :: "bool \<Rightarrow> sync_state \<Rightarrow> bool" where
  "stops downloadOnly s = (case s of
       Initializing \<Rightarrow> False
     | Downloading \<Rightarrow> False
     | Uploading \<Rightarrow> downloadOnly
     | Synchronized \<Rightarrow> True
     | ErrorState \<Rightarrow> True
     | DisconnectedState \<Rightarrow> True)"

definition sync_state_changed :: "sync_state \<Rightarrow> manager \<Rightarrow> manager" where
  "sync_state_changed s m = m\<lparr>
     waiting := map (\<lambda>w. if stops (wDownloadOnly w) s then w\<lparr>wDeleted := True\<rparr> else w) (waiting m),
     reached := reached m @ map (\<lambda>w. (wId w, s)) (filter (\<lambda>w. stops (wDownloadOnly w) s) (waiting m))\<rparr>"

definition delete_later :: "manager \<Rightarrow> manager" where
  "delete_later m = m\<lparr>waiting := filter (\<lambda>w. \<not> wDeleted w) (waiting m)\<rparr>"

text \<open>What the engine signals while something runs.\<close>

fun forward :: "engine_effect \<Rightarrow> manager \<Rightarrow> manager" where
  "forward (StateChanged s) m = sync_state_changed s m"
| "forward _ m = m"

type_synonym managed = "(connector \<times> engine) \<times> manager"

definition with_device :: "conn_env \<Rightarrow> engine_env \<Rightarrow> device_call \<Rightarrow> managed \<Rightarrow> managed" where
  "with_device ce ee c dm = (let d = device_step ce ee c (fst dm) in
     (d, fold forward (drop (length (engineOut (snd (fst dm)))) (engineOut (snd d))) (snd dm)))"

text \<open>\<open>synchronize\<close> is the connector's \<open>resync\<close>.\<close>

definition synchronize :: "conn_env \<Rightarrow> engine_env \<Rightarrow> managed \<Rightarrow> managed" where
  "synchronize ce ee = with_device ce ee (ConnCall Resync)"

definition answer_now :: "uuid \<Rightarrow> sync_state \<Rightarrow> managed \<Rightarrow> managed" where
  "answer_now i s dm = (fst dm, (snd dm)\<lparr>reached := reached (snd dm) @ [(i, s)]\<rparr>)"

definition wait_for :: "uuid \<Rightarrow> bool \<Rightarrow> managed \<Rightarrow> managed" where
  "wait_for i downloadOnly dm = (fst dm, (snd dm)\<lparr>waiting := waiting (snd dm) @
     [\<lparr>wId = i, wDownloadOnly = downloadOnly, wDeleted = False\<rparr>]\<rparr>)"

definition run_on_state :: "conn_env \<Rightarrow> engine_env \<Rightarrow> uuid \<Rightarrow> bool \<Rightarrow> bool \<Rightarrow> managed \<Rightarrow> managed" where
  "run_on_state ce ee i downloadOnly triggerSync dm = (let s = syncState (snd (fst dm)) in
     case s of
       ErrorState \<Rightarrow> answer_now i s dm
     | DisconnectedState \<Rightarrow> answer_now i s dm
     | Synchronized \<Rightarrow> if triggerSync then wait_for i downloadOnly (synchronize ce ee dm) else answer_now i s dm
     | Uploading \<Rightarrow> if downloadOnly then answer_now i s dm else wait_for i downloadOnly dm
     | Initializing \<Rightarrow> wait_for i downloadOnly dm
     | Downloading \<Rightarrow> wait_for i downloadOnly dm)"

section \<open>In the application\<close>

text \<open>The callbacks are known by the id of their request; \<open>called\<close> is what they have been called with. The order in
  which a hash hands out the early requests is not specified, here it is the order they were made in.\<close>

record app =
  initialized :: bool
  syncActions :: "uuid list"
  initActions :: "(uuid \<times> bool \<times> bool) list"
  requests :: "(uuid \<times> bool \<times> bool) list" \<comment> \<open>calls of \<open>runOnState\<close> on their way\<close>
  called :: "(uuid \<times> sync_state) list"

definition run_imp :: "uuid \<Rightarrow> bool \<Rightarrow> bool \<Rightarrow> app \<Rightarrow> app" where
  "run_imp i downloadOnly triggerSync a = (let a1 = a\<lparr>syncActions := i # syncActions a\<rparr> in
     if initialized a then a1\<lparr>requests := requests a1 @ [(i, downloadOnly, triggerSync)]\<rparr>
     else a1\<lparr>initActions := initActions a1 @ [(i, downloadOnly, triggerSync)]\<rparr>)"

definition run_on_downloaded :: "uuid \<Rightarrow> bool \<Rightarrow> app \<Rightarrow> app" where
  "run_on_downloaded i triggerSync = run_imp i True triggerSync"

definition run_on_synchronized :: "uuid \<Rightarrow> bool \<Rightarrow> app \<Rightarrow> app" where
  "run_on_synchronized i triggerSync = run_imp i False triggerSync"

definition on_init :: "app \<Rightarrow> app" where
  "on_init a = a\<lparr>initialized := True, requests := requests a @ initActions a, initActions := []\<rparr>"

definition on_state_reached :: "uuid \<Rightarrow> sync_state \<Rightarrow> app \<Rightarrow> app" where
  "on_state_reached i s a = (if i \<in> set (syncActions a)
     then a\<lparr>syncActions := filter (\<lambda>j. j \<noteq> i) (syncActions a), called := called a @ [(i, s)]\<rparr>
     else a)"

section \<open>Both together\<close>

datatype manager_call =
    RunOnDownloaded uuid bool | RunOnSynchronized uuid bool \<comment> \<open>the application\<close>
  | ReplicaReady
  | DeliverRequest | DeliverAnswer \<comment> \<open>the remote objects\<close>
  | EventLoop
  | OnDevice device_call \<comment> \<open>anything else, also \<open>synchronize\<close>, \<open>reconnect\<close> and \<open>setSyncEnabled\<close>\<close>

fun manager_step :: "conn_env \<Rightarrow> engine_env \<Rightarrow> manager_call \<Rightarrow> managed \<times> app \<Rightarrow> managed \<times> app" where
  "manager_step ce ee (RunOnDownloaded i t) (dm, a) = (dm, run_on_downloaded i t a)"
| "manager_step ce ee (RunOnSynchronized i t) (dm, a) = (dm, run_on_synchronized i t a)"
| "manager_step ce ee ReplicaReady (dm, a) = (dm, on_init a)"
| "manager_step ce ee DeliverRequest (dm, a) = (case requests a of
       [] \<Rightarrow> (dm, a)
     | (i, d, t) # rest \<Rightarrow> (run_on_state ce ee i d t dm, a\<lparr>requests := rest\<rparr>))"
| "manager_step ce ee DeliverAnswer (dm, a) = (case reached (snd dm) of
       [] \<Rightarrow> (dm, a)
     | (i, s) # rest \<Rightarrow> ((fst dm, (snd dm)\<lparr>reached := rest\<rparr>), on_state_reached i s a))"
| "manager_step ce ee EventLoop (dm, a) = ((fst dm, delete_later (snd dm)), a)"
| "manager_step ce ee (OnDevice c) (dm, a) = (with_device ce ee c dm, a)"

text \<open>A run; \<open>asked\<close> has every request made so far and whether it asks for the download only. The ids are new ones.\<close>

fun request_of :: "manager_call \<Rightarrow> (uuid \<times> bool) option" where
  "request_of (RunOnDownloaded i t) = Some (i, True)"
| "request_of (RunOnSynchronized i t) = Some (i, False)"
| "request_of _ = None"

inductive manager_run :: "conn_env \<Rightarrow> engine_env \<Rightarrow> (uuid \<Rightarrow> bool option) \<Rightarrow> managed \<times> app \<Rightarrow> bool" for ce ee where
  run_initial: "device_reachable ce ee d \<Longrightarrow> manager_run ce ee Map.empty ((d, \<lparr>waiting = [], reached = []\<rparr>),
     \<lparr>initialized = False, syncActions = [], initActions = [], requests = [], called = []\<rparr>)"
| run_request: "manager_run ce ee asked x \<Longrightarrow> request_of c = Some (i, b) \<Longrightarrow> asked i = None \<Longrightarrow>
     manager_run ce ee (asked(i \<mapsto> b)) (manager_step ce ee c x)"
| run_other: "manager_run ce ee asked x \<Longrightarrow> request_of c = None \<Longrightarrow> (\<And>r. c \<noteq> OnDevice (EngineCall (Relay r))) \<Longrightarrow>
     manager_run ce ee asked (manager_step ce ee c x)"

end
