(* ===== verification/Callbacks.thy ===== *)
theory Callbacks
  imports SyncManager
begin

text \<open>
  The callbacks of the application: each is called at most once, with a state it has asked for, and none
  is forgotten.
\<close>

section \<open>Asking for a synchronization\<close>

text \<open>A device that is synchronized and not finishing downloads after \<open>synchronize\<close>.\<close>

lemma resync_idle:
  "is_idle w \<Longrightarrow> \<exists>ys. effects (snd (perform_call ce Resync w)) = effects w @ RemoteEvent RemoteReadyWithChanges # ys \<and>
     (ys = [] \<or> ys = [Sent SyncMessage])"
  by (auto simp: perform_call_def resync_def if_idle_def signal_def send_message_def need_socket_def act_simps seq_def)

lemma ready_with_changes_state:
  "syncState en \<noteq> ErrorState \<Longrightarrow> syncState (engine_remote_event ee RemoteReadyWithChanges en) = Downloading"
proof -
  assume s: "syncState en \<noteq> ErrorState"
  obtain b en1 where u: "upstate Downloading en = (b, en1)" by fastforce
  with upstate_fields(1) [of Downloading en] have "syncState en1 = Downloading" by simp
  with s u show ?thesis by (simp add: engine_remote_event_def disable_state)
qed

lemma synchronize_downloads:
  assumes "device_inv (w, en)" "syncState en = Synchronized" "\<not> isClosing w"
  shows "syncState (snd (device_step ce ee (ConnCall Resync) (w, en))) = Downloading"
proof -
  have "smState w = IdleState" using assms(1,2) by (simp add: device_inv_def honest_def live_def)
  with assms(1,3) have "is_idle w" by (simp add: device_inv_def idle_runs_def is_idle_def)
  from resync_idle [OF this, of ce] obtain ys where ys: "effects (snd (perform_call ce Resync w)) =
      effects w @ RemoteEvent RemoteReadyWithChanges # ys" "ys = [] \<or> ys = [Sent SyncMessage]" by blast
  have "relay ee (Sent SyncMessage) x = x" for x by (simp add: relay_def)
  with ys assms(2) show ?thesis by (auto simp: device_step_def Let_def relay_def ready_with_changes_state)
qed

section \<open>What the manager forwards\<close>

fun states_of :: "engine_effect list \<Rightarrow> sync_state list" where
  "states_of [] = []"
| "states_of (StateChanged s # xs) = s # states_of xs"
| "states_of (_ # xs) = states_of xs"

definition told :: "manager \<Rightarrow> sync_state list \<Rightarrow> manager" where
  "told m ss = m\<lparr>waiting := map (\<lambda>w. w\<lparr>wDeleted := wDeleted w \<or> (\<exists>s \<in> set ss. stops (wDownloadOnly w) s)\<rparr>) (waiting m),
     reached := reached m @ concat (map (\<lambda>s. map (\<lambda>w. (wId w, s)) (filter (\<lambda>w. stops (wDownloadOnly w) s) (waiting m))) ss)\<rparr>"

lemma told_Nil: "told m [] = m"
  by (simp add: told_def map_idI)

lemma told_Cons: "told (sync_state_changed s m) ss = told m (s # ss)"
proof -
  have "map (\<lambda>w. (wId w, t)) (filter (\<lambda>w. stops (wDownloadOnly w) t) (waiting (sync_state_changed s m))) =
      map (\<lambda>w. (wId w, t)) (filter (\<lambda>w. stops (wDownloadOnly w) t) (waiting m))" for t
    by (auto simp: sync_state_changed_def filter_map o_def if_distrib intro!: map_cong filter_cong)
  moreover have "map (\<lambda>w. w\<lparr>wDeleted := wDeleted w \<or> (\<exists>t \<in> set ss. stops (wDownloadOnly w) t)\<rparr>) (waiting (sync_state_changed s m)) =
      map (\<lambda>w. w\<lparr>wDeleted := wDeleted w \<or> (\<exists>t \<in> set (s # ss). stops (wDownloadOnly w) t)\<rparr>) (waiting m)"
    by (auto simp: sync_state_changed_def)
  ultimately show ?thesis by (simp add: told_def) (simp add: sync_state_changed_def)
qed

lemma forward_told: "fold forward xs m = told m (states_of xs)"
proof (induction xs arbitrary: m)
  case (Cons x xs)
  then show ?case by (cases x) (simp_all add: told_Cons)
qed (simp add: told_Nil)

lemma observe_state: "fst (fold observe xs b) = (if states_of xs = [] then fst b else last (states_of xs))"
proof (induction xs arbitrary: b)
  case (Cons x xs)
  obtain s p y where "b = (s, p, y)" by (cases b)
  with Cons.IH show ?case by (cases x) auto
qed simp

text \<open>A step of the device: the manager is told of every state, the last of which is the new one.\<close>

lemma with_device_told:
  assumes "device_inv d"
  obtains ss where "with_device ce ee c (d, m) = (device_step ce ee c d, told m ss)"
    "syncState (snd (device_step ce ee c d)) = (if ss = [] then syncState (snd d) else last ss)"
proof -
  let ?d = "device_step ce ee c d" and ?b = "(syncState (snd d), progress (snd d), lastError (snd d))"
  let ?xs = "drop (length (engineOut (snd d))) (engineOut (snd ?d))"
  have "says_since (engineOut (snd d)) ?b (snd d)" by (simp add: says_since_def)
  from says_device [OF this, of ce ee c] have "fold observe ?xs ?b = (syncState (snd ?d), progress (snd ?d), lastError (snd ?d))"
    by (simp add: says_since_def)
  with observe_state [of ?xs ?b] have "syncState (snd ?d) = (if states_of ?xs = [] then syncState (snd d) else last (states_of ?xs))" by simp
  moreover have "with_device ce ee c (d, m) = (?d, told m (states_of ?xs))"
    by (simp add: with_device_def Let_def forward_told)
  ultimately show ?thesis using that by blast
qed

section \<open>The invariant\<close>

text \<open>Requests and answers are what has been asked for; nobody is called twice.\<close>

definition answers_fit :: "(uuid \<Rightarrow> bool option) \<Rightarrow> manager \<Rightarrow> app \<Rightarrow> bool" where
  "answers_fit asked m a \<longleftrightarrow>
     (\<forall>x \<in> set (requests a @ initActions a). asked (fst x) = Some (fst (snd x))) \<and>
     (\<forall>w \<in> set (waiting m). asked (wId w) = Some (wDownloadOnly w)) \<and>
     (\<forall>x \<in> set (reached m @ called a). \<exists>b. asked (fst x) = Some b \<and> stops b (snd x)) \<and>
     distinct (map fst (called a)) \<and> fst ` set (called a) \<inter> set (syncActions a) = {}"

text \<open>Every request is on its way, waited for, answered or done.\<close>

definition none_lost :: "(uuid \<Rightarrow> bool option) \<Rightarrow> manager \<Rightarrow> app \<Rightarrow> bool" where
  "none_lost asked m a \<longleftrightarrow> (initialized a \<longrightarrow> initActions a = []) \<and>
     (\<forall>i. asked i \<noteq> None \<longrightarrow> (i \<in> set (syncActions a) \<or> i \<in> fst ` set (called a)) \<and>
       (i \<in> fst ` set (called a) \<or> i \<in> fst ` set (requests a @ initActions a) \<or> i \<in> fst ` set (reached m) \<or>
        (\<exists>w \<in> set (waiting m). wId w = i \<and> \<not> wDeleted w)))"

text \<open>Nobody waits for a state that is there.\<close>

definition wait_rightly :: "connector \<times> engine \<Rightarrow> manager \<Rightarrow> bool" where
  "wait_rightly d m \<longleftrightarrow> (\<not> isClosing (fst d) \<longrightarrow>
     (\<forall>w \<in> set (waiting m). wDeleted w \<or> \<not> stops (wDownloadOnly w) (syncState (snd d))))"

lemma told_waiting:
  "w' \<in> set (waiting (told m ss)) \<longleftrightarrow> (\<exists>w \<in> set (waiting m). w' = w\<lparr>wDeleted := wDeleted w \<or> (\<exists>s \<in> set ss. stops (wDownloadOnly w) s)\<rparr>)"
  by (auto simp: told_def)

lemma told_reached:
  "x \<in> set (reached (told m ss)) \<longleftrightarrow> x \<in> set (reached m) \<or>
     (\<exists>w \<in> set (waiting m). \<exists>s \<in> set ss. stops (wDownloadOnly w) s \<and> x = (wId w, s))"
  by (auto simp: told_def)

lemma told_keeps_waiter:
  assumes "w \<in> set (waiting m)" "\<not> wDeleted w"
  shows "(\<exists>w' \<in> set (waiting (told m ss)). wId w' = wId w \<and> \<not> wDeleted w') \<or> wId w \<in> fst ` set (reached (told m ss))"
proof (cases "\<exists>s \<in> set ss. stops (wDownloadOnly w) s")
  case True
  then obtain s where "s \<in> set ss" "stops (wDownloadOnly w) s" by blast
  with assms(1) have "(wId w, s) \<in> set (reached (told m ss))" by (auto simp: told_reached)
  then show ?thesis by force
next
  case False
  with assms have "w\<lparr>wDeleted := False\<rparr> \<in> set (waiting (told m ss))"
    unfolding told_waiting by (intro bexI [of _ w]) simp_all
  then show ?thesis by force
qed

lemma told_fits:
  assumes "answers_fit asked m a"
  shows "answers_fit asked (told m ss) a"
proof -
  have "\<exists>b. asked (fst x) = Some b \<and> stops b (snd x)" if "x \<in> set (reached (told m ss))" for x
    using that assms by (auto simp: told_reached answers_fit_def)
  moreover have "asked (wId w) = Some (wDownloadOnly w)" if "w \<in> set (waiting (told m ss))" for w
    using that assms by (auto simp: told_waiting answers_fit_def)
  ultimately show ?thesis using assms by (auto simp: answers_fit_def)
qed

lemma told_lost:
  assumes "none_lost asked m a"
  shows "none_lost asked (told m ss) a"
proof -
  have "i \<in> fst ` set (called a) \<or> i \<in> fst ` set (requests a @ initActions a) \<or> i \<in> fst ` set (reached (told m ss)) \<or>
      (\<exists>w \<in> set (waiting (told m ss)). wId w = i \<and> \<not> wDeleted w)" if "asked i \<noteq> None" for i
  proof -
    from assms that consider "i \<in> fst ` set (called a) \<or> i \<in> fst ` set (requests a @ initActions a)" | "i \<in> fst ` set (reached m)"
      | w where "w \<in> set (waiting m)" "wId w = i" "\<not> wDeleted w"
      unfolding none_lost_def by blast
    then show ?thesis
    proof cases
      case 2
      then have "i \<in> fst ` set (reached (told m ss))" by (force simp: told_reached)
      then show ?thesis by blast
    next
      case 3
      with told_keeps_waiter [of w m ss] show ?thesis by blast
    qed blast
  qed
  with assms show ?thesis unfolding none_lost_def by simp
qed

lemma with_device_inv:
  assumes "device_inv d" "answers_fit asked m a" "none_lost asked m a" "wait_rightly d m" "\<And>r. c \<noteq> EngineCall (Relay r)"
    "with_device ce ee c (d, m) = (d', m')"
  shows "d' = device_step ce ee c d \<and> device_inv d' \<and> answers_fit asked m' a \<and> none_lost asked m' a \<and> wait_rightly d' m'"
proof -
  obtain ss where ss: "with_device ce ee c (d, m) = (device_step ce ee c d, told m ss)"
    "syncState (snd (device_step ce ee c d)) = (if ss = [] then syncState (snd d) else last ss)"
    using with_device_told [OF assms(1)] by metis
  have "wait_rightly (device_step ce ee c d) (told m ss)"
  proof (cases "ss = []")
    case True
    with ss(2) assms(4) device_closing [OF assms(1)] show ?thesis by (auto simp: wait_rightly_def told_Nil)
  next
    case False
    with ss(2) show ?thesis by (auto simp: wait_rightly_def told_def)
  qed
  with ss(1) assms device_step_inv [OF assms(1,5)] told_fits told_lost show ?thesis by simp
qed

definition manager_inv :: "(uuid \<Rightarrow> bool option) \<Rightarrow> managed \<times> app \<Rightarrow> bool" where
  "manager_inv asked x \<longleftrightarrow> (case x of ((d, m), a) \<Rightarrow> device_inv d \<and> answers_fit asked m a \<and> none_lost asked m a \<and> wait_rightly d m)"

text \<open>A request that is delivered is answered or waited for.\<close>

lemma lostD:
  assumes "none_lost asked m a" "asked i \<noteq> None"
  shows "(i \<in> set (syncActions a) \<or> i \<in> fst ` set (called a)) \<and>
    (i \<in> fst ` set (called a) \<or> i \<in> fst ` set (requests a @ initActions a) \<or> i \<in> fst ` set (reached m) \<or>
     (\<exists>w \<in> set (waiting m). wId w = i \<and> \<not> wDeleted w))"
  using assms unfolding none_lost_def by blast

lemma lostI:
  assumes "initialized a \<longrightarrow> initActions a = []"
    "\<And>i. asked i \<noteq> None \<Longrightarrow> i \<in> set (syncActions a) \<or> i \<in> fst ` set (called a)"
    "\<And>i. asked i \<noteq> None \<Longrightarrow> i \<notin> fst ` set (called a) \<Longrightarrow> i \<notin> fst ` set (requests a @ initActions a) \<Longrightarrow>
       i \<notin> fst ` set (reached m) \<Longrightarrow> \<exists>w \<in> set (waiting m). wId w = i \<and> \<not> wDeleted w"
  shows "none_lost asked m a"
  using assms unfolding none_lost_def by blast

lemma answer_inv:
  assumes "answers_fit asked m a" "none_lost asked m a" "requests a = (i, b, t) # rest" "stops b s"
  shows "answers_fit asked (m\<lparr>reached := reached m @ [(i, s)]\<rparr>) (a\<lparr>requests := rest\<rparr>)"
    and "none_lost asked (m\<lparr>reached := reached m @ [(i, s)]\<rparr>) (a\<lparr>requests := rest\<rparr>)"
proof -
  show "answers_fit asked (m\<lparr>reached := reached m @ [(i, s)]\<rparr>) (a\<lparr>requests := rest\<rparr>)"
    using assms(1,3,4) by (auto simp: answers_fit_def)
  show "none_lost asked (m\<lparr>reached := reached m @ [(i, s)]\<rparr>) (a\<lparr>requests := rest\<rparr>)"
  proof (rule lostI)
    fix j assume j: "asked j \<noteq> None"
    note lost = lostD [OF assms(2) j]
    show "j \<in> set (syncActions (a\<lparr>requests := rest\<rparr>)) \<or> j \<in> fst ` set (called (a\<lparr>requests := rest\<rparr>))" using lost by simp
    assume "j \<notin> fst ` set (called (a\<lparr>requests := rest\<rparr>))" "j \<notin> fst ` set (requests (a\<lparr>requests := rest\<rparr>) @ initActions (a\<lparr>requests := rest\<rparr>))"
      "j \<notin> fst ` set (reached (m\<lparr>reached := reached m @ [(i, s)]\<rparr>))"
    with lost assms(3) show "\<exists>w \<in> set (waiting (m\<lparr>reached := reached m @ [(i, s)]\<rparr>)). wId w = j \<and> \<not> wDeleted w" by auto
  qed (use assms(2) in \<open>simp add: none_lost_def\<close>)
qed

lemma waiter_inv:
  assumes "answers_fit asked m a" "none_lost asked m a" "requests a = (i, b, t) # rest"
  shows "answers_fit asked (m\<lparr>waiting := waiting m @ [\<lparr>wId = i, wDownloadOnly = b, wDeleted = False\<rparr>]\<rparr>) (a\<lparr>requests := rest\<rparr>)"
    and "none_lost asked (m\<lparr>waiting := waiting m @ [\<lparr>wId = i, wDownloadOnly = b, wDeleted = False\<rparr>]\<rparr>) (a\<lparr>requests := rest\<rparr>)"
proof -
  let ?m = "m\<lparr>waiting := waiting m @ [\<lparr>wId = i, wDownloadOnly = b, wDeleted = False\<rparr>]\<rparr>" and ?a = "a\<lparr>requests := rest\<rparr>"
  show "answers_fit asked ?m ?a" using assms(1,3) by (auto simp: answers_fit_def)
  show "none_lost asked ?m ?a"
  proof (rule lostI)
    fix j assume j: "asked j \<noteq> None"
    note lost = lostD [OF assms(2) j]
    show "j \<in> set (syncActions ?a) \<or> j \<in> fst ` set (called ?a)" using lost by simp
    assume "j \<notin> fst ` set (called ?a)" "j \<notin> fst ` set (requests ?a @ initActions ?a)" "j \<notin> fst ` set (reached ?m)"
    with lost assms(3) show "\<exists>w \<in> set (waiting ?m). wId w = j \<and> \<not> wDeleted w" by auto
  qed (use assms(2) in \<open>simp add: none_lost_def\<close>)
qed

lemma run_on_state_inv:
  assumes "manager_inv asked ((d, m), a)" "requests a = (i, b, t) # rest"
  shows "manager_inv asked (run_on_state ce ee i b t (d, m), a\<lparr>requests := rest\<rparr>)"
proof -
  have i: "device_inv d" "answers_fit asked m a" "none_lost asked m a" "wait_rightly d m"
    using assms(1) by (simp_all add: manager_inv_def)
  let ?s = "syncState (snd d)"
  have now: "manager_inv asked (answer_now i ?s (d, m), a\<lparr>requests := rest\<rparr>)" if "stops b ?s"
    using i answer_inv [OF i(2,3) assms(2) that] by (simp add: manager_inv_def answer_now_def wait_rightly_def)
  have later: "manager_inv asked (wait_for i b (d', m'), a\<lparr>requests := rest\<rparr>)"
    if "device_inv d'" "answers_fit asked m' a" "none_lost asked m' a" "wait_rightly d' m'"
      "isClosing (fst d') \<or> \<not> stops b (syncState (snd d'))" for d' m'
    using that waiter_inv [OF that(2,3) assms(2)] by (auto simp: manager_inv_def wait_for_def wait_rightly_def)
  have sync: "manager_inv asked (wait_for i b (synchronize ce ee (d, m)), a\<lparr>requests := rest\<rparr>)" if "?s = Synchronized"
  proof -
    obtain d' m' where dm: "with_device ce ee (ConnCall Resync) (d, m) = (d', m')" by fastforce
    from with_device_inv [OF i _ dm] have w: "d' = device_step ce ee (ConnCall Resync) d" "device_inv d'" "answers_fit asked m' a"
      "none_lost asked m' a" "wait_rightly d' m'" by auto
    have "isClosing (fst d') \<or> \<not> stops b (syncState (snd d'))"
    proof (cases "isClosing (fst d)")
      case True
      with device_closing [OF i(1)] w(1) show ?thesis by simp
    next
      case False
      with synchronize_downloads [of "fst d" "snd d" ce ee] i(1) that w(1) show ?thesis by (simp add: stops_def)
    qed
    from later [OF w(2-5) this] dm show ?thesis by (simp add: synchronize_def)
  qed
  show ?thesis
    using now sync later [OF i] by (cases ?s) (auto simp: run_on_state_def stops_def)
qed

lemma manager_step_inv:
  assumes "manager_inv asked x" "request_of c = None" "\<And>r. c \<noteq> OnDevice (EngineCall (Relay r))"
  shows "manager_inv asked (manager_step ce ee c x)"
proof -
  obtain d m a where x: "x = ((d, m), a)" by (cases x) auto
  have i: "device_inv d" "answers_fit asked m a" "none_lost asked m a" "wait_rightly d m"
    using assms(1) x by (simp_all add: manager_inv_def)
  show ?thesis
  proof (cases c)
    case ReplicaReady
    have "answers_fit asked m (on_init a)" using i(2) by (auto simp: answers_fit_def on_init_def)
    moreover have "none_lost asked m (on_init a)" using i(3) by (auto simp: none_lost_def on_init_def)
    ultimately show ?thesis using ReplicaReady x i by (simp add: manager_inv_def)
  next
    case DeliverRequest
    show ?thesis
    proof (cases "requests a")
      case (Cons r rest)
      obtain j b t where "r = (j, b, t)" by (cases r)
      with Cons DeliverRequest x run_on_state_inv [OF assms(1) [unfolded x], of j b t rest] show ?thesis by simp
    qed (use assms(1) DeliverRequest x in simp)
  next
    case DeliverAnswer
    show ?thesis
    proof (cases "reached m")
      case (Cons r rest)
      obtain j s where r: "r = (j, s)" by (cases r)
      let ?m = "m\<lparr>reached := rest\<rparr>" and ?a = "on_state_reached j s a"
      have "answers_fit asked ?m ?a" using i(2) Cons r by (auto simp: answers_fit_def on_state_reached_def)
      moreover have "none_lost asked ?m ?a"
      proof (rule lostI)
        fix k assume k: "asked k \<noteq> None"
        note lost = lostD [OF i(3) k]
        show "k \<in> set (syncActions ?a) \<or> k \<in> fst ` set (called ?a)" using lost by (auto simp: on_state_reached_def)
        assume n: "k \<notin> fst ` set (called ?a)" "k \<notin> fst ` set (requests ?a @ initActions ?a)" "k \<notin> fst ` set (reached ?m)"
        then have "k \<noteq> j" using lost by (auto simp: on_state_reached_def split: if_splits)
        with lost n Cons r show "\<exists>w \<in> set (waiting ?m). wId w = k \<and> \<not> wDeleted w"
          by (auto simp: on_state_reached_def split: if_splits)
      qed (use i(3) in \<open>auto simp: none_lost_def on_state_reached_def\<close>)
      ultimately show ?thesis using DeliverAnswer x i Cons r by (simp add: manager_inv_def wait_rightly_def)
    qed (use assms(1) DeliverAnswer x in simp)
  next
    case EventLoop
    have "answers_fit asked (delete_later m) a" using i(2) by (auto simp: answers_fit_def delete_later_def)
    moreover have "none_lost asked (delete_later m) a" using i(3) by (auto simp: none_lost_def delete_later_def)
    ultimately show ?thesis using EventLoop x i by (auto simp: manager_inv_def wait_rightly_def delete_later_def)
  next
    case (OnDevice dc)
    obtain d' m' where dm: "with_device ce ee dc (d, m) = (d', m')" by fastforce
    from assms(3) OnDevice have "dc \<noteq> EngineCall (Relay r)" for r by simp
    from with_device_inv [OF i this dm] OnDevice x dm show ?thesis by (auto simp: manager_inv_def)
  qed (use assms(2) in simp_all)
qed

lemma request_inv:
  assumes "manager_inv asked x" "request_of c = Some (i, b)" "asked i = None"
  shows "manager_inv (asked(i \<mapsto> b)) (manager_step ce ee c x)"
proof -
  obtain d m a where x: "x = ((d, m), a)" by (cases x) auto
  have j: "device_inv d" "answers_fit asked m a" "none_lost asked m a" "wait_rightly d m"
    using assms(1) x by (simp_all add: manager_inv_def)
  obtain t where c: "manager_step ce ee c x = ((d, m), run_imp i b t a)"
    using assms(2) x by (cases c) (auto simp: run_on_downloaded_def run_on_synchronized_def)
  have "answers_fit (asked(i \<mapsto> b)) m (run_imp i b t a)"
  proof -
    have old: "x \<noteq> i" if "asked x = Some y" for x y using that assms(3) by auto
    have "i \<notin> fst ` set (called a)" using j(2) old by (force simp: answers_fit_def)
    moreover have "fst x \<noteq> i" if "x \<in> set (reached m @ called a)" for x using j(2) old that by (force simp: answers_fit_def)
    ultimately show ?thesis using j(2) old by (auto simp: answers_fit_def run_imp_def Let_def)
  qed
  moreover have "none_lost (asked(i \<mapsto> b)) m (run_imp i b t a)"
    using j(3) by (auto simp: none_lost_def run_imp_def Let_def)
  ultimately show ?thesis using c j by (simp add: manager_inv_def)
qed

lemma run_inv: "manager_run ce ee asked x \<Longrightarrow> manager_inv asked x"
proof (induction rule: manager_run.induct)
  case (run_initial d)
  then show ?case by (simp add: manager_inv_def reachable_inv answers_fit_def none_lost_def wait_rightly_def)
next
  case (run_request asked x c i b)
  show ?case by (rule request_inv [OF run_request.IH run_request.hyps(2,3)])
next
  case (run_other asked x c)
  show ?case by (rule manager_step_inv [OF run_other.IH run_other.hyps(2,3)])
qed

section \<open>A request for example\<close>

text \<open>The application asks before its replica is ready; the device is synchronized.\<close>

definition sample_answered :: "managed \<times> app" where
  "sample_answered = (((sample_idle, sample_engine), \<lparr>waiting = [], reached = []\<rparr>),
     \<lparr>initialized = True, syncActions = [], initActions = [], requests = [], called = [(1, Synchronized)]\<rparr>)"

lemma sample_manager_run: "manager_run sample_conn sample_engine_env [1 \<mapsto> False] sample_answered"
proof -
  let ?d = "((sample_idle, sample_engine), \<lparr>waiting = [], reached = []\<rparr>)"
  let ?run = "manager_run sample_conn sample_engine_env" and ?step = "manager_step sample_conn sample_engine_env"
  have "?run Map.empty (?d, \<lparr>initialized = False, syncActions = [], initActions = [], requests = [], called = []\<rparr>)"
    by (rule run_initial [OF sample_reachable])
  from run_request [OF this, of "RunOnSynchronized 1 False" 1 False]
  have "?run [1 \<mapsto> False] (?d, \<lparr>initialized = False, syncActions = [1], initActions = [(1, False, False)], requests = [], called = []\<rparr>)"
    by (simp add: run_on_synchronized_def run_imp_def)
  from run_other [OF this, of ReplicaReady]
  have "?run [1 \<mapsto> False] (?d, \<lparr>initialized = True, syncActions = [1], initActions = [], requests = [(1, False, False)], called = []\<rparr>)"
    by (simp add: on_init_def)
  from run_other [OF this, of DeliverRequest]
  have "?run [1 \<mapsto> False] (((sample_idle, sample_engine), \<lparr>waiting = [], reached = [(1, Synchronized)]\<rparr>),
      \<lparr>initialized = True, syncActions = [1], initActions = [], requests = [], called = []\<rparr>)"
    by (simp add: run_on_state_def sample_engine_state answer_now_def)
  from run_other [OF this, of DeliverAnswer] show ?thesis
    by (simp add: on_state_reached_def sample_answered_def)
qed

section \<open>The callbacks\<close>

text \<open>C35: A callback of \<open>runOnDownloaded\<close> or \<open>runOnSynchronized\<close> is called at most once, and with a state
  it asked for: synchronized, an error or disconnected, or uploading if it waits for the download only. This
  holds for any number of requests, although the receiver of a request may hear of several states before
  it is deleted.\<close>

theorem callbacks_called_once:
  assumes "manager_run ce ee asked ((d, m), a)"
  shows "distinct (map fst (called a)) \<and> (\<forall>x \<in> set (called a). \<exists>b. asked (fst x) = Some b \<and> stops b (snd x))"
  using run_inv [OF assms] by (auto simp: manager_inv_def answers_fit_def)

theorem callbacks_called_once_witness: "called (snd sample_answered) = [(1, Synchronized)] \<and> stops False Synchronized"
  using callbacks_called_once [OF sample_manager_run [unfolded sample_answered_def]] by (auto simp: sample_answered_def stops_def)

text \<open>C36: No request is forgotten: when everything under way has been delivered, every callback has been
  called for which the engine is in a state it waits for, unless the connector is finishing.\<close>

theorem callbacks_not_forgotten:
  assumes "manager_run ce ee asked (((w, en), m), a)" "asked i = Some b" "stops b (syncState en)"
    "initialized a" "requests a = []" "reached m = []" "\<not> isClosing w"
  shows "i \<in> fst ` set (called a)"
proof -
  from run_inv [OF assms(1)] have j: "answers_fit asked m a" "none_lost asked m a" "wait_rightly (w, en) m"
    by (simp_all add: manager_inv_def)
  have "wDeleted v" if "v \<in> set (waiting m)" "wId v = i" for v
    using that j(1,3) assms(2,3,7) by (auto simp: answers_fit_def wait_rightly_def)
  with lostD [OF j(2), of i] j(2) assms(2,4-6) show ?thesis by (auto simp: none_lost_def)
qed

theorem callbacks_not_forgotten_witness: "1 \<in> fst ` set (called (snd sample_answered))"
proof -
  have "\<not> isClosing sample_idle"
    by (simp add: sample_idle_def sample_fields)
  with callbacks_not_forgotten [OF sample_manager_run [unfolded sample_answered_def], of 1 False] show ?thesis
    by (simp add: sample_answered_def sample_engine_state stops_def)
qed

end
