(* ===== verification/UserExchange.thy ===== *)
theory UserExchange
  imports MessageStream
begin

text \<open>
  The exchange of accounts in the local network (\<open>src/datasync/userexchangemanager.cpp\<close>): every two seconds a device
  announces its name by broadcast, devices that have not been heard of for a while are forgotten, and an account that is
  exported to a device can be imported there. A host address is its text; which addresses are those of the
  device itself, whether the socket can be bound, and the export of an account are parameters or inputs.
\<close>

section \<open>Users\<close>

type_synonym host = string
type_synonym u16 = "16 word"

record user_info =
  usName :: string
  usAddress :: host
  usPort :: u16

text \<open>\<open>operator==\<close>: the name does not count.\<close>

definition same_user :: "user_info \<Rightarrow> user_info \<Rightarrow> bool" where
  "same_user a b \<longleftrightarrow> usAddress a = usAddress b \<and> usPort a = usPort b"

text \<open>A \<open>QHash\<close> with users as keys. An insertion for a key that is there replaces the value and keeps the key.\<close>

fun hash_insert :: "user_info \<Rightarrow> 'v \<Rightarrow> (user_info \<times> 'v) list \<Rightarrow> (user_info \<times> 'v) list" where
  "hash_insert u v [] = [(u, v)]"
| "hash_insert u v ((k, w) # xs) = (if same_user u k then (k, v) # xs else (k, w) # hash_insert u v xs)"

fun hash_find :: "user_info \<Rightarrow> (user_info \<times> 'v) list \<Rightarrow> (user_info \<times> 'v) option" where
  "hash_find u [] = None"
| "hash_find u ((k, v) # xs) = (if same_user u k then Some (k, v) else hash_find u xs)"

definition hash_remove :: "user_info \<Rightarrow> (user_info \<times> 'v) list \<Rightarrow> (user_info \<times> 'v) list" where
  "hash_remove u xs = filter (\<lambda>(k, v). \<not> same_user u k) xs"

section \<open>State\<close>

datatype exchange_effect =
    DevicesChanged "user_info list"
  | ActiveChanged bool
  | UserDataReceived user_info bool
  | ExchangeError string
  | WriteDatagram bytes "host option" u16 \<comment> \<open>without a host it is a broadcast\<close>
  | ExportAccount user_info bool "string option" \<comment> \<open>\<open>exportAccount\<close> and \<open>exportAccountTrusted\<close> of the account manager\<close>
  | ImportAccount bytes bool "string option"

record lan_exchange =
  exSocket :: "u16 option" \<comment> \<open>the local port\<close>
  exTimer :: bool
  exDevices :: "(user_info \<times> 8 word) list"
  exData :: "(user_info \<times> bytes option) list"
  exOut :: "exchange_effect list"

record exchange_env =
  xLib :: mlib
  deviceName :: string
  ownAddress :: "host \<Rightarrow> bool"
  bindSucceeds :: "host \<Rightarrow> u16 \<Rightarrow> bool"
  boundPort :: "u16 \<Rightarrow> u16"

definition xtell :: "exchange_effect \<Rightarrow> lan_exchange \<Rightarrow> lan_exchange" where
  "xtell x s = s\<lparr>exOut := exOut s @ [x]\<rparr>"

definition devices_changed :: "lan_exchange \<Rightarrow> lan_exchange" where
  "devices_changed s = xtell (DevicesChanged (map fst (exDevices s))) s"

section \<open>Datagrams\<close>

text \<open>The type is a \<open>qint32\<close>, streamed like the unsigned number with the same bits.\<close>

datatype datagram_type = DeviceInfo | DeviceDataUntrusted | DeviceDataTrusted

definition type_code :: "datagram_type \<Rightarrow> u32" where
  "type_code t = (case t of DeviceInfo \<Rightarrow> 0 | DeviceDataUntrusted \<Rightarrow> 1 | DeviceDataTrusted \<Rightarrow> 2)"

definition info_datagram :: "mlib \<Rightarrow> string \<Rightarrow> bytes" where
  "info_datagram l n = put_u32 (prims l) (type_code DeviceInfo) @ put_qstring l n"

definition data_datagram :: "mlib \<Rightarrow> bool \<Rightarrow> bytes \<Rightarrow> bytes" where
  "data_datagram l trusted d = put_u32 (prims l) (type_code (if trusted then DeviceDataTrusted else DeviceDataUntrusted)) @
     put_bytes (prims l) (Some d)"

datatype content = UnknownType | Broken | Info string | Data bool "bytes option"

text \<open>A type that cannot be read is 0, and the transaction fails.\<close>

definition read_content :: "mlib \<Rightarrow> bytes \<Rightarrow> content" where
  "read_content l b = (case get_u32 (prims l) b of
       None \<Rightarrow> Broken
     | Some (t, r) \<Rightarrow>
         if t = type_code DeviceInfo then (case get_qstring l r of None \<Rightarrow> Broken | Some (n, _) \<Rightarrow> Info n)
         else if t = type_code DeviceDataUntrusted then (case get_bytes (prims l) r of None \<Rightarrow> Broken | Some (d, _) \<Rightarrow> Data False d)
         else if t = type_code DeviceDataTrusted then (case get_bytes (prims l) r of None \<Rightarrow> Broken | Some (d, _) \<Rightarrow> Data True d)
         else UnknownType)"

record datagram =
  dgData :: bytes
  dgSender :: host
  dgPort :: u16

definition user_of :: "string \<Rightarrow> datagram \<Rightarrow> user_info" where
  "user_of n g = \<lparr>usName = (if n = [] then ''<Unnamed>'' else n), usAddress = dgSender g, usPort = dgPort g\<rparr>"

definition on_info :: "user_info \<Rightarrow> lan_exchange \<Rightarrow> lan_exchange" where
  "on_info u s = (case hash_find u (exDevices s) of
       Some (k, _) \<Rightarrow>
         (let s' = s\<lparr>exDevices := hash_insert u 0 (exDevices s)\<rparr> in if usName u \<noteq> usName k then devices_changed s' else s')
     | None \<Rightarrow> devices_changed (s\<lparr>exDevices := hash_insert u 0 (exDevices s)\<rparr>))"

definition on_data :: "user_info \<Rightarrow> bool \<Rightarrow> bytes option \<Rightarrow> lan_exchange \<Rightarrow> lan_exchange" where
  "on_data u0 trusted d s =
     (let u = (case hash_find u0 (exDevices s) of Some (k, _) \<Rightarrow> k | None \<Rightarrow> u0) in
      xtell (UserDataReceived u trusted) (s\<lparr>exData := hash_insert u d (exData s)\<rparr>))"

definition is_self :: "exchange_env \<Rightarrow> lan_exchange \<Rightarrow> datagram \<Rightarrow> bool" where
  "is_self e s g \<longleftrightarrow> exSocket s = Some (dgPort g) \<and> ownAddress e (dgSender g)"

definition read_datagram :: "exchange_env \<Rightarrow> datagram \<Rightarrow> lan_exchange \<Rightarrow> lan_exchange" where
  "read_datagram e g s =
     (if exSocket s = None \<or> is_self e s g then s
      else case read_content (xLib e) (dgData g) of
        UnknownType \<Rightarrow> s
      | Broken \<Rightarrow> xtell (ExchangeError (''Invalid data received from '' @ dgSender g @ '':'' @ decimal (unat (dgPort g)) @ ''.'')) s
      | Info n \<Rightarrow> on_info (user_of n g) s
      | Data trusted d \<Rightarrow> on_data (user_of [] g) trusted d s)"

section \<open>The timer\<close>

fun drop_data :: "(user_info \<times> 8 word) list \<Rightarrow> (user_info \<times> bytes option) list \<Rightarrow> (user_info \<times> bytes option) list" where
  "drop_data [] xs = xs"
| "drop_data ((u, n) # ds) xs = drop_data ds (if 5 \<le> n then hash_remove u xs else xs)"

definition exchange_timeout :: "exchange_env \<Rightarrow> lan_exchange \<Rightarrow> lan_exchange" where
  "exchange_timeout e s =
     (let erased = list_ex (\<lambda>(u, n). 5 \<le> n) (exDevices s);
          s1 = s\<lparr>exData := drop_data (exDevices s) (exData s),
                 exDevices := map (\<lambda>(u, n). (u, n + 1)) (filter (\<lambda>(u, n). \<not> 5 \<le> n) (exDevices s))\<rparr>;
          s2 = (if erased then devices_changed s1 else s1)
      in case exSocket s2 of
           None \<Rightarrow> s2
         | Some p \<Rightarrow> xtell (WriteDatagram (info_datagram (xLib e) (deviceName e)) None p) s2)"

section \<open>Operations\<close>

definition start_exchange :: "exchange_env \<Rightarrow> host \<Rightarrow> u16 \<Rightarrow> lan_exchange \<Rightarrow> bool \<times> lan_exchange" where
  "start_exchange e h p s =
     (let s1 = devices_changed (s\<lparr>exDevices := [], exData := [], exTimer := False\<rparr>) in
      if \<not> bindSucceeds e h p then (False, s1\<lparr>exSocket := None\<rparr>)
      else (True, exchange_timeout e (xtell (ActiveChanged True) (s1\<lparr>exSocket := Some (boundPort e p), exTimer := True\<rparr>))))"

definition stop_exchange :: "lan_exchange \<Rightarrow> lan_exchange" where
  "stop_exchange s =
     (let s1 = xtell (ActiveChanged False) (s\<lparr>exTimer := False, exSocket := None\<rparr>) in
      devices_changed (s1\<lparr>exDevices := [], exData := []\<rparr>))"

text \<open>\<open>exportTo\<close> (without a password) and \<open>exportTrustedTo\<close>: the account manager answers later, with the data or an error.\<close>

definition export_to :: "user_info \<Rightarrow> bool \<Rightarrow> string option \<Rightarrow> lan_exchange \<Rightarrow> lan_exchange" where
  "export_to u includeServer password s =
     (if exSocket s = None then s else xtell (ExportAccount u includeServer password) s)"

definition exported :: "exchange_env \<Rightarrow> user_info \<Rightarrow> bool \<Rightarrow> bytes \<Rightarrow> lan_exchange \<Rightarrow> lan_exchange" where
  "exported e u trusted d s =
     (if exSocket s \<noteq> None then xtell (WriteDatagram (data_datagram (xLib e) trusted d) (Some (usAddress u)) (usPort u)) s
      else xtell (ExchangeError ''Cannot export data if UserExchangeManager is not in active state'') s)"

definition export_failed :: "string \<Rightarrow> lan_exchange \<Rightarrow> lan_exchange" where
  "export_failed msg = xtell (ExchangeError msg)"

text \<open>\<open>importFrom\<close> (without a password) and \<open>importTrustedFrom\<close>\<close>

definition import_from :: "user_info \<Rightarrow> string option \<Rightarrow> bool \<Rightarrow> lan_exchange \<Rightarrow> lan_exchange" where
  "import_from u password keepData s =
     (let s1 = s\<lparr>exData := hash_remove u (exData s)\<rparr> in
      case hash_find u (exData s) of
        Some (_, Some d) \<Rightarrow> xtell (ImportAccount d keepData password) s1
      | _ \<Rightarrow> xtell (ExchangeError ''No import data received from passed user.'') s1)"

datatype exchange_call =
    StartExchange host u16 | StopExchange | Tick | Datagram datagram
  | ExportTo user_info bool "string option" | Exported user_info bool bytes | ExportFailed string | SocketError string
  | ImportFrom user_info "string option" bool

definition exchange_step :: "exchange_env \<Rightarrow> exchange_call \<Rightarrow> lan_exchange \<Rightarrow> lan_exchange" where
  "exchange_step e c s = (case c of
       StartExchange h p \<Rightarrow> snd (start_exchange e h p s)
     | StopExchange \<Rightarrow> stop_exchange s
     | Tick \<Rightarrow> if exTimer s then exchange_timeout e s else s
     | Datagram g \<Rightarrow> read_datagram e g s
     | ExportTo u b pw \<Rightarrow> export_to u b pw s
     | Exported u t d \<Rightarrow> exported e u t d s
     | ExportFailed msg \<Rightarrow> export_failed msg s
     | SocketError msg \<Rightarrow> xtell (ExchangeError msg) s
     | ImportFrom u pw b \<Rightarrow> import_from u pw b s)"

definition new_exchange :: lan_exchange where
  "new_exchange = \<lparr>exSocket = None, exTimer = False, exDevices = [], exData = [], exOut = []\<rparr>"

end
