(* ===== verification/UserExchangeClaims.thy ===== *)
theory UserExchangeClaims
  imports UserExchange MessageClaims
begin

text \<open>
  The properties of the exchange in the local network: how long a device stays listed, and that an account that
  is exported to a device is the one that is imported there.
\<close>

section \<open>The hash\<close>

lemma same_user_refl [simp]: "same_user u u"
  by (simp add: same_user_def)

lemma same_user_sym: "same_user u v = same_user v u"
  by (auto simp: same_user_def)

lemma same_user_trans: "same_user u v \<Longrightarrow> same_user u w = same_user v w"
  by (simp add: same_user_def)

lemma find_insert:
  "hash_find u (hash_insert v x xs) = (if same_user u v then Some (case hash_find v xs of Some (k, _) \<Rightarrow> k | None \<Rightarrow> v, x) else hash_find u xs)"
  by (induction xs) (auto simp: same_user_def)

lemma find_remove: "hash_find u (hash_remove v xs) = (if same_user u v then None else hash_find u xs)"
  by (induction xs) (auto simp: hash_remove_def same_user_def)

lemma find_same: "same_user u v \<Longrightarrow> hash_find u xs = hash_find v xs"
  by (induction xs) (auto simp: same_user_def)

definition user_keys :: "(user_info \<times> 'v) list \<Rightarrow> (host \<times> u16) list" where
  "user_keys xs = map (\<lambda>(k, v). (usAddress k, usPort k)) xs"

lemma user_keys_simps [simp]: "user_keys [] = []" "user_keys ((k, v) # xs) = (usAddress k, usPort k) # user_keys xs"
  by (simp_all add: user_keys_def)

definition users_distinct :: "(user_info \<times> 'v) list \<Rightarrow> bool" where
  "users_distinct xs \<longleftrightarrow> distinct (user_keys xs)"

lemma find_None: "hash_find u xs = None \<longleftrightarrow> (usAddress u, usPort u) \<notin> set (user_keys xs)"
  by (induction xs) (auto simp: same_user_def split: if_splits)

lemma insert_users:
  "user_keys (hash_insert u x xs) = (if hash_find u xs = None then user_keys xs @ [(usAddress u, usPort u)] else user_keys xs)"
  by (induction xs) (auto split: if_splits)

lemma insert_distinct: "users_distinct xs \<Longrightarrow> users_distinct (hash_insert u x xs)"
  by (simp add: users_distinct_def insert_users find_None)

definition aged :: "(user_info \<times> 8 word) list \<Rightarrow> (user_info \<times> 8 word) list" where
  "aged ds = map (\<lambda>(u, n). (u, n + 1)) (filter (\<lambda>(u, n). \<not> 5 \<le> n) ds)"

lemma aged_simps [simp]: "aged [] = []" "aged ((u, n) # ds) = (if 5 \<le> n then aged ds else (u, n + 1) # aged ds)"
  by (simp_all add: aged_def)

lemma aged_users: "set (user_keys (aged ds)) \<subseteq> set (user_keys ds)"
  by (induction ds) (auto split: if_splits)

lemma aged_distinct: "users_distinct ds \<Longrightarrow> users_distinct (aged ds)"
  unfolding users_distinct_def by (induction ds) (auto dest: subsetD [OF aged_users])

lemma find_aged:
  "users_distinct ds \<Longrightarrow> hash_find u (aged ds) = (case hash_find u ds of
     Some (k, n) \<Rightarrow> if 5 \<le> n then None else Some (k, n + 1) | None \<Rightarrow> None)"
proof (induction ds)
  case (Cons d ds)
  obtain k n where d: "d = (k, n)" by (cases d)
  have ds: "users_distinct ds" "(usAddress k, usPort k) \<notin> set (user_keys ds)"
    using Cons.prems d by (simp_all add: users_distinct_def)
  then have "hash_find u (aged ds) = None" if "same_user u k"
    using that aged_users [of ds] by (auto simp: find_None same_user_def)
  with Cons.IH ds(1) d show ?case by simp
qed simp

lemma find_drop:
  "hash_find u (drop_data ds xs) = (if list_ex (\<lambda>(k, n). same_user u k \<and> 5 \<le> n) ds then None else hash_find u xs)"
  by (induction ds xs rule: drop_data.induct) (auto simp: find_remove same_user_sym)

lemma find_Some: "users_distinct ds \<Longrightarrow> list_ex (\<lambda>(k, n). same_user u k \<and> P n) ds \<longleftrightarrow> (\<exists>k n. hash_find u ds = Some (k, n) \<and> P n)"
proof (induction ds)
  case (Cons d ds)
  obtain k n where d: "d = (k, n)" by (cases d)
  have ds: "users_distinct ds" "(usAddress k, usPort k) \<notin> set (user_keys ds)"
    using Cons.prems d by (simp_all add: users_distinct_def)
  then have "\<not> list_ex (\<lambda>(k, n). same_user u k \<and> P n) ds" if "same_user u k"
    using that by (auto simp: user_keys_def list_ex_iff same_user_def image_iff)
  with Cons.IH ds(1) d show ?case by auto
qed simp

section \<open>The state\<close>

definition exchange_inv :: "lan_exchange \<Rightarrow> bool" where
  "exchange_inv s \<longleftrightarrow> users_distinct (exDevices s) \<and> (exTimer s \<longleftrightarrow> exSocket s \<noteq> None)"

lemma xtell_fields [simp]:
  "exSocket (xtell x s) = exSocket s" "exTimer (xtell x s) = exTimer s" "exDevices (xtell x s) = exDevices s"
  "exData (xtell x s) = exData s" "exOut (xtell x s) = exOut s @ [x]"
  "exSocket (devices_changed s) = exSocket s" "exTimer (devices_changed s) = exTimer s" "exDevices (devices_changed s) = exDevices s"
  "exData (devices_changed s) = exData s"
  by (simp_all add: xtell_def devices_changed_def)

lemma timeout_fields [simp]:
  "exSocket (exchange_timeout e s) = exSocket s" "exTimer (exchange_timeout e s) = exTimer s"
  "exDevices (exchange_timeout e s) = aged (exDevices s)" "exData (exchange_timeout e s) = drop_data (exDevices s) (exData s)"
  by (simp_all add: exchange_timeout_def Let_def aged_def split: option.split)

lemma on_info_fields [simp]:
  "exSocket (on_info u s) = exSocket s" "exTimer (on_info u s) = exTimer s" "exDevices (on_info u s) = hash_insert u 0 (exDevices s)"
  "exData (on_info u s) = exData s"
  by (simp_all add: on_info_def Let_def split: option.split)

lemma on_data_fields [simp]:
  "exSocket (on_data u t d s) = exSocket s" "exTimer (on_data u t d s) = exTimer s" "exDevices (on_data u t d s) = exDevices s"
  by (simp_all add: on_data_def Let_def split: option.split)

lemma read_fields [simp]: "exSocket (read_datagram e g s) = exSocket s" "exTimer (read_datagram e g s) = exTimer s"
  by (simp_all add: read_datagram_def split: content.split)

lemma read_devices:
  "exDevices (read_datagram e g s) = (if exSocket s = None \<or> is_self e s g then exDevices s
     else case read_content (xLib e) (dgData g) of Info n \<Rightarrow> hash_insert (user_of n g) 0 (exDevices s) | _ \<Rightarrow> exDevices s)"
  by (simp add: read_datagram_def split: content.split)

lemma import_fields [simp]:
  "exSocket (import_from u pw b s) = exSocket s" "exTimer (import_from u pw b s) = exTimer s" "exDevices (import_from u pw b s) = exDevices s"
  "exData (import_from u pw b s) = hash_remove u (exData s)"
  by (simp_all add: import_from_def Let_def split: option.split prod.split)

lemma export_fields [simp]:
  "exSocket (export_to u b pw s) = exSocket s" "exTimer (export_to u b pw s) = exTimer s" "exDevices (export_to u b pw s) = exDevices s"
  "exData (export_to u b pw s) = exData s"
  "exSocket (exported e u t d s) = exSocket s" "exTimer (exported e u t d s) = exTimer s" "exDevices (exported e u t d s) = exDevices s"
  "exData (exported e u t d s) = exData s"
  by (simp_all add: export_to_def exported_def)

lemma step_inv: "exchange_inv s \<Longrightarrow> exchange_inv (exchange_step e c s)"
  by (cases c) (simp_all add: exchange_step_def exchange_inv_def start_exchange_def stop_exchange_def Let_def aged_distinct
      insert_distinct read_devices export_failed_def users_distinct_def [of "[]"] split: content.split)

lemma run_exchange_inv: "exchange_inv (fold (exchange_step e) cs new_exchange)"
proof -
  have "exchange_inv (fold (exchange_step e) cs s)" if "exchange_inv s" for s
    using that by (induction cs arbitrary: s) (simp_all add: step_inv)
  then show ?thesis by (simp add: exchange_inv_def new_exchange_def users_distinct_def)
qed

section \<open>Listed as long as it is heard of\<close>

text \<open>Calls that say nothing of the user: the exchange goes on, and no announcement of it arrives.\<close>

definition silent :: "exchange_env \<Rightarrow> user_info \<Rightarrow> exchange_call \<Rightarrow> bool" where
  "silent e u c = (case c of
       StartExchange h p \<Rightarrow> False
     | StopExchange \<Rightarrow> False
     | Datagram g \<Rightarrow> \<not> ((dgSender g, dgPort g) = (usAddress u, usPort u) \<and>
         (case read_content (xLib e) (dgData g) of Info n \<Rightarrow> True | _ \<Rightarrow> False))
     | _ \<Rightarrow> True)"

definition ticks :: "exchange_call list \<Rightarrow> nat" where
  "ticks cs = length (filter (\<lambda>c. c = Tick) cs)"

text \<open>The age of a user after so many rounds, which one that is not listed does not have.\<close>

definition older :: "(user_info \<times> 8 word) option \<Rightarrow> nat \<Rightarrow> (user_info \<times> 8 word) option" where
  "older a k = (case a of None \<Rightarrow> None | Some (u, n) \<Rightarrow> if unat n + k \<le> 5 then Some (u, n + of_nat k) else None)"

lemma unat_next: "\<not> 5 \<le> n \<Longrightarrow> unat (n + 1) = Suc (unat n)" "\<not> 5 \<le> n \<Longrightarrow> n + 1 \<le> 5" for n :: "8 word"
proof -
  assume "\<not> 5 \<le> n"
  then have n: "unat n < 5" by (simp add: word_le_nat_alt)
  then show s: "unat (n + 1) = Suc (unat n)" by (simp add: unat_word_ariths)
  with n show "n + 1 \<le> 5" by (simp add: word_le_nat_alt)
qed

lemma older_0: "(\<And>v n. a = Some (v, n) \<Longrightarrow> n \<le> 5) \<Longrightarrow> older a 0 = a"
  by (auto simp: older_def word_le_nat_alt split: option.split)

lemma older_Suc: "older (case a of Some (v, n) \<Rightarrow> if 5 \<le> n then None else Some (v, n + 1) | None \<Rightarrow> None) k = older a (Suc k)"
proof (cases a)
  case (Some p)
  obtain v n where p: "p = (v, n)" by (cases p)
  show ?thesis
  proof (cases "5 \<le> n")
    case True
    then show ?thesis by (simp add: Some p older_def word_le_nat_alt)
  next
    case False
    with unat_next [OF False] show ?thesis by (simp add: Some p older_def add.assoc)
  qed
qed (simp add: older_def)

definition young :: "user_info \<Rightarrow> lan_exchange \<Rightarrow> bool" where
  "young u s \<longleftrightarrow> (\<forall>v n. hash_find u (exDevices s) = Some (v, n) \<longrightarrow> n \<le> 5)"

lemma silent_step:
  assumes "silent e u c" "exchange_inv s" "exSocket s \<noteq> None"
  shows "hash_find u (exDevices (exchange_step e c s)) = (if c = Tick
      then (case hash_find u (exDevices s) of Some (k, n) \<Rightarrow> if 5 \<le> n then None else Some (k, n + 1) | None \<Rightarrow> None)
      else hash_find u (exDevices s)) \<and> exSocket (exchange_step e c s) \<noteq> None"
proof (cases c)
  case (Datagram g)
  have "\<not> same_user u (user_of n g)" if "read_content (xLib e) (dgData g) = Info n" for n
    using assms(1) that Datagram by (auto simp: silent_def same_user_def user_of_def)
  with assms(3) Datagram show ?thesis
    by (auto simp: exchange_step_def read_devices find_insert split: content.split)
qed (use assms in \<open>auto simp: exchange_step_def exchange_inv_def find_aged silent_def export_failed_def\<close>)

lemma silent_young: "young u s \<Longrightarrow> silent e u c \<Longrightarrow> exchange_inv s \<Longrightarrow> exSocket s \<noteq> None \<Longrightarrow> young u (exchange_step e c s)"
  using silent_step [of e u c s] unat_next(2) by (auto simp: young_def split: if_splits option.splits)

lemma silent_run:
  "list_all (silent e u) cs \<Longrightarrow> exchange_inv s \<Longrightarrow> exSocket s \<noteq> None \<Longrightarrow> young u s \<Longrightarrow>
   hash_find u (exDevices (fold (exchange_step e) cs s)) = older (hash_find u (exDevices s)) (ticks cs) \<and>
   exSocket (fold (exchange_step e) cs s) \<noteq> None"
proof (induction cs arbitrary: s)
  case Nil
  then show ?case by (simp add: ticks_def older_0 young_def)
next
  case (Cons c cs)
  then have c: "silent e u c" "list_all (silent e u) cs" by simp_all
  note st = silent_step [OF c(1) Cons.prems(2,3)]
  from Cons.IH [OF c(2) step_inv [OF Cons.prems(2)], of e c] st silent_young [OF Cons.prems(4) c(1) Cons.prems(2,3)]
  show ?case by (simp add: ticks_def older_Suc)
qed

text \<open>C37: A device that has announced itself is listed for the next five rounds of the timer and no longer, unless
  another announcement of it arrives, whatever else happens in between.\<close>

theorem heard_devices_listed:
  assumes "s = fold (exchange_step e) cs new_exchange" "exSocket s \<noteq> None" "\<not> is_self e s g"
    "read_content (xLib e) (dgData g) = Info n" "list_all (silent e (user_of n g)) ds"
  shows "hash_find (user_of n g) (exDevices (fold (exchange_step e) ds (read_datagram e g s))) \<noteq> None \<longleftrightarrow> ticks ds \<le> 5"
proof -
  let ?s = "read_datagram e g s" and ?u = "user_of n g"
  have inv: "exchange_inv ?s" using step_inv [OF run_exchange_inv, of e "Datagram g" e cs] assms(1) by (simp add: exchange_step_def)
  have f: "\<exists>k. hash_find ?u (exDevices ?s) = Some (k, 0)" using assms(2-4) by (auto simp: read_devices find_insert)
  then have "young ?u ?s" by (auto simp: young_def)
  from silent_run [OF assms(5) inv _ this] assms(2) f
  have "hash_find ?u (exDevices (fold (exchange_step e) ds ?s)) = older (hash_find ?u (exDevices ?s)) (ticks ds)" by simp
  with f show ?thesis by (auto simp: older_def split: if_splits)
qed

definition sample_exchange_env :: exchange_env where
  "sample_exchange_env = \<lparr>xLib = qt_lib, deviceName = ''pc'', ownAddress = (\<lambda>a. a = ''10.0.0.1''),
     bindSucceeds = (\<lambda>h p. True), boundPort = id\<rparr>"

definition sample_info :: datagram where
  "sample_info = \<lparr>dgData = info_datagram qt_lib ''phone'', dgSender = ''10.0.0.2'', dgPort = 13372\<rparr>"

definition sample_listening :: lan_exchange where
  "sample_listening = fold (exchange_step sample_exchange_env) [StartExchange ''0.0.0.0'' 13372] new_exchange"

lemma sample_listening_fields:
  "exSocket sample_listening = Some 13372" "exDevices sample_listening = []" "exData sample_listening = []"
  "\<not> is_self sample_exchange_env sample_listening sample_info"
  by (simp_all add: sample_listening_def exchange_step_def start_exchange_def sample_exchange_env_def Let_def is_self_def sample_info_def)

lemma sample_info_read: "read_content (xLib sample_exchange_env) (dgData sample_info) = Info ''phone''"
  by (simp add: read_content_def sample_exchange_env_def sample_info_def info_datagram_def type_code_def
      qt_msg.u32_back qt_msg.qstring_back [where r = "[]", simplified] fits_def)

lemma heard_devices_listed_witness:
  "hash_find (user_of ''phone'' sample_info) (exDevices (fold (exchange_step sample_exchange_env) [Tick, Tick]
     (read_datagram sample_exchange_env sample_info sample_listening))) \<noteq> None"
  using heard_devices_listed [OF sample_listening_def _ sample_listening_fields(4) sample_info_read, of "[Tick, Tick]"]
  by (simp add: sample_listening_fields ticks_def silent_def)

section \<open>An exported account can be imported\<close>

definition age_of :: "user_info \<Rightarrow> lan_exchange \<Rightarrow> nat" where
  "age_of u s = (case hash_find u (exDevices s) of None \<Rightarrow> 0 | Some (_, n) \<Rightarrow> unat n)"

text \<open>Calls that leave the data of a user alone: it is not imported, and no other data arrives from there.\<close>

definition leaves_data :: "exchange_env \<Rightarrow> user_info \<Rightarrow> exchange_call \<Rightarrow> bool" where
  "leaves_data e u c = (case c of
       StartExchange h p \<Rightarrow> False
     | StopExchange \<Rightarrow> False
     | ImportFrom v pw b \<Rightarrow> \<not> same_user u v
     | Datagram g \<Rightarrow> \<not> ((dgSender g, dgPort g) = (usAddress u, usPort u) \<and>
         (case read_content (xLib e) (dgData g) of Data b d \<Rightarrow> True | _ \<Rightarrow> False))
     | _ \<Rightarrow> True)"

lemma find_key: "hash_find u xs = Some (k, n) \<Longrightarrow> same_user u k"
  by (induction xs) (auto split: if_splits)

lemma on_data_find:
  "hash_find v (exData (on_data u t d s)) = (if same_user v u
     then Some (case hash_find (case hash_find u (exDevices s) of Some (k, _) \<Rightarrow> k | None \<Rightarrow> u) (exData s) of
         Some (k, _) \<Rightarrow> k | None \<Rightarrow> (case hash_find u (exDevices s) of Some (k, _) \<Rightarrow> k | None \<Rightarrow> u), d)
     else hash_find v (exData s))"
  by (auto simp: on_data_def Let_def find_insert split: option.split) (auto dest!: find_key simp: same_user_def)

lemma read_data:
  "exData (read_datagram e g s) = (if exSocket s = None \<or> is_self e s g then exData s
     else case read_content (xLib e) (dgData g) of Data t d \<Rightarrow> exData (on_data (user_of [] g) t d s) | _ \<Rightarrow> exData s)"
  by (simp add: read_datagram_def split: content.split)

lemma user_of_same: "same_user u (user_of n g) \<longleftrightarrow> (dgSender g, dgPort g) = (usAddress u, usPort u)"
  by (auto simp: same_user_def user_of_def)

lemma step_keeps_data:
  assumes "leaves_data e u c" "exchange_inv s" "c = Tick \<Longrightarrow> hash_find u (exDevices s) = None \<or> age_of u s < 5"
  shows "hash_find u (exData (exchange_step e c s)) = hash_find u (exData s)"
proof (cases c)
  case Tick
  have "\<not> list_ex (\<lambda>(k, n). same_user u k \<and> 5 \<le> n) (exDevices s)"
    using assms(2,3) Tick by (auto simp: find_Some exchange_inv_def age_of_def word_le_nat_alt)
  then show ?thesis using Tick by (simp add: exchange_step_def find_drop)
next
  case (Datagram g)
  with assms(1) show ?thesis
    by (auto simp: leaves_data_def exchange_step_def read_data on_data_find user_of_same split: content.split)
qed (use assms in \<open>auto simp: leaves_data_def exchange_step_def export_failed_def find_remove\<close>)

lemma step_age:
  assumes "leaves_data e u c" "exchange_inv s" "c = Tick \<Longrightarrow> age_of u s < 5"
  shows "age_of u (exchange_step e c s) \<le> age_of u s + (if c = Tick then 1 else 0)"
proof (cases c)
  case Tick
  show ?thesis
  proof (cases "exTimer s")
    case True
    with Tick assms(2,3) show ?thesis
      by (auto simp: exchange_step_def age_of_def find_aged exchange_inv_def unat_next split: option.split)
  next
    case False
    with Tick show ?thesis by (simp add: exchange_step_def)
  qed
next
  case (Datagram g)
  then show ?thesis
    by (auto simp: exchange_step_def age_of_def read_devices find_insert split: content.split option.split)
qed (use assms in \<open>auto simp: leaves_data_def exchange_step_def export_failed_def age_of_def\<close>)

lemma run_keeps_data:
  "list_all (leaves_data e u) cs \<Longrightarrow> exchange_inv s \<Longrightarrow> age_of u s + ticks cs \<le> 5 \<Longrightarrow>
   hash_find u (exData (fold (exchange_step e) cs s)) = hash_find u (exData s)"
proof (induction cs arbitrary: s)
  case (Cons c cs)
  then have c: "leaves_data e u c" "list_all (leaves_data e u) cs" "c = Tick \<Longrightarrow> age_of u s < 5"
    by (auto simp: ticks_def)
  have "age_of u (exchange_step e c s) + ticks cs \<le> 5"
    using step_age [OF c(1) Cons.prems(2) c(3)] Cons.prems(3) by (auto simp: ticks_def split: if_splits)
  from Cons.IH [OF c(2) step_inv [OF Cons.prems(2)] this] step_keeps_data [OF c(1) Cons.prems(2), of] c(3)
  show ?case by auto
qed simp

lemma read_data_datagram:
  assumes "datastream (prims l)" "fits d"
  shows "read_content l (data_datagram l t d) = Data t (Some d)"
  using datastream.u32_back [OF assms(1)] datastream.bytes_back [OF assms(1), of "Some d" "[]"] assms(2)
  by (simp add: read_content_def data_datagram_def type_code_def fits_opt_def)

text \<open>C38: The account that one device exports to another in the local network is the one that is imported there: the
  datagram the exporting device writes makes the receiver report data of that user, and importing from the user hands the
  account manager the same bytes, with the password and the choice of the caller, as long as the data was not
  imported or replaced in between and the device has not run out of its five rounds.\<close>

theorem exported_account_arrives:
  assumes "datastream (prims (xLib e))" "xLib e' = xLib e" "fits d" "exSocket s' \<noteq> None"
    "exOut (exported e' to trusted d s') = exOut s' @ [WriteDatagram b h p]"
    "s = fold (exchange_step e) cs new_exchange" "exSocket s \<noteq> None"
    "\<not> is_self e s \<lparr>dgData = b, dgSender = usAddress u, dgPort = usPort u\<rparr>"
    "r = read_datagram e \<lparr>dgData = b, dgSender = usAddress u, dgPort = usPort u\<rparr> s"
    "list_all (leaves_data e u) ds" "age_of u s + ticks ds \<le> 5" "t = fold (exchange_step e) ds r"
  shows "(\<exists>v. exOut r = exOut s @ [UserDataReceived v trusted] \<and> same_user u v) \<and>
    exOut (import_from u pw keepData t) = exOut t @ [ImportAccount d keepData pw]"
proof -
  let ?g = "\<lparr>dgData = b, dgSender = usAddress u, dgPort = usPort u\<rparr>"
  have b: "b = data_datagram (xLib e) trusted d" using assms(2,4,5) by (simp add: exported_def split: option.splits)
  then have r: "r = on_data (user_of [] ?g) trusted (Some d) s"
    using assms(7-9) read_data_datagram [OF assms(1,3)] by (auto simp: read_datagram_def)
  have inv: "exchange_inv r" using step_inv [OF run_exchange_inv, of e "Datagram ?g" e cs] assms(6,9) by (simp add: exchange_step_def)
  have u: "same_user u (user_of [] ?g)" by (simp add: user_of_same)
  have k: "same_user (user_of [] ?g) k" if "hash_find (user_of [] ?g) (exDevices s) = Some (k, n)" for k n
    by (rule find_key [OF that])
  have "age_of u r = age_of u s" by (simp add: r age_of_def)
  then have "hash_find u (exData t) = hash_find u (exData r)"
    using run_keeps_data [OF assms(10) inv] assms(11,12) by simp
  then have "\<exists>k. hash_find u (exData t) = Some (k, Some d)" using u by (simp add: r on_data_find)
  then have "exOut (import_from u pw keepData t) = exOut t @ [ImportAccount d keepData pw]"
    by (auto simp: import_from_def Let_def)
  moreover have "\<exists>v. exOut r = exOut s @ [UserDataReceived v trusted] \<and> same_user u v"
    using u k same_user_trans [OF u] by (auto simp: r on_data_def Let_def split: option.split)
  ultimately show ?thesis by blast
qed

lemma exported_account_arrives_witness:
  "\<exists>b. exOut (import_from (user_of ''x'' sample_info) (Some ''secret'') True (fold (exchange_step sample_exchange_env) [Tick, Tick]
       (read_datagram sample_exchange_env \<lparr>dgData = b, dgSender = ''10.0.0.2'', dgPort = 13372\<rparr> sample_listening))) =
     exOut (fold (exchange_step sample_exchange_env) [Tick, Tick]
       (read_datagram sample_exchange_env \<lparr>dgData = b, dgSender = ''10.0.0.2'', dgPort = 13372\<rparr> sample_listening)) @
     [ImportAccount ''account'' True (Some ''secret'')]"
proof -
  let ?u = "user_of ''x'' sample_info" and ?e = "sample_exchange_env"
  let ?b = "data_datagram qt_lib True ''account''"
  have u: "usAddress ?u = ''10.0.0.2''" "usPort ?u = 13372" by (simp_all add: user_of_def sample_info_def)
  have l: "xLib ?e = qt_lib" by (simp add: sample_exchange_env_def)
  have sent: "exOut (exported ?e ?u True ''account'' sample_listening) = exOut sample_listening @ [WriteDatagram ?b (Some ''10.0.0.2'') 13372]"
    by (simp add: exported_def sample_listening_fields l u)
  have self: "\<not> is_self ?e sample_listening \<lparr>dgData = ?b, dgSender = usAddress ?u, dgPort = usPort ?u\<rparr>"
    by (simp add: is_self_def u sample_exchange_env_def)
  have age: "age_of ?u sample_listening = 0" by (simp add: age_of_def sample_listening_fields)
  from exported_account_arrives [OF _ refl _ _ sent sample_listening_def _ self refl _ _ refl, of "[Tick, Tick]" "Some ''secret''" True]
    age qt_msg.datastream_axioms
  show ?thesis
    by (intro exI [of _ ?b]) (simp add: l u sample_listening_fields leaves_data_def ticks_def fits_def)
qed

section \<open>Where the exchange differs from what it means\<close>

text \<open>A device that announces another name keeps the old one: \<open>QHash::insert\<close> keeps the key that is there, so the list that is
  reported on each such announcement is the one known before (\<open>UserExchangeManager::readDatagram\<close>).\<close>

lemma map_fst_insert: "hash_find u xs \<noteq> None \<Longrightarrow> map fst (hash_insert u x xs) = map fst xs"
  by (induction xs) (auto split: if_splits)

lemma renaming_has_no_effect:
  assumes "hash_find u (exDevices s) = Some (k, n)" "usName u \<noteq> usName k"
  shows "map fst (exDevices (on_info u s)) = map fst (exDevices s)"
    and "exOut (on_info u s) = exOut s @ [DevicesChanged (map fst (exDevices s))]"
  using assms map_fst_insert [of u "exDevices s" 0] by (simp_all add: on_info_def Let_def devices_changed_def xtell_def)

text \<open>When the exchange is started again and the port cannot be bound, the old socket is gone and nothing reports that
  the exchange is not active any more (\<open>UserExchangeManager::startExchange\<close>).\<close>

lemma failed_restart_is_silent:
  assumes "\<not> bindSucceeds e h p"
  shows "exSocket (exchange_step e (StartExchange h p) s) = None"
    and "exOut (exchange_step e (StartExchange h p) s) = exOut s @ [DevicesChanged []]"
  using assms by (simp_all add: exchange_step_def start_exchange_def Let_def devices_changed_def xtell_def)

text \<open>The data of a user that never announced itself is kept for any number of rounds (\<open>UserExchangeManager::timeout\<close> only
  drops the data of listed devices).\<close>

lemma unlisted_data_stays:
  assumes "hash_find u (exDevices s) = None" "exchange_inv s"
  shows "hash_find u (exData (exchange_step e Tick s)) = hash_find u (exData s)"
  using step_keeps_data [of e u Tick s] assms by (simp add: leaves_data_def)

end
