(* ===== verification/TaskQueue.thy ===== *)
theory TaskQueue
  imports Prelude "HOL-Library.Sublist"
begin

text \<open>
  \<open>tools/appserver/singletaskqueue.cpp\<close>: the tasks of one client run on a shared thread pool, but one at a time and in the
  order they were enqueued. Each definition is what happens under the mutex; \<open>nextTask\<close> unlocks it before the
  pool is told to start the task, so that is a step of its own (\<open>pool_start\<close>), and so is the run of a task on the pool.
\<close>

section \<open>The queue\<close>

record 't task_queue =
  tqTasks :: "'t list"
  tqStarting :: "'t list" \<comment> \<open>unlocked, and \<open>QThreadPool::start\<close> not yet called\<close>
  tqPool :: "'t list" \<comment> \<open>given to the pool and not completed\<close>
  tqDone :: "'t list" \<comment> \<open>the runs completed, in their order\<close>

definition new_queue :: "'t task_queue" where
  "new_queue = \<lparr>tqTasks = [], tqStarting = [], tqPool = [], tqDone = []\<rparr>"

definition next_task :: "'t task_queue \<Rightarrow> 't task_queue" where
  "next_task q = (case tqTasks q of [] \<Rightarrow> q | t # _ \<Rightarrow> q\<lparr>tqStarting := tqStarting q @ [t]\<rparr>)"

definition enqueue_task :: "'t \<Rightarrow> 't task_queue \<Rightarrow> 't task_queue" where
  "enqueue_task t q = (let q' = q\<lparr>tqTasks := tqTasks q @ [t]\<rparr> in if length (tqTasks q') = 1 then next_task q' else q')"

text \<open>\<open>clear\<close>: the head is running and cannot be removed.\<close>

definition clear_tasks :: "'t task_queue \<Rightarrow> bool \<times> 't task_queue" where
  "clear_tasks q = (case tqTasks q of [] \<Rightarrow> (True, q) | t # _ \<Rightarrow> (False, q\<lparr>tqTasks := [t]\<rparr>))"

definition is_finished :: "'t task_queue \<Rightarrow> bool" where
  "is_finished q \<longleftrightarrow> tqTasks q = []"

definition complete_task :: "'t task_queue \<Rightarrow> 't task_queue" where
  "complete_task q = next_task (q\<lparr>tqTasks := tl (tqTasks q)\<rparr>)"

definition pool_start :: "'t task_queue \<Rightarrow> 't task_queue" where
  "pool_start q = (case tqStarting q of [] \<Rightarrow> q | t # ts \<Rightarrow> q\<lparr>tqStarting := ts, tqPool := tqPool q @ [t]\<rparr>)"

text \<open>\<open>Task::run\<close>, for the task the pool has chosen\<close>

definition task_run :: "nat \<Rightarrow> 't task_queue \<Rightarrow> 't task_queue" where
  "task_run n q = (if n < length (tqPool q)
     then complete_task (q\<lparr>tqPool := take n (tqPool q) @ drop (Suc n) (tqPool q), tqDone := tqDone q @ [tqPool q ! n]\<rparr>) else q)"

datatype 't queue_op = Enqueue 't | Clear | PoolStart | PoolRun nat

fun queue_step :: "'t queue_op \<Rightarrow> 't task_queue \<Rightarrow> 't task_queue" where
  "queue_step (Enqueue t) q = enqueue_task t q"
| "queue_step Clear q = snd (clear_tasks q)"
| "queue_step PoolStart q = pool_start q"
| "queue_step (PoolRun n) q = task_run n q"

fun enqueued :: "'t queue_op list \<Rightarrow> 't list" where
  "enqueued [] = []"
| "enqueued (Enqueue t # xs) = t # enqueued xs"
| "enqueued (_ # xs) = enqueued xs"

lemma enqueued_append [simp]: "enqueued (xs @ ys) = enqueued xs @ enqueued ys"
  by (induction xs rule: enqueued.induct) simp_all

section \<open>One at a time\<close>

text \<open>The task that is started or runs is the head, and when there is a task, the head is started or runs.\<close>

definition queue_inv :: "'t task_queue \<Rightarrow> bool" where
  "queue_inv q \<longleftrightarrow> tqStarting q @ tqPool q = take 1 (tqTasks q)"

lemma queue_cases:
  assumes "queue_inv q"
  obtains "tqTasks q = []" "tqStarting q = []" "tqPool q = []"
  | t ts where "tqTasks q = t # ts" "tqStarting q = [t]" "tqPool q = []"
  | t ts where "tqTasks q = t # ts" "tqStarting q = []" "tqPool q = [t]"
  using assms by (cases "tqTasks q") (auto simp: queue_inv_def append_eq_Cons_conv)

lemma new_queue_inv [simp]: "queue_inv new_queue"
  by (simp add: queue_inv_def new_queue_def)

lemma queue_step_inv: "queue_inv q \<Longrightarrow> queue_inv (queue_step x q)"
proof (erule queue_cases)
  show "tqTasks q = [] \<Longrightarrow> tqStarting q = [] \<Longrightarrow> tqPool q = [] \<Longrightarrow> queue_inv (queue_step x q)"
    by (cases x) (simp_all add: queue_inv_def enqueue_task_def next_task_def clear_tasks_def pool_start_def task_run_def)
next
  fix t ts
  show "tqTasks q = t # ts \<Longrightarrow> tqStarting q = [t] \<Longrightarrow> tqPool q = [] \<Longrightarrow> queue_inv (queue_step x q)"
    by (cases x) (simp_all add: queue_inv_def enqueue_task_def next_task_def clear_tasks_def pool_start_def task_run_def)
next
  fix t ts
  show "tqTasks q = t # ts \<Longrightarrow> tqStarting q = [] \<Longrightarrow> tqPool q = [t] \<Longrightarrow> queue_inv (queue_step x q)"
    by (cases x) (auto simp: queue_inv_def enqueue_task_def next_task_def clear_tasks_def pool_start_def task_run_def
        complete_task_def split: list.split)
qed

lemma queue_run_inv: "queue_inv q \<Longrightarrow> queue_inv (fold queue_step xs q)"
  by (induction xs arbitrary: q) (simp_all add: queue_step_inv)

section \<open>In order\<close>

lemma queue_step_content:
  assumes "queue_inv q"
  shows "x \<noteq> Clear \<Longrightarrow> tqDone (queue_step x q) @ tqTasks (queue_step x q) = tqDone q @ tqTasks q @ enqueued [x]"
    and "subseq (tqDone (queue_step x q) @ tqTasks (queue_step x q)) (tqDone q @ tqTasks q @ enqueued [x])"
proof -
  show *: "tqDone (queue_step x q) @ tqTasks (queue_step x q) = tqDone q @ tqTasks q @ enqueued [x]" if "x \<noteq> Clear" for x
    using assms that by (rule_tac queue_cases [OF assms]; cases x)
      (auto simp: enqueue_task_def next_task_def pool_start_def task_run_def complete_task_def split: list.split)
  show "subseq (tqDone (queue_step x q) @ tqTasks (queue_step x q)) (tqDone q @ tqTasks q @ enqueued [x])"
  proof (cases "x = Clear")
    case True
    have "subseq (tqDone q @ [t]) (tqDone q @ t # ts)" for t ts
      using list_emb_append_mono [of "(=)" "tqDone q" "tqDone q" "[t]" "t # ts"] by simp
    with True show ?thesis by (cases "tqTasks q") (simp_all add: clear_tasks_def)
  qed (simp add: *)
qed

text \<open>What was completed and what waits are the enqueued tasks in their order, less what was cleared.\<close>

lemma queue_run_subseq:
  "queue_inv q \<Longrightarrow> subseq (tqDone (fold queue_step xs q) @ tqTasks (fold queue_step xs q)) (tqDone q @ tqTasks q @ enqueued xs)"
proof (induction xs arbitrary: q)
  case (Cons x xs)
  have "subseq (tqDone (queue_step x q) @ tqTasks (queue_step x q) @ enqueued xs) (tqDone q @ tqTasks q @ enqueued [x] @ enqueued xs)"
    using list_emb_append_mono [OF queue_step_content(2) [OF Cons.prems, of x] subseq_order.order_refl, of "enqueued xs"] by simp
  moreover have "enqueued (x # xs) = enqueued [x] @ enqueued xs" using enqueued_append [of "[x]" xs] by simp
  ultimately show ?case
    using Cons.IH [OF queue_step_inv [OF Cons.prems], of x] by (auto intro: subseq_order.order_trans)
qed simp

lemma queue_run_content:
  "queue_inv q \<Longrightarrow> Clear \<notin> set xs \<Longrightarrow>
   tqDone (fold queue_step xs q) @ tqTasks (fold queue_step xs q) = tqDone q @ tqTasks q @ enqueued xs"
proof (induction xs arbitrary: q)
  case (Cons x xs)
  moreover have "enqueued (x # xs) = enqueued [x] @ enqueued xs" using enqueued_append [of "[x]" xs] by simp
  ultimately show ?case
    using Cons.IH [OF queue_step_inv [OF Cons.prems(1)], of x] queue_step_content(1) [OF Cons.prems(1), of x] by auto
qed simp

section \<open>Nothing gets stuck\<close>

definition pool_rounds :: "nat \<Rightarrow> 't queue_op list" where
  "pool_rounds n = concat (replicate n [PoolStart, PoolRun 0])"

lemma pool_round:
  assumes "queue_inv q"
  shows "tqTasks (task_run 0 (pool_start q)) = tl (tqTasks q)"
  by (rule queue_cases [OF assms])
    (auto simp: next_task_def pool_start_def task_run_def complete_task_def split: list.split)

lemma pool_rounds_empty: "queue_inv q \<Longrightarrow> length (tqTasks q) \<le> n \<Longrightarrow> is_finished (fold queue_step (pool_rounds n) q)"
proof (induction n arbitrary: q)
  case 0
  then show ?case by (simp add: pool_rounds_def is_finished_def)
next
  case (Suc n)
  have "queue_inv (task_run 0 (pool_start q))"
    using queue_run_inv [OF Suc.prems(1), of "[PoolStart, PoolRun 0]"] by simp
  from Suc.IH [OF this] Suc.prems(2) show ?case by (simp add: pool_rounds_def pool_round [OF Suc.prems(1)])
qed

lemma pool_rounds_free: "Clear \<notin> set (pool_rounds n)" "enqueued (pool_rounds n) = []"
  by (induction n) (simp_all add: pool_rounds_def)

text \<open>C20: However enqueuing, starting and running of tasks interleave on the threads: at most one task of a queue is started
  or runs, the tasks complete in the order they were enqueued, and as many rounds of the pool as there are tasks
  complete them all.\<close>

theorem tasks_run_in_order:
  assumes "q = fold queue_step xs new_queue" "Clear \<notin> set xs"
  shows "length (tqStarting q @ tqPool q) \<le> 1 \<and> tqDone q @ tqTasks q = enqueued xs \<and>
    tqDone (fold queue_step (pool_rounds (length (tqTasks q))) q) = enqueued xs"
proof -
  have inv: "queue_inv q" by (simp add: assms(1) queue_run_inv)
  have all: "tqDone q @ tqTasks q = enqueued xs"
    using queue_run_content [OF new_queue_inv assms(2)] by (simp add: assms(1)) (simp add: new_queue_def)
  have "tqDone (fold queue_step (pool_rounds (length (tqTasks q))) q) = tqDone q @ tqTasks q"
    using queue_run_content [OF inv pool_rounds_free(1), of "length (tqTasks q)"] pool_rounds_empty [OF inv order_refl]
    by (simp add: pool_rounds_free is_finished_def)
  with all inv show ?thesis by (simp add: queue_inv_def)
qed

lemma tasks_run_in_order_witness:
  "tqDone (fold queue_step (pool_rounds 2) (fold queue_step [Enqueue ''a'', PoolStart, Enqueue ''b'', PoolRun 0, Enqueue ''c''] new_queue)) =
     [''a'', ''b'', ''c'']"
proof -
  let ?xs = "[Enqueue ''a'', PoolStart, Enqueue ''b'', PoolRun 0, Enqueue ''c'']"
  have "length (tqTasks (fold queue_step ?xs new_queue)) = 2"
    by (simp add: new_queue_def enqueue_task_def next_task_def pool_start_def task_run_def complete_task_def)
  with tasks_run_in_order [OF refl, of ?xs] show ?thesis by simp
qed

end
