(* ===== verification/ClientConnector.thy ===== *)
theory ClientConnector
  imports ServerClaims ServerClient TaskQueue
begin

text \<open>
  The server as a whole (\<open>tools/appserver/clientconnector.cpp\<close> and the set-up and end of a connection in \<open>client.cpp\<close>):
  the connections, each with its queue of tasks on the shared pool, the table of connected devices, and the signals between
  connections. The signals are emitted by tasks on the pool and delivered, in the order of their emission, by
  the event loop of the main thread (\<open>Qt::QueuedConnection\<close>). Connections have numbers that are never used again;
  one that is gone gets no events (Qt drops what is posted to a deleted object).
\<close>

section \<open>State\<close>

text \<open>What runs in the task queue of a client: its first task identifies the server, all others handle an event.\<close>

datatype client_task = Begin | Handle client_event

definition task_step :: "cenv \<Rightarrow> client_task \<Rightarrow> cworld \<Rightarrow> cworld" where
  "task_step e t = (case t of Begin \<Rightarrow> run_task (start_client e) | Handle ev \<Rightarrow> client_step e ev)"

datatype posted =
    PostConnected nat uuid
  | PostProofRequested nat uuid message
  | PostProofDone nat nat uuid uuid bool message \<comment> \<open>partner and client of the connection, the device it waits for, the arguments\<close>
  | PostAccepted nat nat uuid \<comment> \<open>client and partner of the connection, the argument\<close>
  | PostForceDisconnect uuid
  | PostNotify uuid

record service =
  svTables :: sdb
  svClient :: "nat \<Rightarrow> client"
  svQueue :: "nat \<Rightarrow> client_task task_queue"
  svAlive :: "nat set"
  svNext :: nat
  svClosing :: "nat set" \<comment> \<open>the timer of \<open>closeClient\<close> runs\<close>
  svDying :: "nat set" \<comment> \<open>\<open>deleteLater\<close> was called\<close>
  svClients :: "uuid \<rightharpoonup> nat"
  svConnected :: "(nat \<times> uuid) list" \<comment> \<open>connections made by \<open>clientConnected\<close>\<close>
  svProofs :: "(nat \<times> nat \<times> uuid) list" \<comment> \<open>\<open>proofDone\<close> of a partner, connected for a client and its device\<close>
  svAccepts :: "(nat \<times> nat) list" \<comment> \<open>\<open>connected\<close> of a client, connected to its partner\<close>
  svPosted :: "posted list"
  svEffects :: "(nat \<times> effect) list"

definition new_service :: service where
  "new_service = \<lparr>svTables = empty_sdb, svClient = (\<lambda>_. new_client 20 10), svQueue = (\<lambda>_. new_queue), svAlive = {}, svNext = 0,
     svClosing = {}, svDying = {}, svClients = Map.empty, svConnected = [], svProofs = [], svAccepts = [], svPosted = [], svEffects = []\<rparr>"

definition enqueue_for :: "nat \<Rightarrow> client_task \<Rightarrow> service \<Rightarrow> service" where
  "enqueue_for i t s = s\<lparr>svQueue := (svQueue s)(i := enqueue_task t (svQueue s i))\<rparr>"

definition happens :: "nat \<Rightarrow> effect \<Rightarrow> service \<Rightarrow> service" where
  "happens i x s = s\<lparr>svEffects := svEffects s @ [(i, x)]\<rparr>"

section \<open>Signals\<close>

text \<open>What a signal of a client posts: one event for each connection there is when it is emitted.\<close>

definition posts :: "service \<Rightarrow> nat \<Rightarrow> effect \<Rightarrow> posted list" where
  "posts s i x = (case x of
       Connected d \<Rightarrow> PostConnected i d # map (\<lambda>(_, j). PostAccepted i j d) (filter (\<lambda>(k, _). k = i) (svAccepts s))
     | ProofRequested p m \<Rightarrow> [PostProofRequested i p m]
     | ProofDone d ok m \<Rightarrow> map (\<lambda>(_, k, w). PostProofDone i k w d ok m) (filter (\<lambda>(j, _). j = i) (svProofs s))
     | ForceDisconnect d \<Rightarrow> map (\<lambda>_. PostForceDisconnect d) (filter (\<lambda>(j, _). j = i) (svConnected s))
     | _ \<Rightarrow> [])"

definition emitted :: "nat \<Rightarrow> effect list \<Rightarrow> service \<Rightarrow> service" where
  "emitted i xs s = s\<lparr>svPosted := svPosted s @ concat (map (posts s i) xs), svEffects := svEffects s @ map (Pair i) xs\<rparr>"

definition run_in_client :: "nat \<Rightarrow> (cworld \<Rightarrow> cworld) \<Rightarrow> service \<Rightarrow> service" where
  "run_in_client i f s =
     (let w = f \<lparr>me = svClient s i, tables = svTables s, effects = []\<rparr>
      in emitted i (effects w) (s\<lparr>svTables := tables w, svClient := (svClient s)(i := me w)\<rparr>))"

section \<open>Slots of the connector\<close>

definition new_connection :: "u32 \<Rightarrow> u32 \<Rightarrow> service \<Rightarrow> service" where
  "new_connection limit threshold s =
     (let i = svNext s in enqueue_for i Begin
       (s\<lparr>svNext := Suc i, svAlive := insert i (svAlive s), svClient := (svClient s)(i := new_client limit threshold)\<rparr>))"

definition client_connected :: "nat \<Rightarrow> uuid \<Rightarrow> service \<Rightarrow> service" where
  "client_connected i d s =
     (if i \<notin> svAlive s then s else s\<lparr>svClients := (svClients s)(d \<mapsto> i), svConnected := svConnected s @ [(i, d)]\<rparr>)"

definition proof_requested :: "nat \<Rightarrow> uuid \<Rightarrow> message \<Rightarrow> service \<Rightarrow> service" where
  "proof_requested i partner m s =
     (if i \<notin> svAlive s then s
      else case svClients s partner of
        None \<Rightarrow> enqueue_for i (Handle (ProofResult False no_accept)) s
      | Some j \<Rightarrow> enqueue_for j (Handle (SendProof m)) (s\<lparr>svProofs := svProofs s @ [(j, i, proof_device m)]\<rparr>))"

definition proof_done :: "nat \<Rightarrow> nat \<Rightarrow> uuid \<Rightarrow> uuid \<Rightarrow> bool \<Rightarrow> message \<Rightarrow> service \<Rightarrow> service" where
  "proof_done j i waited d ok m s =
     (if i \<notin> svAlive s \<or> waited \<noteq> d then s
      else enqueue_for i (Handle (ProofResult ok m))
        (if j \<in> svAlive s
         then s\<lparr>svProofs := filter (\<lambda>(j', i', _). \<not> (j' = j \<and> i' = i)) (svProofs s), svAccepts := svAccepts s @ [(i, j)]\<rparr> else s))"

definition drop_client :: "nat \<Rightarrow> service \<Rightarrow> service" where
  "drop_client i s = happens i CloseNow s"

definition force_disconnect :: "uuid \<Rightarrow> service \<Rightarrow> service" where
  "force_disconnect d s = (case svClients s d of None \<Rightarrow> s | Some j \<Rightarrow> drop_client j s)"

definition notify_device :: "uuid \<Rightarrow> service \<Rightarrow> service" where
  "notify_device d s = (case svClients s d of None \<Rightarrow> s | Some j \<Rightarrow> enqueue_for j (Handle NotifyChanged) s)"

text \<open>\<open>disconnectAll\<close> reaches the connections in the order they were made.\<close>

definition disconnect_all :: "service \<Rightarrow> service" where
  "disconnect_all s = fold drop_client (filter (\<lambda>i. i \<in> svAlive s) [0..<svNext s]) s"

definition deliver :: "posted \<Rightarrow> service \<Rightarrow> service" where
  "deliver x s = (case x of
       PostConnected i d \<Rightarrow> client_connected i d s
     | PostProofRequested i p m \<Rightarrow> proof_requested i p m s
     | PostProofDone j i w d ok m \<Rightarrow> proof_done j i w d ok m s
     | PostAccepted i j d \<Rightarrow> if j \<in> svAlive s then enqueue_for j (Handle (AcceptDone d)) s else s
     | PostForceDisconnect d \<Rightarrow> force_disconnect d s
     | PostNotify d \<Rightarrow> notify_device d s)"

text \<open>\<open>verifySecret\<close>, connected only when there is a secret\<close>

definition origin_allowed :: "string option \<Rightarrow> string \<Rightarrow> bool" where
  "origin_allowed secret origin = (case secret of None \<Rightarrow> True | Some x \<Rightarrow> x = [] \<or> origin = x)"

section \<open>The end of a connection\<close>

definition close_client :: "nat \<Rightarrow> service \<Rightarrow> service" where
  "close_client i s =
     (let (empty, q) = clear_tasks (svQueue s i); s' = s\<lparr>svQueue := (svQueue s)(i := q)\<rparr>
      in if empty then s'\<lparr>svDying := insert i (svDying s)\<rparr> else s'\<lparr>svClosing := insert i (svClosing s)\<rparr>)"

definition destroy_timeout :: "nat \<Rightarrow> service \<Rightarrow> service" where
  "destroy_timeout i s = (if i \<in> svClosing s \<and> is_finished (svQueue s i) then s\<lparr>svDying := insert i (svDying s)\<rparr> else s)"

text \<open>
  The deletion emits \<open>destroyed\<close>, for which each \<open>clientConnected\<close> has connected the removal of the device, and ends
  all connections of signals from and to the client. It waits for a task that runs.
\<close>

definition delete_client :: "nat \<Rightarrow> service \<Rightarrow> service" where
  "delete_client i s =
     (if i \<in> svAlive s \<inter> svDying s \<and> is_finished (svQueue s i)
      then s\<lparr>svAlive := svAlive s - {i},
             svClients := fold (\<lambda>(_, d) m. m(d := None)) (filter (\<lambda>(j, _). j = i) (svConnected s)) (svClients s),
             svConnected := filter (\<lambda>(j, _). j \<noteq> i) (svConnected s),
             svProofs := filter (\<lambda>(j, k, _). j \<noteq> i \<and> k \<noteq> i) (svProofs s),
             svAccepts := filter (\<lambda>(k, j). k \<noteq> i \<and> j \<noteq> i) (svAccepts s)\<rparr>
      else s)"

section \<open>Steps\<close>

datatype service_step =
    NewConnection u32 u32
  | Arrives nat bytes \<comment> \<open>a message on the socket of a client; a ping is answered at once\<close>
  | SocketError nat \<comment> \<open>an error of the socket or of its certificates, or the idle timer\<close>
  | StartTask nat
  | RunTask nat nat cenv
  | Deliver
  | Notification uuid
  | SocketClosed nat
  | DestroyTimeout nat
  | DeleteClient nat
  | DisconnectAll \<comment> \<open>closing, pausing or reconfiguring the server\<close>

definition service_step :: "service_step \<Rightarrow> service \<Rightarrow> service" where
  "service_step x s = (case x of
       NewConnection limit threshold \<Rightarrow> new_connection limit threshold s
     | Arrives i b \<Rightarrow> if i \<notin> svAlive s then s else if b = ping_message then happens i Pong s
         else enqueue_for i (Handle (Receive b)) s
     | SocketError i \<Rightarrow> if i \<notin> svAlive s then s else run_in_client i (run_task socket_failed) s
     | StartTask i \<Rightarrow> s\<lparr>svQueue := (svQueue s)(i := pool_start (svQueue s i))\<rparr>
     | RunTask i n e \<Rightarrow> if n < length (tqPool (svQueue s i))
         then run_in_client i (task_step e (tqPool (svQueue s i) ! n)) (s\<lparr>svQueue := (svQueue s)(i := task_run n (svQueue s i))\<rparr>)
         else s
     | Deliver \<Rightarrow> (case svPosted s of [] \<Rightarrow> s | p # ps \<Rightarrow> deliver p (s\<lparr>svPosted := ps\<rparr>))
     | Notification d \<Rightarrow> s\<lparr>svPosted := svPosted s @ [PostNotify d]\<rparr>
     | SocketClosed i \<Rightarrow> if i \<in> svAlive s then close_client i s else s
     | DestroyTimeout i \<Rightarrow> destroy_timeout i s
     | DeleteClient i \<Rightarrow> delete_client i s
     | DisconnectAll \<Rightarrow> disconnect_all s)"

definition service_run :: "service_step list \<Rightarrow> service \<Rightarrow> service" where
  "service_run = fold service_step"

end
