(* ===== verification/ClientEffects.thy ===== *)
theory ClientEffects
  imports ClientConnector ClientClaims
begin

text \<open>
  What the tasks of a client can emit and change. Most of them leave alone who the client is and emit nothing that lets a device in
  (\<open>special\<close>); the locale \<open>modest\<close> states this once for every predicate that is indifferent to the rest.
\<close>

section \<open>Effects that let devices in\<close>

definition special :: "effect \<Rightarrow> bool" where
  "special x \<longleftrightarrow> (case x of
       Send m \<Rightarrow> kind_of m = KGrant
     | ProofDone d ok m \<Rightarrow> ok
     | ProofRequested p m \<Rightarrow> kind_of m \<noteq> KProof
     | Connected d \<Rightarrow> True
     | _ \<Rightarrow> False)"

lemma special_simps [simp]:
  "special (Send m) \<longleftrightarrow> kind_of m = KGrant" "special (ProofDone d ok m) = ok" "special (ProofRequested p m) \<longleftrightarrow> kind_of m \<noteq> KProof"
  "special (Connected d)" "\<not> special (ForceDisconnect d)" "\<not> special Pong" "\<not> special CloseLater" "\<not> special CloseNow"
  by (simp_all add: special_def)

locale modest =
  fixes P :: "cworld \<Rightarrow> bool"
  assumes any_tables: "P w \<Longrightarrow> P (w\<lparr>tables := d\<rparr>)"
    and any_effect: "P w \<Longrightarrow> \<not> special x \<Longrightarrow> P (w\<lparr>effects := effects w @ [x]\<rparr>)"
    and same_client: "P w \<Longrightarrow> deviceId c = deviceId (me w) \<Longrightarrow>
      cState c = cState (me w) \<or> cState c \<notin> {Authenticating, AwaitingGrant} \<Longrightarrow> P (w\<lparr>me := c\<rparr>)"
begin

lemma keeps_db: "keeps P (in_db m)"
  by (auto simp: keeps_def in_db_def any_tables split: prod.splits sum.splits)

lemma keeps_effect: "\<not> special x \<Longrightarrow> keeps P (emit x)"
  by (simp add: keeps_def emit_def modify_def any_effect)

lemma keeps_client: "(\<And>c. deviceId (f c) = deviceId c) \<Longrightarrow> (\<And>c. cState (f c) = cState c) \<Longrightarrow> keeps P (upd f)"
  by (simp add: keeps_def upd_def modify_def same_client)

lemma keeps_state: "st \<notin> {Authenticating, AwaitingGrant} \<Longrightarrow> keeps P (set_state st)"
  by (simp add: keeps_def set_state_def upd_def modify_def same_client)

lemma keeps_signature: "keeps P (check_signature e scheme key whole rest)"
  by (auto simp: check_signature_def keeps_throw keeps_ret split: sum.split signature_error.split)

lemmas basic = keeps_ret keeps_throw keeps_gets keeps_guard keeps_seq keeps_if keeps_option keeps_pair
  keeps_db keeps_effect keeps_state keeps_signature

lemma keeps_error: "keeps P (send_error t s r)"
  unfolding send_error_def by (intro basic) simp_all

lemma keeps_stored: "keeps P (check_stored e dev whole rest)"
  unfolding check_stored_def by (intro basic)

lemma keeps_changes: "keeps P (send_changes e n u changes)"
proof (induction e n u changes rule: send_changes.induct)
  case (2 e n u i k s d rest)
  show ?case unfolding send_changes.simps by (intro basic keeps_client 2) simp_all
qed (simp add: keeps_ret)

lemma keeps_download: "keeps P (trigger_download e n f skip)"
  unfolding trigger_download_def Let_def by (intro basic keeps_client keeps_changes) simp_all

lemma keeps_forced: "keeps P (force_disconnects ks)"
  by (induction ks rule: force_disconnects.induct) (auto intro!: basic)

lemma keeps_login: "keeps P (check_login k n)"
  unfolding check_login_def by (intro basic keeps_client) simp_all

lemmas handlers = basic keeps_error keeps_stored keeps_download keeps_forced keeps_login

lemma keeps_handled: "kind_of m \<notin> {KAccept, KRegister, KLogin, KAccess} \<Longrightarrow> keeps P (dispatch e whole m rest)"
  by (cases m)
    (auto simp: dispatch_def on_sync_def on_change_def on_device_change_def
      on_changed_ack_def on_list_devices_def on_remove_def on_deny_def on_mac_update_def on_key_change_def
      on_new_key_def check_idle_def intro!: handlers keeps_client)

lemma run_keeps:
  assumes "P (snd (m w))" shows "P (run_task m w)"
proof -
  obtain r w' where m: "m w = (r, w')" by fastforce
  with assms have "P (snd (send_error t s c w'))" for t s c
    using keepsD [OF keeps_error] by simp
  then show ?thesis using m assms by (auto simp: run_task_def split: sum.split client_error.split)
qed

lemma events_keep: "P w \<Longrightarrow> P (client_step e NotifyChanged w)" "P w \<Longrightarrow> P (client_step e (AcceptDone d) w)"
    "P w \<Longrightarrow> P (client_step e SocketFailed w)" "P w \<Longrightarrow> kind_of m \<noteq> KGrant \<Longrightarrow> P (client_step e (SendProof m) w)"
    "P w \<Longrightarrow> P (run_task (start_client e) w)"
  by (auto simp: notify_changed_def accept_done_def socket_failed_def send_proof_def start_client_def
      intro!: run_keeps keepsD [where P = P] handlers keeps_client)

end

definition plain :: "cworld \<Rightarrow> bool" where
  "plain w \<longleftrightarrow> (\<forall>x \<in> set (effects w). \<not> special x)"

interpretation pl: modest plain
  by unfold_locales (auto simp: plain_def)

definition own_connected :: "cworld \<Rightarrow> bool" where
  "own_connected w \<longleftrightarrow> (\<forall>x \<in> set (effects w). special x \<longrightarrow> x = Connected (deviceId (me w)) \<and> cState (me w) \<notin> {Authenticating, AwaitingGrant})"

interpretation oc: modest own_connected
  by unfold_locales (auto simp: own_connected_def)

definition known :: "uuid \<Rightarrow> cworld \<Rightarrow> bool" where
  "known d w \<longleftrightarrow> cState (me w) \<noteq> Authenticating \<and> deviceId (me w) = d"

interpretation kn: modest "known d" for d
  by unfold_locales (auto simp: known_def)

lemma plain_own: "plain w \<Longrightarrow> own_connected w"
  by (auto simp: plain_def own_connected_def)

section \<open>The messages that let a device in\<close>

lemma kind_proof_of_access: "kind_of (proof_of_access m d) = KProof"
  by (cases "(m, d)" rule: proof_of_access.cases) simp_all

lemma plain_access: "keeps plain (on_access e b m n sa sk ca ck p rest)"
proof -
  have "keeps plain (upd f)" for f by (simp add: upd_def plain_def keeps_def modify_def)
  then show ?thesis unfolding on_access_def by (intro pl.handlers) (simp_all add: kind_proof_of_access)
qed

definition reaches :: "(cworld \<Rightarrow> bool) \<Rightarrow> (cworld \<Rightarrow> bool) \<Rightarrow> unit task \<Rightarrow> bool" where
  "reaches P Q m \<longleftrightarrow> (\<forall>w. P w \<longrightarrow> Q (snd (m w)))"

lemma reaches_seq: "keeps P m \<Longrightarrow> (\<And>w. P w \<Longrightarrow> Q w) \<Longrightarrow> (\<And>a. reaches P Q (f a)) \<Longrightarrow> reaches P Q (seq m f)"
  unfolding reaches_def keeps_def seq_def by (auto split: prod.splits sum.splits)

lemma reaches_upd: "reaches P' Q (f ()) \<Longrightarrow> (\<And>w. P w \<Longrightarrow> P' (w\<lparr>me := g (me w)\<rparr>)) \<Longrightarrow> reaches P Q (seq (upd g) f)"
  by (simp add: reaches_def upd_def modify_def seq_def)

lemma reaches_keeps: "keeps Q m \<Longrightarrow> (\<And>w. P w \<Longrightarrow> Q w) \<Longrightarrow> reaches P Q m"
  by (auto simp: reaches_def keeps_def)

lemma register_own: "reaches plain own_connected (on_register e b n sa sk ca ck nm mac rest)"
proof -
  have "reaches plain own_connected (seq (upd (\<lambda>c. c\<lparr>deviceId := dev\<rparr>)) (\<lambda>_. seq (send (AccountMessage dev)) (\<lambda>_.
      seq (set_state Idle) (\<lambda>_. emit (Connected dev)))))" for dev
    by (auto simp: reaches_def upd_def emit_def modify_def seq_def set_state_def plain_def own_connected_def)
  note last = this
  note first = reaches_seq [where P = plain and Q = own_connected, OF _ plain_own]
  show ?thesis
    unfolding on_register_def
    by (intro last first [OF pl.keeps_login] first [OF keeps_guard] first [OF pl.keeps_signature] first [OF pl.keeps_db])
qed

lemma login_own: "reaches plain own_connected (on_login e b n dev nm rest)"
proof -
  let ?N = "\<lambda>w. plain w \<and> deviceId (me w) = dev"
  have N: "modest ?N" by unfold_locales (auto simp: plain_def)
  note rules = modest.basic [OF N]
  have last: "reaches ?N own_connected (seq (set_state Idle) (\<lambda>_. seq (emit (Connected dev)) (\<lambda>_. trigger_download e 4 True x)))" for x
  proof -
    have "own_connected (snd (seq (set_state Idle) (\<lambda>_. emit (Connected dev)) w))" if "?N w" for w
      using that by (auto simp: upd_def emit_def modify_def seq_def set_state_def plain_def own_connected_def)
    then show ?thesis using keepsD [OF oc.keeps_download]
      by (simp add: reaches_def upd_def emit_def modify_def seq_def set_state_def)
  qed
  note N_own = plain_own [OF conjunct1]
  note more = reaches_seq [where P = ?N and Q = own_connected, OF _ N_own]
  have rest: "reaches ?N own_connected (seq (in_db (update_login (sqlEnv e 1) dev nm)) (\<lambda>_.
     seq (in_db (change_count (sqlEnv e 2) dev)) (\<lambda>cnt.
     seq (upd (\<lambda>c. c\<lparr>cachedChanges := cnt\<rparr>)) (\<lambda>_.
     seq (in_db (load_key_changes (sqlEnv e 3) dev)) (\<lambda>(i, sch, k, mac).
     seq (send (WelcomeMessage (0 < cnt) i sch k mac)) (\<lambda>_.
     seq (set_state Idle) (\<lambda>_.
     seq (emit (Connected dev)) (\<lambda>_.
     trigger_download e 4 True (cnt = 0)))))))))"
    by (intro more [OF modest.keeps_db [OF N]] more [OF modest.keeps_client [OF N]])
      (auto intro!: more [OF modest.keeps_effect [OF N]] last)
  have "reaches plain own_connected (seq (upd (\<lambda>c. c\<lparr>deviceId := dev\<rparr>)) (\<lambda>_. f))" if "reaches ?N own_connected f" for f
    using that by (simp add: reaches_def upd_def modify_def seq_def plain_def)
  note start = this [OF rest]
  note first = reaches_seq [where P = plain and Q = own_connected, OF _ plain_own]
  show ?thesis
    unfolding on_login_def by (intro start first [OF pl.keeps_login] first [OF pl.keeps_stored])
qed

text \<open>The bytes are this acceptance of a device, signed with the key stored for the device that sends it.\<close>

definition signed_accept :: "cenv \<Rightarrow> sdb \<Rightarrow> uuid \<Rightarrow> bytes \<Rightarrow> message \<Rightarrow> bool" where
  "signed_accept e d dev b m \<longleftrightarrow> (\<exists>name r k rest x. read_name (mlib e) b = Inr (name, r) \<and> message_name k = name \<and>
     deserialize_message (mlib e) k r = Inr (m, rest) \<and> map_of (devices d) dev = Some x \<and>
     verify_signature (mlib e) (verifies e (signScheme x) (signKey x)) b rest = Inr ())"

lemma accept_step:
  assumes "plain w"
  shows "plain (run_task (on_accept e b m d rest) w) \<or>
    (cState (me w) = Idle \<and> (\<exists>x. map_of (devices (tables w)) (deviceId (me w)) = Some x \<and>
      verify_signature (mlib e) (verifies e (signScheme x) (signKey x)) b rest = Inr ()) \<and>
      run_task (on_accept e b m d rest) w = w\<lparr>effects := effects w @ [ProofDone d True m]\<rparr>)"
proof (cases "cState (me w) = Idle")
  case False
  then have "on_accept e b m d rest w = (Inl (unexpected KAccept), w)" by (simp add: on_accept_def check_idle_out)
  then show ?thesis using pl.run_keeps assms by simp
next
  case True
  obtain r w' where r: "check_stored e (deviceId (me w)) b rest w = (r, w')" by fastforce
  have step: "on_accept e b m d rest w = seq (check_stored e (deviceId (me w)) b rest) (\<lambda>_. emit (ProofDone d True m)) w"
    using True by (simp add: on_accept_def check_idle_def guard_call_def gets_def seq_def)
  show ?thesis
  proof (cases r)
    case (Inl x)
    then have "plain (snd (on_accept e b m d rest w))"
      using keepsD [OF pl.keeps_stored assms, of e "deviceId (me w)" b rest] r by (simp add: step seq_Inl)
    then show ?thesis using pl.run_keeps by blast
  next
    case (Inr u)
    then have "check_stored e (deviceId (me w)) b rest w = (Inr u, w')" using r by simp
    note stored = check_stored_Inr [OF this]
    then have "on_accept e b m d rest w = (Inr (), w\<lparr>effects := effects w @ [ProofDone d True m]\<rparr>)"
      using r Inr by (simp add: step seq_def emit_def modify_def)
    then have "run_task (on_accept e b m d rest) w = w\<lparr>effects := effects w @ [ProofDone d True m]\<rparr>"
      by (simp add: run_task_def)
    with stored True show ?thesis by blast
  qed
qed

lemma run_reaches: "reaches plain own_connected m \<Longrightarrow> plain w \<Longrightarrow> own_connected (run_task m w)"
  by (rule oc.run_keeps) (simp add: reaches_def)

lemma dispatch_step:
  assumes "plain w"
  shows "own_connected (run_task (dispatch e b m rest) w) \<or>
    (\<exists>d k sch s x. m = AcceptMessage d k sch s \<and> cState (me w) = Idle \<and> map_of (devices (tables w)) (deviceId (me w)) = Some x \<and>
      verify_signature (mlib e) (verifies e (signScheme x) (signKey x)) b rest = Inr () \<and>
      run_task (dispatch e b m rest) w = w\<lparr>effects := effects w @ [ProofDone d True m]\<rparr>)"
proof -
  consider "kind_of m \<notin> {KAccept, KRegister, KLogin, KAccess}" | "kind_of m = KAccept" | "kind_of m = KRegister" | "kind_of m = KLogin" | "kind_of m = KAccess"
    by blast
  then show ?thesis
  proof cases
    case 1
    then show ?thesis using keepsD [OF pl.keeps_handled assms] pl.run_keeps plain_own by blast
  next
    case 2
    then obtain d k sch s where m: "m = AcceptMessage d k sch s" by (cases m) simp_all
    then show ?thesis using accept_step [OF assms, of e b m d rest] plain_own by (simp add: dispatch_def) blast
  next
    case 3
    then show ?thesis using run_reaches [OF register_own assms] by (cases m) (simp_all add: dispatch_def)
  next
    case 4
    then show ?thesis using run_reaches [OF login_own assms] by (cases m) (simp_all add: dispatch_def)
  next
    case 5
    then have "plain (snd (dispatch e b m rest w))"
      using keepsD [where P = plain, OF plain_access assms] by (cases m) (simp_all add: dispatch_def)
    then show ?thesis using pl.run_keeps plain_own by blast
  qed
qed

lemma received_cases:
  obtains (quiet) "binary_message_received e b w = (Inr (), w)" | (throws) x where "binary_message_received e b w = (Inl x, w)"
  | (unknown) t where "binary_message_received e b w = send_error IncompatibleVersionError t False w"
  | (handled) name r k m rest where "read_name (mlib e) b = Inr (name, r)" "message_name k = name"
    "deserialize_message (mlib e) k r = Inr (m, rest)" "binary_message_received e b w = dispatch e b m rest w"
proof (cases "cState (me w) = Error")
  case True
  then show ?thesis using quiet by (simp add: received_step)
next
  case up: False
  show ?thesis
  proof (cases "read_name (mlib e) b")
    case (Inl x)
    then show ?thesis using up throws by (simp add: received_step)
  next
    case (Inr x)
    obtain name r where x: "x = (name, r)" by fastforce
    show ?thesis
    proof (cases "find (\<lambda>k. message_name k = name) server_kinds")
      case None
      then show ?thesis using Inr x up unknown by (simp add: received_step)
    next
      case (Some k)
      then have k: "message_name k = name" by (auto simp: find_Some_iff)
      show ?thesis
      proof (cases "deserialize_message (mlib e) k r")
        case err: (Inl y)
        then show ?thesis using Inr x up Some throws by (cases y) (simp_all add: received_step)
      next
        case msg: (Inr y)
        obtain m rest where "y = (m, rest)" by fastforce
        then show ?thesis using msg Inr x up Some k handled by (simp add: received_step)
      qed
    qed
  qed
qed

lemma receive_step:
  assumes "plain w"
  shows "own_connected (run_task (binary_message_received e b) w) \<or>
    (\<exists>d k sch s. cState (me w) = Idle \<and> signed_accept e (tables w) (deviceId (me w)) b (AcceptMessage d k sch s) \<and>
      effects (run_task (binary_message_received e b) w) = effects w @ [ProofDone d True (AcceptMessage d k sch s)])"
proof (cases e b w rule: received_cases)
  case (handled name r k m rest)
  have run: "run_task (binary_message_received e b) w = run_task (dispatch e b m rest) w"
    by (simp add: handled(4) run_task_def)
  from dispatch_step [OF assms, of e b m rest]
  consider "own_connected (run_task (dispatch e b m rest) w)"
    | d i sch s x where "m = AcceptMessage d i sch s" "cState (me w) = Idle" "map_of (devices (tables w)) (deviceId (me w)) = Some x"
      "verify_signature (mlib e) (verifies e (signScheme x) (signKey x)) b rest = Inr ()"
      "run_task (dispatch e b m rest) w = w\<lparr>effects := effects w @ [ProofDone d True m]\<rparr>" by blast
  then show ?thesis
  proof cases
    case (2 d i sch s x)
    then have "signed_accept e (tables w) (deviceId (me w)) b (AcceptMessage d i sch s)"
      using handled(1-3) unfolding signed_accept_def by blast
    with 2 run show ?thesis by auto
  qed (simp add: run)
qed (use assms pl.run_keeps keepsD [OF pl.keeps_error assms] plain_own in \<open>auto intro!: oc.run_keeps\<close>)

lemma proof_result_step:
  assumes "effects w = []"
  shows "own_connected (run_task (proof_result e ok m) w) \<or>
    (ok \<and> cState (me w) = AwaitingGrant \<and> accept_device m = deviceId (me w) \<and>
     effects (run_task (proof_result e ok m) w) = [Send (grant_of_accept m), Connected (deviceId (me w))] \<and>
     deviceId (me (run_task (proof_result e ok m) w)) = deviceId (me w) \<and> cState (me (run_task (proof_result e ok m) w)) = Idle)"
proof -
  have p: "plain w" using assms by (simp add: plain_def)
  have "plain (snd (send_error AccessError [] False w))" by (rule keepsD [where P = plain, OF pl.keeps_error p])
  then have quiet: "own_connected (run_task (ret ()) w)" "own_connected (run_task (throw OtherException) w)"
      "own_connected (run_task (send_error AccessError [] False) w)"
    using p by (auto simp: ret_def throw_def intro!: plain_own pl.run_keeps)
  show ?thesis
  proof (cases "cState (me w) = AwaitingGrant \<and> ok \<and> accept_device m = deviceId (me w)")
    case False
    then show ?thesis using quiet by (auto simp: proof_result_def gets_def seq_def run_task_def)
  next
    case True
    show ?thesis
    proof (cases "\<exists>v n sa sk ca ck nm pn pa ms mac tm. cachedAccess (me w) = Some (AccessMessage v n sa sk ca ck nm pn pa ms mac tm)")
      case False
      with True have "proof_result e ok m w = (Inl OtherException, w)"
        by (auto simp: proof_result_def gets_def seq_def throw_def split: option.split message.split)
      then show ?thesis using quiet(2) by (simp add: run_task_def throw_def)
    next
      case acc: True
      then obtain v n sa sk ca ck nm pn pa ms mac tm where
        "cachedAccess (me w) = Some (AccessMessage v n sa sk ca ck nm pn pa ms mac tm)" by blast
      note step = True this
      obtain r w' where r: "in_db (add_new_device_to_user (sqlEnv e 0) (deviceId (me w)) pa nm sa sk ca ck (cachedFingerPrint (me w))) w = (r, w')"
        by fastforce
      then have w': "plain w'" "me w' = me w" "effects w' = effects w"
        using p by (auto simp: in_db_def plain_def split: prod.splits sum.splits)
      show ?thesis
      proof (cases r)
        case (Inl x)
        then have "proof_result e ok m w = (Inl x, w')" using step r by (simp add: proof_result_def gets_def seq_def)
        then have "plain (run_task (proof_result e ok m) w)" using pl.run_keeps w'(1) by simp
        then show ?thesis using plain_own by blast
      next
        case (Inr u)
        then have "proof_result e ok m w = (Inr (), w'\<lparr>me := (me w)\<lparr>cachedAccess := None, cachedFingerPrint := [], cState := Idle\<rparr>,
            effects := effects w @ [Send (grant_of_accept m), Connected (deviceId (me w))]\<rparr>)"
          using step r w' by (simp add: proof_result_def gets_def seq_def upd_def modify_def emit_def set_state_def)
        then show ?thesis using True assms by (simp add: run_task_def)
      qed
    qed
  qed
qed

end
