(* ===== verification/Service.thy ===== *)
theory Service
  imports ClientEffects
begin

text \<open>
  The way of a request for access through the server: everything that waits in an event loop, a table or a task
  queue has its reason among the signals emitted before, and what a client is does not change once it is known.
\<close>

section \<open>One task\<close>

definition fine_task :: "client_task \<Rightarrow> bool" where
  "fine_task t \<longleftrightarrow> (case t of Handle (SendProof m) \<Rightarrow> kind_of m \<noteq> KGrant | _ \<Rightarrow> True)"

text \<open>The cases in which a task emits a special effect.\<close>

lemma task_special:
  assumes "effects w = []" "x \<in> set (effects (task_step e t w))" "special x" "fine_task t"
  obtains (connected) "x = Connected (deviceId (me (task_step e t w)))" "cState (me (task_step e t w)) \<notin> {Authenticating, AwaitingGrant}"
  | (accepts) b d k sch s where "t = Handle (Receive b)" "x = ProofDone d True (AcceptMessage d k sch s)" "cState (me w) = Idle"
      "signed_accept e (tables w) (deviceId (me w)) b (AcceptMessage d k sch s)"
  | (granted) m where "t = Handle (ProofResult True m)" "x = Send (grant_of_accept m)" "accept_device m = deviceId (me w)"
proof -
  have p: "plain w" using assms(1) by (simp add: plain_def)
  have own: ?thesis if "own_connected (task_step e t w)"
    using that assms(2,3) connected by (auto simp: own_connected_def)
  show ?thesis
  proof (cases t)
    case Begin
    then show ?thesis using own pl.events_keep(5) [OF p] plain_own by (simp add: task_step_def)
  next
    case (Handle ev)
    show ?thesis
    proof (cases ev)
      case (Receive b)
      show ?thesis
      proof (cases "b = ping_message")
        case True
        then have "plain (task_step e t w)" using Handle Receive p by (simp add: task_step_def run_task_def emit_def modify_def plain_def)
        then show ?thesis using own plain_own by blast
      next
        case False
        then have step: "task_step e t w = run_task (binary_message_received e b) w" using Handle Receive by (simp add: task_step_def)
        have tt: "t = Handle (Receive b)" using Handle Receive by simp
        from receive_step [OF p, of e b] consider "own_connected (task_step e t w)"
          | d k sch s where "cState (me w) = Idle" "signed_accept e (tables w) (deviceId (me w)) b (AcceptMessage d k sch s)"
            "effects (task_step e t w) = [ProofDone d True (AcceptMessage d k sch s)]"
          unfolding step assms(1) by auto
        then show ?thesis
        proof cases
          case (2 d k sch s)
          then show ?thesis using accepts [OF tt] assms(2) by simp
        qed (rule own)
      qed
    next
      case (ProofResult ok m)
      then have step: "task_step e t w = run_task (proof_result e ok m) w" using Handle by (simp add: task_step_def)
      from proof_result_step [OF assms(1), of e ok m] show ?thesis
        using own connected granted Handle ProofResult assms(2) unfolding step [symmetric] by auto
    next
      case (SendProof m)
      then have "plain (task_step e t w)" using Handle assms(4) pl.events_keep(4) [OF p] by (simp add: task_step_def fine_task_def)
      then show ?thesis using own plain_own by blast
    qed (use Handle own plain_own pl.events_keep(1-3) [OF p] in \<open>auto simp: task_step_def simp del: client_step.simps\<close>)
  qed
qed

lemma known_dispatch: "known d w \<Longrightarrow> known d (run_task (dispatch e b m rest) w)"
proof -
  assume k: "known d w"
  have "known d (snd (dispatch e b m rest w))"
  proof (cases "kind_of m \<in> {KAccept, KRegister, KLogin, KAccess}")
    case False
    then show ?thesis using keepsD [where P = "known d", OF kn.keeps_handled k] by simp
  next
    case True
    have emits: "keeps (known d) (emit x)" for x by (simp add: keeps_def emit_def modify_def known_def)
    then have "keeps (known d) (on_accept e b m dev rest)" for dev
      unfolding on_accept_def check_idle_def by (intro keeps_seq keeps_gets keeps_guard kn.keeps_stored emits)
    then have "known d (snd (on_accept e b m dev rest w))" for dev by (rule keepsD [where P = "known d" and s = w, OF _ k])
    moreover have "cState (me w) \<noteq> Authenticating" using k by (simp add: known_def)
    ultimately show ?thesis using True k
      by (cases m) (simp_all add: dispatch_def on_register_def on_login_def on_access_def check_login_step)
  qed
  then show ?thesis by (rule kn.run_keeps)
qed

lemma known_task: "known d w \<Longrightarrow> known d (task_step e t w)"
proof (cases t)
  case Begin
  then show "known d w \<Longrightarrow> ?thesis" using kn.events_keep(5) by (simp add: task_step_def)
next
  case (Handle ev)
  assume k: "known d w"
  have emits: "keeps (known d) (emit x)" for x by (simp add: keeps_def emit_def modify_def known_def)
  show ?thesis
  proof (cases ev)
    case (Receive b)
    have "known d (run_task (binary_message_received e b) w)"
    proof (cases e b w rule: received_cases)
      case (handled name r k m rest)
      then have "run_task (binary_message_received e b) w = run_task (dispatch e b m rest) w" by (simp add: run_task_def)
      then show ?thesis using known_dispatch [OF k] by simp
    next
      case (unknown t)
      then show ?thesis using keepsD [where P = "known d", OF kn.keeps_error k] by (intro kn.run_keeps) simp
    qed (use k kn.run_keeps in auto)
    moreover have "known d (run_task (emit Pong) w)" using keepsD [OF emits k] by (rule kn.run_keeps)
    ultimately show ?thesis by (simp add: Handle Receive task_step_def)
  next
    case (ProofResult ok m)
    have "keeps (known d) (proof_result e ok m)"
      unfolding proof_result_def by (auto intro!: kn.handlers kn.keeps_client emits split: option.split message.split)
    then have "known d (run_task (proof_result e ok m) w)" by (intro kn.run_keeps keepsD [where P = "known d", OF _ k])
    then show ?thesis by (simp add: Handle ProofResult task_step_def)
  next
    case (SendProof m)
    have "keeps (known d) (send_proof m)" unfolding send_proof_def by (intro kn.handlers emits)
    then have "known d (run_task (send_proof m) w)" by (intro kn.run_keeps keepsD [where P = "known d", OF _ k])
    then show ?thesis by (simp add: Handle SendProof task_step_def)
  qed (use Handle kn.events_keep(1-3) [OF k] in \<open>auto simp: task_step_def simp del: client_step.simps\<close>)
qed

section \<open>What the signals account for\<close>

type_synonym trace = "(nat \<times> effect) set"

text \<open>A client has asked for the device, and the partner it named is the connected device of another client.\<close>

definition asked :: "trace \<Rightarrow> nat \<Rightarrow> nat \<Rightarrow> uuid \<Rightarrow> uuid \<Rightarrow> bool" where
  "asked E j i partner d \<longleftrightarrow> (\<exists>m. (i, ProofRequested partner m) \<in> E \<and> proof_device m = d) \<and> (j, Connected partner) \<in> E"

definition accepted :: "trace \<Rightarrow> nat \<Rightarrow> message \<Rightarrow> bool" where
  "accepted E i m \<longleftrightarrow> (\<exists>j partner d. asked E j i partner d \<and> (j, ProofDone d True m) \<in> E)"

definition posted_ok :: "trace \<Rightarrow> posted \<Rightarrow> bool" where
  "posted_ok E x \<longleftrightarrow> (case x of
       PostConnected i d \<Rightarrow> (i, Connected d) \<in> E
     | PostProofRequested i p m \<Rightarrow> (i, ProofRequested p m) \<in> E \<and> kind_of m = KProof
     | PostProofDone j i w d ok m \<Rightarrow> (\<exists>p. asked E j i p w) \<and> (j, ProofDone d ok m) \<in> E
     | _ \<Rightarrow> True)"

definition task_ok :: "trace \<Rightarrow> nat \<Rightarrow> client_task \<Rightarrow> bool" where
  "task_ok E i t \<longleftrightarrow> (case t of
       Handle (SendProof m) \<Rightarrow> kind_of m = KProof
     | Handle (ProofResult ok m) \<Rightarrow> \<not> ok \<or> accepted E i m
     | _ \<Rightarrow> True)"

definition effect_ok :: "trace \<Rightarrow> nat \<Rightarrow> effect \<Rightarrow> bool" where
  "effect_ok E i x \<longleftrightarrow> (case x of
       Send m \<Rightarrow> kind_of m \<noteq> KGrant \<or> (\<exists>a. m = grant_of_accept a \<and> accepted E i a)
     | ProofDone d ok m \<Rightarrow> \<not> ok \<or> (\<exists>k sch s. m = AcceptMessage d k sch s)
     | ProofRequested p m \<Rightarrow> kind_of m = KProof
     | _ \<Rightarrow> True)"

lemma asked_mono: "asked E j i p d \<Longrightarrow> E \<subseteq> E' \<Longrightarrow> asked E' j i p d"
  unfolding asked_def by blast

lemma accepted_mono: "accepted E i m \<Longrightarrow> E \<subseteq> E' \<Longrightarrow> accepted E' i m"
  unfolding accepted_def using asked_mono by blast

lemma posted_mono: "posted_ok E x \<Longrightarrow> E \<subseteq> E' \<Longrightarrow> posted_ok E' x"
  by (cases x) (auto simp: posted_ok_def intro: asked_mono)

lemma task_mono: "task_ok E i t \<Longrightarrow> E \<subseteq> E' \<Longrightarrow> task_ok E' i t"
  by (auto simp: task_ok_def intro: accepted_mono split: client_task.splits client_event.splits)

lemma effect_mono: "effect_ok E i x \<Longrightarrow> E \<subseteq> E' \<Longrightarrow> effect_ok E' i x"
  by (auto simp: effect_ok_def intro: accepted_mono split: effect.splits)

lemma plain_effect_ok: "\<not> special x \<Longrightarrow> effect_ok E i x"
  by (auto simp: effect_ok_def special_def split: effect.splits)

section \<open>The invariant of the server\<close>

definition queued :: "'t task_queue \<Rightarrow> 't set" where
  "queued q = set (tqTasks q) \<union> set (tqStarting q) \<union> set (tqPool q)"

lemma queued_simps:
  "queued new_queue = {}" "queued (enqueue_task t q) = insert t (queued q)" "queued (pool_start q) = queued q"
  by (auto simp: queued_def new_queue_def enqueue_task_def next_task_def pool_start_def Let_def split: list.split)

lemma queued_clear: "queued (snd (clear_tasks q)) \<subseteq> queued q"
  by (auto simp: queued_def clear_tasks_def split: list.split)

lemma queued_run: "queued (task_run n q) \<subseteq> queued q"
proof -
  have c: "queued (complete_task q) \<subseteq> queued q" for q :: "'a task_queue"
    by (cases "tqTasks q"; cases "tl (tqTasks q)") (auto simp: queued_def complete_task_def next_task_def)
  have d: "queued (q\<lparr>tqPool := take n (tqPool q) @ drop (Suc n) (tqPool q), tqDone := d\<rparr>) \<subseteq> queued q" for d
    by (auto simp: queued_def dest: in_set_takeD in_set_dropD)
  show ?thesis using subset_trans [OF c d] by (simp add: task_run_def)
qed

definition service_inv :: "service \<Rightarrow> bool" where
  "service_inv s \<longleftrightarrow> (let E = set (svEffects s) in
     (\<forall>x \<in> set (svPosted s). posted_ok E x) \<and>
     (\<forall>p j. svClients s p = Some j \<longrightarrow> (j, Connected p) \<in> E) \<and>
     (\<forall>(j, i, w) \<in> set (svProofs s). \<exists>p. asked E j i p w) \<and>
     (\<forall>i. \<forall>t \<in> queued (svQueue s i). task_ok E i t) \<and>
     (\<forall>(i, x) \<in> E. effect_ok E i x) \<and>
     (\<forall>(i, x) \<in> E. i < svNext s) \<and>
     (\<forall>i d. (i, Connected d) \<in> E \<longrightarrow> cState (svClient s i) \<noteq> Authenticating \<and> deviceId (svClient s i) = d) \<and>
     svAlive s \<subseteq> {..<svNext s} \<and> (\<forall>i \<ge> svNext s. queued (svQueue s i) = {}))"

lemma invD:
  assumes "service_inv s"
  shows "x \<in> set (svPosted s) \<Longrightarrow> posted_ok (set (svEffects s)) x"
    and "svClients s p = Some j \<Longrightarrow> (j, Connected p) \<in> set (svEffects s)"
    and "(j, i, w) \<in> set (svProofs s) \<Longrightarrow> \<exists>p. asked (set (svEffects s)) j i p w"
    and "t \<in> queued (svQueue s i) \<Longrightarrow> task_ok (set (svEffects s)) i t"
    and "(i, e) \<in> set (svEffects s) \<Longrightarrow> effect_ok (set (svEffects s)) i e"
    and "(i, e) \<in> set (svEffects s) \<Longrightarrow> i < svNext s"
    and "(i, Connected d) \<in> set (svEffects s) \<Longrightarrow> cState (svClient s i) \<noteq> Authenticating \<and> deviceId (svClient s i) = d"
    and "i \<in> svAlive s \<Longrightarrow> i < svNext s"
    and "svNext s \<le> i \<Longrightarrow> queued (svQueue s i) = {}"
  using assms unfolding service_inv_def Let_def by blast+

lemma new_service_inv: "service_inv new_service"
  by (simp add: service_inv_def new_service_def queued_simps)

text \<open>A step keeps the invariant when what it adds is accounted for.\<close>

lemma service_invI:
  assumes "service_inv s" "set (svEffects s) \<subseteq> set (svEffects s')" "svNext s \<le> svNext s'"
    "\<And>x. x \<in> set (svPosted s') \<Longrightarrow> x \<in> set (svPosted s) \<or> posted_ok (set (svEffects s')) x"
    "\<And>p j. svClients s' p = Some j \<Longrightarrow> svClients s p = Some j \<or> (j, Connected p) \<in> set (svEffects s')"
    "\<And>j i w. (j, i, w) \<in> set (svProofs s') \<Longrightarrow> (j, i, w) \<in> set (svProofs s) \<or> (\<exists>p. asked (set (svEffects s')) j i p w)"
    "\<And>i t. t \<in> queued (svQueue s' i) \<Longrightarrow> t \<in> queued (svQueue s i) \<or> task_ok (set (svEffects s')) i t \<and> i < svNext s'"
    "\<And>i x. (i, x) \<in> set (svEffects s') \<Longrightarrow> (i, x) \<in> set (svEffects s) \<or> effect_ok (set (svEffects s')) i x \<and> i < svNext s'"
    "\<And>i d. (i, Connected d) \<in> set (svEffects s') \<Longrightarrow> (i, Connected d) \<in> set (svEffects s) \<or>
      cState (svClient s' i) \<noteq> Authenticating \<and> deviceId (svClient s' i) = d"
    "\<And>i. i < svNext s \<Longrightarrow> cState (svClient s i) \<noteq> Authenticating \<Longrightarrow>
      cState (svClient s' i) \<noteq> Authenticating \<and> deviceId (svClient s' i) = deviceId (svClient s i)"
    "\<And>i. i \<in> svAlive s' \<Longrightarrow> i \<in> svAlive s \<or> i < svNext s'"
  shows "service_inv s'"
  unfolding service_inv_def Let_def
proof (intro conjI allI ballI impI)
  note old = invD [OF assms(1)]
  fix i d j p w x
  show "posted_ok (set (svEffects s')) x" if "x \<in> set (svPosted s')"
    using assms(4) [OF that] old(1) posted_mono [OF _ assms(2)] by blast
  show "(j, Connected p) \<in> set (svEffects s')" if "svClients s' p = Some j"
    using assms(5) [OF that] old(2) assms(2) by blast
  show "task_ok (set (svEffects s')) i t" if "t \<in> queued (svQueue s' i)" for t
    using assms(7) [OF that] old(4) task_mono [OF _ assms(2)] by blast
  show "cState (svClient s' i) \<noteq> Authenticating" "deviceId (svClient s' i) = d" if "(i, Connected d) \<in> set (svEffects s')"
    using assms(9) [OF that] old(6,7) assms(10) by blast+
  show "svAlive s' \<subseteq> {..<svNext s'}" using assms(3,11) old(8) by fastforce
  show "queued (svQueue s' i) = {}" if "svNext s' \<le> i"
    using assms(3,7) old(9) [of i] that by fastforce
next
  note old = invD [OF assms(1)]
  fix y
  show "case y of (j, i, w) \<Rightarrow> \<exists>p. asked (set (svEffects s')) j i p w" if "y \<in> set (svProofs s')"
    using assms(6) that old(3) asked_mono [OF _ assms(2)] by (cases y) blast
next
  note old = invD [OF assms(1)]
  fix y
  show "case y of (i, x) \<Rightarrow> effect_ok (set (svEffects s')) i x" if "y \<in> set (svEffects s')"
    using assms(8) that old(5) effect_mono [OF _ assms(2)] by (cases y) blast
  show "case y of (i, x) \<Rightarrow> i < svNext s'" if "y \<in> set (svEffects s')"
    using assms(8) that old(6) assms(3) by (cases y) fastforce
qed

lemma queue_task_fields [simp]:
  "svEffects (enqueue_for i t s) = svEffects s" "svNext (enqueue_for i t s) = svNext s" "svPosted (enqueue_for i t s) = svPosted s"
  "svClients (enqueue_for i t s) = svClients s" "svProofs (enqueue_for i t s) = svProofs s" "svClient (enqueue_for i t s) = svClient s"
  "svAlive (enqueue_for i t s) = svAlive s"
  "queued (svQueue (enqueue_for i t s) j) = (if j = i then insert t (queued (svQueue s j)) else queued (svQueue s j))"
  by (simp_all add: enqueue_for_def queued_simps)

lemma enqueue_inv: "service_inv s \<Longrightarrow> task_ok (set (svEffects s)) i t \<Longrightarrow> i < svNext s \<Longrightarrow> service_inv (enqueue_for i t s)"
  by (rule service_invI [of s]) (auto split: if_splits)

lemma happens_inv: "service_inv s \<Longrightarrow> \<not> special x \<Longrightarrow> i < svNext s \<Longrightarrow> service_inv (happens i x s)"
  by (rule service_invI [of s]) (auto simp: happens_def special_def plain_effect_ok)

lemma drop_inv: "service_inv s \<Longrightarrow> i < svNext s \<Longrightarrow> service_inv (drop_client i s)"
  by (simp add: drop_client_def happens_inv)

lemma disconnect_all_inv: "service_inv s \<Longrightarrow> service_inv (disconnect_all s)"
proof -
  have "service_inv (fold drop_client is s)" if "service_inv s" "\<forall>i \<in> set is. i < svNext s" for "is" s
    using that by (induction "is" arbitrary: s) (use drop_inv in \<open>auto simp: drop_client_def happens_def\<close>)
  then show "service_inv s \<Longrightarrow> ?thesis" by (simp add: disconnect_all_def)
qed

lemma new_connection_inv: "service_inv s \<Longrightarrow> service_inv (new_connection l h s)"
  unfolding new_connection_def Let_def
  by (rule service_invI [of s]) (auto simp: task_ok_def split: if_splits)

lemma client_connected_inv: "service_inv s \<Longrightarrow> (i, Connected d) \<in> set (svEffects s) \<Longrightarrow> service_inv (client_connected i d s)"
  by (rule service_invI [of s]) (auto simp: client_connected_def split: if_splits)

lemma proof_requested_inv:
  assumes "service_inv s" "(i, ProofRequested p m) \<in> set (svEffects s)" "kind_of m = KProof"
  shows "service_inv (proof_requested i p m s)"
proof (cases "i \<in> svAlive s")
  case True
  note i = invD(8) [OF assms(1) True]
  show ?thesis
  proof (cases "svClients s p")
    case None
    then show ?thesis using assms(1) True i by (simp add: proof_requested_def enqueue_inv task_ok_def)
  next
    case (Some j)
    note j = invD(2) [OF assms(1) Some]
    have "asked (set (svEffects s)) j i p (proof_device m)" unfolding asked_def using assms(2) j by blast
    then have "service_inv (s\<lparr>svProofs := svProofs s @ [(j, i, proof_device m)]\<rparr>)"
      by (intro service_invI [OF assms(1)]) auto
    then show ?thesis
      using True Some assms(3) invD(6) [OF assms(1) j] by (simp add: proof_requested_def enqueue_inv task_ok_def)
  qed
qed (simp add: proof_requested_def assms(1))

lemma proof_done_inv:
  assumes "service_inv s" "asked (set (svEffects s)) j i p w" "(j, ProofDone d ok m) \<in> set (svEffects s)"
  shows "service_inv (proof_done j i w d ok m s)"
proof (cases "i \<in> svAlive s \<and> w = d")
  case True
  let ?s = "if j \<in> svAlive s then s\<lparr>svProofs := filter (\<lambda>(j', i', _). \<not> (j' = j \<and> i' = i)) (svProofs s), svAccepts := svAccepts s @ [(i, j)]\<rparr> else s"
  have "service_inv (s\<lparr>svProofs := filter (\<lambda>(j', i', _). \<not> (j' = j \<and> i' = i)) (svProofs s), svAccepts := svAccepts s @ [(i, j)]\<rparr>)"
    by (intro service_invI [OF assms(1)]) auto
  then have "service_inv ?s" using assms(1) by simp
  moreover have "accepted (set (svEffects s)) i m" if ok unfolding accepted_def using assms True that by auto
  ultimately have "service_inv (enqueue_for i (Handle (ProofResult ok m)) ?s)"
    using True invD(8) [OF assms(1)] by (intro enqueue_inv) (auto simp: task_ok_def)
  then show ?thesis using True by (simp add: proof_done_def)
qed (auto simp: proof_done_def assms(1))

lemma deliver_inv:
  assumes "service_inv s" "posted_ok (set (svEffects s)) x"
  shows "service_inv (deliver x s)"
proof (cases x)
  case (PostProofDone j i w d ok m)
  then show ?thesis using assms proof_done_inv [OF assms(1)] by (auto simp: deliver_def posted_ok_def)
next
  case (PostForceDisconnect d)
  then show ?thesis using assms(1) invD(2,6) [OF assms(1)]
    by (auto simp: deliver_def force_disconnect_def intro!: drop_inv split: option.split)
next
  case (PostNotify d)
  then show ?thesis using assms(1) invD(2,6) [OF assms(1)]
    by (auto simp: deliver_def notify_device_def task_ok_def intro!: enqueue_inv split: option.split)
qed (use assms client_connected_inv proof_requested_inv enqueue_inv invD(8) [OF assms(1)] in
    \<open>auto simp: deliver_def posted_ok_def task_ok_def\<close>)

lemma close_inv: "service_inv s \<Longrightarrow> service_inv (close_client i s)"
proof -
  assume s: "service_inv s"
  obtain empty q where q: "clear_tasks (svQueue s i) = (empty, q)" by fastforce
  then have "queued q \<subseteq> queued (svQueue s i)" using queued_clear [of "svQueue s i"] by simp
  then show ?thesis
    by (intro service_invI [OF s]) (auto simp: close_client_def Let_def q split: if_splits)
qed

lemma fold_unset: "fold (\<lambda>(_, d) m. m(d := None)) ds m p = Some j \<Longrightarrow> m p = Some j"
proof (induction ds arbitrary: m)
  case (Cons a ds)
  obtain i d where "a = (i, d)" by fastforce
  then have "(m(d := None)) p = Some j" using Cons by (simp del: fun_upd_apply)
  then show ?case by (simp split: if_splits)
qed simp

lemma delete_inv: "service_inv s \<Longrightarrow> service_inv (delete_client i s)"
  by (rule service_invI [of s]) (auto simp: delete_client_def dest: fold_unset split: if_splits)

text \<open>What a signal posts is accounted for by the signal and by what the tables hold.\<close>

lemma posts_ok:
  assumes "service_inv s" "(i, x) \<in> E" "set (svEffects s) \<subseteq> E" "effect_ok E i x" "y \<in> set (posts s i x)"
  shows "posted_ok E y"
proof -
  have "\<exists>p. asked E j k p w" if "(j, k, w) \<in> set (svProofs s)" for j k w
    using invD(3) [OF assms(1) that] asked_mono [OF _ assms(3)] by blast
  then show ?thesis using assms(2,4,5) by (cases x) (auto simp: posts_def posted_ok_def effect_ok_def)
qed

lemma emitted_inv:
  assumes "service_inv s" "i < svNext s" "\<And>x. x \<in> set xs \<Longrightarrow> effect_ok (set (svEffects s) \<union> Pair i ` set xs) i x"
    "cState (svClient s i) \<noteq> Authenticating \<Longrightarrow> cState c \<noteq> Authenticating \<and> deviceId c = deviceId (svClient s i)"
    "\<And>d. Connected d \<in> set xs \<Longrightarrow> cState c \<noteq> Authenticating \<and> deviceId c = d"
  shows "service_inv (emitted i xs (s\<lparr>svTables := t, svClient := (svClient s)(i := c)\<rparr>))"
proof -
  let ?E = "set (svEffects s) \<union> Pair i ` set xs"
  have p: "posts (s\<lparr>svTables := t, svClient := (svClient s)(i := c)\<rparr>) i x = posts s i x" for x
    by (simp add: posts_def split: effect.split)
  have "posted_ok ?E y" if "x \<in> set xs" "y \<in> set (posts s i x)" for x y
    by (rule posts_ok [OF assms(1) _ _ assms(3) [OF that(1)] that(2)]) (use that in auto)
  then show ?thesis
    using assms(2-5) by (intro service_invI [OF assms(1)]) (auto simp: emitted_def p)
qed

section \<open>Every step keeps it\<close>

lemma task_fine: "task_ok E i t \<Longrightarrow> fine_task t"
  by (auto simp: task_ok_def fine_task_def split: client_task.splits client_event.splits)

lemma task_effect_ok:
  assumes "task_ok E i t" "effects w = []" "x \<in> set (effects (task_step e t w))"
  shows "effect_ok E i x"
proof (cases "special x")
  case True
  show ?thesis
  proof (rule task_special [OF assms(2,3) True task_fine [OF assms(1)]])
    assume "x = Connected (deviceId (me (task_step e t w)))"
    then show ?thesis by (simp add: effect_ok_def)
  next
    fix b d k sch s
    assume "x = ProofDone d True (AcceptMessage d k sch s)"
    then show ?thesis by (simp add: effect_ok_def)
  next
    fix m
    assume "t = Handle (ProofResult True m)" "x = Send (grant_of_accept m)"
    then show ?thesis using assms(1) by (auto simp: effect_ok_def task_ok_def)
  qed
qed (rule plain_effect_ok)

lemma task_connected:
  assumes "fine_task t" "effects w = []" "Connected d \<in> set (effects (task_step e t w))"
  shows "cState (me (task_step e t w)) \<noteq> Authenticating \<and> deviceId (me (task_step e t w)) = d"
  by (rule task_special [OF assms(2,3) _ assms(1)]) auto

lemma run_in_client_inv:
  assumes "service_inv s" "i < svNext s" "task_ok (set (svEffects s)) i t"
  shows "service_inv (run_in_client i (task_step e t) s)"
proof -
  let ?w = "\<lparr>me = svClient s i, tables = svTables s, effects = []\<rparr>"
  note fine = task_fine [OF assms(3)]
  have "set (svEffects s) \<subseteq> set (svEffects s) \<union> Pair i ` set (effects (task_step e t ?w))" by blast
  note ok = task_mono [OF assms(3) this]
  have "known (deviceId (svClient s i)) (task_step e t ?w)" if "cState (svClient s i) \<noteq> Authenticating"
    by (rule known_task) (use that in \<open>simp add: known_def\<close>)
  then have "service_inv (emitted i (effects (task_step e t ?w)) (s\<lparr>svTables := tables (task_step e t ?w), svClient := (svClient s)(i := me (task_step e t ?w))\<rparr>))"
    using task_effect_ok [OF ok, of ?w _ e] task_connected [OF fine, of ?w _ e]
    by (intro emitted_inv [OF assms(1,2)]) (simp_all add: known_def)
  then show ?thesis by (simp add: run_in_client_def Let_def)
qed

lemma service_step_inv:
  assumes "service_inv s" shows "service_inv (service_step x s)"
proof (cases x)
  case (Arrives i b)
  then show ?thesis using assms invD(8) [OF assms]
    by (auto simp: service_step_def task_ok_def intro!: happens_inv enqueue_inv)
next
  case (SocketError i)
  have "task_step e (Handle SocketFailed) = run_task socket_failed" for e by (rule ext) (simp add: task_step_def)
  then show ?thesis using SocketError assms invD(8) [OF assms] run_in_client_inv [OF assms, of i "Handle SocketFailed"]
    by (simp add: service_step_def task_ok_def)
next
  case (StartTask i)
  then show ?thesis by (simp add: service_step_def) (rule service_invI [OF assms], auto simp: queued_simps split: if_splits)
next
  case (RunTask i n e)
  show ?thesis
  proof (cases "n < length (tqPool (svQueue s i))")
    case True
    let ?s = "s\<lparr>svQueue := (svQueue s)(i := task_run n (svQueue s i))\<rparr>" and ?t = "tqPool (svQueue s i) ! n"
    have "service_inv ?s" by (rule service_invI [OF assms]) (use queued_run [of n "svQueue s i"] in \<open>auto split: if_splits\<close>)
    moreover have t: "?t \<in> queued (svQueue s i)" using True by (simp add: queued_def)
    moreover have "i < svNext s" using invD(9) [OF assms, of i] t by fastforce
    ultimately show ?thesis using RunTask True run_in_client_inv [of ?s i ?t e] invD(4) [OF assms t] by (simp add: service_step_def)
  qed (use assms RunTask in \<open>simp add: service_step_def\<close>)
next
  case Deliver
  show ?thesis
  proof (cases "svPosted s")
    case (Cons p ps)
    have "service_inv (s\<lparr>svPosted := ps\<rparr>)" by (rule service_invI [OF assms]) (auto simp: Cons)
    then show ?thesis using Deliver Cons invD(1) [OF assms, of p] deliver_inv [of "s\<lparr>svPosted := ps\<rparr>" p] by (simp add: service_step_def)
  qed (use assms Deliver in \<open>simp add: service_step_def\<close>)
next
  case (Notification d)
  then show ?thesis by (simp add: service_step_def) (rule service_invI [OF assms], auto simp: posted_ok_def)
next
  case (DestroyTimeout i)
  have "service_inv (s\<lparr>svDying := insert i (svDying s)\<rparr>)" by (rule service_invI [OF assms]) auto
  then show ?thesis using DestroyTimeout assms by (simp add: service_step_def destroy_timeout_def)
qed (use assms in \<open>simp_all add: service_step_def new_connection_inv close_inv delete_inv disconnect_all_inv\<close>)

lemma service_run_inv: "service_inv s \<Longrightarrow> service_inv (service_run xs s)"
  unfolding service_run_def by (induction xs arbitrary: s) (simp_all add: service_step_inv)

end
