(* ===== verification/AccessClaims.thy ===== *)
theory AccessClaims
  imports Service
begin

text \<open>
  Who lets a device into an account, over the whole server: the connector passes a request to the connected client of the
  device it names, and what comes back to the client that asked is an acceptance that this device has signed.
\<close>

section \<open>Where an effect comes from\<close>

lemma drop_fields [simp]:
  "svClient (drop_client i s) = svClient s" "svNext (drop_client i s) = svNext s" "svEffects (drop_client i s) = svEffects s @ [(i, CloseNow)]"
  "svTables (drop_client i s) = svTables s"
  by (simp_all add: drop_client_def happens_def)

lemma fold_drop [simp]:
  "svClient (fold drop_client is s) = svClient s" "svNext (fold drop_client is s) = svNext s" "svTables (fold drop_client is s) = svTables s"
  "set (svEffects (fold drop_client is s)) = set (svEffects s) \<union> (\<lambda>i. (i, CloseNow)) ` set is"
  by (induction "is" arbitrary: s) auto

lemma enqueue_tables [simp]: "svTables (enqueue_for i t s) = svTables s"
  by (simp add: enqueue_for_def)

lemma deliver_fields:
  "svClient (deliver x s) = svClient s" "svNext (deliver x s) = svNext s" "svTables (deliver x s) = svTables s"
  "set (svEffects (deliver x s)) \<subseteq> set (svEffects s) \<union> {(i, CloseNow) |i. True}"
  by (auto simp: deliver_def client_connected_def proof_requested_def proof_done_def force_disconnect_def notify_device_def
      split: posted.split option.split if_splits)

lemma close_fields [simp]:
  "svClient (close_client i s) = svClient s" "svNext (close_client i s) = svNext s" "svEffects (close_client i s) = svEffects s"
  by (simp_all add: close_client_def Let_def split: prod.split)

lemma delete_fields [simp]:
  "svClient (delete_client i s) = svClient s" "svNext (delete_client i s) = svNext s" "svEffects (delete_client i s) = svEffects s"
  by (simp_all add: delete_client_def)

lemma run_in_client_fields [simp]:
  "svEffects (run_in_client i f s) = svEffects s @ map (Pair i) (effects (f \<lparr>me = svClient s i, tables = svTables s, effects = []\<rparr>))"
  "svClient (run_in_client i f s) = (svClient s)(i := me (f \<lparr>me = svClient s i, tables = svTables s, effects = []\<rparr>))"
  "svNext (run_in_client i f s) = svNext s"
  by (simp_all add: run_in_client_def emitted_def Let_def)

text \<open>A client that is known stays who it is.\<close>

lemma step_known:
  assumes "cState (svClient s j) \<noteq> Authenticating" "j < svNext s"
  shows "cState (svClient (service_step x s) j) \<noteq> Authenticating \<and> deviceId (svClient (service_step x s) j) = deviceId (svClient s j) \<and>
    j < svNext (service_step x s)"
proof -
  have run: "known (deviceId (svClient s j)) (task_step e t \<lparr>me = svClient s j, tables = d, effects = []\<rparr>)" for e t d
    by (rule known_task) (use assms(1) in \<open>simp add: known_def\<close>)
  have failed: "known (deviceId (svClient s j)) (run_task socket_failed \<lparr>me = svClient s j, tables = d, effects = []\<rparr>)" for d
    using run [of undefined "Handle SocketFailed"] by (simp add: task_step_def)
  show ?thesis
  proof (cases x)
    case (RunTask i n e)
    then show ?thesis using assms run [of e "tqPool (svQueue s j) ! n" "svTables s"] by (auto simp: service_step_def known_def)
  next
    case (SocketError i)
    then show ?thesis using assms failed [of "svTables s"] by (auto simp: service_step_def known_def)
  qed (use assms in \<open>auto simp: service_step_def new_connection_def Let_def happens_def deliver_fields destroy_timeout_def disconnect_all_def
      split: list.split\<close>)
qed

lemma run_known:
  "cState (svClient s j) \<noteq> Authenticating \<Longrightarrow> j < svNext s \<Longrightarrow> deviceId (svClient (service_run xs s) j) = deviceId (svClient s j)"
  unfolding service_run_def
proof (induction xs arbitrary: s)
  case (Cons x xs)
  from step_known [OF Cons.prems, of x] Cons.IH show ?case by auto
qed simp

text \<open>The step in which an acceptance is emitted runs a task with the message that brought it.\<close>

lemma step_accepts:
  assumes "service_inv s" "(j, ProofDone d True m) \<in> set (svEffects (service_step x s))" "(j, ProofDone d True m) \<notin> set (svEffects s)"
  obtains n e b k sch g where "x = RunTask j n e" "tqPool (svQueue s j) ! n = Handle (Receive b)" "m = AcceptMessage d k sch g"
    "cState (svClient s j) = Idle" "signed_accept e (svTables s) (deviceId (svClient s j)) b m" "j < svNext s"
proof (cases x)
  case (RunTask i n e)
  show ?thesis
  proof (cases "n < length (tqPool (svQueue s i))")
    case True
    let ?t = "tqPool (svQueue s i) ! n" and ?w = "\<lparr>me = svClient s i, tables = svTables s, effects = []\<rparr>"
    have t: "?t \<in> queued (svQueue s i)" using True by (simp add: queued_def)
    note fine = task_fine [OF invD(4) [OF assms(1) t]]
    have i: "i < svNext s" using invD(9) [OF assms(1), of i] t by fastforce
    have "i = j" "ProofDone d True m \<in> set (effects (task_step e ?t ?w))"
      using assms(2,3) True RunTask by (auto simp: service_step_def)
    note eff = this
    show ?thesis
      by (rule task_special [OF _ eff(2) _ fine]) (use that RunTask eff(1) i in auto)
  qed (use assms RunTask in \<open>simp add: service_step_def\<close>)
next
  case Deliver
  then show ?thesis using assms(2,3) deliver_fields(4) by (auto simp: service_step_def split: list.splits dest!: subsetD [OF deliver_fields(4)])
next
  case (SocketError i)
  then show ?thesis using assms(2,3)
    by (auto simp: service_step_def socket_failed_def set_state_def upd_def emit_def modify_def seq_def run_task_def split: if_splits)
qed (use assms(2,3) in \<open>auto simp: service_step_def new_connection_def Let_def happens_def destroy_timeout_def disconnect_all_def
    split: if_splits\<close>)

lemma run_accepts:
  assumes "(j, ProofDone d True m) \<in> set (svEffects (service_run xs new_service))"
  obtains ys n e zs b k sch g where "xs = ys @ RunTask j n e # zs" "tqPool (svQueue (service_run ys new_service) j) ! n = Handle (Receive b)"
    "m = AcceptMessage d k sch g" "cState (svClient (service_run ys new_service) j) = Idle" "j < svNext (service_run ys new_service)"
    "signed_accept e (svTables (service_run ys new_service)) (deviceId (svClient (service_run ys new_service) j)) b m"
  using assms
proof (induction xs arbitrary: thesis rule: rev_induct)
  case Nil
  then show ?case by (simp add: service_run_def new_service_def)
next
  case (snoc x xs)
  show ?case
  proof (cases "(j, ProofDone d True m) \<in> set (svEffects (service_run xs new_service))")
    case True
    show ?thesis by (rule snoc.IH [OF _ True]) (rule snoc.prems(1), auto)
  next
    case False
    from snoc.prems(2) have "(j, ProofDone d True m) \<in> set (svEffects (service_step x (service_run xs new_service)))"
      by (simp add: service_run_def)
    from step_accepts [OF service_run_inv [OF new_service_inv] this False] snoc.prems(1) [of xs _ _ "[]"]
    show ?thesis by metis
  qed
qed

text \<open>C7: A device is let into an account only by a device of it: for every grant that a connection has been sent, the
  connection has asked for this device, naming a partner, and a client that was logged in as this partner had received an
  acceptance of the device, signed with the partner's stored key, whose key material is what the grant hands on.
  This holds however connections, messages, tasks, signals, failing database operations and ends of connections interleave.\<close>

theorem access_needs_acceptance:
  assumes "s = service_run xs new_service" "(i, Send (GrantMessage d k sch g)) \<in> set (svEffects s)"
  shows "\<exists>partner m j ys n e zs b. (i, ProofRequested partner m) \<in> set (svEffects s) \<and> proof_device m = d \<and>
    xs = ys @ RunTask j n e # zs \<and>
    (let h = service_run ys new_service in
       tqPool (svQueue h j) ! n = Handle (Receive b) \<and> cState (svClient h j) = Idle \<and> deviceId (svClient h j) = partner \<and>
       signed_accept e (svTables h) partner b (AcceptMessage d k sch g))"
proof -
  have inv: "service_inv s" by (simp add: assms(1) service_run_inv new_service_inv)
  from invD(5) [OF inv assms(2)] obtain a where a: "GrantMessage d k sch g = grant_of_accept a" "accepted (set (svEffects s)) i a"
    by (auto simp: effect_ok_def)
  then obtain j partner d' where acc: "asked (set (svEffects s)) j i partner d'" "(j, ProofDone d' True a) \<in> set (svEffects s)"
    by (auto simp: accepted_def)
  then obtain m where m: "(i, ProofRequested partner m) \<in> set (svEffects s)" "proof_device m = d'" "(j, Connected partner) \<in> set (svEffects s)"
    by (auto simp: asked_def)
  obtain ys n e zs b k' sch' g' where run: "xs = ys @ RunTask j n e # zs" "tqPool (svQueue (service_run ys new_service) j) ! n = Handle (Receive b)"
    "a = AcceptMessage d' k' sch' g'" "cState (svClient (service_run ys new_service) j) = Idle" "j < svNext (service_run ys new_service)"
    "signed_accept e (svTables (service_run ys new_service)) (deviceId (svClient (service_run ys new_service) j)) b a"
    using run_accepts acc(2) unfolding assms(1) by metis
  have "s = service_run (RunTask j n e # zs) (service_run ys new_service)" by (simp add: assms(1) run(1) service_run_def)
  then have "deviceId (svClient s j) = deviceId (svClient (service_run ys new_service) j)" using run_known run(4,5) by simp
  with invD(7) [OF inv m(3)] have "deviceId (svClient (service_run ys new_service) j) = partner" by simp
  with run m a(1) show ?thesis unfolding Let_def by simp blast
qed

section \<open>The tables\<close>

lemma start_client_inv: "tables_inv w \<Longrightarrow> tables_inv (run_task (start_client e) w)"
  unfolding start_client_def by (intro run_task_inv handler_rules)

lemma task_tables: "tables_inv w \<Longrightarrow> tables_inv (task_step e t w)"
  by (cases t) (simp_all add: task_step_def start_client_inv client_step_inv)

lemma step_tables: "sdb_inv (svTables s) \<Longrightarrow> sdb_inv (svTables (service_step x s))"
proof -
  assume inv: "sdb_inv (svTables s)"
  have run: "sdb_inv (svTables (run_in_client i (task_step e t) r))" if "svTables r = svTables s" for i e t r
    using task_tables [of "\<lparr>me = svClient r i, tables = svTables r, effects = []\<rparr>" e t] that inv
    by (simp add: run_in_client_def emitted_def Let_def)
  have "run_task socket_failed = task_step undefined (Handle SocketFailed)" by (rule ext) (simp add: task_step_def)
  with run inv show ?thesis
    by (cases x) (auto simp: service_step_def new_connection_def happens_def deliver_fields disconnect_all_def close_client_def
        delete_client_def destroy_timeout_def Let_def split: list.split prod.split)
qed

text \<open>C19: However many connections a server has and whatever bytes they receive, in whatever order their tasks, signals
  and ends interleave and whichever database operations fail: ids stay unique, references stay valid, and no user gets
  more stored than the quota allows.\<close>

theorem service_tables_invariant:
  "sdb_inv (svTables (service_run xs new_service))"
proof -
  have "sdb_inv (svTables s) \<Longrightarrow> sdb_inv (svTables (service_run xs s))" for s
    unfolding service_run_def by (induction xs arbitrary: s) (simp_all add: step_tables)
  then show ?thesis by (simp add: new_service_def empty_sdb_inv)
qed

section \<open>Where the table of clients goes wrong\<close>

lemma fold_unset_None: "(i, d) \<in> set ds \<or> m d = None \<Longrightarrow> fold (\<lambda>(_, d) m. m(d := None)) ds m d = None"
proof (induction ds arbitrary: m)
  case (Cons a ds)
  obtain j c where "a = (j, c)" by fastforce
  have "(i, d) \<in> set ds \<or> (m(c := None)) d = None" using Cons.prems \<open>a = (j, c)\<close> by auto
  note IH = Cons.IH [of "m(c := None)", OF this]
  then show ?case using \<open>a = (j, c)\<close> by (simp del: fun_upd_apply)
qed simp

text \<open>When a device has connected again, the end of its old connection takes the new one out of the table: nothing is
  notified to the device any more, and no request for access reaches it (\<open>ClientConnector::clientConnected\<close>).\<close>

lemma old_connection_removes_new:
  assumes "i \<in> svAlive s \<inter> svDying s" "is_finished (svQueue s i)" "(i, d) \<in> set (svConnected s)" "svClients s d = Some j" "j \<noteq> i"
  shows "svClients (delete_client i s) d = None" "notify_device d (delete_client i s) = delete_client i s"
proof -
  show "svClients (delete_client i s) d = None"
    using assms(1-3) fold_unset_None [of i d "filter (\<lambda>(j, _). j = i) (svConnected s)" "svClients s"] by (simp add: delete_client_def)
  then show "notify_device d (delete_client i s) = delete_client i s" by (simp add: notify_device_def)
qed

end
