(* ===== verification/AccessSample.thy ===== *)
theory AccessSample
  imports AccessClaims DownloadClaims
begin

text \<open>
  A server that lets a device in: the first client registers, the second asks for access to its account, and the first accepts.
\<close>

section \<open>The messages\<close>

definition access_env :: cenv where
  "access_env = demo_cenv\<lparr>verifies := (\<lambda>_ k t s. s = k)\<rparr>"

definition access_nonce :: bytes where
  "access_nonce = replicate 16 CHR ''n''"

definition first_message :: message where
  "first_message = RegisterMessage [1] access_nonce ''s'' ''sk'' ''c'' ''ck'' ''pc'' ''m''"

definition second_message :: message where
  "second_message = AccessMessage [1] access_nonce ''s'' ''sk'' ''c'' ''ck'' ''phone'' ''pn'' 7 ''ms'' ''pm'' None"

definition third_message :: message where
  "third_message = AcceptMessage 9 0 ''sch'' ''secret''"

definition signed_bytes :: "message \<Rightarrow> bytes" where
  "signed_bytes m = serialize qt_lib m @ put_array qt_lib ''sk''"

lemma access_env_simps: "mlib access_env = qt_lib" "loadable access_env x" "verifies access_env a k t s \<longleftrightarrow> s = k"
  "fingerprintOf access_env x = ''f''" "createUuid access_env = 9" "randomNonce access_env = access_nonce" "quotaDefault access_env = 10"
  "sqlEnv access_env n = demo_senv" "uploadLimit access_env = 10"
  by (simp_all add: access_env_def demo_cenv_def access_nonce_def)

lemma signed_array: "get_array qt_lib (put_array qt_lib ''sk'') = Some (''sk'', [])"
  using reads_backD [OF message_stream.array_back [OF qt_msg.message_stream_axioms], of "''sk''" "[]"] by (simp add: fits_def)

lemma signed_verifies: "check_signature access_env a ''sk'' b (put_array qt_lib ''sk'') = ret ()"
  by (simp add: check_signature_def verify_signature_def access_env_simps signed_array)

lemma messages_fit:
  "\<forall>v \<in> set (property_values first_message). fits_value qt_lib v" "validate first_message = Inr True"
  "\<forall>v \<in> set (property_values second_message). fits_value qt_lib v" "validate second_message = Inr True"
  "\<forall>v \<in> set (property_values third_message). fits_value qt_lib v" "validate third_message = Inr True"
  by (simp_all add: first_message_def second_message_def third_message_def access_nonce_def fits_def fits_opt_def qt_lib_def
      validate_init_def current_version_def nonce_size_def)

lemma find_name: "k \<in> set ks \<Longrightarrow> find (\<lambda>x. message_name x = message_name k) ks = Some k"
  by (induction ks) (auto dest: message_name_inj)

lemma received_signed:
  assumes "\<forall>v \<in> set (property_values m). fits_value qt_lib v" "validate m = Inr True" "kind_of m \<in> set server_kinds" "cState (me w) \<noteq> Error"
  shows "binary_message_received access_env (signed_bytes m) w = dispatch access_env (signed_bytes m) m (put_array qt_lib ''sk'') w"
proof -
  obtain r where r: "read_name qt_lib (signed_bytes m) = Inr (message_name (kind_of m), r)"
    "deserialize_message qt_lib (kind_of m) r = Inr (m, put_array qt_lib ''sk'')"
    using message_roundtrip_rest [OF qt_msg.message_stream_axioms assms(1,2), of "put_array qt_lib ''sk''"] by (auto simp: signed_bytes_def)
  have "find (\<lambda>k. message_name k = message_name (kind_of m)) server_kinds = Some (kind_of m)"
    by (rule find_name [OF assms(3)])
  with r assms(4) show ?thesis by (simp add: received_step access_env_simps)
qed

lemma signed_no_ping [simp]: "signed_bytes m \<noteq> ping_message"
proof -
  have "length (put_array qt_lib ''sk'') = 6" by (simp add: qt_lib_def qt_5_11_def qt_put_bytes_def length_be_put)
  then have "length (signed_bytes m) \<noteq> length ping_message" by (simp add: signed_bytes_def ping_message_def)
  then show ?thesis by auto
qed

section \<open>The tasks\<close>

abbreviation fresh_client :: client where
  "fresh_client \<equiv> (new_client 20 10)\<lparr>loginNonce := access_nonce\<rparr>"

definition first_sdb :: sdb where
  "first_sdb = demo_sdb\<lparr>devices := [(7, demo_device ''pc'' (Some ''m''))]\<rparr>"

lemma begin_task:
  "task_step access_env Begin \<lparr>me = new_client 20 10, tables = d, effects = []\<rparr> =
   \<lparr>me = fresh_client, tables = d, effects = [Send (IdentifyMessage current_version access_nonce 10)]\<rparr>"
  by (simp add: task_step_def start_client_def run_task_def seq_def upd_def modify_def emit_def access_env_simps)

lemma first_task:
  "task_step access_env (Handle (Receive (signed_bytes first_message))) \<lparr>me = fresh_client, tables = empty_sdb, effects = []\<rparr> =
   \<lparr>me = idle_client 7, tables = first_sdb, effects = [Send (AccountMessage 7), Connected 7]\<rparr>"
proof -
  have "kind_of first_message \<in> set server_kinds" by (simp add: first_message_def server_kinds_def)
  note rec = received_signed [OF messages_fit(1,2) this]
  have "in_db (add_new_device demo_senv ''pc'' ''s'' ''sk'' ''c'' ''ck'' ''f'' ''m'' 10) \<lparr>me = c, tables = empty_sdb, effects = []\<rparr> =
      (Inr 7, \<lparr>me = c, tables = first_sdb, effects = []\<rparr>)" for c
    by (simp add: in_db_def demo_first first_sdb_def)
  then show ?thesis
    by (simp add: task_step_def signed_no_ping run_task_def rec new_client_def)
      (simp add: first_message_def dispatch_def on_register_def check_login_step signed_verifies access_env_simps
        upd_def emit_def set_state_def idle_client_def new_client_def act_simps cong: seq_weak_cong)
qed

definition asking_client :: client where
  "asking_client = (new_client 20 10)\<lparr>cState := AwaitingGrant, deviceId := 9, cachedAccess := Some second_message, cachedFingerPrint := ''f''\<rparr>"

definition sample_proof :: message where
  "sample_proof = ProofMessage ''pn'' 9 ''phone'' ''s'' ''sk'' ''c'' ''ck'' ''ms'' ''pm'' None"

lemma second_task:
  "task_step access_env (Handle (Receive (signed_bytes second_message))) \<lparr>me = fresh_client, tables = d, effects = []\<rparr> =
   \<lparr>me = asking_client, tables = d, effects = [ProofRequested 7 sample_proof]\<rparr>"
proof -
  have "kind_of second_message \<in> set server_kinds" by (simp add: second_message_def server_kinds_def)
  note rec = received_signed [OF messages_fit(3,4) this]
  show ?thesis
    by (simp add: task_step_def run_task_def rec new_client_def)
      (simp add: second_message_def dispatch_def on_access_def check_login_step signed_verifies access_env_simps
        upd_def emit_def asking_client_def sample_proof_def new_client_def act_simps cong: seq_weak_cong)
qed

lemma proof_task:
  "task_step access_env (Handle (SendProof sample_proof)) \<lparr>me = idle_client 7, tables = d, effects = []\<rparr> =
   \<lparr>me = idle_client 7, tables = d, effects = [Send sample_proof]\<rparr>"
  by (simp add: task_step_def run_task_def send_proof_def idle_client_def emit_def act_simps)

lemma third_task:
  "task_step access_env (Handle (Receive (signed_bytes third_message))) \<lparr>me = idle_client 7, tables = first_sdb, effects = []\<rparr> =
   \<lparr>me = idle_client 7, tables = first_sdb, effects = [ProofDone 9 True third_message]\<rparr>"
proof -
  have "kind_of third_message \<in> set server_kinds" by (simp add: third_message_def server_kinds_def)
  note rec = received_signed [OF messages_fit(5,6) this]
  have "in_db (load_crypto demo_senv 7) \<lparr>me = c, tables = first_sdb, effects = []\<rparr> =
      (Inr (Some (''s'', ''sk'', ''c'', ''ck'')), \<lparr>me = c, tables = first_sdb, effects = []\<rparr>)" for c
    by (simp add: in_db_def load_crypto_def first_sdb_def demo_device_def demo_senv_def demo_sdb_def act_simps)
  then show ?thesis
    by (simp add: task_step_def run_task_def rec idle_client_def)
      (simp add: third_message_def dispatch_def on_accept_def check_idle_def check_stored_def signed_verifies access_env_simps
        emit_def act_simps cong: seq_weak_cong)
qed

lemma grant_task:
  "effects (task_step access_env (Handle (ProofResult True third_message)) \<lparr>me = asking_client, tables = first_sdb, effects = []\<rparr>) =
   [Send (GrantMessage 9 0 ''sch'' ''secret''), Connected 9]"
proof -
  obtain d where "add_new_device_to_user demo_senv 9 7 ''phone'' ''s'' ''sk'' ''c'' ''ck'' ''f'' first_sdb = (Inr (), d)"
    by (simp add: add_new_device_to_user_def act_simps demo_senv_def first_sdb_def demo_sdb_def demo_device_def device_user_def
      cong: seq_weak_cong)
  then have "in_db (add_new_device_to_user demo_senv 9 7 ''phone'' ''s'' ''sk'' ''c'' ''ck'' ''f'') \<lparr>me = c, tables = first_sdb, effects = []\<rparr> =
      (Inr (), \<lparr>me = c, tables = d, effects = []\<rparr>)" for c
    by (simp add: in_db_def)
  then show ?thesis
    by (simp add: task_step_def run_task_def proof_result_def asking_client_def second_message_def third_message_def new_client_def
        access_env_simps upd_def emit_def set_state_def act_simps cong: seq_weak_cong)
qed

section \<open>The run\<close>

definition sample_first :: "service_step list" where
  "sample_first = [NewConnection 20 10, StartTask 0, RunTask 0 0 access_env,
     Arrives 0 (signed_bytes first_message), StartTask 0, RunTask 0 0 access_env, Deliver]"

definition sample_second :: "service_step list" where
  "sample_second = [NewConnection 20 10, StartTask 1, RunTask 1 0 access_env,
     Arrives 1 (signed_bytes second_message), StartTask 1, RunTask 1 0 access_env, Deliver]"

definition sample_third :: "service_step list" where
  "sample_third = [StartTask 0, RunTask 0 0 access_env, Arrives 0 (signed_bytes third_message), StartTask 0, RunTask 0 0 access_env, Deliver]"

definition sample_fourth :: "service_step list" where
  "sample_fourth = [StartTask 1, RunTask 1 0 access_env]"

lemmas run_simps = service_run_def service_step_def new_connection_def enqueue_for_def enqueue_task_def next_task_def pool_start_def
  task_run_def complete_task_def run_in_client_def emitted_def posts_def deliver_def client_connected_def proof_requested_def
  proof_done_def Let_def

definition done_queue :: "client_task list \<Rightarrow> client_task task_queue" where
  "done_queue xs = \<lparr>tqTasks = [], tqStarting = [], tqPool = [], tqDone = xs\<rparr>"

definition next_queue :: "client_task list \<Rightarrow> client_task \<Rightarrow> client_task task_queue" where
  "next_queue xs t = \<lparr>tqTasks = [t], tqStarting = [t], tqPool = [], tqDone = xs\<rparr>"

text \<open>A server with the first client, and perhaps the second.\<close>

definition with_first :: "service \<Rightarrow> bool" where
  "with_first s \<longleftrightarrow> svTables s = first_sdb \<and> svClient s 0 = idle_client 7 \<and> (\<exists>xs. svQueue s 0 = done_queue xs) \<and> svQueue s 1 = done_queue [] \<and>
     svAlive s = {0} \<and> svNext s = 1 \<and> svClients s = [7 \<mapsto> 0] \<and> svProofs s = [] \<and> svPosted s = []"

definition with_second :: "service \<Rightarrow> bool" where
  "with_second s \<longleftrightarrow> svTables s = first_sdb \<and> svClient s 0 = idle_client 7 \<and> svClient s 1 = asking_client \<and>
     (\<exists>xs. svQueue s 0 = next_queue xs (Handle (SendProof sample_proof))) \<and> (\<exists>xs. svQueue s 1 = done_queue xs) \<and>
     svAlive s = {0, 1} \<and> svProofs s = [(0, 1, 9)] \<and> svPosted s = []"

definition with_accept :: "service \<Rightarrow> bool" where
  "with_accept s \<longleftrightarrow> svTables s = first_sdb \<and> svClient s 1 = asking_client \<and> (\<exists>xs. svQueue s 1 = next_queue xs (Handle (ProofResult True third_message)))"

lemma first_runs: "with_first (service_run sample_first new_service)"
  unfolding sample_first_def with_first_def done_queue_def
  by (simp add: run_simps new_service_def new_queue_def begin_task first_task)

lemma second_runs: "with_first s \<Longrightarrow> with_second (service_run sample_second s)"
  unfolding sample_second_def with_first_def with_second_def
  by (elim conjE exE) (simp add: run_simps done_queue_def next_queue_def begin_task second_task, simp add: sample_proof_def insert_commute)

lemma third_runs: "with_second s \<Longrightarrow> with_accept (service_run sample_third s)"
  unfolding sample_third_def with_second_def with_accept_def
  by (elim conjE exE) (simp add: run_simps done_queue_def next_queue_def proof_task third_task)

lemma fourth_runs: "with_accept s \<Longrightarrow> (1, Send (GrantMessage 9 0 ''sch'' ''secret'')) \<in> set (svEffects (service_run sample_fourth s))"
  unfolding sample_fourth_def with_accept_def
  by (elim conjE exE) (simp add: run_simps next_queue_def grant_task)

theorem access_needs_acceptance_witness:
  "\<exists>partner m j ys n e zs b. (1, ProofRequested partner m) \<in> set (svEffects (service_run (sample_first @ sample_second @ sample_third @ sample_fourth) new_service)) \<and>
    sample_first @ sample_second @ sample_third @ sample_fourth = ys @ RunTask j n e # zs \<and>
    signed_accept e (svTables (service_run ys new_service)) partner b (AcceptMessage 9 0 ''sch'' ''secret'')"
proof -
  let ?xs = "sample_first @ sample_second @ sample_third @ sample_fourth"
  have "service_run ?xs new_service =
      service_run sample_fourth (service_run sample_third (service_run sample_second (service_run sample_first new_service)))"
    by (simp add: service_run_def)
  then have "(1, Send (GrantMessage 9 0 ''sch'' ''secret'')) \<in> set (svEffects (service_run ?xs new_service))"
    using fourth_runs [OF third_runs [OF second_runs [OF first_runs]]] by simp
  from access_needs_acceptance [OF refl this] show ?thesis by (simp add: Let_def) blast
qed

end
