(* ===== verification/Emitters.thy ===== *)
theory Emitters
  imports LocalStore "HOL-Library.AList"
begin

text \<open>
  How the stores of a user's processes hear of each other (\<open>src/datasync/changeemitter.cpp\<close>, \<open>emitteradapter.cpp\<close>). Process 0 runs
  the exchange engine with the one \<open>ChangeEmitter\<close>; its stores are primary. The stores of the processes 1, 2, ... are
  passive and reach the emitter over remote objects. Every store has an \<open>EmitterAdapter\<close> of its own, which stands for the store as the
  origin of a change, and the stores of a process share a cache. All calls and signals between the objects are queued; each
  queue and each connection of remote objects keeps its order, and which one moves next is free.
\<close>

section \<open>State\<close>

datatype change = Changed object_key bool \<comment> \<open>deleted\<close> | Resetted

record net =
  nPassive :: nat \<comment> \<open>the passive processes are 1, \<dots>, \<open>nPassive\<close>\<close>
  nAdapters :: "(nat \<times> nat) list" \<comment> \<open>adapters with their processes\<close>
  nDisk :: "(object_key \<times> json_object) list"
  nCache :: "nat \<Rightarrow> json_cache option" \<comment> \<open>of a process, unless caching is off\<close>
  nPrimary :: "(nat \<times> signal) list" \<comment> \<open>calls queued to the emitter by primary adapters\<close>
  nSocket :: "nat \<Rightarrow> signal list" \<comment> \<open>calls of a passive process on their way\<close>
  nNotify :: "nat \<Rightarrow> change list" \<comment> \<open>signals on their way to a passive process\<close>
  nPosted :: "nat \<Rightarrow> (nat option \<times> change) list" \<comment> \<open>queued to an adapter, with the origin\<close>
  nTold :: "(nat \<times> change) list" \<comment> \<open>signals of the adapters\<close>
  nUploads :: nat \<comment> \<open>how often \<open>uploadNeeded\<close> was emitted\<close>

definition new_net :: "nat \<Rightarrow> (nat \<times> nat) list \<Rightarrow> (nat \<Rightarrow> bool) \<Rightarrow> net" where
  "new_net n as cached = \<lparr>nPassive = n, nAdapters = as, nDisk = [], nCache = (\<lambda>p. if cached p then Some Map.empty else None), nPrimary = [],
     nSocket = (\<lambda>_. []), nNotify = (\<lambda>_. []), nPosted = (\<lambda>_. []), nTold = [], nUploads = 0\<rparr>"

section \<open>The cache of a process\<close>

definition cache_put :: "nat \<Rightarrow> object_key \<Rightarrow> json_object \<Rightarrow> net \<Rightarrow> net" where
  "cache_put p k v s = s\<lparr>nCache := (nCache s)(p := map_option (\<lambda>c. c(k \<mapsto> v)) (nCache s p))\<rparr>"

definition cache_get :: "nat \<Rightarrow> object_key \<Rightarrow> net \<Rightarrow> json_object option" where
  "cache_get p k s = (case nCache s p of None \<Rightarrow> None | Some c \<Rightarrow> c k)"

text \<open>\<open>dropCached\<close>: one key, the ids of a type, or all\<close>

definition drop_keys :: "nat \<Rightarrow> (object_key \<Rightarrow> bool) \<Rightarrow> net \<Rightarrow> net" where
  "drop_keys p f s = s\<lparr>nCache := (nCache s)(p := map_option (\<lambda>c k. if f k then None else c k) (nCache s p))\<rparr>"

definition touches :: "change \<Rightarrow> object_key \<Rightarrow> bool" where
  "touches x k \<longleftrightarrow> (case x of Changed k' _ \<Rightarrow> k = k' | Resetted \<Rightarrow> True)"

section \<open>The emitter\<close>

text \<open>The changes a call announces, and whether it asks for an upload.\<close>

definition changes_of :: "signal \<Rightarrow> change list" where
  "changes_of x = (case x of
       TriggerChange k deleted _ \<Rightarrow> [Changed k deleted]
     | TriggerClear t ids \<Rightarrow> map (\<lambda>i. Changed \<lparr>typeName = t, keyId = i\<rparr> True) ids
     | TriggerReset \<Rightarrow> [Resetted]
     | TriggerUpload \<Rightarrow> [])"

definition needs_upload :: "signal \<Rightarrow> bool" where
  "needs_upload x = (case x of TriggerChange _ _ ch \<Rightarrow> ch | _ \<Rightarrow> True)"

definition adapters_of :: "nat \<Rightarrow> net \<Rightarrow> nat list" where
  "adapters_of p s = map fst (filter (\<lambda>(_, q). q = p) (nAdapters s))"

text \<open>\<open>dataChanged\<close> or \<open>dataResetted\<close> to the primary adapters, and its remote counterpart to every passive process\<close>

definition emit_change :: "nat option \<Rightarrow> change \<Rightarrow> net \<Rightarrow> net" where
  "emit_change from x s = s\<lparr>
     nPosted := (\<lambda>a. if a \<in> set (adapters_of 0 s) then nPosted s a @ [(from, x)] else nPosted s a),
     nNotify := (\<lambda>p. if 1 \<le> p \<and> p \<le> nPassive s then nNotify s p @ [x] else nNotify s p)\<rparr>"

text \<open>The slots of the emitter: with an origin for primary stores, and without one (\<open>triggerRemoteChange\<close> and so on)
  for passive ones, whose changes concern the cache of the emitter's own process.\<close>

definition emitter_slot :: "nat option \<Rightarrow> signal \<Rightarrow> net \<Rightarrow> net" where
  "emitter_slot from x s =
     (let s1 = (if from = None then drop_keys 0 (\<lambda>k. list_ex (\<lambda>c. touches c k) (changes_of x)) s else s);
          s2 = (if needs_upload x then s1\<lparr>nUploads := Suc (nUploads s1)\<rparr> else s1)
      in fold (emit_change from) (changes_of x) s2)"

section \<open>The adapters\<close>

definition tell_app :: "nat \<Rightarrow> change \<Rightarrow> net \<Rightarrow> net" where
  "tell_app a x s = s\<lparr>nTold := nTold s @ [(a, x)]\<rparr>"

text \<open>\<open>triggerChange\<close>, \<open>triggerClear\<close>, \<open>triggerReset\<close>, \<open>triggerUpload\<close> of the adapter: a primary one signals its own change at once.\<close>

definition adapter_trigger :: "nat \<Rightarrow> nat \<Rightarrow> signal \<Rightarrow> net \<Rightarrow> net" where
  "adapter_trigger a p x s =
     (if p = 0 then fold (tell_app a) (changes_of x) (s\<lparr>nPrimary := nPrimary s @ [(a, x)]\<rparr>)
      else s\<lparr>nSocket := (nSocket s)(p := nSocket s p @ [x])\<rparr>)"

definition adapter_slot :: "nat \<Rightarrow> nat \<Rightarrow> nat option \<Rightarrow> change \<Rightarrow> net \<Rightarrow> net" where
  "adapter_slot a p from x s =
     (if p = 0 then (if from = Some a then s else tell_app a x s) else tell_app a x (drop_keys p (touches x) s))"

section \<open>Stores\<close>

text \<open>What the operations of the local store do to data and cache, and the signal they trigger.\<close>

datatype store_op =
    SaveData object_key json_object bool
  | RemoveData object_key bool
  | ClearData bytes
  | ResetData
  | LoadData object_key
  | AskUpload

definition load_data :: "nat \<Rightarrow> object_key \<Rightarrow> net \<Rightarrow> json_object option \<times> net" where
  "load_data p k s = (case cache_get p k s of
       Some v \<Rightarrow> (Some v, s)
     | None \<Rightarrow> (case map_of (nDisk s) k of
           Some v \<Rightarrow> (Some v, cache_put p k v s)
         | None \<Rightarrow> (None, s)))"

definition type_ids :: "bytes \<Rightarrow> net \<Rightarrow> string list" where
  "type_ids t s = map (\<lambda>(k, _). keyId k) (filter (\<lambda>(k, _). typeName k = t) (nDisk s))"

definition stores :: "nat \<Rightarrow> store_op \<Rightarrow> net \<Rightarrow> net \<times> signal option" where
  "stores p x s = (case x of
       SaveData k v ch \<Rightarrow> (cache_put p k v (s\<lparr>nDisk := AList.update k v (nDisk s)\<rparr>), Some (TriggerChange k False ch))
     | RemoveData k ch \<Rightarrow> if map_of (nDisk s) k = None then (s, None)
         else (drop_keys p ((=) k) (s\<lparr>nDisk := AList.delete k (nDisk s)\<rparr>), Some (TriggerChange k True ch))
     | ClearData t \<Rightarrow> (drop_keys p (\<lambda>k. typeName k = t \<and> keyId k \<in> set (type_ids t s)) (s\<lparr>nDisk := filter (\<lambda>(k, _). typeName k \<noteq> t) (nDisk s)\<rparr>),
         Some (TriggerClear t (type_ids t s)))
     | ResetData \<Rightarrow> (drop_keys p (\<lambda>_. True) (s\<lparr>nDisk := []\<rparr>), Some TriggerReset)
     | LoadData k \<Rightarrow> (snd (load_data p k s), None)
     | AskUpload \<Rightarrow> (s, Some TriggerUpload))"

datatype net_step =
    Perform nat store_op
  | EmitterPrimary
  | EmitterSocket nat
  | Notified nat
  | Posted nat
  | Evict nat object_key

definition net_step :: "net_step \<Rightarrow> net \<Rightarrow> net" where
  "net_step x s = (case x of
       Perform a op \<Rightarrow> (case map_of (nAdapters s) a of
           None \<Rightarrow> s
         | Some p \<Rightarrow> (case stores p op s of (s', None) \<Rightarrow> s' | (s', Some sig) \<Rightarrow> adapter_trigger a p sig s'))
     | EmitterPrimary \<Rightarrow> (case nPrimary s of [] \<Rightarrow> s | (a, sig) # rest \<Rightarrow> emitter_slot (Some a) sig (s\<lparr>nPrimary := rest\<rparr>))
     | EmitterSocket p \<Rightarrow> (case nSocket s p of [] \<Rightarrow> s | sig # rest \<Rightarrow> emitter_slot None sig (s\<lparr>nSocket := (nSocket s)(p := rest)\<rparr>))
     | Notified p \<Rightarrow> (case nNotify s p of [] \<Rightarrow> s
         | c # rest \<Rightarrow> s\<lparr>nNotify := (nNotify s)(p := rest),
             nPosted := (\<lambda>a. if a \<in> set (adapters_of p s) then nPosted s a @ [(None, c)] else nPosted s a)\<rparr>)
     | Posted a \<Rightarrow> (case (map_of (nAdapters s) a, nPosted s a) of
           (Some p, (from, c) # rest) \<Rightarrow> adapter_slot a p from c (s\<lparr>nPosted := (nPosted s)(a := rest)\<rparr>)
         | _ \<Rightarrow> s)
     | Evict p k \<Rightarrow> drop_keys p ((=) k) s)"

definition net_run :: "net_step list \<Rightarrow> net \<Rightarrow> net" where
  "net_run = fold net_step"

text \<open>The changes that were made in a run, and whether all of them are delivered.\<close>

definition made_by :: "net_step \<Rightarrow> net \<Rightarrow> change list" where
  "made_by x s = (case x of
       Perform a op \<Rightarrow> (case map_of (nAdapters s) a of
           None \<Rightarrow> []
         | Some p \<Rightarrow> (case stores p op s of (_, None) \<Rightarrow> [] | (_, Some sig) \<Rightarrow> changes_of sig))
     | _ \<Rightarrow> [])"

fun made :: "net_step list \<Rightarrow> net \<Rightarrow> change list" where
  "made [] s = []"
| "made (x # xs) s = made_by x s @ made xs (net_step x s)"

definition quiet :: "net \<Rightarrow> bool" where
  "quiet s \<longleftrightarrow> nPrimary s = [] \<and> list_all (\<lambda>p. nSocket s p = [] \<and> nNotify s p = []) [1..<Suc (nPassive s)] \<and>
     list_all (\<lambda>(a, _). nPosted s a = []) (nAdapters s)"

end
