(* ===== verification/EmitterClaims.thy ===== *)
theory EmitterClaims
  imports Emitters "HOL-Library.Multiset"
begin

text \<open>
  That every store is told of every change exactly once, wherever it was made.
\<close>

section \<open>Fields\<close>

lemma cache_fields [simp]:
  "nPassive (cache_put p k v s) = nPassive s" "nAdapters (cache_put p k v s) = nAdapters s" "nDisk (cache_put p k v s) = nDisk s"
  "nPrimary (cache_put p k v s) = nPrimary s" "nSocket (cache_put p k v s) = nSocket s" "nNotify (cache_put p k v s) = nNotify s"
  "nPosted (cache_put p k v s) = nPosted s" "nTold (cache_put p k v s) = nTold s"
  "nPassive (drop_keys p f s) = nPassive s" "nAdapters (drop_keys p f s) = nAdapters s" "nDisk (drop_keys p f s) = nDisk s"
  "nPrimary (drop_keys p f s) = nPrimary s" "nSocket (drop_keys p f s) = nSocket s" "nNotify (drop_keys p f s) = nNotify s"
  "nPosted (drop_keys p f s) = nPosted s" "nTold (drop_keys p f s) = nTold s"
  by (simp_all add: cache_put_def drop_keys_def)

lemma told_app_fields [simp]:
  "nPassive (fold (tell_app a) xs s) = nPassive s" "nAdapters (fold (tell_app a) xs s) = nAdapters s" "nDisk (fold (tell_app a) xs s) = nDisk s"
  "nCache (fold (tell_app a) xs s) = nCache s" "nPrimary (fold (tell_app a) xs s) = nPrimary s" "nSocket (fold (tell_app a) xs s) = nSocket s"
  "nNotify (fold (tell_app a) xs s) = nNotify s" "nPosted (fold (tell_app a) xs s) = nPosted s"
  "nTold (fold (tell_app a) xs s) = nTold s @ map (Pair a) xs"
  by (induction xs arbitrary: s) (simp_all add: tell_app_def)

lemma emit_fields [simp]:
  "nPassive (fold (emit_change f) xs s) = nPassive s" "nAdapters (fold (emit_change f) xs s) = nAdapters s"
  "nDisk (fold (emit_change f) xs s) = nDisk s" "nCache (fold (emit_change f) xs s) = nCache s"
  "nPrimary (fold (emit_change f) xs s) = nPrimary s" "nSocket (fold (emit_change f) xs s) = nSocket s"
  "nTold (fold (emit_change f) xs s) = nTold s"
  by (induction xs arbitrary: s) (simp_all add: emit_change_def)

lemma emit_queues [simp]:
  "nPosted (fold (emit_change f) xs s) a = (if a \<in> set (adapters_of 0 s) then nPosted s a @ map (Pair f) xs else nPosted s a)"
  "nNotify (fold (emit_change f) xs s) p = (if 1 \<le> p \<and> p \<le> nPassive s then nNotify s p @ xs else nNotify s p)"
  by (induction xs arbitrary: s) (simp_all add: emit_change_def adapters_of_def)

lemma slot_fields [simp]:
  "nPassive (emitter_slot f x s) = nPassive s" "nAdapters (emitter_slot f x s) = nAdapters s" "nDisk (emitter_slot f x s) = nDisk s"
  "nPrimary (emitter_slot f x s) = nPrimary s" "nSocket (emitter_slot f x s) = nSocket s" "nTold (emitter_slot f x s) = nTold s"
  "nCache (emitter_slot f x s) = (if f = None then nCache (drop_keys 0 (\<lambda>k. list_ex (\<lambda>c. touches c k) (changes_of x)) s) else nCache s)"
  "nPosted (emitter_slot f x s) a = (if a \<in> set (adapters_of 0 s) then nPosted s a @ map (Pair f) (changes_of x) else nPosted s a)"
  "nNotify (emitter_slot f x s) p = (if 1 \<le> p \<and> p \<le> nPassive s then nNotify s p @ changes_of x else nNotify s p)"
  by (auto simp: emitter_slot_def Let_def adapters_of_def)

lemma stores_fields:
  "nPassive (fst (stores p x s)) = nPassive s" "nAdapters (fst (stores p x s)) = nAdapters s" "nPrimary (fst (stores p x s)) = nPrimary s"
  "nSocket (fst (stores p x s)) = nSocket s" "nNotify (fst (stores p x s)) = nNotify s" "nPosted (fst (stores p x s)) = nPosted s"
  "nTold (fst (stores p x s)) = nTold s"
  by (simp_all add: stores_def load_data_def split: store_op.split option.split)

section \<open>Told once\<close>

definition told_by :: "nat \<Rightarrow> net \<Rightarrow> change multiset" where
  "told_by a s = mset (map snd (filter (\<lambda>(b, _). b = a) (nTold s)))"

definition in_sockets :: "net \<Rightarrow> change multiset" where
  "in_sockets s = (\<Sum>q \<in> {1..nPassive s}. mset (concat (map changes_of (nSocket s q))))"

text \<open>What an adapter of a process is still going to be told.\<close>

definition to_tell :: "nat \<Rightarrow> nat \<Rightarrow> net \<Rightarrow> change multiset" where
  "to_tell a p s = in_sockets s +
     (if p = 0 then mset (map snd (filter (\<lambda>(from, _). from \<noteq> Some a) (nPosted s a))) +
        mset (concat (map (\<lambda>(b, x). if b = a then [] else changes_of x) (nPrimary s)))
      else mset (map snd (nPosted s a)) + mset (nNotify s p) + mset (concat (map (\<lambda>(_, x). changes_of x) (nPrimary s))))"

lemma sum_upd: "finite A \<Longrightarrow> p \<in> A \<Longrightarrow> (\<Sum>q \<in> A. f ((g(p := x)) q)) = f x + (\<Sum>q \<in> A - {p}. f (g q))" for f :: "'b \<Rightarrow> 'c multiset"
  by (simp add: sum.remove)

lemma sum_at: "finite A \<Longrightarrow> p \<in> A \<Longrightarrow> (\<Sum>q \<in> A. f (g q)) = f (g p) + (\<Sum>q \<in> A - {p}. f (g q))" for f :: "'b \<Rightarrow> 'c multiset"
  by (simp add: sum.remove)

lemma sockets_put:
  "1 \<le> p \<Longrightarrow> p \<le> nPassive s \<Longrightarrow> in_sockets (s\<lparr>nSocket := (nSocket s)(p := nSocket s p @ [x])\<rparr>) = in_sockets s + mset (changes_of x)"
  unfolding in_sockets_def
  using sum_upd [of "{1..nPassive s}" p "\<lambda>ys. mset (concat (map changes_of ys))" "nSocket s" "nSocket s p @ [x]"]
    sum_at [of "{1..nPassive s}" p "\<lambda>ys. mset (concat (map changes_of ys))" "nSocket s"]
  by simp

lemma sockets_take:
  "1 \<le> p \<Longrightarrow> p \<le> nPassive s \<Longrightarrow> nSocket s p = x # rest \<Longrightarrow>
   in_sockets s = in_sockets (s\<lparr>nSocket := (nSocket s)(p := rest)\<rparr>) + mset (changes_of x)"
  unfolding in_sockets_def
  using sum_upd [of "{1..nPassive s}" p "\<lambda>ys. mset (concat (map changes_of ys))" "nSocket s" rest]
    sum_at [of "{1..nPassive s}" p "\<lambda>ys. mset (concat (map changes_of ys))" "nSocket s"]
  by simp

lemma sockets_cong: "nSocket s = nSocket s' \<Longrightarrow> nPassive s = nPassive s' \<Longrightarrow> in_sockets s = in_sockets s'"
  by (simp add: in_sockets_def)

text \<open>Nothing waits where no process is.\<close>

definition net_inv :: "net \<Rightarrow> bool" where
  "net_inv s \<longleftrightarrow> distinct (map fst (nAdapters s)) \<and> (\<forall>(a, p) \<in> set (nAdapters s). p \<le> nPassive s) \<and>
     (\<forall>p. 1 \<le> p \<and> p \<le> nPassive s \<or> nSocket s p = [] \<and> nNotify s p = []) \<and> nSocket s 0 = []"

lemma net_invD:
  assumes "net_inv s"
  shows "map_of (nAdapters s) a = Some p \<Longrightarrow> p \<le> nPassive s" "nSocket s p = x # r \<Longrightarrow> 1 \<le> p \<and> p \<le> nPassive s"
    "nNotify s p = c # cs \<Longrightarrow> 1 \<le> p \<and> p \<le> nPassive s"
  using assms map_of_SomeD unfolding net_inv_def by fastforce+

lemma adapters_iff: "distinct (map fst (nAdapters s)) \<Longrightarrow> a \<in> set (adapters_of p s) \<longleftrightarrow> map_of (nAdapters s) a = Some p"
  by (force simp: adapters_of_def)

lemma trigger_fields [simp]:
  "nPassive (adapter_trigger a p x s) = nPassive s" "nAdapters (adapter_trigger a p x s) = nAdapters s"
  "nNotify (adapter_trigger a p x s) = nNotify s" "nPosted (adapter_trigger a p x s) = nPosted s" "nDisk (adapter_trigger a p x s) = nDisk s"
  "nCache (adapter_trigger a p x s) = nCache s"
  by (simp_all add: adapter_trigger_def)

lemma adapter_slot_fields [simp]:
  "nPassive (adapter_slot a p f x s) = nPassive s" "nAdapters (adapter_slot a p f x s) = nAdapters s" "nSocket (adapter_slot a p f x s) = nSocket s"
  "nNotify (adapter_slot a p f x s) = nNotify s" "nPosted (adapter_slot a p f x s) = nPosted s" "nPrimary (adapter_slot a p f x s) = nPrimary s"
  "nDisk (adapter_slot a p f x s) = nDisk s"
  by (simp_all add: adapter_slot_def tell_app_def)

lemma step_net_inv: "net_inv s \<Longrightarrow> net_inv (net_step x s) \<and> nAdapters (net_step x s) = nAdapters s \<and> nPassive (net_step x s) = nPassive s"
proof -
  assume inv: "net_inv s"
  show ?thesis
  proof (cases x)
    case (Perform a op)
    show ?thesis
    proof (cases "map_of (nAdapters s) a")
      case (Some p)
      obtain s' sig where st: "stores p op s = (s', sig)" by fastforce
      then show ?thesis using Perform Some inv net_invD(1) [OF inv Some] stores_fields [of p op s]
        by (cases sig) (auto simp: net_step_def net_inv_def adapter_trigger_def)
    qed (use Perform inv in \<open>simp add: net_step_def\<close>)
  next
    case EmitterPrimary
    then show ?thesis using inv by (auto simp: net_step_def net_inv_def split: list.split prod.split)
  next
    case (EmitterSocket p)
    then show ?thesis using inv net_invD(2) [OF inv, of p] by (auto simp: net_step_def net_inv_def split: list.split)
  next
    case (Notified p)
    then show ?thesis using inv net_invD(3) [OF inv, of p] by (auto simp: net_step_def net_inv_def split: list.split)
  next
    case (Posted a)
    then show ?thesis using inv by (auto simp: net_step_def net_inv_def split: list.split prod.split option.split)
  next
    case (Evict p k)
    then show ?thesis using inv by (auto simp: net_step_def net_inv_def)
  qed
qed

text \<open>A step moves changes from what is still to be told to what was told, and adds those it makes.\<close>

definition known_to :: "nat \<Rightarrow> nat \<Rightarrow> net \<Rightarrow> change multiset" where
  "known_to a p s = told_by a s + to_tell a p s"

lemma filter_own: "image_mset snd (filter_mset (\<lambda>(b, _). b = a) (image_mset (Pair c) M)) = (if c = a then M else {#})"
  by (induction M) auto

lemma filter_from: "map snd (filter (\<lambda>(b, _). b \<noteq> c) (map (Pair d) xs)) = (if d = c then [] else xs)"
  by (induction xs) auto

lemma trigger_tells:
  assumes "map_of (nAdapters s) b = Some q" "map_of (nAdapters s) a = Some p" "net_inv s"
  shows "known_to a p (adapter_trigger b q x s) = known_to a p s + mset (changes_of x)"
proof (cases "q = 0")
  case True
  then have same: "in_sockets (adapter_trigger b q x s) = in_sockets s"
    by (intro sockets_cong) (simp_all add: adapter_trigger_def)
  have "b \<noteq> a" if "p \<noteq> 0" using that True assms(1,2) by auto
  then show ?thesis
    by (auto simp: known_to_def told_by_def to_tell_def same) (auto simp: adapter_trigger_def True filter_own)
next
  case False
  then have "in_sockets (adapter_trigger b q x s) = in_sockets s + mset (changes_of x)"
    using net_invD(1) [OF assms(3,1)] by (simp add: adapter_trigger_def sockets_put)
  then show ?thesis using False
    by (auto simp: known_to_def told_by_def to_tell_def) (auto simp: adapter_trigger_def)
qed

lemma known_cong:
  "nTold s = nTold s' \<Longrightarrow> nSocket s = nSocket s' \<Longrightarrow> nPassive s = nPassive s' \<Longrightarrow> nPosted s = nPosted s' \<Longrightarrow> nNotify s = nNotify s' \<Longrightarrow>
   nPrimary s = nPrimary s' \<Longrightarrow> known_to a p s = known_to a p s'"
  by (simp add: known_to_def told_by_def to_tell_def in_sockets_def)

lemma primary_tells:
  assumes "nPrimary s = (b, x) # rest" "map_of (nAdapters s) a = Some p" "net_inv s"
  shows "known_to a p (emitter_slot (Some b) x (s\<lparr>nPrimary := rest\<rparr>)) = known_to a p s"
proof -
  have "in_sockets (emitter_slot (Some b) x (s\<lparr>nPrimary := rest\<rparr>)) = in_sockets s" by (rule sockets_cong) simp_all
  moreover have "a \<in> set (adapters_of q s) \<longleftrightarrow> p = q" for q
    using assms(2,3) by (auto simp: adapters_iff net_inv_def)
  then have "a \<in> set (adapters_of q (s\<lparr>nPrimary := rest\<rparr>)) \<longleftrightarrow> p = q" for q by (simp add: adapters_of_def)
  ultimately show ?thesis
    using net_invD(1) [OF assms(3,2)] assms(1)
    by (auto simp: known_to_def told_by_def to_tell_def filter_from comp_def)
qed

lemma socket_tells:
  assumes "nSocket s q = x # rest" "map_of (nAdapters s) a = Some p" "net_inv s"
  shows "known_to a p (emitter_slot None x (s\<lparr>nSocket := (nSocket s)(q := rest)\<rparr>)) = known_to a p s"
proof -
  let ?s = "s\<lparr>nSocket := (nSocket s)(q := rest)\<rparr>"
  have "in_sockets (emitter_slot None x ?s) = in_sockets ?s" by (rule sockets_cong) simp_all
  moreover have "in_sockets s = in_sockets ?s + mset (changes_of x)"
    using net_invD(2) [OF assms(3,1)] assms(1) by (simp add: sockets_take)
  moreover have "a \<in> set (adapters_of r ?s) \<longleftrightarrow> p = r" for r
    using assms(2,3) by (auto simp: adapters_iff net_inv_def)
  ultimately show ?thesis
    using net_invD(1) [OF assms(3,2)]
    by (auto simp: known_to_def told_by_def to_tell_def filter_from comp_def)
qed

lemma notified_tells:
  assumes "nNotify s q = c # rest" "map_of (nAdapters s) a = Some p" "net_inv s"
  shows "known_to a p (net_step (Notified q) s) = known_to a p s"
proof -
  have "a \<in> set (adapters_of q s) \<longleftrightarrow> p = q" using assms(2,3) by (auto simp: adapters_iff net_inv_def)
  moreover have "q \<noteq> 0" using net_invD(3) [OF assms(3,1)] by simp
  moreover have "in_sockets (net_step (Notified q) s) = in_sockets s" by (rule sockets_cong) (simp_all add: net_step_def assms(1))
  ultimately show ?thesis
    by (auto simp: known_to_def told_by_def to_tell_def) (auto simp: net_step_def assms(1))
qed

lemma posted_tells:
  assumes "map_of (nAdapters s) b = Some q" "nPosted s b = (f, c) # rest" "map_of (nAdapters s) a = Some p"
  shows "known_to a p (adapter_slot b q f c (s\<lparr>nPosted := (nPosted s)(b := rest)\<rparr>)) = known_to a p s"
proof -
  let ?s = "adapter_slot b q f c (s\<lparr>nPosted := (nPosted s)(b := rest)\<rparr>)"
  have "in_sockets ?s = in_sockets s" by (rule sockets_cong) simp_all
  moreover have "p = q" if "a = b" using assms(1,3) that by simp
  ultimately show ?thesis using assms(2)
    by (auto simp: known_to_def told_by_def to_tell_def) (auto simp: adapter_slot_def tell_app_def)
qed

lemma step_tells:
  assumes "map_of (nAdapters s) a = Some p" "net_inv s"
  shows "known_to a p (net_step x s) = known_to a p s + mset (made_by x s)"
proof (cases x)
  case (Perform b op)
  show ?thesis
  proof (cases "map_of (nAdapters s) b")
    case (Some q)
    obtain s' sig where st: "stores q op s = (s', sig)" by fastforce
    then have s': "net_inv s'" "map_of (nAdapters s') b = Some q" "map_of (nAdapters s') a = Some p" "known_to a p s' = known_to a p s"
      using assms Some stores_fields [of q op s] by (auto simp: net_inv_def intro!: known_cong)
    show ?thesis
    proof (cases sig)
      case (Some y)
      then show ?thesis using Perform \<open>map_of (nAdapters s) b = Some q\<close> st trigger_tells [OF s'(2,3,1)] s'(4)
        by (simp add: net_step_def made_by_def)
    qed (use Perform Some st s'(4) in \<open>simp add: net_step_def made_by_def\<close>)
  qed (use Perform in \<open>simp add: net_step_def made_by_def\<close>)
next
  case EmitterPrimary
  then show ?thesis using primary_tells [OF _ assms] by (auto simp: net_step_def made_by_def split: list.split prod.split)
next
  case (EmitterSocket q)
  then show ?thesis using socket_tells [OF _ assms] by (auto simp: net_step_def made_by_def split: list.split)
next
  case (Notified q)
  then show ?thesis using notified_tells [OF _ assms] by (cases "nNotify s q") (auto simp: net_step_def made_by_def)
next
  case (Posted b)
  then show ?thesis using posted_tells [OF _ _ assms(1)] by (auto simp: net_step_def made_by_def split: list.split prod.split option.split)
next
  case (Evict q k)
  then show ?thesis by (simp add: net_step_def made_by_def) (rule known_cong, simp_all)
qed

lemma run_tells:
  "net_inv s \<Longrightarrow> map_of (nAdapters s) a = Some p \<Longrightarrow> known_to a p (net_run xs s) = known_to a p s + mset (made xs s)"
  unfolding net_run_def
proof (induction xs arbitrary: s)
  case (Cons x xs)
  from step_net_inv [OF Cons.prems(1), of x] Cons.IH [of "net_step x s"] step_tells [OF Cons.prems(2,1), of x] Cons.prems(2)
  show ?case by (simp add: add.assoc)
qed simp

lemma run_net_inv: "net_inv s \<Longrightarrow> net_inv (net_run xs s) \<and> nAdapters (net_run xs s) = nAdapters s \<and> nPassive (net_run xs s) = nPassive s"
  unfolding net_run_def
proof (induction xs arbitrary: s)
  case (Cons x xs)
  from step_net_inv [OF Cons.prems, of x] Cons.IH [of "net_step x s"] show ?case by simp
qed simp

lemma new_net_inv: "distinct (map fst as) \<Longrightarrow> \<forall>(a, p) \<in> set as. p \<le> n \<Longrightarrow> net_inv (new_net n as cached)"
  by (simp add: net_inv_def new_net_def)

lemma quiet_tells: "quiet s \<Longrightarrow> (a, p) \<in> set (nAdapters s) \<Longrightarrow> p \<le> nPassive s \<Longrightarrow> to_tell a p s = {#}"
proof -
  assume q: "quiet s" "(a, p) \<in> set (nAdapters s)" "p \<le> nPassive s"
  have "in_sockets s = {#}" using q(1) unfolding in_sockets_def quiet_def by (intro sum.neutral) (auto simp: list_all_iff)
  moreover have "nNotify s p = []" if "p \<noteq> 0" using q(1,3) that by (auto simp: quiet_def list_all_iff)
  moreover have "nPosted s a = []" using q(1,2) by (auto simp: quiet_def list_all_iff)
  ultimately show ?thesis using q(1) by (simp add: to_tell_def quiet_def)
qed

text \<open>C39: Every store is told of every change exactly once: of its own changes and those of all other stores, in its process or in
  another, however the operations of the stores and the deliveries interleave - once all is delivered, what an adapter
  has signalled are the changes that were made, each as often as it was made.\<close>

theorem changes_told_once:
  assumes "distinct (map fst as)" "\<forall>(a, p) \<in> set as. p \<le> n" "s = net_run xs (new_net n as cached)" "quiet s" "(a, p) \<in> set as"
  shows "mset (map snd (filter (\<lambda>(b, _). b = a) (nTold s))) = mset (made xs (new_net n as cached))"
proof -
  note inv = new_net_inv [OF assms(1,2), of cached]
  have m: "map_of (nAdapters (new_net n as cached)) a = Some p" using assms(1,5) by (simp add: new_net_def)
  have "nAdapters s = as" "nPassive s = n" using run_net_inv [OF inv, of xs] assms(3) by (simp_all add: new_net_def)
  then have "to_tell a p s = {#}" using quiet_tells [OF assms(4)] assms(2,5) by auto
  moreover have "known_to a p (new_net n as cached) = {#}"
    by (simp add: known_to_def told_by_def to_tell_def in_sockets_def new_net_def)
  ultimately show ?thesis using run_tells [OF inv m, of xs] assms(3) by (simp add: known_to_def told_by_def)
qed

end
