(* ===== verification/SharedCache.thy ===== *)
theory SharedCache
  imports EmitterClaims
begin

text \<open>
  That the caches of the processes do not hold on to what another store has changed: whatever a cache has that is not what is stored is
  the subject of a change under way to it.
\<close>

section \<open>The caches agree with the stored data\<close>



lemma get_put: "cache_get p k (cache_put q l v s) = (if p = q \<and> k = l then map_option (\<lambda>_. v) (nCache s p) else cache_get p k s)"
  by (auto simp: cache_get_def cache_put_def split: option.split)

lemma get_put_other [simp]: "\<not> (p = q \<and> k = l) \<Longrightarrow> cache_get p k (cache_put q l v s) = cache_get p k s"
  by (auto simp: get_put)


lemma get_drop [simp]: "cache_get p k (drop_keys q f s) = (if p = q \<and> f k then None else cache_get p k s)"
  by (auto simp: cache_get_def drop_keys_def split: option.split)


lemma get_disk [simp]: "cache_get p k (s\<lparr>nDisk := d\<rparr>) = cache_get p k s"
  by (simp add: cache_get_def)







lemma stores_other:
  assumes "stores q op s = (s', sig)" "p \<noteq> q" shows "cache_get p k s' = cache_get p k s"
  using assms by (auto simp: stores_def load_data_def split: store_op.splits option.splits if_splits)













section \<open>Two processes\<close>

definition sample_key :: object_key where
  "sample_key = \<lparr>typeName = ''T'', keyId = ''1''\<rparr>"

definition sample_deliver :: "net_step list" where
  "sample_deliver = [EmitterPrimary, Posted 0, Notified 1, Posted 1]"

definition sample_net :: net where
  "sample_net = new_net 1 [(0, 0), (1, 1)] (\<lambda>_. True)"

definition sample_steps :: "net_step list" where
  "sample_steps = [Perform 0 (SaveData sample_key [(''a'', JNull)] True)] @ sample_deliver @ [Perform 1 (LoadData sample_key)] @
     [Perform 0 (SaveData sample_key [(''b'', JNull)] True)] @ sample_deliver"

lemmas sample_net_simps = net_run_def sample_steps_def sample_deliver_def sample_net_def net_step_def new_net_def stores_def
  adapter_trigger_def tell_app_def emitter_slot_def emit_change_def adapters_of_def adapter_slot_def changes_of_def needs_upload_def
  load_data_def cache_get_def cache_put_def drop_keys_def touches_def Let_def

lemma sample_net_runs: "quiet (net_run sample_steps sample_net)" "nDisk (net_run sample_steps sample_net) = [(sample_key, [(''b'', JNull)])]"
  "made sample_steps sample_net = [Changed sample_key False, Changed sample_key False]"
  by (simp add: quiet_def sample_net_simps, simp add: sample_net_simps) (simp add: sample_net_simps made_by_def)


theorem changes_told_once_witness:
  "mset (map snd (filter (\<lambda>(b, _). b = 1) (nTold (net_run sample_steps sample_net)))) = {#Changed sample_key False, Changed sample_key False#}"
  using changes_told_once [of "[(0, 0), (1, 1)]" 1 _ sample_steps "\<lambda>_. True" 1 1, OF _ _ refl] sample_net_runs(1,3)
  unfolding sample_net_def by simp

section \<open>Where a cache goes stale\<close>

text \<open>Only the adapters of a passive process drop what was changed elsewhere from its cache, and the cache lives longer than the
  stores: when a change is signalled while a process has no store, what it had cached of the dataset
  stays (\<open>EmitterAdapter::remoteDataChangedImpl\<close>).\<close>

lemma unheard_change_stays_cached:
  assumes "nNotify s p = Changed k deleted # rest" "adapters_of p s = []" "cache_get p k s = Some v"
  shows "cache_get p k (net_step (Notified p) s) = Some v" "nNotify (net_step (Notified p) s) p = rest"
    "nPosted (net_step (Notified p) s) = nPosted s"
  using assms by (simp_all add: net_step_def cache_get_def)

end
