(* ===== verification/Spec2Isabelle.thy ===== *)
theory Spec2Isabelle
  imports Divergences UploadDrain SecretKeyClaims ConnectorClosing DeferredMessages Callbacks UserExchangeClaims AccessSample SharedCache
begin

text \<open>
  A verification development for QtDataSync: a store of JSON datasets on every device of a
  user, kept in step over a server that sees encrypted changes only.

  The program. An application saves and removes datasets in the \<open>LocalStore\<close>
  (\<open>src/datasync/localstore.cpp\<close>), which keeps one file per dataset and a table with version,
  checksum and a mark for what has to be uploaded. The \<open>ChangeController\<close>
  (\<open>changecontroller.cpp\<close>) uploads what is marked, a bounded number at a time, packed by
  \<open>SyncHelper\<close> (\<open>synchelper.cpp\<close>). The server (\<open>tools/appserver\<close>) runs one \<open>Client\<close>
  (\<open>client.cpp\<close>) per connection, stores each change for the other devices of the user in a
  PostgreSQL database (\<open>databasecontroller.cpp\<close>) and hands it on in the order of arrival. The
  \<open>SyncController\<close> (\<open>synccontroller.cpp\<close>) merges what a device receives into its local store.
  The \<open>RemoteConnector\<close> (\<open>remoteconnector.cpp\<close>) holds the connection to the server, and encrypts and
  decrypts with the \<open>CryptoController\<close> (\<open>cryptocontroller.cpp\<close>).
  An \<open>EventCursor\<close> (\<open>eventcursor.cpp\<close>) lets the application follow the log of changes. The two
  sides speak in the messages of \<open>src/messages\<close>.

  The theories and what they model, in the order of their imports:

  \<^item> \<open>Prelude\<close>: machine types, actions with state and exceptions (a throw keeps the side
    effects made before it), \<open>keeps\<close> with one rule per building block, tables as association
    lists.
  \<^item> \<open>DataStream\<close>: the primitives of \<open>QDataStream\<close> as the locale \<open>datastream\<close>, interpreted with
    the documented big-endian format.
  \<^item> \<open>SyncHelper\<close>: keys, checksums and packed changes (\<open>objectkey.cpp\<close>, \<open>synchelper.cpp\<close>).
  \<^item> \<open>DataIndex\<close>: the client's SQLite tables with keys, cascades and triggers.
  \<^item> \<open>LocalStore\<close>, \<open>LocalStoreProps\<close>, \<open>CalmStore\<close>: every operation of the store except the search by
    pattern; the state is the tables, the files, the cache and the signals emitted, and each
    library call is a point that can fail (\<open>env\<close>). \<open>CalmStore\<close> holds the runs without failures and
    the interface \<open>kv_store\<close>, interpreted on the store.
  \<^item> \<open>Emitters\<close> (\<open>changeemitter.cpp\<close>, \<open>emitteradapter.cpp\<close>): the stores of all processes of a setup, what they
    signal to each other and the caches they share. \<open>EmitterClaims\<close>, \<open>SharedCache\<close>: every store is told of every
    change once, and no cache stays behind as long as every process has a listening store and the threads of a process do not
    overlap inside their operations.
  \<^item> \<open>SyncController\<close>, \<open>StoreClaims\<close>: merging a change, and the properties of store and merge: the
    decision table of \<open>modeling/exchange.txt\<close>, agreement of two devices, atomicity of a save.
  \<^item> \<open>ChangeController\<close>, \<open>UploadClaims\<close>, \<open>UploadDrain\<close>: the upload window; sent data, no lost update,
    and that everything is uploaded in the end, with no other calls than the uploader's own queued
    rounds and the answers to what it has sent.
  \<^item> \<open>EventLog\<close>, \<open>EventClaims\<close>: the event log and its cursor.
  \<^item> \<open>ServerDb\<close>, \<open>ServerDbProps\<close>, \<open>ServerClaims\<close>: the server's tables with their foreign keys,
    cascades, quota triggers and notifications, every operation of \<open>DatabaseController\<close> with failing
    statements and rollback; integrity, quota, delivery, key exchange, removal of devices.
  \<^item> \<open>Messages\<close>, \<open>MessageStream\<close>, \<open>MessageClaims\<close>: all message classes, their wire form, validation and
    signatures; the locale \<open>message_stream\<close> extends \<open>datastream\<close> and is interpreted likewise.
  \<^item> \<open>ServerClient\<close>, \<open>ClientClaims\<close>, \<open>DownloadClaims\<close>: the connection of a device to the server, all
    its tasks with their exception handling; who gets in, the window of downloads, and the way
    of a change from the server's answer to the sender to the other device.
  \<^item> \<open>TaskQueue\<close> (\<open>singletaskqueue.cpp\<close>): the tasks of a client on the thread pool, one at a time and in order.
    \<open>ClientConnector\<close> (\<open>clientconnector.cpp\<close>): the whole server, \<open>service_step\<close>: connections with their
    task queues, the table of connected devices, and the queued signals between clients. \<open>ClientEffects\<close>,
    \<open>Service\<close>, \<open>AccessClaims\<close>, \<open>AccessSample\<close>: what tasks emit (the locale \<open>modest\<close>), the invariant of the
    server, who lets a device into an account, and a run in which one is let in.
  \<^item> \<open>AsymmetricCrypto\<close>, \<open>CryptoController\<close>, \<open>SecretKeys\<close>: the private keys of a device and the numbered
    secret keys its user's devices share (\<open>cryptocontroller.cpp\<close>, \<open>asymmetriccrypto.cpp\<close>), with key
    files, settings and key store. \<open>SecretKeyProps\<close>, \<open>SecretKeyClaims\<close>: data stays readable through
    key changes and restarts, keys reach new devices, exports can be imported.
  \<^item> \<open>Connector\<close>, \<open>ConnectorOps\<close>, \<open>ConnectorMessages\<close>: the connection of a device
    (\<open>remoteconnector.cpp\<close>, \<open>connectorstatemachine.scxml\<close>, the timers of \<open>controller.cpp\<close>): state chart,
    settings, every slot, every message handler, the web socket and the timers. \<open>perform_call\<close> is one
    call from the application, the socket, a timer or the event loop. \<open>StateChart\<close>: the chart as its document has it,
    interpreted by the rules of SCXML, against which the flat tables of \<open>Connector\<close> are proved. \<open>ConnectorProps\<close>,
    \<open>ConnectorClaims\<close>: the frame of every call, that the connector moves as the chart does, what is sent in which state.
    \<open>ConnectorClosing\<close>: finishing; \<open>DeferredMessages\<close>: messages that arrive before the machine is ready.
  \<^item> \<open>Engine\<close> (\<open>exchangeengine.cpp\<close>): the wiring of upload controller, sync controller, store and
    connector, and the state the application sees. \<open>UploadSignals\<close>, \<open>EngineProps\<close>, \<open>EngineClaims\<close>: what each
    slot keeps, and a whole device (\<open>device_step\<close>): connector and engine under any sequence of calls.
  \<^item> \<open>SyncManager\<close> (\<open>syncmanager.cpp\<close>, \<open>syncmanager_p.cpp\<close>): the callbacks of the application, on both sides of the
    remote objects. \<open>Callbacks\<close>: each is called once, none is forgotten.
  \<^item> \<open>UserExchange\<close>, \<open>UserExchangeClaims\<close> (\<open>userexchangemanager.cpp\<close>): the devices in the local network and the
    accounts they hand each other.
  \<^item> \<open>Divergences\<close>: behaviour that differs from what comments and names promise.

  Failures. Which call of an operation fails is a function of the environment, universally
  quantified in every property unless a theorem says that nothing fails (\<open>calm\<close>, \<open>calm_env\<close>).
  Every loop of the models is a structural recursion or, for the scan of the event log, a
  recursion with a proved measure; the loop of \<open>machineReady\<close> (\<open>drain\<close>) takes as many rounds as there
  are messages in the buffer, and each round removes one. \<open>ack_all\<close>
  takes the number of steps as an argument, and the theorems name one that suffices; uploads
  (\<open>upload_step\<close>) and the calls of a connector that closes run until nothing is left, within a proved number of steps.

  Parameters. Qt, SQL engines and Crypto++ are not part of the repository: hashing, JSON text,
  stream primitives, UTF-8 validation, file names, signatures and fingerprints are arguments
  of the definitions. SQL statements are expressed by row operations on association lists.

  Not modelled, or not yet: the key store plugins, the threads and the transport of remote objects,
  the search by pattern of \<open>LocalStore\<close>, \<open>DataStore\<close> and \<open>DataStoreModel\<close> (object mapping and views),
  \<open>AccountManager\<close>, \<open>Setup\<close> and \<open>Defaults\<close> (configuration), migration,
  the web socket server with its address and certificates, the server process, logging, examples, tests, QML and platform plugins.
\<close>

end
